(* ===== verification/Fallow_Prelude.thy ===== *)
theory Fallow_Prelude
  imports Complex_Main "HOL-Library.List_Lexorder" "HOL-Library.Char_ord"
    "HOL-Library.Product_Lexorder" "HOL-Library.AList"
begin

text \<open>
  Shared vocabulary of the development: the names of the model's basic types, Python's
  \<open>min(xs, key=f)\<close>, its insertion-ordered dictionaries, relational tables as lists of rows
  with a key, rounding, and the interface of a state machine whose invariant every step keeps.

  Strings are \<open>string\<close> (Python compares them by code point, \<open>List_Lexorder\<close> and \<open>Char_ord\<close>
  give the same order); tuples compare lexicographically (\<open>Product_Lexorder\<close>). Instants and
  durations are exact \<open>real\<close> seconds: float rounding is not modelled.
\<close>

type_synonym ident = string
type_synonym instant = real
type_synonym secs = real

named_theorems table_simps \<open>rewrite rules on tables: lists of rows with a key column\<close>
named_theorems dict_simps \<open>rewrite rules on insertion-ordered dictionaries\<close>

section \<open>Python's minimum by a key\<close>

text \<open>\<open>min(xs, key=f)\<close>: the first element whose key is least; \<open>None\<close> on the empty list.\<close>

fun min_key :: "('a \<Rightarrow> 'k::linorder) \<Rightarrow> 'a list \<Rightarrow> 'a option" where
  "min_key f [] = None"
| "min_key f (x # xs) =
     (case min_key f xs of
        None \<Rightarrow> Some x
      | Some y \<Rightarrow> if f x \<le> f y then Some x else Some y)"

lemma min_key_None [simp]: "min_key f xs = None \<longleftrightarrow> xs = []"
  by (cases xs) (auto split: option.splits)

lemma min_key_Some:
  "min_key f xs = Some x \<Longrightarrow> x \<in> set xs \<and> (\<forall>y \<in> set xs. f x \<le> f y)"
proof (induction xs arbitrary: x)
  case Nil
  then show ?case by simp
next
  case (Cons a xs)
  show ?case
  proof (cases "min_key f xs")
    case None
    with Cons.prems show ?thesis by simp
  next
    case (Some y)
    from Cons.IH [OF Some] have y: "y \<in> set xs" "\<forall>z \<in> set xs. f y \<le> f z" by auto
    with Some Cons.prems show ?thesis
      by (auto split: if_splits)
  qed
qed

lemma min_key_in: "min_key f xs = Some x \<Longrightarrow> x \<in> set xs"
  by (drule min_key_Some) blast

lemma min_key_le: "min_key f xs = Some x \<Longrightarrow> y \<in> set xs \<Longrightarrow> f x \<le> f y"
  by (drule min_key_Some) blast

lemma min_key_exists: "xs \<noteq> [] \<Longrightarrow> \<exists>x. min_key f xs = Some x"
  by (metis min_key_None not_None_eq)

lemma min_key_unique:
  assumes "x \<in> set xs" and "\<And>y. y \<in> set xs \<Longrightarrow> y \<noteq> x \<Longrightarrow> f x < f y"
  shows "min_key f xs = Some x"
proof -
  from assms(1) obtain z where z: "min_key f xs = Some z"
    using min_key_exists by fastforce
  then have "z \<in> set xs" "f z \<le> f x"
    using assms(1) by (auto dest: min_key_in min_key_le)
  with assms(2) [of z] have "z = x" by fastforce
  with z show ?thesis by simp
qed

lemma min_key_cong_set_key:
  assumes "set xs = set ys" and "inj_on f (set xs)"
  shows "min_key f xs = min_key f ys"
proof (cases "min_key f xs")
  case None
  with assms show ?thesis by simp
next
  case (Some x)
  have "min_key f ys = Some x"
  proof (rule min_key_unique)
    show "x \<in> set ys" using Some assms(1) by (auto dest: min_key_in)
    fix y assume y: "y \<in> set ys" "y \<noteq> x"
    with Some assms have "f x \<le> f y" "f x \<noteq> f y"
      by (auto dest: min_key_in min_key_le inj_onD)
    then show "f x < f y" by simp
  qed
  with Some show ?thesis by simp
qed

section \<open>Insertion-ordered dictionaries\<close>

text \<open>
  A Python \<open>dict\<close> or \<open>OrderedDict\<close> is an association list in insertion order: \<open>map_of\<close> reads it,
  \<open>AList.update\<close> stores (in place when the key is present, else at the end) and \<open>AList.delete\<close>
  removes. \<open>od_move_to_end\<close> is \<open>OrderedDict.move_to_end\<close> for a present key.
\<close>

type_synonym ('k, 'v) odict = "('k \<times> 'v) list"

definition od_move_to_end :: "'k \<Rightarrow> ('k, 'v) odict \<Rightarrow> ('k, 'v) odict" where
  "od_move_to_end k d = (case map_of d k of None \<Rightarrow> d | Some v \<Rightarrow> AList.delete k d @ [(k, v)])"

abbreviation od_keys :: "('k, 'v) odict \<Rightarrow> 'k list" where
  "od_keys d \<equiv> map fst d"

definition od_wf :: "('k, 'v) odict \<Rightarrow> bool" where
  "od_wf d \<longleftrightarrow> distinct (od_keys d)"

lemma od_wf_Nil [simp, dict_simps]: "od_wf []"
  by (simp add: od_wf_def)

lemma od_wf_update [simp, dict_simps]: "od_wf d \<Longrightarrow> od_wf (AList.update k v d)"
  by (simp add: od_wf_def distinct_update)

lemma od_wf_delete [simp, dict_simps]: "od_wf d \<Longrightarrow> od_wf (AList.delete k d)"
  by (simp add: od_wf_def distinct_delete)

lemma od_wf_tl [simp, dict_simps]: "od_wf d \<Longrightarrow> od_wf (tl d)"
  by (cases d) (simp_all add: od_wf_def)

lemma od_keys_delete [dict_simps]: "set (od_keys (AList.delete k d)) = set (od_keys d) - {k}"
  by (simp add: delete_keys)

lemma od_wf_move_to_end [simp, dict_simps]: "od_wf d \<Longrightarrow> od_wf (od_move_to_end k d)"
  by (auto simp: od_move_to_end_def od_wf_def delete_keys distinct_removeAll split: option.splits)

lemma map_of_delete_other: "map_of (AList.delete k d) k' = (if k = k' then None else map_of d k')"
  by (simp add: delete_conv')

lemma map_of_move_to_end [simp, dict_simps]: "map_of (od_move_to_end k d) = map_of d"
proof
  fix k'
  show "map_of (od_move_to_end k d) k' = map_of d k'"
    by (auto simp: od_move_to_end_def map_of_delete_other map_add_def split: option.splits)
qed

lemma set_keys_move_to_end [simp, dict_simps]:
  "set (od_keys (od_move_to_end k d)) = set (od_keys d)"
  by (simp flip: dom_map_of_conv_image_fst)

lemma length_move_to_end [simp, dict_simps]:
  assumes "od_wf d"
  shows "length (od_move_to_end k d) = length d"
proof -
  have "length (od_keys (od_move_to_end k d)) = card (set (od_keys (od_move_to_end k d)))"
    using od_wf_move_to_end [OF assms] unfolding od_wf_def by (rule distinct_card [symmetric])
  also have "\<dots> = card (set (od_keys d))"
    by (simp only: set_keys_move_to_end)
  also have "\<dots> = length (od_keys d)"
    using assms unfolding od_wf_def by (rule distinct_card)
  finally show ?thesis by simp
qed

text \<open>The eviction loop of a bounded \<open>OrderedDict\<close>: \<open>popitem(last=False)\<close> while there are too many entries.\<close>

fun evict_oldest :: "int \<Rightarrow> 'a list \<Rightarrow> 'a list" where
  "evict_oldest n [] = []"
| "evict_oldest n (x # xs) = (if n < int (length (x # xs)) then evict_oldest n xs else x # xs)"

lemma evict_oldest_suffix: "\<exists>pre. xs = pre @ evict_oldest n xs"
proof (induction xs)
  case (Cons x xs)
  then obtain pre where pre: "xs = pre @ evict_oldest n xs" ..
  show ?case
  proof (cases "n < int (length (x # xs))")
    case True
    then show ?thesis using pre by (intro exI [of _ "x # pre"]) simp
  next
    case False
    then show ?thesis by (intro exI [of _ "[]"]) simp
  qed
qed simp

lemma evict_oldest_length: "0 \<le> n \<Longrightarrow> int (length (evict_oldest n xs)) \<le> n"
  by (induction xs) auto

lemma od_wf_evict [simp, dict_simps]: "od_wf d \<Longrightarrow> od_wf (evict_oldest n d)"
  using evict_oldest_suffix [of d n] unfolding od_wf_def by (metis distinct_append map_append)

lemma map_of_evict:
  assumes "od_wf d" "map_of (evict_oldest n d) k = Some v"
  shows "map_of d k = Some v"
proof -
  obtain pre where d: "d = pre @ evict_oldest n d" using evict_oldest_suffix by blast
  have "(k, v) \<in> set d" using d map_of_SomeD [OF assms(2)] by (metis Un_iff set_append)
  then show ?thesis using assms(1) by (simp add: od_wf_def)
qed

section \<open>Tables\<close>

text \<open>
  A relational table is the list of its rows in insertion order, with a function \<open>key\<close> for the
  primary key. A statement is a \<open>filter\<close> (SELECT, DELETE), a \<open>map\<close> (UPDATE) or an append
  (INSERT); \<open>keyed\<close> is the primary-key constraint.
\<close>

definition keyed :: "('r \<Rightarrow> 'k) \<Rightarrow> 'r list \<Rightarrow> bool" where
  "keyed key rows \<longleftrightarrow> distinct (map key rows)"

definition has_key :: "('r \<Rightarrow> 'k) \<Rightarrow> 'k \<Rightarrow> 'r list \<Rightarrow> bool" where
  "has_key key k rows \<longleftrightarrow> (\<exists>r \<in> set rows. key r = k)"

lemma has_key_image: "has_key key k rows \<longleftrightarrow> k \<in> set (map key rows)"
  by (auto simp: has_key_def)

definition row_of :: "('r \<Rightarrow> 'k) \<Rightarrow> 'k \<Rightarrow> 'r list \<Rightarrow> 'r option" where
  "row_of key k rows = find (\<lambda>r. key r = k) rows"

definition update_where :: "('r \<Rightarrow> bool) \<Rightarrow> ('r \<Rightarrow> 'r) \<Rightarrow> 'r list \<Rightarrow> 'r list" where
  "update_where p f rows = map (\<lambda>r. if p r then f r else r) rows"

text \<open>\<open>INSERT ... ON CONFLICT(key) DO UPDATE\<close>: \<open>merge old new\<close> on a conflict, else append.\<close>

definition upsert :: "('r \<Rightarrow> 'k) \<Rightarrow> ('r \<Rightarrow> 'r \<Rightarrow> 'r) \<Rightarrow> 'r \<Rightarrow> 'r list \<Rightarrow> 'r list" where
  "upsert key merge new rows =
     (if has_key key (key new) rows
      then update_where (\<lambda>r. key r = key new) (\<lambda>r. merge r new) rows
      else rows @ [new])"

text \<open>\<open>INSERT ... ON CONFLICT(key) DO NOTHING\<close> and \<open>INSERT OR IGNORE\<close>.\<close>

definition insert_ignore :: "('r \<Rightarrow> 'k) \<Rightarrow> 'r \<Rightarrow> 'r list \<Rightarrow> 'r list" where
  "insert_ignore key new rows = (if has_key key (key new) rows then rows else rows @ [new])"

lemma keyed_Nil [simp, table_simps]: "keyed key []"
  by (simp add: keyed_def)

lemma keyed_filter [simp, table_simps]: "keyed key rows \<Longrightarrow> keyed key (filter p rows)"
  by (simp add: keyed_def distinct_map_filter)

lemma keyed_append [table_simps]:
  "keyed key (rows @ [r]) \<longleftrightarrow> keyed key rows \<and> \<not> has_key key (key r) rows"
  by (auto simp: keyed_def has_key_image)

lemma map_key_update_where [table_simps]:
  assumes "\<And>r. key (f r) = key r"
  shows "map key (update_where p f rows) = map key rows"
  using assms by (simp add: update_where_def)

lemma keyed_update_where [table_simps]:
  assumes "\<And>r. key (f r) = key r"
  shows "keyed key (update_where p f rows) \<longleftrightarrow> keyed key rows"
  using assms by (simp add: keyed_def map_key_update_where)

lemma has_key_update_where [table_simps]:
  assumes "\<And>r. key (f r) = key r"
  shows "has_key key k (update_where p f rows) \<longleftrightarrow> has_key key k rows"
proof -
  have "set (map key (update_where p f rows)) = set (map key rows)"
    using map_key_update_where [of key f, OF assms] by simp
  then show ?thesis by (auto simp: has_key_image)
qed

lemma has_key_append [simp, table_simps]:
  "has_key key k (rows @ rows') \<longleftrightarrow> has_key key k rows \<or> has_key key k rows'"
  by (auto simp: has_key_def)

lemma has_key_Nil [simp, table_simps]: "\<not> has_key key k []"
  by (simp add: has_key_def)

lemma has_key_Cons [simp, table_simps]:
  "has_key key k (r # rows) \<longleftrightarrow> key r = k \<or> has_key key k rows"
  by (auto simp: has_key_def)

lemma has_keyI [intro]: "r \<in> set rows \<Longrightarrow> key r = k \<Longrightarrow> has_key key k rows"
  by (auto simp: has_key_def)

lemma has_keyE [elim]: "has_key key k rows \<Longrightarrow> (\<And>r. r \<in> set rows \<Longrightarrow> key r = k \<Longrightarrow> P) \<Longrightarrow> P"
  by (auto simp: has_key_def)

lemma set_update_where [table_simps]:
  "set (update_where p f rows) = {r \<in> set rows. \<not> p r} \<union> f ` {r \<in> set rows. p r}"
  by (auto simp: update_where_def)

lemma ball_update_where [table_simps]:
  "(\<forall>r \<in> set (update_where p f rows). P r) \<longleftrightarrow>
     (\<forall>r \<in> set rows. if p r then P (f r) else P r)"
  by (auto simp: update_where_def)

lemma in_update_where:
  "r' \<in> set (update_where p f rows) \<longleftrightarrow> (\<exists>r \<in> set rows. r' = (if p r then f r else r))"
  by (auto simp: update_where_def)

lemma in_update_whereI: "r \<in> set rows \<Longrightarrow> (if p r then f r else r) \<in> set (update_where p f rows)"
  by (auto simp: update_where_def)

lemma update_where_twice:
  assumes "\<And>r. f (f r) = f r" and "\<And>r. q (f r) = q r"
  shows "update_where q f (update_where p f rows) = update_where (\<lambda>r. p r \<or> q r) f rows"
  using assms by (auto simp: update_where_def)

lemma update_where_False [simp]: "update_where (\<lambda>_. False) f rows = rows"
  by (simp add: update_where_def)

lemma keyed_upsert [table_simps]:
  assumes "\<And>r. key r = key new \<Longrightarrow> key (merge r new) = key new" and "keyed key rows"
  shows "keyed key (upsert key merge new rows)"
proof (cases "has_key key (key new) rows")
  case True
  have "map key (update_where (\<lambda>r. key r = key new) (\<lambda>r. merge r new) rows) = map key rows"
    using assms(1) by (auto simp: update_where_def)
  with True assms(2) show ?thesis by (simp add: upsert_def keyed_def)
next
  case False
  with assms(2) show ?thesis by (simp add: upsert_def keyed_append)
qed

lemma has_key_upsert [table_simps]:
  assumes "\<And>r. key r = key new \<Longrightarrow> key (merge r new) = key new"
  shows "has_key key k (upsert key merge new rows) \<longleftrightarrow> k = key new \<or> has_key key k rows"
proof (cases "has_key key (key new) rows")
  case True
  have "map key (update_where (\<lambda>r. key r = key new) (\<lambda>r. merge r new) rows) = map key rows"
    using assms by (auto simp: update_where_def)
  with True show ?thesis by (auto simp: upsert_def has_key_image)
next
  case False
  then show ?thesis by (auto simp: upsert_def)
qed

lemma upsert_id:
  assumes "has_key key (key new) rows"
    and "\<And>r. r \<in> set rows \<Longrightarrow> key r = key new \<Longrightarrow> merge r new = r"
  shows "upsert key merge new rows = rows"
  using assms by (auto simp: upsert_def update_where_def intro!: map_idI)

lemma in_upsert_replace:
  "r \<in> set (upsert key (\<lambda>_ n. n) new rows) \<longleftrightarrow> r = new \<or> r \<in> set rows \<and> key r \<noteq> key new"
  by (auto simp: upsert_def update_where_def split: if_splits)

lemma keyed_insert_ignore [simp, table_simps]:
  "keyed key rows \<Longrightarrow> keyed key (insert_ignore key new rows)"
  by (simp add: insert_ignore_def keyed_append)

lemma has_key_insert_ignore [simp, table_simps]:
  "has_key key k (insert_ignore key new rows) \<longleftrightarrow> k = key new \<or> has_key key k rows"
  by (auto simp: insert_ignore_def)

lemma keyed_eq:
  assumes "keyed key rows" "r \<in> set rows" "r' \<in> set rows" "key r = key r'"
  shows "r = r'"
  using assms unfolding keyed_def by (metis distinct_map inj_onD)

lemma row_of_None: "row_of key k rows = None \<longleftrightarrow> \<not> has_key key k rows"
  by (auto simp: row_of_def find_None_iff has_key_def)

lemma row_of_SomeD: "row_of key k rows = Some r \<Longrightarrow> r \<in> set rows \<and> key r = k"
  by (auto simp: row_of_def find_Some_iff)

lemma row_of_eq:
  assumes "keyed key rows" "r \<in> set rows" "key r = k"
  shows "row_of key k rows = Some r"
  using assms by (induction rows) (auto simp: row_of_def keyed_def)

lemma row_of_update_where:
  assumes "\<And>r. key (f r) = key r"
  shows "row_of key k (update_where p f rows) =
           map_option (\<lambda>r. if p r then f r else r) (row_of key k rows)"
  using assms by (induction rows) (auto simp: row_of_def update_where_def)

lemma row_of_update_where_other:
  assumes "\<And>r. key (f r) = key r" and "\<And>r. p r \<Longrightarrow> key r \<noteq> k"
  shows "row_of key k (update_where p f rows) = row_of key k rows"
  using assms by (induction rows) (auto simp: row_of_def update_where_def)

lemma row_of_append:
  "row_of key k (rows @ rows') = (case row_of key k rows of None \<Rightarrow> row_of key k rows' | Some r \<Rightarrow> Some r)"
  by (induction rows) (auto simp: row_of_def)

lemma row_of_single: "row_of key k [r] = (if key r = k then Some r else None)"
  by (simp add: row_of_def)

lemma row_of_upsert_replace:
  "row_of key k (upsert key (\<lambda>_ n. n) new rows) = (if k = key new then Some new else row_of key k rows)"
proof (cases "has_key key (key new) rows")
  case True
  have "row_of key k (update_where (\<lambda>r. key r = key new) (\<lambda>_. new) rows) =
      (if k = key new \<and> has_key key k rows then Some new else row_of key k rows)"
    by (induction rows) (auto simp: row_of_def update_where_def)
  then show ?thesis using True by (simp add: upsert_def)
next
  case False
  then have "row_of key (key new) rows = None" by (simp add: row_of_None)
  then show ?thesis
    using False by (simp add: upsert_def row_of_append row_of_single split: option.split)
qed

lemma sort_key_Nil_iff [simp]: "sort_key f xs = [] \<longleftrightarrow> xs = []"
  by (metis length_0_conv length_sort)

lemma find_SomeD: "find p xs = Some x \<Longrightarrow> x \<in> set xs \<and> p x"
  by (auto simp: find_Some_iff)

section \<open>Decimal strings\<close>

text \<open>\<open>str(n)\<close> of a Python int.\<close>

fun str_of_nat :: "nat \<Rightarrow> string" where
  "str_of_nat n =
     (if n < 10 then [char_of (48 + n)] else str_of_nat (n div 10) @ [char_of (48 + n mod 10)])"

declare str_of_nat.simps [simp del]

definition str_of_int :: "int \<Rightarrow> string" where
  "str_of_int i = (if i < 0 then CHR ''-'' # str_of_nat (nat (- i)) else str_of_nat (nat i))"

section \<open>Rounding\<close>

text \<open>Python's \<open>round\<close> to an integer: to nearest, a tie to the even neighbour.\<close>

definition py_round :: "real \<Rightarrow> int" where
  "py_round x =
     (let f = \<lfloor>x\<rfloor>; d = x - of_int f
      in if d < 1 / 2 then f
         else if 1 / 2 < d then f + 1
         else if even f then f else f + 1)"

lemma py_round_nonneg: "0 \<le> x \<Longrightarrow> 0 \<le> py_round x"
  by (simp add: py_round_def Let_def)

lemma py_round_of_int [simp]: "py_round (of_int n) = n"
  by (simp add: py_round_def)

section \<open>State machines\<close>

text \<open>
  The states reachable from an initial state by steps; the contract of a component whose steps
  keep an invariant. Each stateful component of the development interprets \<open>inv_system\<close> with its
  own step relation and invariant.
\<close>

inductive reach :: "('s \<Rightarrow> bool) \<Rightarrow> ('s \<Rightarrow> 's \<Rightarrow> bool) \<Rightarrow> 's \<Rightarrow> bool"
  for init :: "'s \<Rightarrow> bool" and step :: "'s \<Rightarrow> 's \<Rightarrow> bool" where
  reach_init: "init s \<Longrightarrow> reach init step s"
| reach_step: "reach init step s \<Longrightarrow> step s t \<Longrightarrow> reach init step t"

locale inv_system =
  fixes init :: "'s \<Rightarrow> bool" and step :: "'s \<Rightarrow> 's \<Rightarrow> bool" and inv :: "'s \<Rightarrow> bool"
  assumes init_inv: "init s \<Longrightarrow> inv s"
    and step_inv: "inv s \<Longrightarrow> step s t \<Longrightarrow> inv t"
begin

lemma reach_inv: "reach init step s \<Longrightarrow> inv s"
  by (induction rule: reach.induct) (auto intro: init_inv step_inv)

lemma steps_inv: "step\<^sup>*\<^sup>* s t \<Longrightarrow> inv s \<Longrightarrow> inv t"
  by (induction rule: rtranclp_induct) (auto intro: step_inv)

text \<open>What every step keeps in good states holds along a run.\<close>

lemma steps_stable:
  assumes "step\<^sup>*\<^sup>* s t" "inv s" "P s" "\<And>s t. inv s \<Longrightarrow> step s t \<Longrightarrow> P s \<Longrightarrow> P t"
  shows "P t"
  using assms(1)
proof (induction rule: rtranclp_induct)
  case (step t u)
  then show ?case using assms(4) steps_inv [OF step(1) assms(2)] by blast
qed (rule assms(3))

text \<open>A quantity no step decreases never decreases along a run.\<close>

lemma steps_mono:
  fixes m :: "'s \<Rightarrow> 'm::order"
  assumes "\<And>s t. inv s \<Longrightarrow> step s t \<Longrightarrow> m s \<le> m t"
  shows "step\<^sup>*\<^sup>* s t \<Longrightarrow> inv s \<Longrightarrow> m s \<le> m t"
proof (induction rule: rtranclp_induct)
  case base
  show ?case by simp
next
  case (step t u)
  then have "inv t" by (blast intro: steps_inv)
  with step assms [of t u] show ?case by (meson order_trans)
qed

end

text \<open>
  A component that implements an abstract machine: under the abstraction function each of its steps
  is a step of the machine or changes nothing there, so what holds along the machine's runs holds
  along the component's.
\<close>

locale refinement = inv_system init step inv
  for init :: "'s \<Rightarrow> bool" and step :: "'s \<Rightarrow> 's \<Rightarrow> bool" and inv :: "'s \<Rightarrow> bool" +
  fixes astep :: "'a \<Rightarrow> 'a \<Rightarrow> bool" and abs :: "'s \<Rightarrow> 'a"
  assumes step_abs: "inv s \<Longrightarrow> step s t \<Longrightarrow> astep\<^sup>=\<^sup>= (abs s) (abs t)"
begin

lemma reach_step_abs: "reach init step s \<Longrightarrow> step s t \<Longrightarrow> astep\<^sup>=\<^sup>= (abs s) (abs t)"
  by (rule step_abs [OF reach_inv])

lemma steps_abs: "step\<^sup>*\<^sup>* s t \<Longrightarrow> inv s \<Longrightarrow> astep\<^sup>*\<^sup>* (abs s) (abs t)"
proof (induction rule: rtranclp_induct)
  case (step t u)
  then have "inv t" by (blast intro: steps_inv)
  then have "astep\<^sup>=\<^sup>= (abs t) (abs u)" using step.hyps(2) by (rule step_abs)
  with step show ?case by (auto intro: rtranclp.rtrancl_into_rtrancl)
qed simp

end

end
