(* ===== verification/Fallow_Protocol.thy ===== *)
theory Fallow_Protocol
  imports Fallow_Prelude
begin

text \<open>
  The wire types of \<open>fallow_protocol\<close> (\<open>capabilities.py\<close>, \<open>models.py\<close>, \<open>messages.py\<close>,
  \<open>version.py\<close>): enums as datatypes with their string values, frozen pydantic models as records,
  the declared \<open>Field\<close> constraints as bool-valued validity predicates. A record's fields carry a
  short prefix, since several messages use the same field names.
\<close>

definition PROTOCOL_VERSION :: int where
  "PROTOCOL_VERSION = 1"

section \<open>Enums and their wire values\<close>

datatype os_family = WINDOWS | MACOS | LINUX

datatype worker_kind = CHAT | EMBED | TRANSCRIBE

datatype replica_state = LOADING | READY | SUSPENDED | STOPPED

datatype agent_state = IDLE | ACTIVE | DRAINING

datatype event_kind =
  USER_RETURNED | USER_IDLE | REPLICA_READY | REPLICA_SUSPENDED | REPLICA_RESUMED
| REPLICA_STOPPED | AGENT_STARTING | AGENT_STOPPING

datatype job_state = JOB_PENDING | JOB_RUNNING | JOB_DONE | JOB_CANCELLED

datatype work_unit_state = PENDING | LEASED | DONE | DEAD

datatype work_result_status = SUCCEEDED | FAILED

fun work_unit_state_value :: "work_unit_state \<Rightarrow> string" where
  "work_unit_state_value PENDING = ''pending''"
| "work_unit_state_value LEASED = ''leased''"
| "work_unit_state_value DONE = ''done''"
| "work_unit_state_value DEAD = ''dead''"

text \<open>\<open>WorkUnitState(s)\<close>: the member with that value; \<open>None\<close> where Python raises \<open>ValueError\<close>.\<close>

definition work_unit_state_of :: "string \<Rightarrow> work_unit_state option" where
  "work_unit_state_of s =
     (if s = ''pending'' then Some PENDING
      else if s = ''leased'' then Some LEASED
      else if s = ''done'' then Some DONE
      else if s = ''dead'' then Some DEAD
      else None)"

lemma work_unit_state_of_value [simp]: "work_unit_state_of (work_unit_state_value s) = Some s"
  by (cases s) (simp_all add: work_unit_state_of_def)

lemma work_unit_state_of_Some:
  "work_unit_state_of v = Some s \<longleftrightarrow> v = work_unit_state_value s"
  by (cases s) (auto simp: work_unit_state_of_def split: if_splits)

fun event_kind_value :: "event_kind \<Rightarrow> string" where
  "event_kind_value USER_RETURNED = ''user_returned''"
| "event_kind_value USER_IDLE = ''user_idle''"
| "event_kind_value REPLICA_READY = ''replica_ready''"
| "event_kind_value REPLICA_SUSPENDED = ''replica_suspended''"
| "event_kind_value REPLICA_RESUMED = ''replica_resumed''"
| "event_kind_value REPLICA_STOPPED = ''replica_stopped''"
| "event_kind_value AGENT_STARTING = ''agent_starting''"
| "event_kind_value AGENT_STOPPING = ''agent_stopping''"

section \<open>Device capabilities\<close>

record gpu_info =
  gi_index :: int
  gi_name :: string
  gi_vendor :: string
  gi_vram_mb :: int

record gpu_status =
  gs_index :: int
  gs_vram_free_mb :: int
  gs_util_percent :: real
  gs_power_w :: "real option"
  gs_temp_c :: "real option"

definition gpu_status_valid :: "gpu_status \<Rightarrow> bool" where
  "gpu_status_valid g \<longleftrightarrow> 0 \<le> gs_util_percent g \<and> gs_util_percent g \<le> 100"

record device_caps =
  dc_hostname :: string
  dc_os :: os_family
  dc_os_version :: string
  dc_cpu_model :: string
  dc_cpu_cores :: int
  dc_ram_mb :: int
  dc_disk_free_mb :: int
  dc_gpus :: "gpu_info list"
  dc_agent_version :: string

definition device_caps_valid :: "device_caps \<Rightarrow> bool" where
  "device_caps_valid c \<longleftrightarrow> 0 < dc_cpu_cores c \<and> 0 < dc_ram_mb c \<and> 0 \<le> dc_disk_free_mb c"

section \<open>Models and replicas\<close>

record model_manifest =
  mm_model_id :: ident
  mm_family :: string
  mm_quant :: string
  mm_worker_kind :: worker_kind
  mm_file_name :: string
  mm_sha256 :: string
  mm_size_bytes :: int
  mm_min_ram_mb :: int
  mm_min_vram_mb :: int
  mm_default_args :: "string list"
  mm_chat_template_hint :: "string option"
  mm_license :: "string option"
  mm_source_url :: "string option"

definition is_hex_digit :: "char \<Rightarrow> bool" where
  "is_hex_digit c \<longleftrightarrow> c \<in> set ''0123456789abcdef''"

definition model_manifest_valid :: "model_manifest \<Rightarrow> bool" where
  "model_manifest_valid m \<longleftrightarrow>
     length (mm_sha256 m) = 64 \<and> list_all is_hex_digit (mm_sha256 m) \<and> 0 < mm_size_bytes m"

record replica_status =
  rs_model_id :: ident
  rs_port :: int
  rs_state :: replica_state
  rs_inflight :: int
  rs_gpu :: bool

section \<open>Agents\<close>

record agent_config =
  ac_heartbeat_interval_s :: secs
  ac_idle_threshold_s :: secs
  ac_poll_interval_ms :: int
  ac_vram_evict_after_s :: secs
  ac_bench_mode :: bool
  ac_assigned_models :: "ident list"

definition default_agent_config :: agent_config where
  "default_agent_config =
     \<lparr>ac_heartbeat_interval_s = 5, ac_idle_threshold_s = 120, ac_poll_interval_ms = 100,
      ac_vram_evict_after_s = 60, ac_bench_mode = False, ac_assigned_models = []\<rparr>"

record register_request =
  rq_enrollment_token :: string
  rq_protocol_version :: int
  rq_caps :: device_caps

record register_response =
  rr_agent_id :: ident
  rr_device_token :: string
  rr_config :: agent_config

record heartbeat =
  hb_agent_id :: ident
  hb_seq :: int
  hb_sent_at :: instant
  hb_protocol_version :: int
  hb_state :: agent_state
  hb_user_idle_s :: secs
  hb_cpu_percent :: real
  hb_mem_available_mb :: int
  hb_load_avg :: "real option"
  hb_temp_cpu_c :: "real option"
  hb_gpus :: "gpu_status list"
  hb_replicas :: "replica_status list"
  hb_lease_ids :: "ident list"
  hb_serving_paused :: bool
  hb_predicted_idle_remaining_s :: "secs option"
  hb_predicted_idle_confidence :: "real option"

definition heartbeat_valid :: "heartbeat \<Rightarrow> bool" where
  "heartbeat_valid h \<longleftrightarrow>
     0 \<le> hb_seq h \<and> 0 \<le> hb_user_idle_s h \<and> 0 \<le> hb_cpu_percent h \<and> hb_cpu_percent h \<le> 100 \<and>
     0 \<le> hb_mem_available_mb h \<and> list_all gpu_status_valid (hb_gpus h) \<and>
     (case hb_predicted_idle_remaining_s h of None \<Rightarrow> True | Some r \<Rightarrow> 0 \<le> r) \<and>
     (case hb_predicted_idle_confidence h of None \<Rightarrow> True | Some c \<Rightarrow> 0 \<le> c \<and> c \<le> 1)"

record heartbeat_response =
  hr_desired_models :: "ident list"
  hr_revoked_lease_ids :: "ident list"
  hr_config :: "agent_config option"

record agent_event =
  ae_agent_id :: ident
  ae_kind :: event_kind
  ae_at :: instant
  ae_detail :: "(string \<times> string) list"

record agent_snapshot =
  as_agent_id :: ident
  as_host :: string
  as_state :: agent_state
  as_suspect :: bool
  as_caps :: device_caps
  as_mem_available_mb :: int
  as_gpus :: "gpu_status list"
  as_replicas :: "replica_status list"
  as_user_idle_s :: secs
  as_serving_paused :: bool
  as_predicted_idle_remaining_s :: "secs option"
  as_predicted_idle_confidence :: "real option"

record replica_endpoint =
  re_agent_id :: ident
  re_host :: string
  re_port :: int
  re_model_id :: ident
  re_inflight :: int

section \<open>Batch jobs and work units\<close>

record job_submit =
  js_kind :: worker_kind
  js_model_id :: ident
  js_payload_ref :: string
  js_params :: "(string \<times> string) list"
  js_priority :: int

record work_unit_spec =
  us_work_unit_id :: ident
  us_idx :: int
  us_input_ref :: string
  us_est_duration_s :: "secs option"

definition work_unit_spec_valid :: "work_unit_spec \<Rightarrow> bool" where
  "work_unit_spec_valid u \<longleftrightarrow> 0 \<le> us_idx u"

record work_unit_lease =
  wl_work_unit_id :: ident
  wl_job_id :: ident
  wl_kind :: worker_kind
  wl_model_id :: ident
  wl_input_url :: string
  wl_lease_expires :: instant
  wl_attempt :: int
  wl_est_duration_s :: "secs option"

record work_metrics =
  wm_duration_s :: secs
  wm_items :: "int option"
  wm_tokens :: "int option"

record work_result =
  wr_work_unit_id :: ident
  wr_status :: work_result_status
  wr_result_ref :: "string option"
  wr_error :: "string option"
  wr_metrics :: "work_metrics option"

record unit_transition =
  ut_work_unit_id :: ident
  ut_job_id :: ident
  ut_agent_id :: ident
  ut_attempt :: int
  ut_state :: work_unit_state
  ut_at :: instant

definition unit_transition_valid :: "unit_transition \<Rightarrow> bool" where
  "unit_transition_valid t \<longleftrightarrow> 1 \<le> ut_attempt t"

record job_status_view =
  jv_job_id :: ident
  jv_state :: job_state
  jv_total_units :: int
  jv_done_units :: int
  jv_dead_units :: int

end
