(* ===== verification/Queue_Store.thy ===== *)
theory Queue_Store
  imports Fallow_Protocol
begin

text \<open>
  The durable job and work-unit queue of the coordinator
  (\<open>fallow_coordinator/queue/store.py\<close> over \<open>_sql.py\<close>, \<open>_jobstate.py\<close>, \<open>_serialization.py\<close>).
  A table is the list of its rows in insertion order; each SQL statement of \<open>_sql.py\<close> is one
  definition, each method of \<open>SqliteQueueStore\<close> one function on the database that returns the
  new database, its result and the transitions handed to \<open>on_transition\<close>.

  The store's lock makes every method atomic; the clock (\<open>now\<close>) and \<open>uuid4\<close> (\<open>new_id\<close>) are
  arguments. Enum columns hold the enum; \<open>NULL\<close> is \<open>None\<close>, and a comparison with \<open>NULL\<close> is false.
  ISO-8601 timestamps of fixed width compare as the instants they print, so a timestamp column
  is an instant; \<open>params_json\<close> is the key-sorted list that \<open>json.dumps(sort_keys=True)\<close> prints.
  Where \<open>ORDER BY\<close> leaves a tie, the row inserted first is taken.
\<close>

section \<open>Schema\<close>

record job_row =
  j_job_id :: ident
  j_kind :: worker_kind
  j_model_id :: ident
  j_payload_ref :: string
  j_params_json :: "(string \<times> string) list"
  j_priority :: int
  j_state :: job_state
  j_created_at :: instant

record unit_row =
  w_work_unit_id :: ident
  w_job_id :: ident
  w_idx :: int
  w_input_ref :: string
  w_est_duration_s :: "secs option"
  w_state :: work_unit_state
  w_attempts :: int
  w_lease_agent :: "ident option"
  w_lease_expires :: "instant option"
  w_created_at :: instant

record result_row =
  r_work_unit_id :: ident
  r_status :: work_result_status
  r_result_ref :: "string option"
  r_error :: "string option"
  r_metrics_json :: "work_metrics option"
  r_agent_id :: ident
  r_completed_at :: instant

record binding_row =
  b_work_unit_id :: ident
  b_agent_id :: ident
  b_attempt :: int
  b_digest :: string
  b_result_ref :: string
  b_accepted_at :: instant

record membership_row =
  m_job_id :: ident
  m_work_unit_id :: ident
  m_idx :: int
  m_input_ref :: string
  m_terminal_state :: "work_unit_state option"
  m_result_status :: "work_result_status option"
  m_result_ref :: "string option"

record backup_row =
  bl_work_unit_id :: ident
  bl_job_id :: ident
  bl_agent_id :: ident
  bl_attempt :: int
  bl_lease_expires :: instant
  bl_created_at :: instant

record queue_db =
  jobs :: "job_row list"
  work_units :: "unit_row list"
  unit_results :: "result_row list"
  result_payload_bindings :: "binding_row list"
  job_unit_memberships :: "membership_row list"
  job_finalizations :: "(ident \<times> int) list"
  backup_leases :: "backup_row list"

abbreviation m_key :: "membership_row \<Rightarrow> ident \<times> ident" where
  "m_key m \<equiv> (m_job_id m, m_work_unit_id m)"

abbreviation b_key :: "binding_row \<Rightarrow> ident \<times> int" where
  "b_key b \<equiv> (b_work_unit_id b, b_attempt b)"

text \<open>Every statement's view of one unit: its row by primary key.\<close>

abbreviation unit_of :: "queue_db \<Rightarrow> ident \<Rightarrow> unit_row option" where
  "unit_of db uid \<equiv> row_of w_work_unit_id uid (work_units db)"

abbreviation result_of :: "queue_db \<Rightarrow> ident \<Rightarrow> result_row option" where
  "result_of db uid \<equiv> row_of r_work_unit_id uid (unit_results db)"

section \<open>Configuration and errors\<close>

record queue_cfg =
  max_attempts :: int
  default_lease_s :: secs

datatype queue_error =
  ValueError string
| ActiveWorkUnitConflictError
| IntegrityError

definition LEASE_EST_MULTIPLIER :: real where
  "LEASE_EST_MULTIPLIER = 2"

definition DEFAULT_LEASE_S :: secs where
  "DEFAULT_LEASE_S = 120"

definition DEFAULT_MAX_ATTEMPTS :: int where
  "DEFAULT_MAX_ATTEMPTS = 4"

text \<open>The constructor's argument checks.\<close>

definition new_queue_store :: "int \<Rightarrow> secs \<Rightarrow> queue_error + queue_cfg" where
  "new_queue_store ma dl =
     (if ma < 1 then Inl (ValueError ''max_attempts must be >= 1'')
      else if dl \<le> 0 then Inl (ValueError ''default_lease_s must be > 0'')
      else Inr \<lparr>max_attempts = ma, default_lease_s = dl\<rparr>)"

definition queue_cfg_ok :: "queue_cfg \<Rightarrow> bool" where
  "queue_cfg_ok cfg \<longleftrightarrow> 1 \<le> max_attempts cfg \<and> 0 < default_lease_s cfg"

lemma new_queue_store_ok: "new_queue_store ma dl = Inr cfg \<Longrightarrow> queue_cfg_ok cfg"
  by (auto simp: new_queue_store_def queue_cfg_ok_def split: if_splits)

definition empty_db :: queue_db where
  "empty_db = \<lparr>jobs = [], work_units = [], unit_results = [], result_payload_bindings = [],
               job_unit_memberships = [], job_finalizations = [], backup_leases = []\<rparr>"

section \<open>Pure helpers\<close>

text \<open>Lease windows (\<open>_serialization.py\<close>).\<close>

definition lease_window_s :: "secs option \<Rightarrow> secs \<Rightarrow> secs" where
  "lease_window_s est dflt =
     max ((case est of None \<Rightarrow> 0 | Some e \<Rightarrow> e) * LEASE_EST_MULTIPLIER) dflt"

definition lease_expiry :: "instant \<Rightarrow> secs option \<Rightarrow> secs \<Rightarrow> instant" where
  "lease_expiry now est dflt = now + lease_window_s est dflt"

definition dump_params :: "(string \<times> string) list \<Rightarrow> (string \<times> string) list" where
  "dump_params params = sort_key fst params"

definition result_row_params :: "work_result \<Rightarrow> ident \<Rightarrow> instant \<Rightarrow> result_row" where
  "result_row_params res agent completed_at =
     \<lparr>r_work_unit_id = wr_work_unit_id res, r_status = wr_status res,
      r_result_ref = wr_result_ref res, r_error = wr_error res,
      r_metrics_json = wr_metrics res, r_agent_id = agent, r_completed_at = completed_at\<rparr>"

text \<open>The job lifecycle as a function of the unit tally (\<open>_jobstate.py\<close>).\<close>

record unit_counts =
  uc_total :: nat
  uc_pending :: nat
  uc_leased :: nat
  uc_done :: nat
  uc_dead :: nat

definition next_job_state :: "unit_counts \<Rightarrow> job_state" where
  "next_job_state c =
     (if uc_total c = 0 \<or> (uc_pending c = 0 \<and> uc_leased c = 0) then JOB_DONE
      else if uc_done c + uc_dead c + uc_leased c > 0 then JOB_RUNNING
      else JOB_PENDING)"

section \<open>SQL statements\<close>

definition INSERT_JOB :: "job_row \<Rightarrow> queue_db \<Rightarrow> queue_error + queue_db" where
  "INSERT_JOB j db =
     (if has_key j_job_id (j_job_id j) (jobs db) then Inl IntegrityError
      else Inr (db\<lparr>jobs := jobs db @ [j]\<rparr>))"

text \<open>Every column but the key is taken from the new row, so a conflict replaces the row.\<close>

definition UPSERT_WORK_UNIT :: "unit_row \<Rightarrow> queue_db \<Rightarrow> queue_db" where
  "UPSERT_WORK_UNIT w db =
     db\<lparr>work_units := upsert w_work_unit_id (\<lambda>old new. new) w (work_units db)\<rparr>"

definition DELETE_INCOMPLETE_RESULT_BINDINGS :: "ident \<Rightarrow> queue_db \<Rightarrow> queue_db" where
  "DELETE_INCOMPLETE_RESULT_BINDINGS uid db =
     db\<lparr>result_payload_bindings :=
         filter (\<lambda>b. b_work_unit_id b \<noteq> uid) (result_payload_bindings db)\<rparr>"

definition DELETE_STALE_RESULT :: "ident \<Rightarrow> queue_db \<Rightarrow> queue_db" where
  "DELETE_STALE_RESULT uid db =
     db\<lparr>unit_results := filter (\<lambda>r. r_work_unit_id r \<noteq> uid) (unit_results db)\<rparr>"

definition DELETE_BACKUP_LEASE :: "ident \<Rightarrow> queue_db \<Rightarrow> queue_db" where
  "DELETE_BACKUP_LEASE uid db =
     db\<lparr>backup_leases := filter (\<lambda>bl. bl_work_unit_id bl \<noteq> uid) (backup_leases db)\<rparr>"

text \<open>The subquery shared by the result statements: the row's payload was bound by its agent.\<close>

definition result_bound :: "queue_db \<Rightarrow> result_row \<Rightarrow> bool" where
  "result_bound db r \<longleftrightarrow>
     list_ex (\<lambda>b. b_work_unit_id b = r_work_unit_id r \<and> b_agent_id b = r_agent_id r \<and>
                  Some (b_result_ref b) = r_result_ref r) (result_payload_bindings db)"

definition SELECT_SUCCEEDED_RESULTS :: "queue_db \<Rightarrow> ident list \<Rightarrow> (ident \<times> string) list" where
  "SELECT_SUCCEEDED_RESULTS db uids =
     map (\<lambda>r. (r_work_unit_id r, case r_result_ref r of None \<Rightarrow> [] | Some ref \<Rightarrow> ref))
       (filter (\<lambda>r. r_status r = SUCCEEDED \<and> r_result_ref r \<noteq> None \<and>
                    r_work_unit_id r \<in> set uids \<and> result_bound db r) (unit_results db))"

text \<open>The membership row a unit's current outcome gives its owning job.\<close>

definition terminal_membership :: "queue_db \<Rightarrow> unit_row \<Rightarrow> membership_row" where
  "terminal_membership db w =
     \<lparr>m_job_id = w_job_id w, m_work_unit_id = w_work_unit_id w, m_idx = w_idx w,
      m_input_ref = w_input_ref w,
      m_terminal_state = (if w_state w = DONE \<or> w_state w = DEAD then Some (w_state w) else None),
      m_result_status =
        (if w_state w = DONE then map_option r_status (result_of db (w_work_unit_id w)) else None),
      m_result_ref =
        (case result_of db (w_work_unit_id w) of
           None \<Rightarrow> None
         | Some r \<Rightarrow> if w_state w = DONE \<and> r_status r = SUCCEEDED \<and> result_bound db r
                     then r_result_ref r else None)\<rparr>"

definition BACKFILL_JOB_UNIT_MEMBERSHIPS :: "queue_db \<Rightarrow> queue_db" where
  "BACKFILL_JOB_UNIT_MEMBERSHIPS db =
     db\<lparr>job_unit_memberships :=
         fold (\<lambda>w. insert_ignore m_key (terminal_membership db w))
           (work_units db) (job_unit_memberships db)\<rparr>"

definition SNAPSHOT_TERMINAL_OWNER :: "ident \<Rightarrow> queue_db \<Rightarrow> queue_db" where
  "SNAPSHOT_TERMINAL_OWNER uid db =
     (case unit_of db uid of
        None \<Rightarrow> db
      | Some w \<Rightarrow>
          if w_state w = DONE \<or> w_state w = DEAD then
            db\<lparr>job_unit_memberships :=
                upsert m_key
                  (\<lambda>old new. if m_terminal_state old = None
                             then old\<lparr>m_terminal_state := m_terminal_state new,
                                      m_result_status := m_result_status new,
                                      m_result_ref := m_result_ref new\<rparr>
                             else old)
                  (terminal_membership db w) (job_unit_memberships db)\<rparr>
          else db)"

definition INSERT_JOB_UNIT_MEMBERSHIP :: "membership_row \<Rightarrow> queue_db \<Rightarrow> queue_db" where
  "INSERT_JOB_UNIT_MEMBERSHIP m db =
     db\<lparr>job_unit_memberships := job_unit_memberships db @ [m]\<rparr>"

text \<open>\<open>FROM work_units w JOIN jobs j ON j.job_id = w.job_id\<close>.\<close>

definition units_join_jobs :: "queue_db \<Rightarrow> (unit_row \<times> job_row) list" where
  "units_join_jobs db =
     concat (map (\<lambda>w. map (Pair w) (filter (\<lambda>j. j_job_id j = w_job_id w) (jobs db)))
       (work_units db))"

definition lease_order :: "unit_row \<times> job_row \<Rightarrow> int \<times> instant \<times> int" where
  "lease_order wj = (- j_priority (snd wj), w_created_at (fst wj), w_idx (fst wj))"

definition SELECT_LEASE_CANDIDATE :: "queue_db \<Rightarrow> ident list \<Rightarrow> (unit_row \<times> job_row) option" where
  "SELECT_LEASE_CANDIDATE db model_ids =
     min_key lease_order
       (filter (\<lambda>(w, j). w_state w = PENDING \<and> j_model_id j \<in> set model_ids)
          (units_join_jobs db))"

definition CLAIM_UNIT ::
  "ident \<Rightarrow> instant \<Rightarrow> ident \<Rightarrow> queue_db \<Rightarrow> queue_db \<times> int option" where
  "CLAIM_UNIT agent expires uid db =
     (db\<lparr>work_units :=
          update_where (\<lambda>w. w_work_unit_id w = uid \<and> w_state w = PENDING)
            (\<lambda>w. w\<lparr>w_state := LEASED, w_attempts := w_attempts w + 1,
                   w_lease_agent := Some agent, w_lease_expires := Some expires\<rparr>)
            (work_units db)\<rparr>,
      case unit_of db uid of
        None \<Rightarrow> None
      | Some w \<Rightarrow> if w_state w = PENDING then Some (w_attempts w + 1) else None)"

definition EXTEND_LEASES :: "instant \<Rightarrow> ident \<Rightarrow> ident list \<Rightarrow> queue_db \<Rightarrow> queue_db" where
  "EXTEND_LEASES expires agent uids db =
     db\<lparr>work_units :=
         update_where (\<lambda>w. w_state w = LEASED \<and> w_lease_agent w = Some agent \<and>
                           w_work_unit_id w \<in> set uids)
           (\<lambda>w. w\<lparr>w_lease_expires := Some expires\<rparr>) (work_units db)\<rparr>"

definition SELECT_RESULT_UPLOAD_ATTEMPT :: "queue_db \<Rightarrow> ident \<Rightarrow> ident \<Rightarrow> int option" where
  "SELECT_RESULT_UPLOAD_ATTEMPT db agent uid =
     (case unit_of db uid of
        None \<Rightarrow> None
      | Some w \<Rightarrow> if w_state w = LEASED \<and> w_lease_agent w = Some agent
                  then Some (w_attempts w) else None)"

text \<open>The two binding statements insert nothing on a conflict and report whether they inserted.\<close>

definition holds_lease :: "queue_db \<Rightarrow> ident \<Rightarrow> ident \<Rightarrow> int \<Rightarrow> bool" where
  "holds_lease db agent uid attempt \<longleftrightarrow>
     list_ex (\<lambda>w. w_work_unit_id w = uid \<and> w_state w = LEASED \<and>
                  w_lease_agent w = Some agent \<and> w_attempts w = attempt) (work_units db)"

definition holds_backup :: "queue_db \<Rightarrow> ident \<Rightarrow> ident \<Rightarrow> int \<Rightarrow> bool" where
  "holds_backup db agent uid attempt \<longleftrightarrow>
     list_ex (\<lambda>bl. bl_work_unit_id bl = uid \<and> bl_agent_id bl = agent \<and> bl_attempt bl = attempt)
       (backup_leases db)"

definition finalized :: "queue_db \<Rightarrow> ident \<Rightarrow> bool" where
  "finalized db uid \<longleftrightarrow> has_key r_work_unit_id uid (unit_results db)"

definition insert_binding :: "bool \<Rightarrow> binding_row \<Rightarrow> queue_db \<Rightarrow> queue_db \<times> bool" where
  "insert_binding authorised b db =
     (if authorised \<and> \<not> has_key b_key (b_key b) (result_payload_bindings db)
      then (db\<lparr>result_payload_bindings := result_payload_bindings db @ [b]\<rparr>, True)
      else (db, False))"

definition BIND_RESULT_PAYLOAD :: "binding_row \<Rightarrow> queue_db \<Rightarrow> queue_db \<times> bool" where
  "BIND_RESULT_PAYLOAD b db =
     insert_binding (holds_lease db (b_agent_id b) (b_work_unit_id b) (b_attempt b)) b db"

definition BIND_RESULT_PAYLOAD_BACKUP :: "binding_row \<Rightarrow> queue_db \<Rightarrow> queue_db \<times> bool" where
  "BIND_RESULT_PAYLOAD_BACKUP b db =
     insert_binding
       (holds_backup db (b_agent_id b) (b_work_unit_id b) (b_attempt b) \<and>
        \<not> finalized db (b_work_unit_id b)) b db"

definition same_payload :: "binding_row \<Rightarrow> binding_row \<Rightarrow> bool" where
  "same_payload b c \<longleftrightarrow>
     b_work_unit_id c = b_work_unit_id b \<and> b_agent_id c = b_agent_id b \<and>
     b_attempt c = b_attempt b \<and> b_digest c = b_digest b \<and> b_result_ref c = b_result_ref b"

definition SELECT_MATCHING_RESULT_BINDING :: "binding_row \<Rightarrow> queue_db \<Rightarrow> bool" where
  "SELECT_MATCHING_RESULT_BINDING b db \<longleftrightarrow>
     list_ex (same_payload b) (result_payload_bindings db) \<and>
     holds_lease db (b_agent_id b) (b_work_unit_id b) (b_attempt b)"

definition SELECT_MATCHING_BACKUP_BINDING :: "binding_row \<Rightarrow> queue_db \<Rightarrow> bool" where
  "SELECT_MATCHING_BACKUP_BINDING b db \<longleftrightarrow>
     list_ex (same_payload b) (result_payload_bindings db) \<and>
     holds_backup db (b_agent_id b) (b_work_unit_id b) (b_attempt b)"

definition SELECT_RESULT_BINDING_FOR_COMPLETION ::
  "queue_db \<Rightarrow> ident \<Rightarrow> ident \<Rightarrow> int \<Rightarrow> string option \<Rightarrow> bool" where
  "SELECT_RESULT_BINDING_FOR_COMPLETION db agent uid attempt ref \<longleftrightarrow>
     list_ex (\<lambda>b. b_work_unit_id b = uid \<and> b_agent_id b = agent \<and> b_attempt b = attempt \<and>
                  Some (b_result_ref b) = ref) (result_payload_bindings db)"

definition SELECT_BACKUP_BINDING_FOR_COMPLETION ::
  "queue_db \<Rightarrow> ident \<Rightarrow> ident \<Rightarrow> int \<Rightarrow> string option \<Rightarrow> bool" where
  "SELECT_BACKUP_BINDING_FOR_COMPLETION db agent uid attempt ref \<longleftrightarrow>
     SELECT_RESULT_BINDING_FOR_COMPLETION db agent uid attempt ref \<and>
     holds_backup db agent uid attempt"

definition SELECT_COMPLETED_RESULT_REF :: "queue_db \<Rightarrow> ident \<Rightarrow> string option" where
  "SELECT_COMPLETED_RESULT_REF db uid =
     (case result_of db uid of
        None \<Rightarrow> None
      | Some r \<Rightarrow> if r_status r = SUCCEEDED \<and> result_bound db r then r_result_ref r else None)"

definition SELECT_MATCHING_COMPLETION :: "queue_db \<Rightarrow> result_row \<Rightarrow> int \<Rightarrow> bool" where
  "SELECT_MATCHING_COMPLETION db p attempt \<longleftrightarrow>
     list_ex (\<lambda>r. r_work_unit_id r = r_work_unit_id p \<and> r_status r = r_status p \<and>
                  r_result_ref r = r_result_ref p \<and> r_error r = r_error p \<and>
                  r_metrics_json r = r_metrics_json p \<and> r_agent_id r = r_agent_id p \<and>
                  list_ex (\<lambda>w. w_work_unit_id w = r_work_unit_id r \<and>
                               w_lease_agent w = Some (r_agent_id p) \<and> w_attempts w = attempt)
                    (work_units db)) (unit_results db)"

definition INSERT_RESULT :: "result_row \<Rightarrow> queue_db \<Rightarrow> queue_db" where
  "INSERT_RESULT r db = db\<lparr>unit_results := insert_ignore r_work_unit_id r (unit_results db)\<rparr>"

definition MARK_UNIT_DONE :: "ident \<Rightarrow> queue_db \<Rightarrow> queue_db" where
  "MARK_UNIT_DONE uid db =
     db\<lparr>work_units := update_where (\<lambda>w. w_work_unit_id w = uid) (\<lambda>w. w\<lparr>w_state := DONE\<rparr>)
         (work_units db)\<rparr>"

definition MARK_JOB_UNIT_TERMINAL ::
  "ident \<Rightarrow> ident \<Rightarrow> work_unit_state \<Rightarrow> work_result_status option \<Rightarrow> string option \<Rightarrow>
   queue_db \<Rightarrow> queue_db" where
  "MARK_JOB_UNIT_TERMINAL jid uid st rstatus rref db =
     db\<lparr>job_unit_memberships :=
         update_where (\<lambda>m. m_job_id m = jid \<and> m_work_unit_id m = uid)
           (\<lambda>m. m\<lparr>m_terminal_state := Some st, m_result_status := rstatus, m_result_ref := rref\<rparr>)
           (job_unit_memberships db)\<rparr>"

definition SELECTOR_EXPIRED :: "instant \<Rightarrow> unit_row \<Rightarrow> bool" where
  "SELECTOR_EXPIRED now w \<longleftrightarrow>
     w_state w = LEASED \<and> (case w_lease_expires w of None \<Rightarrow> False | Some e \<Rightarrow> e < now)"

definition SELECTOR_BY_AGENT :: "ident \<Rightarrow> unit_row \<Rightarrow> bool" where
  "SELECTOR_BY_AGENT agent w \<longleftrightarrow> w_state w = LEASED \<and> w_lease_agent w = Some agent"

text \<open>The effective state of a membership: its recorded outcome, else the state of the unit it
  still owns; \<open>None\<close> when the unit has moved to a later job without an outcome.\<close>

definition effective_state :: "queue_db \<Rightarrow> membership_row \<Rightarrow> work_unit_state option" where
  "effective_state db m =
     (case m_terminal_state m of
        Some st \<Rightarrow> Some st
      | None \<Rightarrow>
          (case unit_of db (m_work_unit_id m) of
             None \<Rightarrow> None
           | Some w \<Rightarrow> if w_job_id w = m_job_id m then Some (w_state w) else None))"

definition job_members :: "queue_db \<Rightarrow> ident \<Rightarrow> membership_row list" where
  "job_members db jid = filter (\<lambda>m. m_job_id m = jid) (job_unit_memberships db)"

definition count_effective :: "queue_db \<Rightarrow> ident \<Rightarrow> work_unit_state \<Rightarrow> nat" where
  "count_effective db jid st =
     length (filter (\<lambda>m. effective_state db m = Some st) (job_members db jid))"

definition COUNT_JOB_UNITS :: "queue_db \<Rightarrow> ident \<Rightarrow> unit_counts" where
  "COUNT_JOB_UNITS db jid =
     \<lparr>uc_total = length (job_members db jid), uc_pending = count_effective db jid PENDING,
      uc_leased = count_effective db jid LEASED, uc_done = count_effective db jid DONE,
      uc_dead = count_effective db jid DEAD\<rparr>"

definition SET_JOB_STATE :: "ident \<Rightarrow> job_state \<Rightarrow> queue_db \<Rightarrow> queue_db" where
  "SET_JOB_STATE jid st db =
     db\<lparr>jobs := update_where (\<lambda>j. j_job_id j = jid) (\<lambda>j. j\<lparr>j_state := st\<rparr>) (jobs db)\<rparr>"

definition recompute_job_state :: "ident \<Rightarrow> queue_db \<Rightarrow> queue_db" where
  "recompute_job_state jid db = SET_JOB_STATE jid (next_job_state (COUNT_JOB_UNITS db jid)) db"

definition SELECT_BACKUP_LEASE_TARGET ::
  "queue_db \<Rightarrow> ident \<Rightarrow> ident \<Rightarrow> (unit_row \<times> job_row) option" where
  "SELECT_BACKUP_LEASE_TARGET db uid agent =
     find (\<lambda>(w, j). w_work_unit_id w = uid \<and> w_state w = LEASED \<and>
                    w_lease_agent w \<noteq> None \<and> w_lease_agent w \<noteq> Some agent) (units_join_jobs db)"

definition INSERT_BACKUP_LEASE :: "backup_row \<Rightarrow> queue_db \<Rightarrow> queue_db \<times> bool" where
  "INSERT_BACKUP_LEASE bl db =
     (db\<lparr>backup_leases := insert_ignore bl_work_unit_id bl (backup_leases db)\<rparr>,
      \<not> has_key bl_work_unit_id (bl_work_unit_id bl) (backup_leases db))"

definition remaining_units :: "queue_db \<Rightarrow> ident \<Rightarrow> nat" where
  "remaining_units db jid =
     length (filter (\<lambda>m. effective_state db m = Some PENDING \<or> effective_state db m = Some LEASED)
       (job_members db jid))"

definition SELECT_BACKUP_CANDIDATES ::
  "queue_db \<Rightarrow> ident list \<Rightarrow> ident \<Rightarrow> int \<Rightarrow> (unit_row \<times> job_row) list" where
  "SELECT_BACKUP_CANDIDATES db model_ids agent tail_max =
     sort_key (\<lambda>(w, j). w_work_unit_id w)
       (filter (\<lambda>(w, j). w_state w = LEASED \<and> j_model_id j \<in> set model_ids \<and>
                  w_lease_agent w \<noteq> None \<and> w_lease_agent w \<noteq> Some agent \<and>
                  \<not> has_key bl_work_unit_id (w_work_unit_id w) (backup_leases db) \<and>
                  \<not> finalized db (w_work_unit_id w) \<and>
                  int (remaining_units db (w_job_id w)) \<le> tail_max)
          (units_join_jobs db))"

definition SELECT_BACKUP_UPLOAD_ATTEMPT :: "queue_db \<Rightarrow> ident \<Rightarrow> ident \<Rightarrow> int option" where
  "SELECT_BACKUP_UPLOAD_ATTEMPT db agent uid =
     (if finalized db uid then None
      else map_option bl_attempt
             (find (\<lambda>bl. bl_work_unit_id bl = uid \<and> bl_agent_id bl = agent) (backup_leases db)))"

section \<open>The store's methods\<close>

subsection \<open>Lifecycle and submission\<close>

definition init_store :: "queue_db \<Rightarrow> queue_db" where
  "init_store db = BACKFILL_JOB_UNIT_MEMBERSHIPS db"

fun unique_units :: "ident list \<Rightarrow> work_unit_spec list \<Rightarrow> work_unit_spec list" where
  "unique_units seen [] = []"
| "unique_units seen (u # us) =
     (if us_work_unit_id u \<in> set seen then unique_units seen us
      else u # unique_units (us_work_unit_id u # seen) us)"

definition active_jobs_for_units :: "queue_db \<Rightarrow> ident list \<Rightarrow> job_row list" where
  "active_jobs_for_units db uids =
     remdups (map snd
       (filter (\<lambda>(w, j). w_work_unit_id w \<in> set uids \<and> (w_state w = PENDING \<or> w_state w = LEASED))
          (units_join_jobs db)))"

definition matching_active_job ::
  "queue_db \<Rightarrow> job_submit \<Rightarrow> work_unit_spec list \<Rightarrow> (string \<times> string) list \<Rightarrow>
   queue_error + ident option" where
  "matching_active_job db job units params =
     (if units = [] then Inr None
      else let rows = active_jobs_for_units db (map us_work_unit_id units);
               matches = filter (\<lambda>j. j_kind j = js_kind job \<and> j_model_id j = js_model_id job \<and>
                                     j_payload_ref j = js_payload_ref job \<and>
                                     j_params_json j = params \<and> j_priority j = js_priority job) rows
           in if rows = [] then Inr None
              else (case (rows, matches) of
                      ([_], [m]) \<Rightarrow> Inr (Some (j_job_id m))
                    | _ \<Rightarrow> Inl ActiveWorkUnitConflictError))"

text \<open>One turn of the loop over the submitted units.\<close>

definition submit_unit ::
  "instant \<Rightarrow> ident \<Rightarrow> (ident \<times> string) list \<Rightarrow> work_unit_spec \<Rightarrow> queue_db \<Rightarrow> queue_db" where
  "submit_unit created_at job_id deduped u db =
     (let uid = us_work_unit_id u;
          is_done = map_of deduped uid \<noteq> None;
          db1 = SNAPSHOT_TERMINAL_OWNER uid db;
          db2 = (if is_done then db1
                 else DELETE_BACKUP_LEASE uid (DELETE_STALE_RESULT uid
                        (DELETE_INCOMPLETE_RESULT_BINDINGS uid db1)));
          db3 = UPSERT_WORK_UNIT
                  \<lparr>w_work_unit_id = uid, w_job_id = job_id, w_idx = us_idx u,
                   w_input_ref = us_input_ref u, w_est_duration_s = us_est_duration_s u,
                   w_state = (if is_done then DONE else PENDING), w_attempts = 0,
                   w_lease_agent = None, w_lease_expires = None, w_created_at = created_at\<rparr> db2
      in INSERT_JOB_UNIT_MEMBERSHIP
           \<lparr>m_job_id = job_id, m_work_unit_id = uid, m_idx = us_idx u,
            m_input_ref = us_input_ref u,
            m_terminal_state = (if is_done then Some DONE else None),
            m_result_status = (if is_done then Some SUCCEEDED else None),
            m_result_ref = map_of deduped uid\<rparr> db3)"

definition submit_new_job ::
  "instant \<Rightarrow> ident \<Rightarrow> queue_db \<Rightarrow> job_submit \<Rightarrow> work_unit_spec list \<Rightarrow>
   queue_db \<times> (queue_error + ident)" where
  "submit_new_job now new_id db job units =
     (case INSERT_JOB
             \<lparr>j_job_id = new_id, j_kind = js_kind job, j_model_id = js_model_id job,
              j_payload_ref = js_payload_ref job, j_params_json = dump_params (js_params job),
              j_priority = js_priority job, j_state = JOB_PENDING, j_created_at = now\<rparr> db of
        Inl e \<Rightarrow> (db, Inl e)
      | Inr db1 \<Rightarrow>
          let deduped = SELECT_SUCCEEDED_RESULTS db1 (map us_work_unit_id units);
              db2 = fold (submit_unit now new_id deduped) units db1
          in (recompute_job_state new_id db2, Inr new_id))"

definition submit_job ::
  "instant \<Rightarrow> ident \<Rightarrow> queue_db \<Rightarrow> job_submit \<Rightarrow> work_unit_spec list \<Rightarrow> bool \<Rightarrow>
   queue_db \<times> (queue_error + ident)" where
  "submit_job now new_id db job units0 reuse_active =
     (let units = unique_units [] units0
      in if reuse_active then
           (case matching_active_job db job units (dump_params (js_params job)) of
              Inl e \<Rightarrow> (db, Inl e)
            | Inr (Some active) \<Rightarrow> (db, Inr active)
            | Inr None \<Rightarrow> submit_new_job now new_id db job units)
         else submit_new_job now new_id db job units)"

subsection \<open>Leasing\<close>

definition lease_next ::
  "queue_cfg \<Rightarrow> instant \<Rightarrow> queue_db \<Rightarrow> ident \<Rightarrow> ident list \<Rightarrow>
   queue_db \<times> work_unit_lease option \<times> unit_transition list" where
  "lease_next cfg now db agent model_ids =
     (if model_ids = [] then (db, None, [])
      else
        case SELECT_LEASE_CANDIDATE db model_ids of
          None \<Rightarrow> (db, None, [])
        | Some (w, j) \<Rightarrow>
            let expiry = lease_expiry now (w_est_duration_s w) (default_lease_s cfg);
                (db1, claimed) = CLAIM_UNIT agent expiry (w_work_unit_id w) db
            in case claimed of
                 None \<Rightarrow> (db1, None, [])
               | Some att \<Rightarrow>
                   (recompute_job_state (w_job_id w) db1,
                    Some \<lparr>wl_work_unit_id = w_work_unit_id w, wl_job_id = w_job_id w,
                          wl_kind = j_kind j, wl_model_id = j_model_id j,
                          wl_input_url = w_input_ref w, wl_lease_expires = expiry,
                          wl_attempt = att, wl_est_duration_s = w_est_duration_s w\<rparr>,
                    [\<lparr>ut_work_unit_id = w_work_unit_id w, ut_job_id = w_job_id w,
                      ut_agent_id = agent, ut_attempt = att, ut_state = LEASED, ut_at = now\<rparr>]))"

definition extend_leases ::
  "queue_cfg \<Rightarrow> instant \<Rightarrow> queue_db \<Rightarrow> ident \<Rightarrow> ident list \<Rightarrow> queue_db" where
  "extend_leases cfg now db agent uids =
     (if uids = [] then db
      else EXTEND_LEASES (lease_expiry now None (default_lease_s cfg)) agent uids db)"

subsection \<open>Speculative backups\<close>

definition backup_attempt :: "queue_cfg \<Rightarrow> int" where
  "backup_attempt cfg = max_attempts cfg + 1"

record backup_candidate =
  bc_work_unit_id :: ident
  bc_job_id :: ident
  bc_model_id :: ident
  bc_holder_agent_id :: ident
  bc_est_duration_s :: "secs option"

definition backup_candidates ::
  "queue_db \<Rightarrow> ident \<Rightarrow> ident list \<Rightarrow> int \<Rightarrow> backup_candidate list" where
  "backup_candidates db agent model_ids tail_max =
     (if model_ids = [] then []
      else map (\<lambda>(w, j). \<lparr>bc_work_unit_id = w_work_unit_id w, bc_job_id = w_job_id w,
                          bc_model_id = j_model_id j,
                          bc_holder_agent_id = (case w_lease_agent w of None \<Rightarrow> ''None'' | Some a \<Rightarrow> a),
                          bc_est_duration_s = w_est_duration_s w\<rparr>)
             (SELECT_BACKUP_CANDIDATES db model_ids agent tail_max))"

definition lease_backup ::
  "queue_cfg \<Rightarrow> instant \<Rightarrow> queue_db \<Rightarrow> ident \<Rightarrow> ident \<Rightarrow> queue_db \<times> work_unit_lease option" where
  "lease_backup cfg now db agent uid =
     (case SELECT_BACKUP_LEASE_TARGET db uid agent of
        None \<Rightarrow> (db, None)
      | Some (w, j) \<Rightarrow>
          let expiry = lease_expiry now (w_est_duration_s w) (default_lease_s cfg);
              att = backup_attempt cfg;
              (db1, inserted) = INSERT_BACKUP_LEASE
                \<lparr>bl_work_unit_id = uid, bl_job_id = w_job_id w, bl_agent_id = agent,
                 bl_attempt = att, bl_lease_expires = expiry, bl_created_at = now\<rparr> db
          in if inserted then
               (db1, Some \<lparr>wl_work_unit_id = uid, wl_job_id = w_job_id w, wl_kind = j_kind j,
                           wl_model_id = j_model_id j, wl_input_url = w_input_ref w,
                           wl_lease_expires = expiry, wl_attempt = att,
                           wl_est_duration_s = w_est_duration_s w\<rparr>)
             else (db1, None))"

subsection \<open>Payload upload and completion\<close>

definition result_upload_attempt :: "queue_db \<Rightarrow> ident \<Rightarrow> ident \<Rightarrow> int option" where
  "result_upload_attempt db agent uid =
     (case SELECT_RESULT_UPLOAD_ATTEMPT db agent uid of
        Some att \<Rightarrow> Some att
      | None \<Rightarrow> SELECT_BACKUP_UPLOAD_ATTEMPT db agent uid)"

definition bind_result_payload ::
  "instant \<Rightarrow> queue_db \<Rightarrow> ident \<Rightarrow> ident \<Rightarrow> int \<Rightarrow> string \<Rightarrow> string \<Rightarrow> queue_db \<times> bool" where
  "bind_result_payload now db agent uid attempt digest ref =
     (let b = \<lparr>b_work_unit_id = uid, b_agent_id = agent, b_attempt = attempt,
               b_digest = digest, b_result_ref = ref, b_accepted_at = now\<rparr>;
          (db1, accepted1) = BIND_RESULT_PAYLOAD b db
      in if accepted1 then (db1, True)
         else if SELECT_MATCHING_RESULT_BINDING b db1 then (db1, True)
         else let (db2, accepted2) = BIND_RESULT_PAYLOAD_BACKUP b db1
              in if accepted2 then (db2, True)
                 else (db2, SELECT_MATCHING_BACKUP_BINDING b db2))"

definition completion_accepted :: "ident \<Rightarrow> int \<Rightarrow> unit_row \<Rightarrow> bool" where
  "completion_accepted agent attempt w \<longleftrightarrow>
     w_state w = LEASED \<and> w_lease_agent w = Some agent \<and> w_attempts w = attempt"

definition backup_role :: "queue_db \<Rightarrow> ident \<Rightarrow> ident \<Rightarrow> int \<Rightarrow> unit_row \<Rightarrow> bool" where
  "backup_role db uid agent attempt w \<longleftrightarrow>
     (w_state w = LEASED \<or> w_state w = PENDING) \<and> holds_backup db agent uid attempt"

text \<open>The accepted branch: record the result, mark the unit and its membership, recompute.\<close>

definition finalize_unit :: "result_row \<Rightarrow> unit_row \<Rightarrow> queue_db \<Rightarrow> queue_db" where
  "finalize_unit p w db =
     recompute_job_state (w_job_id w)
       (MARK_JOB_UNIT_TERMINAL (w_job_id w) (r_work_unit_id p) DONE (Some (r_status p))
          (if r_status p = SUCCEEDED then r_result_ref p else None)
          (MARK_UNIT_DONE (r_work_unit_id p) (INSERT_RESULT p db)))"

definition complete_unit ::
  "instant \<Rightarrow> queue_db \<Rightarrow> ident \<Rightarrow> int \<Rightarrow> work_result \<Rightarrow>
   queue_db \<times> bool \<times> unit_transition list" where
  "complete_unit now db agent attempt res =
     (let uid = wr_work_unit_id res;
          p = result_row_params res agent now
      in case unit_of db uid of
           None \<Rightarrow> (db, False, [])
         | Some w \<Rightarrow>
             if finalized db uid then
               (db, SELECT_MATCHING_COMPLETION db p attempt \<or> holds_backup db agent uid attempt, [])
             else
               let is_primary = completion_accepted agent attempt w;
                   is_backup = (\<not> is_primary \<and> backup_role db uid agent attempt w);
                   bound = (if is_primary
                            then SELECT_RESULT_BINDING_FOR_COMPLETION db agent uid attempt
                                   (wr_result_ref res)
                            else SELECT_BACKUP_BINDING_FOR_COMPLETION db agent uid attempt
                                   (wr_result_ref res))
               in if \<not> (is_primary \<or> is_backup) then (db, False, [])
                  else if wr_status res = SUCCEEDED \<and> \<not> bound then (db, False, [])
                  else (finalize_unit p w db, True,
                        [\<lparr>ut_work_unit_id = uid, ut_job_id = w_job_id w, ut_agent_id = agent,
                          ut_attempt = w_attempts w, ut_state = DONE, ut_at = now\<rparr>]))"

definition completed_result_ref :: "queue_db \<Rightarrow> ident \<Rightarrow> string option" where
  "completed_result_ref db uid = SELECT_COMPLETED_RESULT_REF db uid"

subsection \<open>Requeueing\<close>

definition transition_of :: "work_unit_state \<Rightarrow> instant \<Rightarrow> unit_row \<Rightarrow> unit_transition" where
  "transition_of st now w =
     \<lparr>ut_work_unit_id = w_work_unit_id w, ut_job_id = w_job_id w,
      ut_agent_id = (case w_lease_agent w of None \<Rightarrow> ''None'' | Some a \<Rightarrow> a),
      ut_attempt = w_attempts w, ut_state = st, ut_at = now\<rparr>"

text \<open>\<open>UPDATE work_units SET state = st WHERE p ... RETURNING\<close>: the new table and the rows hit.\<close>

definition run_requeue_branch ::
  "(unit_row \<Rightarrow> bool) \<Rightarrow> work_unit_state \<Rightarrow> instant \<Rightarrow> queue_db \<Rightarrow>
   queue_db \<times> unit_transition list" where
  "run_requeue_branch p st now db =
     (db\<lparr>work_units := update_where p (\<lambda>w. w\<lparr>w_state := st\<rparr>) (work_units db)\<rparr>,
      map (transition_of st now) (filter p (work_units db)))"

definition requeue ::
  "queue_cfg \<Rightarrow> (unit_row \<Rightarrow> bool) \<Rightarrow> instant \<Rightarrow> queue_db \<Rightarrow> queue_db \<times> unit_transition list" where
  "requeue cfg selector now db =
     (let (db1, pending) =
            run_requeue_branch (\<lambda>w. selector w \<and> w_attempts w < max_attempts cfg) PENDING now db;
          (db2, dead) =
            run_requeue_branch (\<lambda>w. selector w \<and> max_attempts cfg \<le> w_attempts w) DEAD now db1;
          transitions = sort_key ut_work_unit_id (pending @ dead);
          db3 = fold (\<lambda>t. MARK_JOB_UNIT_TERMINAL (ut_job_id t) (ut_work_unit_id t) DEAD None None)
                  dead db2;
          db4 = fold recompute_job_state (remdups (map ut_job_id transitions)) db3
      in (db4, transitions))"

definition requeue_expired ::
  "queue_cfg \<Rightarrow> instant \<Rightarrow> queue_db \<Rightarrow> queue_db \<times> nat \<times> unit_transition list" where
  "requeue_expired cfg now db =
     (let (db', transitions) = requeue cfg (SELECTOR_EXPIRED now) now db
      in (db', length transitions, transitions))"

definition requeue_agent ::
  "queue_cfg \<Rightarrow> instant \<Rightarrow> queue_db \<Rightarrow> ident \<Rightarrow> queue_db \<times> nat \<times> unit_transition list" where
  "requeue_agent cfg now db agent =
     (let (db', transitions) = requeue cfg (SELECTOR_BY_AGENT agent) now db
      in (db', length transitions, transitions))"

subsection \<open>Status and finalization\<close>

definition job_status :: "queue_db \<Rightarrow> ident \<Rightarrow> job_status_view option" where
  "job_status db jid =
     (case row_of j_job_id jid (jobs db) of
        None \<Rightarrow> None
      | Some j \<Rightarrow>
          let c = COUNT_JOB_UNITS db jid
          in Some \<lparr>jv_job_id = jid, jv_state = j_state j, jv_total_units = int (uc_total c),
                   jv_done_units = int (uc_done c), jv_dead_units = int (uc_dead c)\<rparr>)"

record job_unit_outcome =
  jo_work_unit_id :: ident
  jo_idx :: int
  jo_input_ref :: string
  jo_state :: work_unit_state
  jo_result_status :: "work_result_status option"
  jo_result_ref :: "string option"

record job_details_view =
  jd_model_id :: ident
  jd_params :: "(string \<times> string) list"
  jd_units :: "job_unit_outcome list"

text \<open>\<open>WorkUnitState(str(row["state"]))\<close> raises on a \<open>NULL\<close> state (\<open>str(None)\<close> is no member).\<close>

definition unit_outcome :: "queue_db \<Rightarrow> membership_row \<Rightarrow> job_unit_outcome option" where
  "unit_outcome db m =
     (case effective_state db m of
        None \<Rightarrow> None
      | Some st \<Rightarrow>
          Some \<lparr>jo_work_unit_id = m_work_unit_id m, jo_idx = m_idx m, jo_input_ref = m_input_ref m,
                jo_state = st, jo_result_status = m_result_status m,
                jo_result_ref = m_result_ref m\<rparr>)"

definition job_details :: "queue_db \<Rightarrow> ident \<Rightarrow> queue_error + job_details_view option" where
  "job_details db jid =
     (case row_of j_job_id jid (jobs db) of
        None \<Rightarrow> Inr None
      | Some j \<Rightarrow>
          let outcomes = map (unit_outcome db)
                (sort_key (\<lambda>m. (m_idx m, m_work_unit_id m)) (job_members db jid))
          in if list_ex (\<lambda>u. u = None) outcomes
             then Inl (ValueError ''None is not a valid WorkUnitState'')
             else Inr (Some \<lparr>jd_model_id = j_model_id j, jd_params = j_params_json j,
                             jd_units = map the outcomes\<rparr>))"

definition job_finalization :: "queue_db \<Rightarrow> ident \<Rightarrow> int option" where
  "job_finalization db jid = map_of (job_finalizations db) jid"

definition mark_job_finalized :: "queue_db \<Rightarrow> ident \<Rightarrow> int \<Rightarrow> queue_db \<times> (queue_error + int)" where
  "mark_job_finalized db jid indexed =
     (if indexed < 0 then (db, Inl (ValueError ''indexed_items must be >= 0''))
      else case map_of (job_finalizations db) jid of
        Some n \<Rightarrow> (db, Inr n)
      | None \<Rightarrow>
          if has_key j_job_id jid (jobs db)
          then (db\<lparr>job_finalizations := job_finalizations db @ [(jid, indexed)]\<rparr>, Inr indexed)
          else (db, Inl IntegrityError))"

lemmas sql_update_defs =
  UPSERT_WORK_UNIT_def DELETE_INCOMPLETE_RESULT_BINDINGS_def DELETE_STALE_RESULT_def
  DELETE_BACKUP_LEASE_def INSERT_JOB_UNIT_MEMBERSHIP_def INSERT_RESULT_def MARK_UNIT_DONE_def
  MARK_JOB_UNIT_TERMINAL_def SET_JOB_STATE_def EXTEND_LEASES_def

end
