(* ===== verification/Queue_Inv.thy ===== *)
theory Queue_Inv
  imports Queue_Store
begin

text \<open>
  The invariant of the queue database and its preservation by every method of the store.
  The invariant has one predicate per table (\<open>unit_inv\<close>, \<open>result_inv\<close>, \<open>binding_inv\<close>,
  \<open>member_inv\<close>, \<open>backup_inv\<close>, \<open>job_inv\<close>) over rows, so that an update of one table leaves the
  predicates of the rows of the others alone. \<open>job_inv\<close> is proved separately: it is the only one
  that reads the stored job state, and every method restores it by recomputing the jobs it touched.
\<close>

section \<open>The invariant\<close>

definition terminal_of :: "work_unit_state \<Rightarrow> work_unit_state option" where
  "terminal_of st = (if st = DONE \<or> st = DEAD then Some st else None)"

definition lease_fields_ok :: "queue_cfg \<Rightarrow> unit_row \<Rightarrow> bool" where
  "lease_fields_ok cfg w \<longleftrightarrow>
     0 \<le> w_attempts w \<and> w_attempts w \<le> max_attempts cfg \<and>
     (case w_state w of
        PENDING \<Rightarrow> w_attempts w < max_attempts cfg
      | LEASED \<Rightarrow> 1 \<le> w_attempts w \<and> w_lease_agent w \<noteq> None \<and> w_lease_expires w \<noteq> None
      | DONE \<Rightarrow> True
      | DEAD \<Rightarrow> w_attempts w = max_attempts cfg)"

definition owner_records :: "queue_db \<Rightarrow> unit_row \<Rightarrow> bool" where
  "owner_records db w \<longleftrightarrow>
     list_ex (\<lambda>m. m_key m = (w_job_id w, w_work_unit_id w) \<and>
                  m_terminal_state m = terminal_of (w_state w)) (job_unit_memberships db)"

definition unit_inv :: "queue_cfg \<Rightarrow> queue_db \<Rightarrow> unit_row \<Rightarrow> bool" where
  "unit_inv cfg db w \<longleftrightarrow>
     lease_fields_ok cfg w \<and> has_key j_job_id (w_job_id w) (jobs db) \<and> owner_records db w \<and>
     (w_state w = DONE \<longleftrightarrow> finalized db (w_work_unit_id w)) \<and>
     (has_key bl_work_unit_id (w_work_unit_id w) (backup_leases db) \<and>
        (w_state w = PENDING \<or> w_state w = LEASED) \<longrightarrow> 1 \<le> w_attempts w)"

definition result_inv :: "queue_db \<Rightarrow> result_row \<Rightarrow> bool" where
  "result_inv db r \<longleftrightarrow>
     has_key w_work_unit_id (r_work_unit_id r) (work_units db) \<and>
     (r_status r = SUCCEEDED \<longrightarrow> r_result_ref r \<noteq> None \<and> result_bound db r)"

definition binding_inv :: "queue_cfg \<Rightarrow> queue_db \<Rightarrow> binding_row \<Rightarrow> bool" where
  "binding_inv cfg db b \<longleftrightarrow>
     has_key w_work_unit_id (b_work_unit_id b) (work_units db) \<and>
     1 \<le> b_attempt b \<and> b_attempt b \<le> max_attempts cfg + 1 \<and>
     (b_attempt b = max_attempts cfg + 1 \<longrightarrow>
        holds_backup db (b_agent_id b) (b_work_unit_id b) (b_attempt b))"

definition member_inv :: "queue_db \<Rightarrow> membership_row \<Rightarrow> bool" where
  "member_inv db m \<longleftrightarrow>
     has_key j_job_id (m_job_id m) (jobs db) \<and>
     has_key w_work_unit_id (m_work_unit_id m) (work_units db) \<and>
     (m_terminal_state m = None \<or> m_terminal_state m = Some DONE \<or> m_terminal_state m = Some DEAD) \<and>
     (m_result_status m \<noteq> None \<longrightarrow> m_terminal_state m = Some DONE) \<and>
     (m_result_ref m \<noteq> None \<longleftrightarrow> m_result_status m = Some SUCCEEDED)"

definition backup_inv :: "queue_cfg \<Rightarrow> queue_db \<Rightarrow> backup_row \<Rightarrow> bool" where
  "backup_inv cfg db bl \<longleftrightarrow>
     has_key w_work_unit_id (bl_work_unit_id bl) (work_units db) \<and>
     has_key j_job_id (bl_job_id bl) (jobs db) \<and> bl_attempt bl = backup_attempt cfg"

definition keys_inv :: "queue_db \<Rightarrow> bool" where
  "keys_inv db \<longleftrightarrow>
     keyed j_job_id (jobs db) \<and> keyed w_work_unit_id (work_units db) \<and>
     keyed r_work_unit_id (unit_results db) \<and> keyed b_key (result_payload_bindings db) \<and>
     keyed m_key (job_unit_memberships db) \<and> keyed fst (job_finalizations db) \<and>
     keyed bl_work_unit_id (backup_leases db)"

definition db_ok :: "queue_cfg \<Rightarrow> queue_db \<Rightarrow> bool" where
  "db_ok cfg db \<longleftrightarrow>
     keys_inv db \<and>
     (\<forall>w \<in> set (work_units db). unit_inv cfg db w) \<and>
     (\<forall>r \<in> set (unit_results db). result_inv db r) \<and>
     (\<forall>b \<in> set (result_payload_bindings db). binding_inv cfg db b) \<and>
     (\<forall>m \<in> set (job_unit_memberships db). member_inv db m) \<and>
     (\<forall>bl \<in> set (backup_leases db). backup_inv cfg db bl) \<and>
     (\<forall>f \<in> set (job_finalizations db). has_key j_job_id (fst f) (jobs db) \<and> 0 \<le> snd f)"

text \<open>A job is settled when none of its units moved on to a later job without an outcome; the
  stored state of a settled job is the one its units' states give.\<close>

definition settled :: "queue_db \<Rightarrow> ident \<Rightarrow> bool" where
  "settled db jid \<longleftrightarrow> list_all (\<lambda>m. effective_state db m \<noteq> None) (job_members db jid)"

definition job_inv :: "queue_db \<Rightarrow> job_row \<Rightarrow> bool" where
  "job_inv db j \<longleftrightarrow>
     (settled db (j_job_id j) \<longrightarrow>
        j_state j = next_job_state (COUNT_JOB_UNITS db (j_job_id j)))"

definition jobs_ok_except :: "ident set \<Rightarrow> queue_db \<Rightarrow> bool" where
  "jobs_ok_except J db \<longleftrightarrow> (\<forall>j \<in> set (jobs db). j_job_id j \<notin> J \<longrightarrow> job_inv db j)"

definition queue_inv :: "queue_cfg \<Rightarrow> queue_db \<Rightarrow> bool" where
  "queue_inv cfg db \<longleftrightarrow> db_ok cfg db \<and> jobs_ok_except {} db"

lemmas row_inv_defs = unit_inv_def result_inv_def binding_inv_def member_inv_def backup_inv_def
  owner_records_def finalized_def result_bound_def holds_backup_def

lemma db_okI:
  assumes "keys_inv db"
    and "\<And>w. w \<in> set (work_units db) \<Longrightarrow> unit_inv cfg db w"
    and "\<And>r. r \<in> set (unit_results db) \<Longrightarrow> result_inv db r"
    and "\<And>b. b \<in> set (result_payload_bindings db) \<Longrightarrow> binding_inv cfg db b"
    and "\<And>m. m \<in> set (job_unit_memberships db) \<Longrightarrow> member_inv db m"
    and "\<And>bl. bl \<in> set (backup_leases db) \<Longrightarrow> backup_inv cfg db bl"
    and "\<And>f. f \<in> set (job_finalizations db) \<Longrightarrow> has_key j_job_id (fst f) (jobs db) \<and> 0 \<le> snd f"
  shows "db_ok cfg db"
  using assms unfolding db_ok_def by blast

lemma db_okD:
  assumes "db_ok cfg db"
  shows "keys_inv db"
    and "w \<in> set (work_units db) \<Longrightarrow> unit_inv cfg db w"
    and "r \<in> set (unit_results db) \<Longrightarrow> result_inv db r"
    and "b \<in> set (result_payload_bindings db) \<Longrightarrow> binding_inv cfg db b"
    and "m \<in> set (job_unit_memberships db) \<Longrightarrow> member_inv db m"
    and "bl \<in> set (backup_leases db) \<Longrightarrow> backup_inv cfg db bl"
    and "f \<in> set (job_finalizations db) \<Longrightarrow> has_key j_job_id (fst f) (jobs db) \<and> 0 \<le> snd f"
  using assms unfolding db_ok_def by blast+

lemma queue_inv_empty: "queue_inv cfg empty_db"
  by (simp add: queue_inv_def db_ok_def keys_inv_def jobs_ok_except_def empty_db_def keyed_def)

section \<open>Frame lemmas\<close>

text \<open>Row predicates depend on the database only through the tables they read, and on the
  referenced tables only through their keys.\<close>

lemma has_key_map: "map key xs = map key ys \<Longrightarrow> has_key key k xs = has_key key k ys"
  by (metis has_key_image list.set_map)

lemma keyed_map: "map key xs = map key ys \<Longrightarrow> keyed key xs = keyed key ys"
  by (simp add: keyed_def)

lemma db_ok_jobs_frame:
  assumes "map j_job_id js = map j_job_id (jobs db)" and ok: "db_ok cfg db"
  shows "db_ok cfg (db\<lparr>jobs := js\<rparr>)"
proof -
  have [simp]: "has_key j_job_id k js = has_key j_job_id k (jobs db)" for k
    using assms(1) by (rule has_key_map)
  have [simp]: "keyed j_job_id js = keyed j_job_id (jobs db)"
    using assms(1) by (rule keyed_map)
  show ?thesis using ok by (simp add: db_ok_def keys_inv_def row_inv_defs)
qed

text \<open>New rows in the unit, membership and result tables, under the same unit and membership
  keys.\<close>

lemma db_ok_frame:
  fixes ws ms rs db
  defines "db' \<equiv> db\<lparr>work_units := ws, job_unit_memberships := ms, unit_results := rs\<rparr>"
  assumes ids: "map w_work_unit_id ws = map w_work_unit_id (work_units db)"
    and mids: "map m_key ms = map m_key (job_unit_memberships db)"
    and ok: "db_ok cfg db" and rkeys: "keyed r_work_unit_id rs"
    and units: "\<And>w. w \<in> set ws \<Longrightarrow> unit_inv cfg db' w"
    and members: "\<And>m. m \<in> set ms \<Longrightarrow> member_inv db m"
    and results: "\<And>r. r \<in> set rs \<Longrightarrow> result_inv db r"
  shows "db_ok cfg db'"
proof -
  have [simp]: "has_key w_work_unit_id k ws = has_key w_work_unit_id k (work_units db)" for k
    using ids by (rule has_key_map)
  have [simp]: "keyed w_work_unit_id ws = keyed w_work_unit_id (work_units db)"
    using ids by (rule keyed_map)
  have [simp]: "keyed m_key ms = keyed m_key (job_unit_memberships db)"
    using mids by (rule keyed_map)
  have "result_inv db' r = result_inv db r" for r
    by (simp add: row_inv_defs db'_def)
  moreover have "binding_inv cfg db' b = binding_inv cfg db b" for b
    by (simp add: row_inv_defs db'_def)
  moreover have "member_inv db' m = member_inv db m" for m
    by (simp add: row_inv_defs db'_def)
  moreover have "backup_inv cfg db' bl = backup_inv cfg db bl" for bl
    by (simp add: row_inv_defs db'_def)
  ultimately show ?thesis
    using ok rkeys units members results by (simp add: db_ok_def keys_inv_def db'_def)
qed

lemma db_ok_units_frame:
  assumes ids: "map w_work_unit_id ws = map w_work_unit_id (work_units db)" and ok: "db_ok cfg db"
    and rows: "\<And>w. w \<in> set ws \<Longrightarrow> unit_inv cfg db w"
  shows "db_ok cfg (db\<lparr>work_units := ws\<rparr>)"
proof -
  have "unit_inv cfg (db\<lparr>work_units := ws\<rparr>) w" if "w \<in> set ws" for w
    using rows [OF that] by (simp add: row_inv_defs)
  then show ?thesis
    using db_ok_frame [OF ids refl ok, of "unit_results db"] ok db_okD [OF ok]
    by (simp add: keys_inv_def)
qed

lemma map_ids_update_where:
  assumes "\<And>w. w \<in> set xs \<Longrightarrow> p w \<Longrightarrow> key (f w) = key w"
  shows "map key (update_where p f xs) = map key xs"
  using assms by (auto simp: update_where_def)

section \<open>Job states\<close>

lemma jobs_ok_exceptD:
  "jobs_ok_except J db \<Longrightarrow> j \<in> set (jobs db) \<Longrightarrow> j_job_id j \<notin> J \<Longrightarrow> job_inv db j"
  by (auto simp: jobs_ok_except_def)

lemma job_inv_carry:
  assumes inv: "job_inv db j"
    and mem: "job_members db' (j_job_id j) = job_members db (j_job_id j)"
    and eff: "\<And>m. m \<in> set (job_members db (j_job_id j)) \<Longrightarrow>
                effective_state db' m = effective_state db m \<or> effective_state db' m = None"
  shows "job_inv db' j"
  unfolding job_inv_def
proof
  assume "settled db' (j_job_id j)"
  then have same: "effective_state db' m = effective_state db m" if "m \<in> set (job_members db (j_job_id j))" for m
    using eff [OF that] that by (auto simp: settled_def mem list_all_iff)
  then have "settled db (j_job_id j)"
    using \<open>settled db' (j_job_id j)\<close> by (auto simp: settled_def mem list_all_iff)
  moreover have "count_effective db' (j_job_id j) st = count_effective db (j_job_id j) st" for st
    unfolding count_effective_def mem using same by (metis (no_types, lifting) filter_cong)
  ultimately show "j_state j = next_job_state (COUNT_JOB_UNITS db' (j_job_id j))"
    using inv by (simp add: job_inv_def COUNT_JOB_UNITS_def mem)
qed

lemma jobs_ok_except_mono: "jobs_ok_except J db \<Longrightarrow> J \<subseteq> K \<Longrightarrow> jobs_ok_except K db"
  by (auto simp: jobs_ok_except_def)

text \<open>Methods change the units, memberships and results of some jobs only; for the others
  the stored state stays right.\<close>

lemma jobs_ok_carry:
  assumes "jobs_ok_except J db" and "jobs db' = jobs db"
    and "\<And>jid. jid \<notin> K \<Longrightarrow> job_members db' jid = job_members db jid"
    and "\<And>m. m \<in> set (job_unit_memberships db) \<Longrightarrow> m_job_id m \<notin> K \<Longrightarrow>
           effective_state db' m = effective_state db m \<or> effective_state db' m = None"
  shows "jobs_ok_except (J \<union> K) db'"
  unfolding jobs_ok_except_def
proof (intro ballI impI)
  fix j assume j: "j \<in> set (jobs db')" "j_job_id j \<notin> J \<union> K"
  then have "job_inv db j" using assms(1,2) by (simp add: jobs_ok_exceptD)
  then show "job_inv db' j"
    by (rule job_inv_carry) (use assms(3,4) j in \<open>auto simp: job_members_def\<close>)
qed

lemma effective_state_cong:
  "work_units db' = work_units db \<Longrightarrow> effective_state db' m = effective_state db m"
  by (simp add: effective_state_def split: option.split)

lemma effective_state_jobs [simp]: "effective_state (db\<lparr>jobs := js\<rparr>) m = effective_state db m"
  by (simp add: effective_state_def split: option.split)

lemma job_members_jobs [simp]: "job_members (db\<lparr>jobs := js\<rparr>) jid = job_members db jid"
  by (simp add: job_members_def)

lemma COUNT_JOB_UNITS_jobs [simp]: "COUNT_JOB_UNITS (db\<lparr>jobs := js\<rparr>) jid = COUNT_JOB_UNITS db jid"
  by (simp add: COUNT_JOB_UNITS_def count_effective_def)

lemma recompute_job_state_jobs_ok:
  assumes "jobs_ok_except (insert jid J) db"
  shows "jobs_ok_except J (recompute_job_state jid db)"
  using assms
  by (auto simp: jobs_ok_except_def recompute_job_state_def SET_JOB_STATE_def job_inv_def
      settled_def update_where_def split: if_splits)

lemma fold_recompute_jobs_ok:
  "jobs_ok_except (set jids \<union> J) db \<Longrightarrow> jobs_ok_except J (fold recompute_job_state jids db)"
  by (induction jids arbitrary: db) (simp_all add: recompute_job_state_jobs_ok)

lemma recompute_db_ok: "db_ok cfg db \<Longrightarrow> db_ok cfg (recompute_job_state jid db)"
  unfolding recompute_job_state_def SET_JOB_STATE_def
  by (rule db_ok_jobs_frame) (simp_all add: map_ids_update_where)

lemma fold_recompute_db_ok: "db_ok cfg db \<Longrightarrow> db_ok cfg (fold recompute_job_state jids db)"
  by (induction jids arbitrary: db) (simp_all add: recompute_db_ok)

text \<open>Recomputation touches nothing but the stored job states.\<close>

lemma recompute_job_state_tables [simp]:
  "work_units (recompute_job_state jid db) = work_units db"
  "unit_results (recompute_job_state jid db) = unit_results db"
  "result_payload_bindings (recompute_job_state jid db) = result_payload_bindings db"
  "job_unit_memberships (recompute_job_state jid db) = job_unit_memberships db"
  "backup_leases (recompute_job_state jid db) = backup_leases db"
  "job_finalizations (recompute_job_state jid db) = job_finalizations db"
  by (simp_all add: recompute_job_state_def SET_JOB_STATE_def)

lemma fold_recompute_tables [simp]:
  "work_units (fold recompute_job_state jids db) = work_units db"
  "unit_results (fold recompute_job_state jids db) = unit_results db"
  "result_payload_bindings (fold recompute_job_state jids db) = result_payload_bindings db"
  "job_unit_memberships (fold recompute_job_state jids db) = job_unit_memberships db"
  "backup_leases (fold recompute_job_state jids db) = backup_leases db"
  "job_finalizations (fold recompute_job_state jids db) = job_finalizations db"
  by (induction jids arbitrary: db) simp_all

text \<open>An update of units of the jobs in \<open>K\<close> leaves the effective states of the other jobs.\<close>

lemma effective_state_update_units:
  assumes "\<And>w. w_work_unit_id (f w) = w_work_unit_id w" and "\<And>w. w_job_id (f w) = w_job_id w"
    and "\<And>w. w \<in> set (work_units db) \<Longrightarrow> p w \<Longrightarrow> w_job_id w \<in> K"
    and "m_job_id m \<notin> K"
  shows "effective_state (db\<lparr>work_units := update_where p f (work_units db)\<rparr>) m = effective_state db m"
proof -
  have "row_of w_work_unit_id k (update_where p f (work_units db)) =
        map_option (\<lambda>w. if p w then f w else w) (unit_of db k)" for k
    by (rule row_of_update_where) (rule assms(1))
  moreover have "\<not> p w" if "unit_of db (m_work_unit_id m) = Some w" "w_job_id w = m_job_id m" for w
    using row_of_SomeD [OF that(1)] that(2) assms(3) [of w] assms(4) by auto
  ultimately show ?thesis
    using assms(2)
    by (cases "unit_of db (m_work_unit_id m)")
      (auto simp: effective_state_def split: option.split)
qed

lemma effective_state_update_same:
  assumes "\<And>w. w_work_unit_id (f w) = w_work_unit_id w" and "\<And>w. w_job_id (f w) = w_job_id w"
    and "\<And>w. w_state (f w) = w_state w"
  shows "effective_state (db\<lparr>work_units := update_where p f (work_units db)\<rparr>) m = effective_state db m"
proof -
  have "row_of w_work_unit_id k (update_where p f (work_units db)) =
        map_option (\<lambda>w. if p w then f w else w) (unit_of db k)" for k
    by (rule row_of_update_where) (rule assms(1))
  then show ?thesis
    using assms
    by (cases "unit_of db (m_work_unit_id m)")
      (simp_all add: effective_state_def split: option.split)
qed

section \<open>Leasing\<close>

lemma in_units_join_jobs:
  "(w, j) \<in> set (units_join_jobs db) \<longleftrightarrow>
     w \<in> set (work_units db) \<and> j \<in> set (jobs db) \<and> j_job_id j = w_job_id w"
  by (auto simp: units_join_jobs_def)

lemma SELECT_LEASE_CANDIDATE_SomeD:
  assumes "SELECT_LEASE_CANDIDATE db models = Some (w, j)"
  shows "w \<in> set (work_units db)" "j \<in> set (jobs db)" "j_job_id j = w_job_id w"
    "w_state w = PENDING" "j_model_id j \<in> set models"
  using min_key_in [OF assms [unfolded SELECT_LEASE_CANDIDATE_def]]
  by (auto simp: in_units_join_jobs)

lemma unit_inv_claim:
  "unit_inv cfg db w \<Longrightarrow> w_state w = PENDING \<Longrightarrow>
     unit_inv cfg db (w\<lparr>w_state := LEASED, w_attempts := w_attempts w + 1,
                        w_lease_agent := Some agent, w_lease_expires := Some e\<rparr>)"
  by (auto simp: unit_inv_def lease_fields_ok_def owner_records_def terminal_of_def)

lemma claim_db_ok: "db_ok cfg db \<Longrightarrow> db_ok cfg (fst (CLAIM_UNIT agent e uid db))"
  unfolding CLAIM_UNIT_def fst_conv
  by (rule db_ok_units_frame)
    (auto simp: map_ids_update_where in_update_where unit_inv_claim db_okD split: if_splits)

lemma claim_jobs_ok:
  assumes "jobs_ok_except {} db" and "keyed w_work_unit_id (work_units db)"
    and "w \<in> set (work_units db)"
  shows "jobs_ok_except {w_job_id w} (fst (CLAIM_UNIT agent e (w_work_unit_id w) db))"
proof -
  have "jobs_ok_except ({} \<union> {w_job_id w}) (fst (CLAIM_UNIT agent e (w_work_unit_id w) db))"
  proof (rule jobs_ok_carry [OF assms(1)])
    show "effective_state (fst (CLAIM_UNIT agent e (w_work_unit_id w) db)) m = effective_state db m \<or>
          effective_state (fst (CLAIM_UNIT agent e (w_work_unit_id w) db)) m = None"
      if "m_job_id m \<notin> {w_job_id w}" for m
      unfolding CLAIM_UNIT_def fst_conv
      by (rule disjI1, rule effective_state_update_units [OF _ _ _ that])
        (use keyed_eq [OF assms(2) assms(3)] in \<open>auto dest: sym\<close>)
  qed (simp_all add: CLAIM_UNIT_def job_members_def)
  then show ?thesis by simp
qed

text \<open>Every branch of \<open>lease_next\<close>: no candidate and no change, or the chosen unit claimed.\<close>

lemma lease_next_eq:
  assumes "keyed w_work_unit_id (work_units db)"
  shows "lease_next cfg now db agent models =
    (if models = [] then (db, None, [])
     else case SELECT_LEASE_CANDIDATE db models of
       None \<Rightarrow> (db, None, [])
     | Some (w, j) \<Rightarrow>
         (recompute_job_state (w_job_id w)
            (fst (CLAIM_UNIT agent (lease_expiry now (w_est_duration_s w) (default_lease_s cfg))
                    (w_work_unit_id w) db)),
          Some \<lparr>wl_work_unit_id = w_work_unit_id w, wl_job_id = w_job_id w, wl_kind = j_kind j,
                wl_model_id = j_model_id j, wl_input_url = w_input_ref w,
                wl_lease_expires = lease_expiry now (w_est_duration_s w) (default_lease_s cfg),
                wl_attempt = w_attempts w + 1, wl_est_duration_s = w_est_duration_s w\<rparr>,
          [\<lparr>ut_work_unit_id = w_work_unit_id w, ut_job_id = w_job_id w, ut_agent_id = agent,
            ut_attempt = w_attempts w + 1, ut_state = LEASED, ut_at = now\<rparr>]))"
proof (cases "SELECT_LEASE_CANDIDATE db models")
  case (Some wj)
  obtain w j where wj: "wj = (w, j)" by (cases wj)
  have "unit_of db (w_work_unit_id w) = Some w" "w_state w = PENDING"
    using SELECT_LEASE_CANDIDATE_SomeD [OF Some [unfolded wj]] row_of_eq [OF assms] by auto
  then show ?thesis by (simp add: lease_next_def Some wj CLAIM_UNIT_def Let_def)
qed (simp add: lease_next_def)

lemma lease_next_inv:
  assumes "queue_inv cfg db"
  shows "queue_inv cfg (fst (lease_next cfg now db agent models))"
proof -
  have ok: "db_ok cfg db" "jobs_ok_except {} db" using assms by (simp_all add: queue_inv_def)
  then have key: "keyed w_work_unit_id (work_units db)" by (simp add: db_ok_def keys_inv_def)
  show ?thesis
  proof (cases "models = [] \<or> SELECT_LEASE_CANDIDATE db models = None")
    case True
    then show ?thesis using assms by (auto simp: lease_next_def)
  next
    case False
    then obtain w j where wj: "SELECT_LEASE_CANDIDATE db models = Some (w, j)" by auto
    note w = SELECT_LEASE_CANDIDATE_SomeD(1) [OF wj]
    show ?thesis using False
      by (auto simp: lease_next_eq [OF key] wj queue_inv_def
          intro!: recompute_db_ok claim_db_ok ok recompute_job_state_jobs_ok claim_jobs_ok key w)
  qed
qed

lemma extend_leases_inv:
  assumes "queue_inv cfg db" shows "queue_inv cfg (extend_leases cfg now db agent uids)"
proof (cases "uids = []")
  case False
  have ok: "db_ok cfg db" "jobs_ok_except {} db" using assms by (simp_all add: queue_inv_def)
  let ?e = "lease_expiry now None (default_lease_s cfg)"
  have "db_ok cfg (EXTEND_LEASES ?e agent uids db)"
    unfolding EXTEND_LEASES_def
    by (rule db_ok_units_frame)
      (auto simp: map_ids_update_where in_update_where unit_inv_def lease_fields_ok_def
        owner_records_def ok dest!: db_okD(2) [OF ok(1)] split: if_splits)
  moreover have "jobs_ok_except ({} \<union> {}) (EXTEND_LEASES ?e agent uids db)"
    unfolding EXTEND_LEASES_def
    by (rule jobs_ok_carry [OF ok(2)]) (simp_all add: job_members_def effective_state_update_same)
  ultimately show ?thesis using False by (simp add: queue_inv_def extend_leases_def)
qed (use assms in \<open>simp add: extend_leases_def\<close>)

section \<open>Backups and payload bindings\<close>

lemma jobs_ok_same_units:
  assumes "jobs_ok_except J db" and "jobs db' = jobs db" and "work_units db' = work_units db"
    and "job_unit_memberships db' = job_unit_memberships db"
  shows "jobs_ok_except J db'"
proof -
  have "effective_state db' m = effective_state db m" for m
    using assms(3) by (simp add: effective_state_def split: option.split)
  then have "jobs_ok_except (J \<union> {}) db'"
    using assms by (intro jobs_ok_carry [OF assms(1)]) (simp_all add: job_members_def)
  then show ?thesis by simp
qed

lemma SELECT_BACKUP_LEASE_TARGET_SomeD:
  assumes "SELECT_BACKUP_LEASE_TARGET db uid agent = Some (w, j)"
  shows "w \<in> set (work_units db)" "j \<in> set (jobs db)" "j_job_id j = w_job_id w"
    "w_work_unit_id w = uid" "w_state w = LEASED" "w_lease_agent w \<noteq> None"
    "w_lease_agent w \<noteq> Some agent"
  using find_SomeD [OF assms [unfolded SELECT_BACKUP_LEASE_TARGET_def]]
  by (auto simp: in_units_join_jobs)

lemma insert_backup_db_ok:
  assumes ok: "db_ok cfg db" and w: "w \<in> set (work_units db)" "w_work_unit_id w = bl_work_unit_id bl"
    "w_state w = LEASED" and j: "has_key j_job_id (bl_job_id bl) (jobs db)"
    and att: "bl_attempt bl = backup_attempt cfg"
  shows "db_ok cfg (fst (INSERT_BACKUP_LEASE bl db))"
proof (cases "has_key bl_work_unit_id (bl_work_unit_id bl) (backup_leases db)")
  case False
  let ?db = "db\<lparr>backup_leases := backup_leases db @ [bl]\<rparr>"
  have "db_ok cfg ?db"
  proof (rule db_okI)
    show "keys_inv ?db" using db_okD(1) [OF ok] False by (simp add: keys_inv_def keyed_append)
    show "unit_inv cfg ?db v" if "v \<in> set (work_units ?db)" for v
    proof -
      have "v = w" if "w_work_unit_id v = bl_work_unit_id bl"
        using that keyed_eq [of w_work_unit_id "work_units db" v w] \<open>v \<in> set (work_units ?db)\<close> w
          db_okD(1) [OF ok] by (simp add: keys_inv_def)
      then show ?thesis
        using db_okD(2) [OF ok, of v] that w by (auto simp: row_inv_defs lease_fields_ok_def)
    qed
    show "backup_inv cfg ?db b" if "b \<in> set (backup_leases ?db)" for b
      using that w j att db_okD(6) [OF ok, of b] by (auto simp: backup_inv_def)
    show "binding_inv cfg ?db c" if "c \<in> set (result_payload_bindings ?db)" for c
      using db_okD(4) [OF ok, of c] that by (auto simp: binding_inv_def holds_backup_def)
  qed (use db_okD [OF ok] in \<open>simp_all add: result_inv_def member_inv_def result_bound_def\<close>)
  then show ?thesis using False by (simp add: INSERT_BACKUP_LEASE_def insert_ignore_def)
qed (use ok in \<open>simp add: INSERT_BACKUP_LEASE_def insert_ignore_def\<close>)

lemma lease_backup_inv:
  assumes "queue_inv cfg db" shows "queue_inv cfg (fst (lease_backup cfg now db agent uid))"
proof (cases "SELECT_BACKUP_LEASE_TARGET db uid agent")
  case (Some wj)
  obtain w j where wj: "wj = (w, j)" by (cases wj)
  define bl where "bl = \<lparr>bl_work_unit_id = uid, bl_job_id = w_job_id w, bl_agent_id = agent,
    bl_attempt = backup_attempt cfg,
    bl_lease_expires = lease_expiry now (w_est_duration_s w) (default_lease_s cfg),
    bl_created_at = now\<rparr>"
  note t = SELECT_BACKUP_LEASE_TARGET_SomeD [OF Some [unfolded wj]]
  have "fst (lease_backup cfg now db agent uid) = fst (INSERT_BACKUP_LEASE bl db)"
    by (simp add: lease_backup_def Some wj bl_def Let_def INSERT_BACKUP_LEASE_def)
  moreover have "db_ok cfg (fst (INSERT_BACKUP_LEASE bl db))"
    using assms t by (intro insert_backup_db_ok [of _ _ w]) (auto simp: queue_inv_def bl_def)
  moreover have "jobs_ok_except {} (fst (INSERT_BACKUP_LEASE bl db))"
    by (rule jobs_ok_same_units [of _ db]) (use assms in \<open>auto simp: queue_inv_def INSERT_BACKUP_LEASE_def\<close>)
  ultimately show ?thesis by (simp add: queue_inv_def)
qed (use assms in \<open>simp add: lease_backup_def\<close>)

lemma holds_leaseE:
  assumes "holds_lease db agent uid att"
  obtains w where "w \<in> set (work_units db)" "w_work_unit_id w = uid" "w_state w = LEASED"
    "w_lease_agent w = Some agent" "w_attempts w = att"
  using assms by (auto simp: holds_lease_def list_ex_iff)

lemma insert_binding_db_ok:
  assumes ok: "db_ok cfg db" and auth: "p \<Longrightarrow> binding_inv cfg db b"
  shows "db_ok cfg (fst (insert_binding p b db))"
proof (cases "p \<and> \<not> has_key b_key (b_key b) (result_payload_bindings db)")
  case True
  let ?db = "db\<lparr>result_payload_bindings := result_payload_bindings db @ [b]\<rparr>"
  have "db_ok cfg ?db"
  proof (rule db_okI)
    show "keys_inv ?db" using db_okD(1) [OF ok] True by (simp add: keys_inv_def keyed_append)
    show "unit_inv cfg ?db w" if "w \<in> set (work_units ?db)" for w
      using db_okD(2) [OF ok, of w] that by (simp add: unit_inv_def owner_records_def finalized_def)
    show "result_inv ?db r" if "r \<in> set (unit_results ?db)" for r
      using db_okD(3) [OF ok, of r] that by (auto simp: result_inv_def result_bound_def)
    show "binding_inv cfg ?db c" if "c \<in> set (result_payload_bindings ?db)" for c
      using db_okD(4) [OF ok, of c] auth True that by (auto simp: binding_inv_def holds_backup_def)
  qed (use db_okD [OF ok] in \<open>simp_all add: member_inv_def backup_inv_def\<close>)
  then show ?thesis using True by (simp add: insert_binding_def)
qed (use ok in \<open>auto simp: insert_binding_def\<close>)

lemma binding_inv_primary:
  assumes ok: "db_ok cfg db" and "holds_lease db (b_agent_id b) (b_work_unit_id b) (b_attempt b)"
  shows "binding_inv cfg db b"
proof -
  obtain w where w: "w \<in> set (work_units db)" "w_work_unit_id w = b_work_unit_id b"
    "w_state w = LEASED" "w_attempts w = b_attempt b" using assms(2) by (rule holds_leaseE)
  then show ?thesis
    using db_okD(2) [OF ok w(1)] by (auto simp: binding_inv_def unit_inv_def lease_fields_ok_def)
qed

lemma binding_inv_backup:
  assumes ok: "db_ok cfg db" and "queue_cfg_ok cfg"
    and "holds_backup db (b_agent_id b) (b_work_unit_id b) (b_attempt b)"
  shows "binding_inv cfg db b"
proof -
  obtain bl where bl: "bl \<in> set (backup_leases db)" "bl_work_unit_id bl = b_work_unit_id b"
    "bl_attempt bl = b_attempt b"
    using assms(3) by (auto simp: holds_backup_def list_ex_iff)
  then show ?thesis
    using db_okD(6) [OF ok bl(1)] assms(2,3)
    by (simp add: binding_inv_def backup_inv_def backup_attempt_def queue_cfg_ok_def)
qed

lemma insert_binding_tables [simp]:
  "jobs (fst (insert_binding p b db)) = jobs db"
  "work_units (fst (insert_binding p b db)) = work_units db"
  "unit_results (fst (insert_binding p b db)) = unit_results db"
  "job_unit_memberships (fst (insert_binding p b db)) = job_unit_memberships db"
  "backup_leases (fst (insert_binding p b db)) = backup_leases db"
  by (simp_all add: insert_binding_def)

lemma insert_binding_inv:
  assumes "queue_inv cfg db" and "p \<Longrightarrow> binding_inv cfg db b"
  shows "queue_inv cfg (fst (insert_binding p b db))"
proof -
  have "jobs_ok_except {} (fst (insert_binding p b db))"
    by (rule jobs_ok_same_units [of _ db]) (use assms in \<open>simp_all add: queue_inv_def\<close>)
  then show ?thesis using assms by (simp add: queue_inv_def insert_binding_db_ok)
qed

lemma bind_result_payload_inv:
  assumes "queue_cfg_ok cfg" and "queue_inv cfg db"
  shows "queue_inv cfg (fst (bind_result_payload now db agent uid attempt digest ref))"
proof -
  define b where "b = \<lparr>b_work_unit_id = uid, b_agent_id = agent, b_attempt = attempt,
    b_digest = digest, b_result_ref = ref, b_accepted_at = now\<rparr>"
  have 1: "queue_inv cfg (fst (BIND_RESULT_PAYLOAD b db))"
    using assms unfolding BIND_RESULT_PAYLOAD_def
    by (intro insert_binding_inv) (auto simp: queue_inv_def intro: binding_inv_primary)
  have 2: "queue_inv cfg (fst (BIND_RESULT_PAYLOAD_BACKUP b d))" if "queue_inv cfg d" for d
    using assms that unfolding BIND_RESULT_PAYLOAD_BACKUP_def
    by (intro insert_binding_inv) (auto simp: queue_inv_def intro: binding_inv_backup)
  show ?thesis
    using 1 2 [OF 1]
    by (simp add: bind_result_payload_def b_def [symmetric] Let_def case_prod_beta)
qed

section \<open>Completion\<close>

lemma terminal_of_simps [simp]:
  "terminal_of DONE = Some DONE" "terminal_of DEAD = Some DEAD"
  "terminal_of PENDING = None" "terminal_of LEASED = None"
  by (simp_all add: terminal_of_def)

lemma owner_recordsE:
  assumes "owner_records db w"
  obtains m where "m \<in> set (job_unit_memberships db)" "m_job_id m = w_job_id w"
    "m_work_unit_id m = w_work_unit_id w" "m_terminal_state m = terminal_of (w_state w)"
  using assms by (auto simp: owner_records_def list_ex_iff)

text \<open>The tables \<open>finalize_unit\<close> writes before it recomputes the job.\<close>

definition finalized_db :: "result_row \<Rightarrow> unit_row \<Rightarrow> queue_db \<Rightarrow> queue_db" where
  "finalized_db p w db =
     MARK_JOB_UNIT_TERMINAL (w_job_id w) (r_work_unit_id p) DONE (Some (r_status p))
       (if r_status p = SUCCEEDED then r_result_ref p else None)
       (MARK_UNIT_DONE (r_work_unit_id p) (INSERT_RESULT p db))"

lemma finalize_unit_eq: "finalize_unit p w db = recompute_job_state (w_job_id w) (finalized_db p w db)"
  by (simp add: finalize_unit_def finalized_db_def)

lemma finalized_db_ok:
  assumes ok: "db_ok cfg db" and w: "w \<in> set (work_units db)" "w_work_unit_id w = r_work_unit_id p"
    and new: "\<not> finalized db (r_work_unit_id p)"
    and bound: "r_status p = SUCCEEDED \<Longrightarrow> r_result_ref p \<noteq> None \<and> result_bound db p"
  shows "db_ok cfg (finalized_db p w db)"
proof -
  let ?ws = "update_where (\<lambda>v. w_work_unit_id v = r_work_unit_id p) (\<lambda>v. v\<lparr>w_state := DONE\<rparr>) (work_units db)"
  let ?q = "\<lambda>m. m_job_id m = w_job_id w \<and> m_work_unit_id m = r_work_unit_id p"
  let ?g = "\<lambda>m. m\<lparr>m_terminal_state := Some DONE, m_result_status := Some (r_status p),
            m_result_ref := (if r_status p = SUCCEEDED then r_result_ref p else None)\<rparr>"
  let ?ms = "update_where ?q ?g (job_unit_memberships db)"
  let ?rs = "unit_results db @ [p]"
  let ?db = "db\<lparr>work_units := ?ws, job_unit_memberships := ?ms, unit_results := ?rs\<rparr>"
  have nokey: "\<not> has_key r_work_unit_id (r_work_unit_id p) (unit_results db)"
    using new by (simp add: finalized_def)
  have only: "v = w" if "v \<in> set (work_units db)" "w_work_unit_id v = r_work_unit_id p" for v
    using that w keyed_eq [of w_work_unit_id "work_units db" v w] db_okD(1) [OF ok]
    by (simp add: keys_inv_def)
  have "finalized_db p w db = ?db"
    using nokey by (simp add: finalized_db_def sql_update_defs insert_ignore_def)
  moreover have "db_ok cfg ?db"
  proof (rule db_ok_frame [OF _ _ ok])
    show "unit_inv cfg ?db v" if v: "v \<in> set ?ws" for v
    proof -
      obtain u where u: "u \<in> set (work_units db)"
        "v = (if w_work_unit_id u = r_work_unit_id p then u\<lparr>w_state := DONE\<rparr> else u)"
        using v by (auto simp: in_update_where)
      then have inv: "unit_inv cfg db u" using db_okD(2) [OF ok] by simp
      obtain m where m: "m \<in> set (job_unit_memberships db)" "m_job_id m = w_job_id u"
        "m_work_unit_id m = w_work_unit_id u" "m_terminal_state m = terminal_of (w_state u)"
        using owner_recordsE [of db u] inv by (metis unit_inv_def)
      let ?m = "if ?q m then ?g m else m"
      have "?m \<in> set ?ms" using m(1) by (rule in_update_whereI)
      moreover have "m_key ?m = (w_job_id v, w_work_unit_id v) \<and>
          m_terminal_state ?m = terminal_of (w_state v)"
        using m u(2) only [OF u(1)] by auto
      ultimately have "owner_records ?db v"
        unfolding owner_records_def list_ex_iff by (intro bexI [of _ ?m]) simp_all
      then show ?thesis
        using inv u(2) by (auto simp: unit_inv_def lease_fields_ok_def finalized_def split: work_unit_state.splits)
    qed
    show "member_inv db m" if m: "m \<in> set ?ms" for m
    proof -
      obtain n where "n \<in> set (job_unit_memberships db)" "m = (if ?q n then ?g n else n)"
        using m by (auto simp: in_update_where)
      then show ?thesis using db_okD(5) [OF ok, of n] bound by (auto simp: member_inv_def)
    qed
    show "result_inv db r" if "r \<in> set ?rs" for r
      using that db_okD(3) [OF ok, of r] w bound by (auto simp: result_inv_def)
  qed (use nokey db_okD(1) [OF ok] in \<open>simp_all add: map_ids_update_where keys_inv_def keyed_append\<close>)
  ultimately show ?thesis by simp
qed

lemma job_members_other:
  assumes "\<And>m. p m \<Longrightarrow> m_job_id m \<noteq> jid" and "\<And>m. m_job_id (f m) = m_job_id m"
  shows "filter (\<lambda>m. m_job_id m = jid) (update_where p f ms) = filter (\<lambda>m. m_job_id m = jid) ms"
  using assms by (induction ms) (auto simp: update_where_def)

text \<open>The jobs whose units or memberships an operation writes are the only ones to recompute.\<close>

lemma jobs_ok_update:
  assumes "jobs_ok_except J db"
    and units: "\<And>w. w_work_unit_id (f w) = w_work_unit_id w" "\<And>w. w_job_id (f w) = w_job_id w"
      "\<And>w. w \<in> set (work_units db) \<Longrightarrow> p w \<Longrightarrow> w_job_id w \<in> K"
    and members: "\<And>m. q m \<Longrightarrow> m_job_id m \<in> K" "\<And>m. m_job_id (g m) = m_job_id m"
    and tables: "jobs db' = jobs db" "work_units db' = update_where p f (work_units db)"
      "job_unit_memberships db' = update_where q g (job_unit_memberships db)"
  shows "jobs_ok_except (J \<union> K) db'"
proof (rule jobs_ok_carry [OF assms(1) tables(1)])
  show "job_members db' jid = job_members db jid" if "jid \<notin> K" for jid
    unfolding job_members_def tables(3)
    by (rule job_members_other) (use members that in auto)
  show "effective_state db' m = effective_state db m \<or> effective_state db' m = None"
    if "m_job_id m \<notin> K" for m
    using effective_state_update_units [where p = p and f = f, OF units that, of db] tables(2)
    by (simp add: effective_state_cong [of db' "db\<lparr>work_units := update_where p f (work_units db)\<rparr>"])
qed

lemma finalize_unit_inv:
  assumes inv: "queue_inv cfg db" and w: "w \<in> set (work_units db)" "w_work_unit_id w = r_work_unit_id p"
    and new: "\<not> finalized db (r_work_unit_id p)"
    and bound: "r_status p = SUCCEEDED \<Longrightarrow> r_result_ref p \<noteq> None \<and> result_bound db p"
  shows "queue_inv cfg (finalize_unit p w db)"
proof -
  have ok: "db_ok cfg db" "jobs_ok_except {} db" using inv by (simp_all add: queue_inv_def)
  have key: "keyed w_work_unit_id (work_units db)" using ok by (simp add: db_ok_def keys_inv_def)
  have "jobs_ok_except ({} \<union> {w_job_id w}) (finalized_db p w db)"
    by (rule jobs_ok_update [OF ok(2), where p = "\<lambda>v. w_work_unit_id v = r_work_unit_id p"
          and f = "\<lambda>v. v\<lparr>w_state := DONE\<rparr>"
          and q = "\<lambda>m. m_job_id m = w_job_id w \<and> m_work_unit_id m = r_work_unit_id p"])
      (use keyed_eq [OF key _ w(1)] w(2) in \<open>auto simp: finalized_db_def sql_update_defs\<close>)
  then show ?thesis
    using finalized_db_ok [OF ok(1) w new bound]
    by (simp add: finalize_unit_eq queue_inv_def recompute_db_ok recompute_job_state_jobs_ok)
qed

lemma binding_accepted_bound:
  assumes "SELECT_RESULT_BINDING_FOR_COMPLETION db agent uid attempt (wr_result_ref res)"
    and "uid = wr_work_unit_id res"
  shows "wr_result_ref res \<noteq> None" and "result_bound db (result_row_params res agent now)"
proof -
  obtain b where b: "b \<in> set (result_payload_bindings db)" "b_work_unit_id b = wr_work_unit_id res"
    "b_agent_id b = agent" "Some (b_result_ref b) = wr_result_ref res"
    using assms by (auto simp: SELECT_RESULT_BINDING_FOR_COMPLETION_def list_ex_iff)
  show "wr_result_ref res \<noteq> None" using b(4) by (metis option.distinct(1))
  show "result_bound db (result_row_params res agent now)"
    using b by (auto simp: result_bound_def result_row_params_def list_ex_iff)
qed

text \<open>The branches of \<open>complete_unit\<close>: nothing is written, or the unit is finalized by a holder
  whose payload, for a success, is bound.\<close>

lemma complete_unit_cases:
  obtains (unchanged) "fst (complete_unit now db agent attempt res) = db"
      "snd (snd (complete_unit now db agent attempt res)) = []"
  | (finalizes) w where "unit_of db (wr_work_unit_id res) = Some w"
      "\<not> finalized db (wr_work_unit_id res)"
      "completion_accepted agent attempt w \<or> backup_role db (wr_work_unit_id res) agent attempt w"
      "wr_status res = SUCCEEDED \<Longrightarrow>
         SELECT_RESULT_BINDING_FOR_COMPLETION db agent (wr_work_unit_id res) attempt (wr_result_ref res)"
      "complete_unit now db agent attempt res =
         (finalize_unit (result_row_params res agent now) w db, True,
          [\<lparr>ut_work_unit_id = wr_work_unit_id res, ut_job_id = w_job_id w, ut_agent_id = agent,
            ut_attempt = w_attempts w, ut_state = DONE, ut_at = now\<rparr>])"
proof (cases "unit_of db (wr_work_unit_id res)")
  case None
  then show ?thesis using unchanged by (simp add: complete_unit_def)
next
  case (Some w)
  let ?uid = "wr_work_unit_id res"
  let ?primary = "completion_accepted agent attempt w"
  let ?bound = "if ?primary
    then SELECT_RESULT_BINDING_FOR_COMPLETION db agent ?uid attempt (wr_result_ref res)
    else SELECT_BACKUP_BINDING_FOR_COMPLETION db agent ?uid attempt (wr_result_ref res)"
  show ?thesis
  proof (cases "finalized db ?uid \<or> \<not> (?primary \<or> backup_role db ?uid agent attempt w) \<or>
      wr_status res = SUCCEEDED \<and> \<not> ?bound")
    case True
    then show ?thesis
      by (intro unchanged) (auto simp: complete_unit_def Let_def Some)
  next
    case False
    then show ?thesis
      by (intro finalizes [OF Some])
        (auto simp: complete_unit_def Let_def Some SELECT_BACKUP_BINDING_FOR_COMPLETION_def
          split: if_splits)
  qed
qed

lemma complete_unit_inv:
  assumes "queue_inv cfg db"
  shows "queue_inv cfg (fst (complete_unit now db agent attempt res))"
proof (cases rule: complete_unit_cases [of now db agent attempt res])
  case unchanged
  then show ?thesis using assms by simp
next
  case (finalizes w)
  have "queue_inv cfg (finalize_unit (result_row_params res agent now) w db)"
    by (rule finalize_unit_inv [OF assms])
      (use row_of_SomeD [OF finalizes(1)] finalizes(2)
         binding_accepted_bound [OF finalizes(4) refl]
       in \<open>auto simp: result_row_params_def\<close>)
  then show ?thesis by (simp add: finalizes(5))
qed

section \<open>Requeueing\<close>

abbreviation mark_dead :: "membership_row \<Rightarrow> membership_row" where
  "mark_dead m \<equiv> m\<lparr>m_terminal_state := Some DEAD, m_result_status := None, m_result_ref := None\<rparr>"

abbreviation t_key :: "unit_transition \<Rightarrow> ident \<times> ident" where
  "t_key t \<equiv> (ut_job_id t, ut_work_unit_id t)"

lemma fold_mark_dead:
  "fold (\<lambda>t. MARK_JOB_UNIT_TERMINAL (ut_job_id t) (ut_work_unit_id t) DEAD None None) ts db =
   db\<lparr>job_unit_memberships :=
       update_where (\<lambda>m. m_key m \<in> t_key ` set ts) mark_dead (job_unit_memberships db)\<rparr>"
proof (induction ts arbitrary: db)
  case (Cons t ts)
  show ?case
    unfolding fold_simps Cons.IH
    by (simp add: MARK_JOB_UNIT_TERMINAL_def update_where_twice)
qed simp

text \<open>The first branch: leases below the retry budget go back to the pending pool.\<close>

lemma to_pending_db_ok:
  assumes ok: "db_ok cfg db" and sel: "\<And>w. p w \<Longrightarrow> w_state w = LEASED \<and> w_attempts w < max_attempts cfg"
  shows "db_ok cfg (db\<lparr>work_units := update_where p (\<lambda>w. w\<lparr>w_state := PENDING\<rparr>) (work_units db)\<rparr>)"
proof (rule db_ok_units_frame [OF _ ok])
  fix v assume "v \<in> set (update_where p (\<lambda>w. w\<lparr>w_state := PENDING\<rparr>) (work_units db))"
  then obtain w where w: "w \<in> set (work_units db)" "v = (if p w then w\<lparr>w_state := PENDING\<rparr> else w)"
    by (auto simp: in_update_where)
  show "unit_inv cfg db v"
    using db_okD(2) [OF ok w(1)] w(2) sel [of w]
    by (auto simp: unit_inv_def lease_fields_ok_def owner_records_def)
qed (simp add: map_ids_update_where)

text \<open>The second branch: leases that spent the budget die, and their owners record it.\<close>

lemma to_dead_db_ok:
  assumes ok: "db_ok cfg db" and sel: "\<And>w. p w \<Longrightarrow> w_state w = LEASED \<and> max_attempts cfg \<le> w_attempts w"
    and keys: "K = (\<lambda>w. (w_job_id w, w_work_unit_id w)) ` {w \<in> set (work_units db). p w}"
  shows "db_ok cfg (db\<lparr>work_units := update_where p (\<lambda>w. w\<lparr>w_state := DEAD\<rparr>) (work_units db),
    job_unit_memberships := update_where (\<lambda>m. m_key m \<in> K) mark_dead (job_unit_memberships db)\<rparr>)"
    (is "db_ok cfg (db\<lparr>work_units := ?ws, job_unit_memberships := ?ms\<rparr>)")
proof -
  let ?db = "db\<lparr>work_units := ?ws, job_unit_memberships := ?ms, unit_results := unit_results db\<rparr>"
  have key: "keyed w_work_unit_id (work_units db)" using ok by (simp add: db_ok_def keys_inv_def)
  have "db_ok cfg ?db"
  proof (rule db_ok_frame [OF _ _ ok])
    fix v assume "v \<in> set ?ws"
    then obtain w where w: "w \<in> set (work_units db)" "v = (if p w then w\<lparr>w_state := DEAD\<rparr> else w)"
      by (auto simp: in_update_where)
    have inv: "unit_inv cfg db w" by (rule db_okD(2) [OF ok w(1)])
    then have "owner_records db w" by (simp add: unit_inv_def)
    then obtain m where m: "m \<in> set (job_unit_memberships db)" "m_job_id m = w_job_id w"
      "m_work_unit_id m = w_work_unit_id w" "m_terminal_state m = terminal_of (w_state w)"
      by (rule owner_recordsE)
    have "p w" if "v \<in> set (work_units db)" "p v" "m_work_unit_id m = w_work_unit_id v" for v
      using keyed_eq [OF key that(1) w(1)] that m(3) by simp
    then have dead: "m_key m \<in> K \<longleftrightarrow> p w" using m(2,3) w(1) unfolding keys by force
    let ?m = "if m_key m \<in> K then mark_dead m else m"
    have "?m \<in> set ?ms" using m(1) by (rule in_update_whereI)
    moreover have "m_key ?m = (w_job_id v, w_work_unit_id v) \<and>
        m_terminal_state ?m = terminal_of (w_state v)"
      unfolding dead using m w(2) by auto
    ultimately have "owner_records ?db v"
      unfolding owner_records_def list_ex_iff by (intro bexI [of _ ?m]) simp_all
    then show "unit_inv cfg ?db v"
      using inv w(2) sel [of w]
      by (auto simp: unit_inv_def lease_fields_ok_def finalized_def)
  next
    fix m assume "m \<in> set ?ms"
    then obtain n where n: "n \<in> set (job_unit_memberships db)"
      "m = (if m_key n \<in> K then mark_dead n else n)"
      by (auto simp: in_update_where)
    show "member_inv db m" using db_okD(5) [OF ok n(1)] n(2) by (auto simp: member_inv_def)
  qed (use db_okD [OF ok] in \<open>simp_all add: map_ids_update_where keys_inv_def\<close>)
  then show ?thesis by simp
qed

lemma requeue_inv:
  assumes inv: "queue_inv cfg db" and sel: "\<And>w. sel w \<Longrightarrow> w_state w = LEASED"
  shows "queue_inv cfg (fst (requeue cfg sel now db))"
proof -
  have ok: "db_ok cfg db" "jobs_ok_except {} db" using inv by (simp_all add: queue_inv_def)
  define p where "p = (\<lambda>w. sel w \<and> w_attempts w < max_attempts cfg)"
  define q where "q = (\<lambda>w. sel w \<and> max_attempts cfg \<le> w_attempts w)"
  define db1 where "db1 = db\<lparr>work_units := update_where p (\<lambda>w. w\<lparr>w_state := PENDING\<rparr>) (work_units db)\<rparr>"
  define pend where "pend = map (transition_of PENDING now) (filter p (work_units db))"
  define dead where "dead = map (transition_of DEAD now) (filter q (work_units db1))"
  define K where "K = t_key ` set dead"
  define db2 where "db2 = db1\<lparr>work_units := update_where q (\<lambda>w. w\<lparr>w_state := DEAD\<rparr>) (work_units db1),
    job_unit_memberships := update_where (\<lambda>m. m_key m \<in> K) mark_dead (job_unit_memberships db1)\<rparr>"
  let ?jids = "remdups (map ut_job_id (sort_key ut_work_unit_id (pend @ dead)))"
  have eq: "fst (requeue cfg sel now db) = fold recompute_job_state ?jids db2"
    unfolding requeue_def run_requeue_branch_def Let_def prod.case p_def [symmetric]
      q_def [symmetric] db1_def [symmetric] pend_def [symmetric] dead_def [symmetric]
    by (simp add: fold_mark_dead db2_def K_def)
  have ok1: "db_ok cfg db1"
    unfolding db1_def by (rule to_pending_db_ok [OF ok(1)]) (auto simp: p_def sel)
  have "K = (\<lambda>w. (w_job_id w, w_work_unit_id w)) ` {w \<in> set (work_units db1). q w}"
    by (auto simp: K_def dead_def transition_of_def image_image image_def)
  then have ok2: "db_ok cfg db2"
    unfolding db2_def by (intro to_dead_db_ok [OF ok1]) (auto simp: q_def sel)
  have "jobs_ok_except ({} \<union> ut_job_id ` set pend) db1"
    by (rule jobs_ok_update [OF ok(2), where p = p and f = "\<lambda>w. w\<lparr>w_state := PENDING\<rparr>"
          and q = "\<lambda>_. False" and g = id])
      (auto simp: db1_def pend_def transition_of_def image_image)
  then have "jobs_ok_except (({} \<union> ut_job_id ` set pend) \<union> ut_job_id ` set dead) db2"
    by (rule jobs_ok_update [where p = q and f = "\<lambda>w. w\<lparr>w_state := DEAD\<rparr>"
          and q = "\<lambda>m. m_key m \<in> K" and g = mark_dead])
      (auto simp: db2_def dead_def K_def transition_of_def image_image)
  moreover have "set ?jids \<union> {} = ({} \<union> ut_job_id ` set pend) \<union> ut_job_id ` set dead"
    by auto
  ultimately show ?thesis
    using ok2 by (metis eq fold_recompute_db_ok fold_recompute_jobs_ok queue_inv_def)
qed

lemma requeue_expired_inv:
  "queue_inv cfg db \<Longrightarrow> queue_inv cfg (fst (requeue_expired cfg now db))"
  using requeue_inv [of cfg db "SELECTOR_EXPIRED now" now]
  by (simp add: requeue_expired_def SELECTOR_EXPIRED_def case_prod_beta Let_def)

lemma requeue_agent_inv:
  "queue_inv cfg db \<Longrightarrow> queue_inv cfg (fst (requeue_agent cfg now db agent))"
  using requeue_inv [of cfg db "SELECTOR_BY_AGENT agent" now]
  by (simp add: requeue_agent_def SELECTOR_BY_AGENT_def case_prod_beta Let_def)

section \<open>Finalization markers\<close>

lemma mark_job_finalized_inv:
  assumes "queue_inv cfg db"
  shows "queue_inv cfg (fst (mark_job_finalized db jid n))"
proof (cases "0 \<le> n \<and> map_of (job_finalizations db) jid = None \<and> has_key j_job_id jid (jobs db)")
  case True
  let ?db = "db\<lparr>job_finalizations := job_finalizations db @ [(jid, n)]\<rparr>"
  have ok: "db_ok cfg db" "jobs_ok_except {} db" using assms by (simp_all add: queue_inv_def)
  have "\<not> has_key fst jid (job_finalizations db)"
    using True by (auto simp: has_key_image map_of_eq_None_iff)
  then have "db_ok cfg ?db"
    using ok(1) True by (auto simp: db_ok_def keys_inv_def keyed_append row_inv_defs)
  moreover have "jobs_ok_except {} ?db" by (rule jobs_ok_same_units [OF ok(2)]) simp_all
  ultimately show ?thesis using True by (simp add: queue_inv_def mark_job_finalized_def)
qed (use assms in \<open>auto simp: mark_job_finalized_def split: option.split\<close>)

section \<open>Reopening\<close>

lemma insert_ignore_present:
  "has_key key (key r) rows \<Longrightarrow> insert_ignore key r rows = rows"
  by (simp add: insert_ignore_def)

text \<open>On a database that satisfies the invariant the backfill has nothing to add.\<close>

lemma init_store_id:
  assumes "db_ok cfg db"
  shows "init_store db = db"
proof -
  have "has_key m_key (m_key (terminal_membership db w)) (job_unit_memberships db)"
    if "w \<in> set (work_units db)" for w
    using db_okD(2) [OF assms that]
    by (auto simp: unit_inv_def terminal_membership_def elim!: owner_recordsE)
  then have "fold (\<lambda>w. insert_ignore m_key (terminal_membership db w)) ws (job_unit_memberships db) =
      job_unit_memberships db" if "set ws \<subseteq> set (work_units db)" for ws
    using that by (induction ws) (simp_all add: insert_ignore_present)
  then show ?thesis by (simp add: init_store_def BACKFILL_JOB_UNIT_MEMBERSHIPS_def)
qed

end
