(* ===== verification/Queue_Submit.thy ===== *)
theory Queue_Submit
  imports Queue_Inv
begin

text \<open>
  Submission keeps the queue invariant: the loop of \<open>submit_job\<close> over the submitted units, which
  moves content-addressed units from earlier jobs to the new one.
\<close>

section \<open>Submission\<close>

lemma unique_units_fresh: "us_work_unit_id ` set (unique_units seen us) \<inter> set seen = {}"
  by (induction seen us rule: unique_units.induct) auto

lemma unique_units_subset: "set (unique_units seen us) \<subseteq> set us"
  by (induction seen us rule: unique_units.induct) auto

lemma unique_units_distinct: "distinct (map us_work_unit_id (unique_units seen us))"
proof (induction seen us rule: unique_units.induct)
  case (2 seen u us)
  then show ?case
    using unique_units_fresh [of "us_work_unit_id u # seen" us] by auto
qed simp

lemma SELECT_SUCCEEDED_RESULTS_SomeD:
  assumes "map_of (SELECT_SUCCEEDED_RESULTS db uids) uid = Some ref"
  shows "\<exists>r \<in> set (unit_results db). r_work_unit_id r = uid \<and> r_status r = SUCCEEDED \<and>
           r_result_ref r = Some ref \<and> result_bound db r"
  using map_of_SomeD [OF assms] by (auto simp: SELECT_SUCCEEDED_RESULTS_def)

text \<open>Under the invariant the outcome of a unit's owner is already recorded, so the snapshot
  before a unit changes owner writes nothing.\<close>

lemma SNAPSHOT_TERMINAL_OWNER_id:
  assumes ok: "db_ok cfg db"
  shows "SNAPSHOT_TERMINAL_OWNER uid db = db"
proof (cases "unit_of db uid")
  case (Some w)
  have w: "w \<in> set (work_units db)" using row_of_SomeD [OF Some] by simp
  have "owner_records db w" using db_okD(2) [OF ok w] by (simp add: unit_inv_def)
  then obtain m where m: "m \<in> set (job_unit_memberships db)" "m_job_id m = w_job_id w"
      "m_work_unit_id m = w_work_unit_id w" "m_terminal_state m = terminal_of (w_state w)"
    by (rule owner_recordsE)
  have key: "keyed m_key (job_unit_memberships db)" using db_okD(1) [OF ok] by (simp add: keys_inv_def)
  have only: "n = m" if "n \<in> set (job_unit_memberships db)"
      "m_job_id n = w_job_id w" "m_work_unit_id n = w_work_unit_id w" for n
    using keyed_eq [OF key that(1) m(1)] that m by simp
  show ?thesis
  proof (cases "w_state w = DONE \<or> w_state w = DEAD")
    case True
    then have "m_terminal_state n \<noteq> None" if "n \<in> set (job_unit_memberships db)"
      "m_job_id n = w_job_id w" "m_work_unit_id n = w_work_unit_id w" for n
      using only [OF that] m(4) by auto
    then have eq: "upsert m_key
        (\<lambda>old new. if m_terminal_state old = None
           then old\<lparr>m_terminal_state := m_terminal_state new, m_result_status := m_result_status new,
                    m_result_ref := m_result_ref new\<rparr> else old)
        (terminal_membership db w) (job_unit_memberships db) = job_unit_memberships db"
      using m(1-3)
      by (intro upsert_id) (auto simp: terminal_membership_def simp del: not_None_eq)
    show ?thesis unfolding SNAPSHOT_TERMINAL_OWNER_def Some option.case eq by simp
  qed (simp add: SNAPSHOT_TERMINAL_OWNER_def Some)
qed (simp add: SNAPSHOT_TERMINAL_OWNER_def)

text \<open>A deduplicated unit has a bound successful result.\<close>

definition dedup_ok :: "queue_db \<Rightarrow> (ident \<times> string) list \<Rightarrow> ident \<Rightarrow> bool" where
  "dedup_ok db deduped uid \<longleftrightarrow>
     (\<forall>ref. map_of deduped uid = Some ref \<longrightarrow>
        (\<exists>r \<in> set (unit_results db). r_work_unit_id r = uid \<and> r_status r = SUCCEEDED \<and>
           r_result_ref r = Some ref \<and> result_bound db r))"

lemma dedup_ok_select: "dedup_ok db (SELECT_SUCCEEDED_RESULTS db uids) uid"
  by (simp add: dedup_ok_def SELECT_SUCCEEDED_RESULTS_SomeD)

text \<open>The tables after one submitted unit.\<close>

lemma submit_unit_tables:
  fixes u deduped
  defines "uid \<equiv> us_work_unit_id u" and "dn \<equiv> map_of deduped (us_work_unit_id u) \<noteq> None"
  assumes "SNAPSHOT_TERMINAL_OWNER uid db = db"
  shows "jobs (submit_unit now jid deduped u db) = jobs db"
    and "job_finalizations (submit_unit now jid deduped u db) = job_finalizations db"
    and "work_units (submit_unit now jid deduped u db) =
      upsert w_work_unit_id (\<lambda>_ n. n)
        \<lparr>w_work_unit_id = uid, w_job_id = jid, w_idx = us_idx u, w_input_ref = us_input_ref u,
         w_est_duration_s = us_est_duration_s u, w_state = (if dn then DONE else PENDING),
         w_attempts = 0, w_lease_agent = None, w_lease_expires = None, w_created_at = now\<rparr>
        (work_units db)"
    and "unit_results (submit_unit now jid deduped u db) =
      filter (\<lambda>r. dn \<or> r_work_unit_id r \<noteq> uid) (unit_results db)"
    and "result_payload_bindings (submit_unit now jid deduped u db) =
      filter (\<lambda>b. dn \<or> b_work_unit_id b \<noteq> uid) (result_payload_bindings db)"
    and "backup_leases (submit_unit now jid deduped u db) =
      filter (\<lambda>bl. dn \<or> bl_work_unit_id bl \<noteq> uid) (backup_leases db)"
    and "job_unit_memberships (submit_unit now jid deduped u db) = job_unit_memberships db @
      [\<lparr>m_job_id = jid, m_work_unit_id = uid, m_idx = us_idx u, m_input_ref = us_input_ref u,
        m_terminal_state = (if dn then Some DONE else None),
        m_result_status = (if dn then Some SUCCEEDED else None),
        m_result_ref = map_of deduped uid\<rparr>]"
  using assms(3) by (simp_all add: submit_unit_def Let_def sql_update_defs uid_def dn_def)

lemma has_key_filter_same:
  "(\<And>r. key r = k \<Longrightarrow> p r) \<Longrightarrow> has_key key k (filter p rows) = has_key key k rows"
  by (auto simp: has_key_def)

lemma list_ex_filter_same:
  "(\<And>x. P x \<Longrightarrow> Q x) \<Longrightarrow> list_ex P (filter Q xs) = list_ex P xs"
  by (induction xs) auto

text \<open>Rows of other units keep their results, payload bindings and backups.\<close>

lemma submit_unit_others:
  assumes "SNAPSHOT_TERMINAL_OWNER (us_work_unit_id u) db = db"
    and "map_of deduped (us_work_unit_id u) \<noteq> None \<or> uid \<noteq> us_work_unit_id u"
  shows "finalized (submit_unit now jid deduped u db) uid = finalized db uid"
    and "has_key bl_work_unit_id uid (backup_leases (submit_unit now jid deduped u db)) =
         has_key bl_work_unit_id uid (backup_leases db)"
    and "holds_backup (submit_unit now jid deduped u db) agent uid att = holds_backup db agent uid att"
proof -
  note tabs = submit_unit_tables [OF assms(1)]
  show "finalized (submit_unit now jid deduped u db) uid = finalized db uid"
    unfolding finalized_def tabs(4) by (rule has_key_filter_same) (use assms(2) in auto)
  show "has_key bl_work_unit_id uid (backup_leases (submit_unit now jid deduped u db)) =
      has_key bl_work_unit_id uid (backup_leases db)"
    unfolding tabs(6) by (rule has_key_filter_same) (use assms(2) in auto)
  show "holds_backup (submit_unit now jid deduped u db) agent uid att = holds_backup db agent uid att"
    unfolding holds_backup_def tabs(6) by (rule list_ex_filter_same) (use assms(2) in auto)
qed

lemma submit_unit_result_bound:
  assumes "SNAPSHOT_TERMINAL_OWNER (us_work_unit_id u) db = db"
    and "map_of deduped (us_work_unit_id u) \<noteq> None \<or> r_work_unit_id r \<noteq> us_work_unit_id u"
  shows "result_bound (submit_unit now jid deduped u db) r = result_bound db r"
  unfolding result_bound_def submit_unit_tables(5) [OF assms(1)]
  by (rule list_ex_filter_same) (use assms(2) in auto)

lemma submit_unit_db_ok:
  assumes ok: "db_ok cfg db" and cfg: "queue_cfg_ok cfg"
    and job: "has_key j_job_id jid (jobs db)"
    and fresh: "\<not> has_key m_key (jid, us_work_unit_id u) (job_unit_memberships db)"
    and dedup: "dedup_ok db deduped (us_work_unit_id u)"
  shows "db_ok cfg (submit_unit now jid deduped u db)" (is "db_ok cfg ?db")
proof (rule db_okI)
  note snap = SNAPSHOT_TERMINAL_OWNER_id [OF ok, of "us_work_unit_id u"]
  note tabs = submit_unit_tables [OF snap, where now = now and jid = jid and deduped = deduped]
  note others = submit_unit_others [OF snap, where now = now and jid = jid and deduped = deduped]
  note D = db_okD [OF ok]
  show "keys_inv ?db"
    using D(1) fresh by (simp add: keys_inv_def tabs keyed_append keyed_upsert)
  have unit_key: "has_key w_work_unit_id k (work_units ?db) \<longleftrightarrow>
      k = us_work_unit_id u \<or> has_key w_work_unit_id k (work_units db)" for k
    by (simp add: tabs has_key_upsert)
  show "unit_inv cfg ?db v" if v: "v \<in> set (work_units ?db)" for v
  proof (cases "w_work_unit_id v = us_work_unit_id u")
    case True
    show ?thesis
      using v True job cfg dedup
      by (auto simp: tabs in_upsert_replace unit_inv_def lease_fields_ok_def owner_records_def
          finalized_def queue_cfg_ok_def dedup_ok_def terminal_of_def has_key_def)
  next
    case False
    then have "v \<in> set (work_units db)" using v by (auto simp: tabs in_upsert_replace)
    then show ?thesis
      using D(2) [of v] False
      by (simp add: unit_inv_def others tabs(1) owner_records_def tabs(7))
  qed
  show "result_inv ?db r" if r: "r \<in> set (unit_results ?db)" for r
  proof -
    have "r \<in> set (unit_results db)"
      "map_of deduped (us_work_unit_id u) \<noteq> None \<or> r_work_unit_id r \<noteq> us_work_unit_id u"
      using r by (auto simp: tabs(4))
    then show ?thesis using D(3) [of r] by (simp add: result_inv_def unit_key submit_unit_result_bound [OF snap] del: not_None_eq)
  qed
  show "binding_inv cfg ?db b" if b: "b \<in> set (result_payload_bindings ?db)" for b
  proof -
    have "b \<in> set (result_payload_bindings db)"
      "map_of deduped (us_work_unit_id u) \<noteq> None \<or> b_work_unit_id b \<noteq> us_work_unit_id u"
      using b by (auto simp: tabs(5))
    then show ?thesis using D(4) [of b] by (simp add: binding_inv_def unit_key others(3) del: not_None_eq)
  qed
  show "member_inv ?db m" if "m \<in> set (job_unit_memberships ?db)" for m
  proof (cases "m \<in> set (job_unit_memberships db)")
    case True
    then show ?thesis using D(5) [of m] by (simp add: tabs(1) member_inv_def unit_key)
  next
    case False
    then show ?thesis using that job by (auto simp: tabs(1,7) member_inv_def unit_key)
  qed
  show "backup_inv cfg ?db bl" if "bl \<in> set (backup_leases ?db)" for bl
    using D(6) [of bl] that by (auto simp: tabs(1,6) backup_inv_def unit_key)
  show "has_key j_job_id (fst f) (jobs ?db) \<and> 0 \<le> snd f" if "f \<in> set (job_finalizations ?db)" for f
    using D(7) [of f] that by (simp add: tabs(1,2))
qed

lemma submit_unit_jobs_ok:
  assumes ok: "db_ok cfg db" and jobs_ok: "jobs_ok_except {jid} db"
  shows "jobs_ok_except {jid} (submit_unit now jid deduped u db)" (is "jobs_ok_except _ ?db")
proof -
  note tabs = submit_unit_tables [OF SNAPSHOT_TERMINAL_OWNER_id [OF ok],
      where u = u and now = now and jid = jid and deduped = deduped]
  have "jobs_ok_except ({jid} \<union> {jid}) ?db"
  proof (rule jobs_ok_carry [OF jobs_ok tabs(1)])
    show "job_members ?db k = job_members db k" if "k \<notin> {jid}" for k
      using that by (simp add: job_members_def tabs(7))
    show "effective_state ?db m = effective_state db m \<or> effective_state ?db m = None"
      if "m_job_id m \<notin> {jid}" for m
      using that by (simp add: effective_state_def tabs(3) row_of_upsert_replace split: option.split)
  qed
  then show ?thesis by simp
qed

lemma dedup_ok_submit_unit:
  assumes ok: "db_ok cfg db" and "dedup_ok db deduped uid" and "uid \<noteq> us_work_unit_id u"
  shows "dedup_ok (submit_unit now jid deduped u db) deduped uid"
proof -
  note snap = SNAPSHOT_TERMINAL_OWNER_id [OF ok, of "us_work_unit_id u"]
  show ?thesis
    unfolding dedup_ok_def
  proof (intro allI impI)
    fix ref assume "map_of deduped uid = Some ref"
    then obtain r where r: "r \<in> set (unit_results db)" "r_work_unit_id r = uid" "r_status r = SUCCEEDED"
      "r_result_ref r = Some ref" "result_bound db r"
      using assms(2) by (auto simp: dedup_ok_def)
    then show "\<exists>r \<in> set (unit_results (submit_unit now jid deduped u db)). r_work_unit_id r = uid \<and>
        r_status r = SUCCEEDED \<and> r_result_ref r = Some ref \<and>
        result_bound (submit_unit now jid deduped u db) r"
      using assms(3)
      by (intro bexI [of _ r])
        (simp_all add: submit_unit_tables(4) [OF snap] submit_unit_result_bound [OF snap])
  qed
qed

lemma submit_units_ok:
  assumes "db_ok cfg db" "queue_cfg_ok cfg" "jobs_ok_except {jid} db"
    and "has_key j_job_id jid (jobs db)" and "distinct (map us_work_unit_id us)"
    and "\<And>u. u \<in> set us \<Longrightarrow> \<not> has_key m_key (jid, us_work_unit_id u) (job_unit_memberships db)"
    and "\<And>u. u \<in> set us \<Longrightarrow> dedup_ok db deduped (us_work_unit_id u)"
  shows "db_ok cfg (fold (submit_unit now jid deduped) us db) \<and>
         jobs_ok_except {jid} (fold (submit_unit now jid deduped) us db)"
  using assms
proof (induction us arbitrary: db)
  case (Cons u us)
  note tabs = submit_unit_tables [OF SNAPSHOT_TERMINAL_OWNER_id [OF Cons.prems(1)],
      where u = u and now = now and jid = jid and deduped = deduped]
  have ne: "us_work_unit_id v \<noteq> us_work_unit_id u" if "v \<in> set us" for v
    using Cons.prems(5) that by (auto simp: image_iff)
  show ?case
    unfolding fold_simps
  proof (rule Cons.IH)
    show "db_ok cfg (submit_unit now jid deduped u db)"
      using Cons.prems by (intro submit_unit_db_ok) auto
    show "jobs_ok_except {jid} (submit_unit now jid deduped u db)"
      using Cons.prems(1,3) by (rule submit_unit_jobs_ok)
    show "\<not> has_key m_key (jid, us_work_unit_id v) (job_unit_memberships (submit_unit now jid deduped u db))"
      if "v \<in> set us" for v
      using Cons.prems(6) [of v] ne [OF that] that by (simp add: tabs(7))
    show "dedup_ok (submit_unit now jid deduped u db) deduped (us_work_unit_id v)" if "v \<in> set us" for v
      using Cons.prems(1) Cons.prems(7) [of v] ne [OF that] that by (intro dedup_ok_submit_unit) auto
  qed (use Cons.prems in \<open>simp_all add: tabs(1)\<close>)
qed simp

lemma INSERT_JOB_ok:
  assumes "db_ok cfg db" "jobs_ok_except {} db" "INSERT_JOB j db = Inr db'"
  shows "db_ok cfg db'" "jobs_ok_except {j_job_id j} db'" "db' = db\<lparr>jobs := jobs db @ [j]\<rparr>"
    "\<not> has_key j_job_id (j_job_id j) (jobs db)"
proof -
  show eq: "db' = db\<lparr>jobs := jobs db @ [j]\<rparr>" and new: "\<not> has_key j_job_id (j_job_id j) (jobs db)"
    using assms(3) by (auto simp: INSERT_JOB_def split: if_splits)
  show "db_ok cfg db'"
    using assms(1) new by (auto simp: eq db_ok_def keys_inv_def keyed_append row_inv_defs)
  show "jobs_ok_except {j_job_id j} db'"
    using assms(2) by (auto simp: eq jobs_ok_except_def job_inv_def settled_def)
qed

lemma submit_new_job_inv:
  assumes cfg: "queue_cfg_ok cfg" and inv: "queue_inv cfg db" and us: "distinct (map us_work_unit_id us)"
  shows "queue_inv cfg (fst (submit_new_job now jid db job us))"
proof -
  define j where "j = \<lparr>j_job_id = jid, j_kind = js_kind job, j_model_id = js_model_id job,
    j_payload_ref = js_payload_ref job, j_params_json = dump_params (js_params job),
    j_priority = js_priority job, j_state = JOB_PENDING, j_created_at = now\<rparr>"
  have ok: "db_ok cfg db" "jobs_ok_except {} db" using inv by (simp_all add: queue_inv_def)
  show ?thesis
  proof (cases "INSERT_JOB j db")
    case (Inl e)
    then show ?thesis using inv by (simp add: submit_new_job_def j_def)
  next
    case (Inr db1)
    define deduped where "deduped = SELECT_SUCCEEDED_RESULTS db1 (map us_work_unit_id us)"
    define db2 where "db2 = fold (submit_unit now jid deduped) us db1"
    note ins = INSERT_JOB_ok [OF ok Inr]
    have "\<not> has_key m_key (jid, uid) (job_unit_memberships db1)" for uid
      using db_okD(5) [OF ok(1)] ins(3,4) by (force simp: member_inv_def j_def)
    then have "db_ok cfg db2 \<and> jobs_ok_except {jid} db2"
      unfolding db2_def using ins cfg us
      by (intro submit_units_ok)
        (auto simp: j_def deduped_def dedup_ok_select)
    then show ?thesis
      using Inr
      by (simp add: submit_new_job_def j_def [symmetric] Let_def deduped_def [symmetric]
          db2_def [symmetric] queue_inv_def recompute_db_ok recompute_job_state_jobs_ok)
  qed
qed

lemma submit_job_inv:
  assumes "queue_cfg_ok cfg" and "queue_inv cfg db"
  shows "queue_inv cfg (fst (submit_job now jid db job us reuse))"
proof -
  have new: "queue_inv cfg (fst (submit_new_job now jid db job (unique_units [] us)))"
    using assms unique_units_distinct by (intro submit_new_job_inv) blast+
  show ?thesis
  proof (cases reuse)
    case True
    then show ?thesis
      using new assms(2)
      by (cases "matching_active_job db job (unique_units [] us) (dump_params (js_params job))")
        (simp_all add: submit_job_def split: option.split)
  qed (use new in \<open>simp add: submit_job_def\<close>)
qed

end
