(* ===== verification/Queue_Props.thy ===== *)
theory Queue_Props
  imports Queue_Submit
begin

text \<open>
  The queue as a transition system and the properties of its methods: what a lease, a completion,
  a requeue and a submission do on every reachable database.
\<close>

section \<open>The transition system\<close>

text \<open>One step is one call of a state-changing method; \<open>work_step\<close> are all but submission.\<close>

inductive work_step :: "queue_cfg \<Rightarrow> queue_db \<Rightarrow> queue_db \<Rightarrow> bool" for cfg where
  ws_lease: "work_step cfg db (fst (lease_next cfg now db agent models))"
| ws_extend: "work_step cfg db (extend_leases cfg now db agent uids)"
| ws_backup: "work_step cfg db (fst (lease_backup cfg now db agent uid))"
| ws_bind: "work_step cfg db (fst (bind_result_payload now db agent uid attempt digest ref))"
| ws_complete: "work_step cfg db (fst (complete_unit now db agent attempt res))"
| ws_expired: "work_step cfg db (fst (requeue_expired cfg now db))"
| ws_agent: "work_step cfg db (fst (requeue_agent cfg now db agent))"
| ws_finalized: "work_step cfg db (fst (mark_job_finalized db jid n))"
| ws_reopen: "work_step cfg db (init_store db)"

inductive queue_step :: "queue_cfg \<Rightarrow> queue_db \<Rightarrow> queue_db \<Rightarrow> bool" for cfg where
  qs_submit: "queue_step cfg db (fst (submit_job now jid db job us reuse))"
| qs_work: "work_step cfg db db' \<Longrightarrow> queue_step cfg db db'"

inductive_cases work_stepE: "work_step cfg db db'"
inductive_cases queue_stepE: "queue_step cfg db db'"

abbreviation queue_reach :: "queue_cfg \<Rightarrow> queue_db \<Rightarrow> bool" where
  "queue_reach cfg \<equiv> reach (\<lambda>db. db = empty_db) (queue_step cfg)"

lemma init_store_inv: "queue_inv cfg db \<Longrightarrow> init_store db = db"
  using init_store_id by (auto simp: queue_inv_def)

lemma work_step_inv:
  assumes "work_step cfg db db'" "queue_cfg_ok cfg" "queue_inv cfg db"
  shows "queue_inv cfg db'"
  using assms
  by (cases rule: work_step.cases)
    (simp_all add: lease_next_inv extend_leases_inv lease_backup_inv bind_result_payload_inv
      complete_unit_inv requeue_expired_inv requeue_agent_inv mark_job_finalized_inv
      init_store_inv)

lemma queue_step_inv:
  assumes "queue_step cfg db db'" "queue_cfg_ok cfg" "queue_inv cfg db"
  shows "queue_inv cfg db'"
  using assms by (cases rule: queue_step.cases) (simp_all add: submit_job_inv work_step_inv)

interpretation queue_sys: inv_system "\<lambda>db. db = empty_db" "queue_step cfg"
    "\<lambda>db. queue_cfg_ok cfg \<longrightarrow> queue_inv cfg db" for cfg
  by unfold_locales (auto simp: queue_inv_empty intro: queue_step_inv)

lemma queue_reach_inv: "queue_cfg_ok cfg \<Longrightarrow> queue_reach cfg db \<Longrightarrow> queue_inv cfg db"
  using queue_sys.reach_inv by blast

lemma queue_inv_units:
  assumes "queue_inv cfg db"
  shows "keyed w_work_unit_id (work_units db)"
    and "w \<in> set (work_units db) \<Longrightarrow> unit_inv cfg db w"
    and "w \<in> set (work_units db) \<Longrightarrow> unit_of db (w_work_unit_id w) = Some w"
  using assms row_of_eq [of w_work_unit_id "work_units db" w]
  by (auto simp: queue_inv_def db_ok_def keys_inv_def)

section \<open>Unit lifecycle\<close>

definition unit_evolves :: "unit_row \<Rightarrow> unit_row \<Rightarrow> bool" where
  "unit_evolves w w' \<longleftrightarrow>
     w_work_unit_id w' = w_work_unit_id w \<and> w_job_id w' = w_job_id w \<and>
     (w_state w, w_state w') \<in>
       {(PENDING, PENDING), (PENDING, LEASED), (PENDING, DONE), (LEASED, LEASED), (LEASED, PENDING),
        (LEASED, DONE), (LEASED, DEAD), (DONE, DONE), (DEAD, DEAD)} \<and>
     w_attempts w' = w_attempts w + (if w_state w = PENDING \<and> w_state w' = LEASED then 1 else 0)"

lemma unit_evolves_refl [simp]: "unit_evolves w w"
  by (cases "w_state w") (simp_all add: unit_evolves_def)

lemma list_all2_update_where:
  "list_all2 R xs (update_where p f xs) \<longleftrightarrow> (\<forall>x \<in> set xs. if p x then R x (f x) else R x x)"
  by (auto simp: update_where_def list_all2_map2 list_all2_same)

lemma list_all2_evolves_refl [simp]: "list_all2 unit_evolves ws ws"
  by (simp add: list_all2_same)

lemma insert_backup_units [simp]: "work_units (fst (INSERT_BACKUP_LEASE bl db)) = work_units db"
  by (simp add: INSERT_BACKUP_LEASE_def)

lemma lease_backup_units [simp]: "work_units (fst (lease_backup cfg now db agent uid)) = work_units db"
  by (auto simp: lease_backup_def Let_def INSERT_BACKUP_LEASE_def split: option.split)

lemma bind_units [simp]:
  "work_units (fst (bind_result_payload now db agent uid attempt digest ref)) = work_units db"
  by (simp add: bind_result_payload_def BIND_RESULT_PAYLOAD_def BIND_RESULT_PAYLOAD_BACKUP_def
      Let_def case_prod_beta)

lemma finalize_unit_units:
  "work_units (finalize_unit p w db) =
     update_where (\<lambda>w. w_work_unit_id w = r_work_unit_id p) (\<lambda>w. w\<lparr>w_state := DONE\<rparr>) (work_units db)"
  by (simp add: finalize_unit_eq finalized_db_def sql_update_defs)

lemma requeue_units:
  assumes "\<And>w. sel w \<Longrightarrow> w_state w = LEASED"
  shows "work_units (fst (requeue cfg sel now db)) =
    update_where sel
      (\<lambda>w. w\<lparr>w_state := (if w_attempts w < max_attempts cfg then PENDING else DEAD)\<rparr>) (work_units db)"
proof -
  have "\<not> sel (w\<lparr>w_state := PENDING\<rparr>)" for w
    using assms [of "w\<lparr>w_state := PENDING\<rparr>"] by auto
  then show ?thesis
    by (simp add: requeue_def run_requeue_branch_def fold_mark_dead Let_def)
      (simp add: update_where_def)
qed

lemma work_step_evolves:
  assumes "work_step cfg db db'" and inv: "queue_inv cfg db"
  shows "list_all2 unit_evolves (work_units db) (work_units db')"
  using assms(1)
proof (cases rule: work_step.cases)
  case (ws_lease now agent models)
  show ?thesis
    unfolding ws_lease lease_next_eq [OF queue_inv_units(1) [OF inv]]
    by (auto simp: CLAIM_UNIT_def list_all2_update_where unit_evolves_def split: option.split)
next
  case (ws_extend now agent uids)
  then show ?thesis
    by (auto simp: extend_leases_def EXTEND_LEASES_def list_all2_update_where unit_evolves_def)
next
  case (ws_complete now agent attempt res)
  show ?thesis
  proof (cases rule: complete_unit_cases [of now db agent attempt res])
    case (finalizes w)
    have "v = w" if "v \<in> set (work_units db)" "w_work_unit_id v = wr_work_unit_id res" for v
      using queue_inv_units(3) [OF inv that(1)] that(2) finalizes(1) by simp
    then show ?thesis
      using finalizes(3) unfolding ws_complete finalizes(5) fst_conv finalize_unit_units
      by (auto simp: list_all2_update_where unit_evolves_def completion_accepted_def
          backup_role_def result_row_params_def)
  qed (simp add: ws_complete)
next
  case (ws_expired now)
  have "w_state w = LEASED" if "SELECTOR_EXPIRED now w" for w
    using that by (simp add: SELECTOR_EXPIRED_def)
  then show ?thesis
    by (simp add: ws_expired requeue_expired_def case_prod_beta requeue_units list_all2_update_where
        unit_evolves_def)
next
  case (ws_agent now agent)
  have "w_state w = LEASED" if "SELECTOR_BY_AGENT agent w" for w
    using that by (simp add: SELECTOR_BY_AGENT_def)
  then show ?thesis
    by (simp add: ws_agent requeue_agent_def case_prod_beta requeue_units list_all2_update_where
        unit_evolves_def)
next
  case (ws_finalized jid n)
  then show ?thesis by (auto simp: mark_job_finalized_def split: option.split)
next
  case ws_reopen
  then show ?thesis using init_store_inv [OF inv] by simp
qed simp_all

text \<open>Why a unit moved.\<close>

definition unit_moves :: "queue_cfg \<Rightarrow> queue_db \<Rightarrow> queue_db \<Rightarrow> unit_row \<Rightarrow> unit_row \<Rightarrow> bool" where
  "unit_moves cfg db db' w w' \<longleftrightarrow> unit_evolves w w' \<and>
     (w_state w = PENDING \<and> w_state w' = DONE \<longrightarrow>
        (\<exists>now agent attempt res. db' = fst (complete_unit now db agent attempt res) \<and>
           wr_work_unit_id res = w_work_unit_id w \<and> holds_backup db agent (w_work_unit_id w) attempt)) \<and>
     (w_state w = LEASED \<and> w_state w' = PENDING \<longrightarrow> w_attempts w < max_attempts cfg) \<and>
     (w_state w' = DEAD \<and> w_state w \<noteq> DEAD \<longrightarrow> w_state w = LEASED \<and> max_attempts cfg \<le> w_attempts w)"

lemma unit_moves_quiet:
  "unit_evolves w w' \<Longrightarrow> w_state w' = w_state w \<or> w_state w' = LEASED \<or> w_state w = LEASED \<and> w_state w' = DONE \<Longrightarrow>
   unit_moves cfg db db' w w'"
  by (auto simp: unit_moves_def)

lemma unit_moves_refl [simp]: "unit_moves cfg db db' w w"
  by (simp add: unit_moves_quiet)

lemma requeue_moves:
  assumes "\<And>w. sel w \<Longrightarrow> w_state w = LEASED"
  shows "list_all2 (unit_moves cfg db db') (work_units db) (work_units (fst (requeue cfg sel now db)))"
  using assms by (auto simp: requeue_units list_all2_update_where unit_moves_def unit_evolves_def)

lemma work_step_moves:
  assumes step: "work_step cfg db db'" and inv: "queue_inv cfg db"
  shows "list_all2 (unit_moves cfg db db') (work_units db) (work_units db')"
  using step
proof (cases rule: work_step.cases)
  case (ws_lease now agent models)
  show ?thesis
    unfolding ws_lease lease_next_eq [OF queue_inv_units(1) [OF inv]]
    by (auto simp: CLAIM_UNIT_def list_all2_update_where list_all2_same unit_evolves_def intro!: unit_moves_quiet split: option.split)
next
  case (ws_extend now agent uids)
  then show ?thesis
    by (auto simp: extend_leases_def EXTEND_LEASES_def list_all2_update_where list_all2_same unit_evolves_def intro!: unit_moves_quiet)
next
  case (ws_complete now agent attempt res)
  show ?thesis
  proof (cases rule: complete_unit_cases [of now db agent attempt res])
    case (finalizes w)
    have "v = w" if "v \<in> set (work_units db)" "w_work_unit_id v = wr_work_unit_id res" for v
      using queue_inv_units(3) [OF inv that(1)] that(2) finalizes(1) by simp
    moreover have "unit_moves cfg db db' w (w\<lparr>w_state := DONE\<rparr>)" if "w_work_unit_id w = wr_work_unit_id res"
      using finalizes(3) that ws_complete
      by (auto simp: unit_moves_def unit_evolves_def completion_accepted_def backup_role_def)
    ultimately show ?thesis
      unfolding ws_complete finalizes(5) fst_conv finalize_unit_units
      by (auto simp: ws_complete finalizes(5) list_all2_update_where result_row_params_def)
  qed (auto simp: ws_complete list_all2_same)
next
  case (ws_expired now)
  then show ?thesis
    using requeue_moves [of "SELECTOR_EXPIRED now" cfg db db' now]
    by (simp add: requeue_expired_def case_prod_beta SELECTOR_EXPIRED_def)
next
  case (ws_agent now agent)
  then show ?thesis
    using requeue_moves [of "SELECTOR_BY_AGENT agent" cfg db db' now]
    by (simp add: requeue_agent_def case_prod_beta SELECTOR_BY_AGENT_def)
next
  case (ws_finalized jid n)
  then show ?thesis by (auto simp: mark_job_finalized_def list_all2_same split: option.split)
next
  case ws_reopen
  then show ?thesis using init_store_inv [OF inv] by (auto simp: list_all2_same)
qed (auto simp: list_all2_same)

section \<open>Leasing\<close>

text \<open>A sample database for the witnesses: one submitted job of two units, and the first of them
  leased.\<close>

definition cfg0 :: queue_cfg where
  "cfg0 = \<lparr>max_attempts = 2, default_lease_s = 120\<rparr>"

definition job0 :: job_submit where
  "job0 = \<lparr>js_kind = EMBED, js_model_id = ''m'', js_payload_ref = ''p'', js_params = [], js_priority = 0\<rparr>"

definition unit0 :: "ident \<Rightarrow> int \<Rightarrow> work_unit_spec" where
  "unit0 uid i = \<lparr>us_work_unit_id = uid, us_idx = i, us_input_ref = ''in'', us_est_duration_s = None\<rparr>"

definition db0 :: queue_db where
  "db0 = fst (submit_job 0 ''j'' empty_db job0 [unit0 ''a'' 0, unit0 ''b'' 1] False)"

definition db1 :: queue_db where
  "db1 = fst (lease_next cfg0 10 db0 ''A'' [''m''])"

lemma cfg0_ok [simp]: "queue_cfg_ok cfg0"
  by (simp add: cfg0_def queue_cfg_ok_def)

lemma db0_reach: "queue_reach cfg0 db0"
  unfolding db0_def by (rule reach_step [where s = empty_db]) (auto intro: reach_init qs_submit)

lemma db1_reach: "queue_reach cfg0 db1"
  unfolding db1_def by (rule reach_step [OF db0_reach qs_work [OF ws_lease]])

text \<open>C1: On every database reachable from an empty one through the store's methods, with any
  arguments in any order, the queue invariant holds: primary keys are unique, foreign keys resolve,
  attempts stay within the retry budget, a leased unit names its holder and expiry, a unit is
  done exactly when it has a stored result, a successful result has a bound payload, every owner
  records the outcome of its units, backups use the reserved attempt, and the stored state of a
  settled job is the one its units give.\<close>

theorem queue_reachable_inv:
  assumes "new_queue_store ma dl = Inr cfg" and "queue_reach cfg db"
  shows "queue_inv cfg db"
  using assms queue_reach_inv new_queue_store_ok by blast

theorem queue_reachable_inv_witness:
  "new_queue_store 2 120 = Inr cfg0 \<and> queue_reach cfg0 db1 \<and> queue_inv cfg0 db1"
proof -
  have "new_queue_store 2 120 = Inr cfg0" by (simp add: new_queue_store_def cfg0_def)
  then show ?thesis using queue_reachable_inv [OF _ db1_reach] db1_reach by simp
qed

text \<open>C2: Between submissions every unit keeps its identity and job, and changes state only so: a pending
  unit is leased, which counts one attempt, and nothing else counts one; a leased unit is completed,
  requeued while it has attempts left, or declared dead when it has none; and a pending unit is done at
  once only when an agent that holds a backup lease of the unit completes it, after the original lease
  was requeued. Done and dead are final.\<close>

theorem unit_lifecycle:
  assumes "queue_cfg_ok cfg" and "queue_reach cfg db" and "work_step cfg db db'"
  shows "list_all2 (\<lambda>w w'. unit_evolves w w' \<and>
       (w_state w = PENDING \<and> w_state w' = DONE \<longrightarrow>
          (\<exists>now agent attempt res. db' = fst (complete_unit now db agent attempt res) \<and>
             wr_work_unit_id res = w_work_unit_id w \<and> holds_backup db agent (w_work_unit_id w) attempt)) \<and>
       (w_state w = LEASED \<and> w_state w' = PENDING \<longrightarrow> w_attempts w < max_attempts cfg) \<and>
       (w_state w' = DEAD \<and> w_state w \<noteq> DEAD \<longrightarrow> w_state w = LEASED \<and> max_attempts cfg \<le> w_attempts w))
     (work_units db) (work_units db')"
  using work_step_moves [OF assms(3) queue_reach_inv [OF assms(1,2)]] unfolding unit_moves_def .

theorem unit_lifecycle_witness:
  "work_step cfg0 db0 db1 \<and> list_all2 unit_evolves (work_units db0) (work_units db1) \<and>
   map w_state (work_units db0) = [PENDING, PENDING] \<and> map w_state (work_units db1) = [LEASED, PENDING]"
proof -
  have step: "work_step cfg0 db0 db1" unfolding db1_def by (rule ws_lease)
  have "map w_state (work_units db0) = [PENDING, PENDING] \<and> map w_state (work_units db1) = [LEASED, PENDING]"
    by code_simp
  moreover have "list_all2 unit_evolves (work_units db0) (work_units db1)"
    by (rule list_all2_mono [OF unit_lifecycle [OF cfg0_ok db0_reach step]]) simp
  ultimately show ?thesis using step by simp
qed

lemma unit_of_update_where:
  assumes "\<And>w. w_work_unit_id (f w) = w_work_unit_id w"
  shows "row_of w_work_unit_id k (update_where p f (work_units db)) =
    map_option (\<lambda>w. if p w then f w else w) (unit_of db k)"
  using assms by (rule row_of_update_where)

lemma claim_unit_lookup:
  "unit_of db uid = Some w \<Longrightarrow> w_state w = PENDING \<Longrightarrow>
     unit_of (fst (CLAIM_UNIT agent e uid db)) uid =
       Some (w\<lparr>w_state := LEASED, w_attempts := w_attempts w + 1, w_lease_agent := Some agent,
               w_lease_expires := Some e\<rparr>)"
  "uid' \<noteq> uid \<Longrightarrow> unit_of (fst (CLAIM_UNIT agent e uid db)) uid' = unit_of db uid'"
proof -
  show "unit_of db uid = Some w \<Longrightarrow> w_state w = PENDING \<Longrightarrow>
     unit_of (fst (CLAIM_UNIT agent e uid db)) uid =
       Some (w\<lparr>w_state := LEASED, w_attempts := w_attempts w + 1, w_lease_agent := Some agent,
               w_lease_expires := Some e\<rparr>)"
    by (auto simp: CLAIM_UNIT_def unit_of_update_where dest: row_of_SomeD)
  show "uid' \<noteq> uid \<Longrightarrow> unit_of (fst (CLAIM_UNIT agent e uid db)) uid' = unit_of db uid'"
    by (auto simp: CLAIM_UNIT_def intro!: row_of_update_where_other)
qed

lemma lease_next_facts:
  assumes "queue_cfg_ok cfg" and "queue_reach cfg db"
    and "lease_next cfg now db agent models = (db', Some l, ts)"
  shows "\<exists>w j. (w, j) \<in> set (units_join_jobs db) \<and> w_state w = PENDING \<and> j_model_id j \<in> set models \<and>
    (\<forall>(w', j') \<in> set (units_join_jobs db). w_state w' = PENDING \<longrightarrow> j_model_id j' \<in> set models \<longrightarrow>
       lease_order (w, j) \<le> lease_order (w', j')) \<and>
    wl_work_unit_id l = w_work_unit_id w \<and> wl_model_id l = j_model_id j \<and>
    wl_attempt l = w_attempts w + 1 \<and> wl_attempt l \<le> max_attempts cfg \<and>
    now < wl_lease_expires l \<and>
    unit_of db' (wl_work_unit_id l) =
      Some (w\<lparr>w_state := LEASED, w_attempts := wl_attempt l, w_lease_agent := Some agent,
              w_lease_expires := Some (wl_lease_expires l)\<rparr>) \<and>
    (\<forall>uid. uid \<noteq> wl_work_unit_id l \<longrightarrow> unit_of db' uid = unit_of db uid)"
proof -
  have inv: "queue_inv cfg db" using assms by (simp add: queue_reach_inv)
  note eq = assms(3) [unfolded lease_next_eq [OF queue_inv_units(1) [OF inv]]]
  obtain w j where sel: "SELECT_LEASE_CANDIDATE db models = Some (w, j)"
    using eq by (auto split: if_splits option.splits)
  note c = SELECT_LEASE_CANDIDATE_SomeD [OF sel]
  have least: "\<forall>(w', j') \<in> set (units_join_jobs db). w_state w' = PENDING \<longrightarrow>
      j_model_id j' \<in> set models \<longrightarrow> lease_order (w, j) \<le> lease_order (w', j')"
    using min_key_le [OF sel [unfolded SELECT_LEASE_CANDIDATE_def]] by auto
  have "w_attempts w < max_attempts cfg"
    using queue_inv_units(2) [OF inv c(1)] c(4) by (simp add: unit_inv_def lease_fields_ok_def)
  moreover have "0 < lease_window_s (w_est_duration_s w) (default_lease_s cfg)"
    using assms(1) by (simp add: lease_window_s_def queue_cfg_ok_def less_max_iff_disj)
  moreover have "unit_of db (w_work_unit_id w) = Some w" by (rule queue_inv_units(3) [OF inv c(1)])
  moreover have "models \<noteq> []" using c(5) by auto
  ultimately show ?thesis
    using eq sel c least
    by (intro exI [of _ w] exI [of _ j])
      (auto simp: in_units_join_jobs claim_unit_lookup lease_expiry_def)
qed

text \<open>C3: A lease goes to the pending unit of a requested model that is first by priority, then
  age, then index; the unit becomes leased to the asking agent with the next attempt, at most the
  retry budget, and no other unit changes.\<close>

theorem lease_next_grants:
  assumes "queue_cfg_ok cfg" and "queue_reach cfg db"
    and "lease_next cfg now db agent models = (db', Some l, ts)"
  shows "\<exists>w j. (w, j) \<in> set (units_join_jobs db) \<and> w_state w = PENDING \<and> j_model_id j \<in> set models \<and>
    (\<forall>(w', j') \<in> set (units_join_jobs db). w_state w' = PENDING \<longrightarrow> j_model_id j' \<in> set models \<longrightarrow>
       lease_order (w, j) \<le> lease_order (w', j')) \<and>
    wl_work_unit_id l = w_work_unit_id w \<and> wl_model_id l = j_model_id j \<and>
    wl_attempt l = w_attempts w + 1 \<and> wl_attempt l \<le> max_attempts cfg \<and>
    now < wl_lease_expires l \<and>
    unit_of db' (wl_work_unit_id l) =
      Some (w\<lparr>w_state := LEASED, w_attempts := wl_attempt l, w_lease_agent := Some agent,
              w_lease_expires := Some (wl_lease_expires l)\<rparr>) \<and>
    (\<forall>uid. uid \<noteq> wl_work_unit_id l \<longrightarrow> unit_of db' uid = unit_of db uid)"
  using lease_next_facts [OF assms] by blast

theorem lease_next_grants_witness:
  "\<exists>l ts. lease_next cfg0 10 db0 ''A'' [''m''] = (db1, Some l, ts) \<and>
     wl_work_unit_id l = ''a'' \<and> wl_attempt l = 1 \<and> wl_attempt l \<le> max_attempts cfg0"
proof -
  have "fst (lease_next cfg0 10 db0 ''A'' [''m'']) = db1" by (simp add: db1_def)
  moreover have "map_option (\<lambda>l. (wl_work_unit_id l, wl_attempt l)) (fst (snd (lease_next cfg0 10 db0 ''A'' [''m'']))) =
      Some (''a'', 1)" by code_simp
  ultimately obtain l ts where l: "lease_next cfg0 10 db0 ''A'' [''m''] = (db1, Some l, ts)"
      "wl_work_unit_id l = ''a''" "wl_attempt l = 1"
    by (cases "lease_next cfg0 10 db0 ''A'' [''m'']") auto
  then show ?thesis using lease_next_grants [OF cfg0_ok db0_reach l(1)] by auto
qed

text \<open>A poll for at least one model comes back empty exactly when no pending unit belongs to a
  job of one of those models; work that can be leased is never withheld.\<close>

theorem lease_next_empty_iff:
  assumes "queue_cfg_ok cfg" and "queue_reach cfg db" and "models \<noteq> []"
  shows "fst (snd (lease_next cfg now db agent models)) = None \<longleftrightarrow>
    (\<forall>(w, j) \<in> set (units_join_jobs db). w_state w = PENDING \<longrightarrow> j_model_id j \<notin> set models)"
proof -
  have inv: "queue_inv cfg db" using assms by (simp add: queue_reach_inv)
  have "fst (snd (lease_next cfg now db agent models)) = None \<longleftrightarrow>
      SELECT_LEASE_CANDIDATE db models = None"
    using assms(3) by (auto simp: lease_next_eq [OF queue_inv_units(1) [OF inv]] split: option.split)
  then show ?thesis
    by (auto simp: SELECT_LEASE_CANDIDATE_def filter_empty_conv)
qed

theorem lease_next_empty_iff_witness:
  "fst (snd (lease_next cfg0 10 db0 ''A'' [''other''])) = None"
proof -
  have "\<forall>(w, j) \<in> set (units_join_jobs db0). w_state w = PENDING \<longrightarrow> j_model_id j \<notin> set [''other'']"
    by code_simp
  then show ?thesis by (subst lease_next_empty_iff [OF cfg0_ok db0_reach]) simp_all
qed

section \<open>Completion\<close>

lemma finalize_unit_lookup:
  assumes inv: "queue_inv cfg db" and w: "w \<in> set (work_units db)" "w_work_unit_id w = r_work_unit_id p"
    and new: "\<not> finalized db (r_work_unit_id p)"
  shows "unit_of (finalize_unit p w db) (r_work_unit_id p) = Some (w\<lparr>w_state := DONE\<rparr>)"
    and "result_of (finalize_unit p w db) (r_work_unit_id p) = Some p"
    and "uid \<noteq> r_work_unit_id p \<Longrightarrow> unit_of (finalize_unit p w db) uid = unit_of db uid"
    and "uid \<noteq> r_work_unit_id p \<Longrightarrow> result_of (finalize_unit p w db) uid = result_of db uid"
    and "result_payload_bindings (finalize_unit p w db) = result_payload_bindings db"
    and "backup_leases (finalize_unit p w db) = backup_leases db"
proof -
  have res: "unit_results (finalize_unit p w db) = unit_results db @ [p]"
    using new by (simp add: finalize_unit_eq finalized_db_def sql_update_defs insert_ignore_def finalized_def)
  have none: "result_of db (r_work_unit_id p) = None" using new by (simp add: row_of_None finalized_def)
  show "unit_of (finalize_unit p w db) (r_work_unit_id p) = Some (w\<lparr>w_state := DONE\<rparr>)"
    using queue_inv_units(3) [OF inv w(1)] w(2)
    by (simp add: finalize_unit_units unit_of_update_where)
  show "result_of (finalize_unit p w db) (r_work_unit_id p) = Some p"
    using none by (simp add: res row_of_append row_of_single)
  show "uid \<noteq> r_work_unit_id p \<Longrightarrow> unit_of (finalize_unit p w db) uid = unit_of db uid"
    by (simp add: finalize_unit_units row_of_update_where_other)
  show "uid \<noteq> r_work_unit_id p \<Longrightarrow> result_of (finalize_unit p w db) uid = result_of db uid"
    by (simp add: res row_of_append row_of_single split: option.split)
qed (simp_all add: finalize_unit_eq finalized_db_def sql_update_defs)

lemma completion_accepted_holds:
  assumes "unit_of db uid = Some w"
  shows "completion_accepted agent attempt w \<Longrightarrow> holds_lease db agent uid attempt"
    and "backup_role db uid agent attempt w \<Longrightarrow> holds_backup db agent uid attempt"
  using row_of_SomeD [OF assms]
  by (auto simp: completion_accepted_def holds_lease_def list_ex_iff backup_role_def)

text \<open>C4: A completion that changes anything comes from the agent that holds the unit's current
  lease attempt or its backup lease, while the unit has no result yet; it marks the unit done,
  and a success is stored only with the payload that agent bound for that attempt, which is what
  \<open>completed_result_ref\<close> then returns. Every other completion leaves the database as it was.\<close>

theorem complete_unit_fenced:
  assumes "queue_cfg_ok cfg" and "queue_reach cfg db"
    and "complete_unit now db agent attempt res = (db', ok, ts)"
  shows "db' = db \<and> ts = [] \<or>
    ok \<and> \<not> finalized db (wr_work_unit_id res) \<and>
    (holds_lease db agent (wr_work_unit_id res) attempt \<or>
     holds_backup db agent (wr_work_unit_id res) attempt) \<and>
    map_option w_state (unit_of db' (wr_work_unit_id res)) = Some DONE \<and>
    result_of db' (wr_work_unit_id res) = Some (result_row_params res agent now) \<and>
    (\<forall>uid. uid \<noteq> wr_work_unit_id res \<longrightarrow> unit_of db' uid = unit_of db uid \<and>
       result_of db' uid = result_of db uid) \<and>
    (wr_status res = SUCCEEDED \<longrightarrow>
       SELECT_RESULT_BINDING_FOR_COMPLETION db agent (wr_work_unit_id res) attempt (wr_result_ref res) \<and>
       wr_result_ref res \<noteq> None \<and>
       completed_result_ref db' (wr_work_unit_id res) = wr_result_ref res)"
proof (cases rule: complete_unit_cases [of now db agent attempt res])
  case unchanged
  then show ?thesis using assms(3) by simp
next
  case (finalizes w)
  have inv: "queue_inv cfg db" using assms by (simp add: queue_reach_inv)
  let ?p = "result_row_params res agent now"
  have p: "r_work_unit_id ?p = wr_work_unit_id res" "r_status ?p = wr_status res"
    "r_result_ref ?p = wr_result_ref res" by (simp_all add: result_row_params_def)
  have db': "db' = finalize_unit ?p w db" "ok" using finalizes(5) assms(3) by auto
  note L = finalize_unit_lookup [OF inv, of w ?p, unfolded p, folded db'(1)]
  have w: "w \<in> set (work_units db)" "w_work_unit_id w = wr_work_unit_id res"
    using row_of_SomeD [OF finalizes(1)] by auto
  have "holds_lease db agent (wr_work_unit_id res) attempt \<or>
      holds_backup db agent (wr_work_unit_id res) attempt"
    using finalizes(3) completion_accepted_holds [OF finalizes(1)] by blast
  moreover have "result_bound db' r = result_bound db r" for r
    by (simp add: result_bound_def L(5) [OF w finalizes(2)])
  ultimately show ?thesis
    using L [OF w finalizes(2)] db'(2) finalizes(2,4) binding_accepted_bound [OF finalizes(4) refl]
    by (auto simp: completed_result_ref_def SELECT_COMPLETED_RESULT_REF_def p)
qed

definition res0 :: work_result where
  "res0 = \<lparr>wr_work_unit_id = ''a'', wr_status = SUCCEEDED, wr_result_ref = Some ''out'',
     wr_error = None, wr_metrics = None\<rparr>"

definition db2 :: queue_db where
  "db2 = fst (bind_result_payload 20 db1 ''A'' ''a'' 1 ''d'' ''out'')"

lemma db2_reach: "queue_reach cfg0 db2"
  unfolding db2_def by (rule reach_step [OF db1_reach qs_work [OF ws_bind]])

theorem complete_unit_fenced_witness:
  "\<exists>db'. complete_unit 30 db1 ''A'' 1 res0 = (db1, False, []) \<and>
     complete_unit 30 db2 ''B'' 1 res0 = (db2, False, []) \<and>
     fst (complete_unit 30 db2 ''A'' 1 res0) = db' \<and> completed_result_ref db' ''a'' = Some ''out''"
proof -
  have *: "snd (snd (complete_unit 30 db2 ''A'' 1 res0)) \<noteq> []" by code_simp
  obtain db' ok ts where c: "complete_unit 30 db2 ''A'' 1 res0 = (db', ok, ts)"
    by (cases "complete_unit 30 db2 ''A'' 1 res0")
  then have "completed_result_ref db' ''a'' = Some ''out''"
    using complete_unit_fenced [OF cfg0_ok db2_reach c] * by (simp add: res0_def)
  moreover have "snd (complete_unit 30 db1 ''A'' 1 res0) = (False, [])" by code_simp
  then have "complete_unit 30 db1 ''A'' 1 res0 = (db1, False, [])"
    using complete_unit_fenced [OF cfg0_ok db1_reach, of 30 "''A''" 1 res0]
    by (cases "complete_unit 30 db1 ''A'' 1 res0") auto
  moreover have "snd (complete_unit 30 db2 ''B'' 1 res0) = (False, [])" by code_simp
  then have "complete_unit 30 db2 ''B'' 1 res0 = (db2, False, [])"
    using complete_unit_fenced [OF cfg0_ok db2_reach, of 30 "''B''" 1 res0]
    by (cases "complete_unit 30 db2 ''B'' 1 res0") auto
  ultimately show ?thesis using c by simp
qed

text \<open>Completion is idempotent: when a completion was applied, sending it again, at any later
  time, is acknowledged and writes nothing, even when the acknowledgement got lost.\<close>

theorem complete_unit_idempotent:
  assumes "queue_cfg_ok cfg" and "queue_reach cfg db"
    and "complete_unit now db agent attempt res = (db', True, t # ts)"
  shows "complete_unit now' db' agent attempt res = (db', True, [])"
proof (cases rule: complete_unit_cases [of now db agent attempt res])
  case unchanged
  then show ?thesis using assms(3) by simp
next
  case (finalizes w)
  have inv: "queue_inv cfg db" using assms by (simp add: queue_reach_inv)
  let ?p = "result_row_params res agent now"
  have p: "r_work_unit_id ?p = wr_work_unit_id res" by (simp add: result_row_params_def)
  have db': "db' = finalize_unit ?p w db" using finalizes(5) assms(3) by auto
  note L = finalize_unit_lookup [OF inv, of w ?p, unfolded p, folded db']
  have w: "w \<in> set (work_units db)" "w_work_unit_id w = wr_work_unit_id res"
    using row_of_SomeD [OF finalizes(1)] by auto
  have unit: "unit_of db' (wr_work_unit_id res) = Some (w\<lparr>w_state := DONE\<rparr>)"
    and result: "result_of db' (wr_work_unit_id res) = Some ?p"
    and backups: "backup_leases db' = backup_leases db"
    using L [OF w finalizes(2)] by auto
  have "finalized db' (wr_work_unit_id res)"
    using result row_of_SomeD by (fastforce simp: finalized_def)
  moreover have "SELECT_MATCHING_COMPLETION db' (result_row_params res agent now') attempt \<or>
      holds_backup db' agent (wr_work_unit_id res) attempt"
    using finalizes(3)
  proof
    assume "completion_accepted agent attempt w"
    then have "SELECT_MATCHING_COMPLETION db' (result_row_params res agent now') attempt"
      using row_of_SomeD [OF result] row_of_SomeD [OF unit]
      unfolding SELECT_MATCHING_COMPLETION_def list_ex_iff completion_accepted_def
      by (intro bexI [of _ ?p] conjI bexI [of _ "w\<lparr>w_state := DONE\<rparr>"])
        (simp_all add: result_row_params_def)
    then show ?thesis by simp
  next
    assume "backup_role db (wr_work_unit_id res) agent attempt w"
    then show ?thesis by (simp add: backup_role_def holds_backup_def backups)
  qed
  ultimately show ?thesis by (simp add: complete_unit_def unit Let_def)
qed

definition db3 :: queue_db where
  "db3 = fst (complete_unit 30 db2 ''A'' 1 res0)"

theorem complete_unit_idempotent_witness:
  "complete_unit 99 db3 ''A'' 1 res0 = (db3, True, [])"
proof -
  have "fst (snd (complete_unit 30 db2 ''A'' 1 res0)) \<and> snd (snd (complete_unit 30 db2 ''A'' 1 res0)) \<noteq> []"
    by code_simp
  then obtain t ts where "complete_unit 30 db2 ''A'' 1 res0 = (db3, True, t # ts)"
    unfolding db3_def by (cases "complete_unit 30 db2 ''A'' 1 res0") (auto simp: neq_Nil_conv)
  then show ?thesis by (rule complete_unit_idempotent [OF cfg0_ok db2_reach])
qed

section \<open>Requeueing\<close>

lemma filter_update_where:
  "(\<And>x. p x \<Longrightarrow> \<not> q x \<and> \<not> q (f x)) \<Longrightarrow> filter q (update_where p f xs) = filter q xs"
  by (induction xs) (auto simp: update_where_def)

lemma filter_update_where_none:
  "(\<And>x. \<not> p (f x)) \<Longrightarrow> filter p (update_where p f xs) = []"
  by (induction xs) (auto simp: update_where_def)

lemma requeue_transitions:
  assumes "\<And>w. sel w \<Longrightarrow> w_state w = LEASED"
  shows "snd (requeue cfg sel now db) =
    sort_key ut_work_unit_id
      (map (transition_of PENDING now)
         (filter (\<lambda>w. sel w \<and> w_attempts w < max_attempts cfg) (work_units db)) @
       map (transition_of DEAD now)
         (filter (\<lambda>w. sel w \<and> max_attempts cfg \<le> w_attempts w) (work_units db)))"
proof -
  have "\<not> sel (w\<lparr>w_state := PENDING\<rparr>)" for w
    using assms [of "w\<lparr>w_state := PENDING\<rparr>"] by auto
  then have "filter (\<lambda>w. sel w \<and> max_attempts cfg \<le> w_attempts w)
      (update_where (\<lambda>w. sel w \<and> w_attempts w < max_attempts cfg) (\<lambda>w. w\<lparr>w_state := PENDING\<rparr>) ws) =
      filter (\<lambda>w. sel w \<and> max_attempts cfg \<le> w_attempts w) ws" for ws
    by (intro filter_update_where) auto
  then show ?thesis
    by (simp add: requeue_def run_requeue_branch_def Let_def)
qed

lemma length_filter_split:
  "length (filter (\<lambda>x. p x \<and> q x) xs) + length (filter (\<lambda>x. p x \<and> \<not> q x) xs) = length (filter p xs)"
  by (induction xs) auto

lemma requeue_count:
  assumes "\<And>w. sel w \<Longrightarrow> w_state w = LEASED"
  shows "length (snd (requeue cfg sel now db)) = length (filter sel (work_units db))"
  using length_filter_split [of sel "\<lambda>w. w_attempts w < max_attempts cfg" "work_units db"]
  by (simp add: requeue_transitions [OF assms] not_less)

lemma SELECTOR_LEASED:
  "SELECTOR_EXPIRED now w \<Longrightarrow> w_state w = LEASED" "SELECTOR_BY_AGENT agent w \<Longrightarrow> w_state w = LEASED"
  by (simp_all add: SELECTOR_EXPIRED_def SELECTOR_BY_AGENT_def)

lemma requeue_expired_eq:
  "work_units (fst (requeue_expired cfg now db)) =
     update_where (SELECTOR_EXPIRED now)
       (\<lambda>w. w\<lparr>w_state := (if w_attempts w < max_attempts cfg then PENDING else DEAD)\<rparr>) (work_units db)"
  "fst (snd (requeue_expired cfg now db)) = length (filter (SELECTOR_EXPIRED now) (work_units db))"
  by (simp_all add: requeue_expired_def case_prod_beta requeue_units requeue_count SELECTOR_LEASED)

text \<open>Requeueing expired leases returns every lease that ran out to the pending pool, or to the
  dead state once its unit used the retry budget, touches no other unit, reports how many it
  moved, and leaves no expired lease behind.\<close>

theorem requeue_expired_spec:
  "work_units (fst (requeue_expired cfg now db)) =
     map (\<lambda>w. if SELECTOR_EXPIRED now w
               then w\<lparr>w_state := (if w_attempts w < max_attempts cfg then PENDING else DEAD)\<rparr> else w)
       (work_units db) \<and>
   fst (snd (requeue_expired cfg now db)) = length (filter (SELECTOR_EXPIRED now) (work_units db)) \<and>
   filter (SELECTOR_EXPIRED now) (work_units (fst (requeue_expired cfg now db))) = [] \<and>
   fst (snd (requeue_expired cfg now (fst (requeue_expired cfg now db)))) = 0"
proof -
  have "filter (SELECTOR_EXPIRED now) (work_units (fst (requeue_expired cfg now db))) = []"
    unfolding requeue_expired_eq(1) by (rule filter_update_where_none) (simp add: SELECTOR_EXPIRED_def)
  then show ?thesis by (simp add: requeue_expired_eq(2)) (simp add: requeue_expired_eq(1) update_where_def)
qed

text \<open>A heartbeat keeps its leases: after an agent extends the leases it holds, sweeping expired
  leases at any time within the lease window leaves those units leased to it.\<close>

theorem extend_leases_protects:
  assumes "queue_cfg_ok cfg" and "queue_reach cfg db" and "unit_of db uid = Some w"
    and "w_state w = LEASED" and "w_lease_agent w = Some agent" and "uid \<in> set uids"
    and "t \<le> now + default_lease_s cfg"
  shows "unit_of (fst (requeue_expired cfg t (extend_leases cfg now db agent uids))) uid =
    Some (w\<lparr>w_lease_expires := Some (now + default_lease_s cfg)\<rparr>)"
proof -
  have e: "lease_expiry now None (default_lease_s cfg) = now + default_lease_s cfg"
    using assms(1) by (simp add: lease_expiry_def lease_window_s_def queue_cfg_ok_def)
  have "uids \<noteq> []" using assms(6) by auto
  moreover have "w_work_unit_id w = uid" using row_of_SomeD [OF assms(3)] by simp
  ultimately show ?thesis
    using assms(3-7)
    by (simp add: requeue_expired_eq(1) extend_leases_def EXTEND_LEASES_def e unit_of_update_where
        row_of_update_where SELECTOR_EXPIRED_def)
qed

theorem extend_leases_protects_witness:
  "\<exists>w. unit_of db1 ''a'' = Some w \<and>
     unit_of (fst (requeue_expired cfg0 200 (extend_leases cfg0 100 db1 ''A'' [''a'']))) ''a'' =
       Some (w\<lparr>w_lease_expires := Some 220\<rparr>) \<and>
     map_option w_state (unit_of (fst (requeue_expired cfg0 200 db1)) ''a'') = Some PENDING"
proof -
  have "map_option (\<lambda>w. (w_state w, w_lease_agent w)) (unit_of db1 ''a'') = Some (LEASED, Some ''A'')"
    by code_simp
  then obtain w where w: "unit_of db1 ''a'' = Some w" "w_state w = LEASED" "w_lease_agent w = Some ''A''"
    by auto
  have "map_option w_state (unit_of (fst (requeue_expired cfg0 200 db1)) ''a'') = Some PENDING"
    by code_simp
  then show ?thesis
    using extend_leases_protects [OF cfg0_ok db1_reach w, of "[''a'']" 200 100] w(1)
    by (simp add: cfg0_def)
qed

section \<open>Job states\<close>

lemma count_effective_0:
  "count_effective db jid st = 0 \<longleftrightarrow> (\<forall>m \<in> set (job_members db jid). effective_state db m \<noteq> Some st)"
  by (auto simp: count_effective_def filter_empty_conv)

lemma next_job_state_done:
  "next_job_state c = JOB_DONE \<longleftrightarrow> uc_total c = 0 \<or> uc_pending c = 0 \<and> uc_leased c = 0"
  by (simp add: next_job_state_def)

text \<open>C26: A job that still owns the units it has no outcome for is stored as done exactly when each
  of its units is done or dead.\<close>

theorem job_done_iff_all_terminal:
  assumes "queue_cfg_ok cfg" and "queue_reach cfg db" and "j \<in> set (jobs db)"
    and "settled db (j_job_id j)"
  shows "j_state j = JOB_DONE \<longleftrightarrow>
    (\<forall>m \<in> set (job_members db (j_job_id j)).
       effective_state db m = Some DONE \<or> effective_state db m = Some DEAD)"
proof -
  have "queue_inv cfg db" using assms by (simp add: queue_reach_inv)
  then have "j_state j = next_job_state (COUNT_JOB_UNITS db (j_job_id j))"
    using assms(3,4) by (auto simp: queue_inv_def jobs_ok_except_def job_inv_def)
  then have "j_state j = JOB_DONE \<longleftrightarrow> (\<forall>m \<in> set (job_members db (j_job_id j)).
      effective_state db m \<noteq> Some PENDING \<and> effective_state db m \<noteq> Some LEASED)"
    by (auto simp: next_job_state_done COUNT_JOB_UNITS_def count_effective_0)
  moreover have "(effective_state db m \<noteq> Some PENDING \<and> effective_state db m \<noteq> Some LEASED) =
      (effective_state db m = Some DONE \<or> effective_state db m = Some DEAD)"
    if "m \<in> set (job_members db (j_job_id j))" for m
    using assms(4) that by (auto simp: settled_def list_all_iff) (metis work_unit_state.exhaust)
  ultimately show ?thesis by simp
qed

theorem job_done_iff_all_terminal_witness:
  "\<exists>j \<in> set (jobs db3). j_state j \<noteq> JOB_DONE \<and> settled db3 (j_job_id j) \<and>
     (\<exists>m \<in> set (job_members db3 (j_job_id j)). effective_state db3 m \<noteq> Some DONE)"
proof -
  have reach: "queue_reach cfg0 db3"
    unfolding db3_def by (rule reach_step [OF db2_reach qs_work [OF ws_complete]])
  have "map (\<lambda>j. (j_state j, settled db3 (j_job_id j))) (jobs db3) = [(JOB_RUNNING, True)]" by code_simp
  then obtain j where j: "j \<in> set (jobs db3)" "j_state j = JOB_RUNNING" "settled db3 (j_job_id j)"
    by auto
  then show ?thesis
    using job_done_iff_all_terminal [OF cfg0_ok reach j(1,3)] by (intro bexI [of _ j]) auto
qed

text \<open>\<open>job_details\<close> fails exactly for a job one of whose units was taken over by a later
  submission before it had an outcome; for every other job it returns one entry per unit.\<close>

theorem job_details_fails_iff:
  "(\<exists>e. job_details db jid = Inl e) \<longleftrightarrow> has_key j_job_id jid (jobs db) \<and> \<not> settled db jid"
proof -
  have "list_ex (\<lambda>u. u = None) (map (unit_outcome db) (sort_key f (job_members db jid))) \<longleftrightarrow>
      \<not> settled db jid" for f :: "membership_row \<Rightarrow> int \<times> ident"
    by (auto simp: list_ex_iff settled_def list_all_iff unit_outcome_def split: option.splits)
  moreover have "row_of j_job_id jid (jobs db) = None \<longleftrightarrow> \<not> has_key j_job_id jid (jobs db)"
    by (rule row_of_None)
  ultimately show ?thesis
    by (cases "row_of j_job_id jid (jobs db)") (auto simp: job_details_def Let_def)
qed

text \<open>A unit of an active job resubmitted without \<open>reuse_active\<close>: the first job's details raise, and
  its stored state stays pending after the unit is done.\<close>

definition db_stolen :: queue_db where
  "db_stolen = fst (submit_job 5 ''k'' db0 job0 [unit0 ''a'' 0, unit0 ''b'' 1] False)"

theorem stolen_units_break_job_details:
  "job_details db_stolen ''j'' = Inl (ValueError ''None is not a valid WorkUnitState'') \<and>
   map_option jv_state (job_status db_stolen ''j'') = Some JOB_PENDING"
  by code_simp

section \<open>Backups\<close>

lemma lease_backup_facts:
  assumes "queue_cfg_ok cfg" and "queue_reach cfg db"
    and "lease_backup cfg now db agent uid = (db', Some l)"
  shows "\<exists>w holder. unit_of db uid = Some w \<and> w_state w = LEASED \<and> w_lease_agent w = Some holder \<and>
      holder \<noteq> agent \<and> w_attempts w < wl_attempt l \<and> wl_attempt l = max_attempts cfg + 1"
    and "\<not> has_key bl_work_unit_id uid (backup_leases db)"
    and "work_units db' = work_units db" and "holds_backup db' agent uid (wl_attempt l)"
    and "snd (lease_backup cfg now' db' agent' uid) = None"
proof -
  have inv: "queue_inv cfg db" using assms by (simp add: queue_reach_inv)
  obtain w j where t: "SELECT_BACKUP_LEASE_TARGET db uid agent = Some (w, j)"
    using assms(3) by (auto simp: lease_backup_def split: option.splits)
  note T = SELECT_BACKUP_LEASE_TARGET_SomeD [OF t]
  define bl where "bl = \<lparr>bl_work_unit_id = uid, bl_job_id = w_job_id w, bl_agent_id = agent,
    bl_attempt = backup_attempt cfg,
    bl_lease_expires = lease_expiry now (w_est_duration_s w) (default_lease_s cfg),
    bl_created_at = now\<rparr>"
  have l: "\<not> has_key bl_work_unit_id uid (backup_leases db)" "wl_attempt l = backup_attempt cfg"
    "db' = db\<lparr>backup_leases := backup_leases db @ [bl]\<rparr>"
    using assms(3)
    by (auto simp: lease_backup_def t Let_def INSERT_BACKUP_LEASE_def insert_ignore_def bl_def
        split: if_splits)
  show "\<exists>w holder. unit_of db uid = Some w \<and> w_state w = LEASED \<and> w_lease_agent w = Some holder \<and>
      holder \<noteq> agent \<and> w_attempts w < wl_attempt l \<and> wl_attempt l = max_attempts cfg + 1"
    using T queue_inv_units(2,3) [OF inv T(1)] l(2)
    by (auto simp: backup_attempt_def unit_inv_def lease_fields_ok_def)
  show "\<not> has_key bl_work_unit_id uid (backup_leases db)" by (rule l(1))
  show "work_units db' = work_units db" by (simp add: l(3))
  show "holds_backup db' agent uid (wl_attempt l)" by (simp add: l(2,3) holds_backup_def bl_def)
  show "snd (lease_backup cfg now' db' agent' uid) = None"
    by (auto simp: l(3) bl_def lease_backup_def INSERT_BACKUP_LEASE_def Let_def split: option.split)
qed

text \<open>C27: A backup lease is granted only for a unit another agent currently holds and that has no
  backup yet; it carries the reserved attempt, one past the retry budget and so never a primary
  attempt, leaves the primary lease alone, and no further backup of the unit is granted.\<close>

theorem lease_backup_exclusive:
  assumes "queue_cfg_ok cfg" and "queue_reach cfg db"
    and "lease_backup cfg now db agent uid = (db', Some l)"
  shows "(\<exists>w holder. unit_of db uid = Some w \<and> w_state w = LEASED \<and> w_lease_agent w = Some holder \<and>
      holder \<noteq> agent \<and> w_attempts w < wl_attempt l \<and> wl_attempt l = max_attempts cfg + 1) \<and>
    \<not> has_key bl_work_unit_id uid (backup_leases db) \<and>
    work_units db' = work_units db \<and> holds_backup db' agent uid (wl_attempt l) \<and>
    (\<forall>now' agent'. snd (lease_backup cfg now' db' agent' uid) = None)"
  using lease_backup_facts [OF assms] by blast

theorem lease_backup_exclusive_witness:
  "\<exists>db' l. lease_backup cfg0 20 db1 ''B'' ''a'' = (db', Some l) \<and> work_units db' = work_units db1 \<and>
     snd (lease_backup cfg0 30 db' ''C'' ''a'') = None \<and> snd (lease_backup cfg0 20 db1 ''A'' ''a'') = None"
proof -
  have "snd (lease_backup cfg0 20 db1 ''B'' ''a'') \<noteq> None" by code_simp
  then obtain db' l where l: "lease_backup cfg0 20 db1 ''B'' ''a'' = (db', Some l)"
    by (cases "lease_backup cfg0 20 db1 ''B'' ''a''") auto
  moreover have "snd (lease_backup cfg0 20 db1 ''A'' ''a'') = None" by code_simp
  ultimately show ?thesis
    using lease_backup_exclusive [OF cfg0_ok db1_reach l] by blast
qed

text \<open>On every reachable database a payload bound at the reserved attempt was bound by the
  holder of the unit's backup lease, and every other binding by an attempt within the budget, so
  a backup's payload never replaces a primary attempt's.\<close>

theorem backup_binding_disjoint:
  assumes "queue_cfg_ok cfg" and "queue_reach cfg db" and "b \<in> set (result_payload_bindings db)"
    and "c \<in> set (result_payload_bindings db)" and "b_work_unit_id b = b_work_unit_id c"
  shows "(b_attempt b = backup_attempt cfg \<longrightarrow>
           holds_backup db (b_agent_id b) (b_work_unit_id b) (b_attempt b)) \<and>
    1 \<le> b_attempt b \<and> b_attempt b \<le> backup_attempt cfg \<and> (b_attempt b = b_attempt c \<longrightarrow> b = c)"
proof -
  have ok: "db_ok cfg db" using queue_reach_inv [OF assms(1,2)] by (simp add: queue_inv_def)
  have "keyed b_key (result_payload_bindings db)" using db_okD(1) [OF ok] by (simp add: keys_inv_def)
  then have "b_attempt b = b_attempt c \<Longrightarrow> b = c" using keyed_eq assms(3-5) by fastforce
  then show ?thesis using db_okD(4) [OF ok assms(3)] by (simp add: binding_inv_def backup_attempt_def)
qed

theorem backup_binding_disjoint_witness:
  "\<exists>b \<in> set (result_payload_bindings db2). 1 \<le> b_attempt b \<and> b_attempt b \<le> backup_attempt cfg0"
proof -
  have "result_payload_bindings db2 \<noteq> []" by code_simp
  then obtain b where b: "b \<in> set (result_payload_bindings db2)" by (cases "result_payload_bindings db2") auto
  then show ?thesis using backup_binding_disjoint [OF cfg0_ok db2_reach b b refl] by auto
qed

section \<open>Transitions and finalization\<close>

lemma transitions_valid_facts:
  assumes "queue_cfg_ok cfg" and "queue_reach cfg db"
  shows "list_all unit_transition_valid (snd (snd (lease_next cfg now db agent models)))"
    and "list_all unit_transition_valid (snd (snd (complete_unit now db agent attempt res)))"
    and "list_all unit_transition_valid (snd (snd (requeue_expired cfg now db)))"
    and "list_all unit_transition_valid (snd (snd (requeue_agent cfg now db agent)))"
proof -
  have inv: "queue_inv cfg db" using assms by (simp add: queue_reach_inv)
  note U = queue_inv_units(2) [OF inv]
  have leased: "1 \<le> w_attempts w" if "w \<in> set (work_units db)" "w_state w = LEASED" for w
    using U [OF that(1)] that(2) by (simp add: unit_inv_def lease_fields_ok_def)
  have requeued: "list_all unit_transition_valid (snd (requeue cfg sel now db))"
    if "\<And>w. sel w \<Longrightarrow> w_state w = LEASED" for sel
    using that leased
    by (auto simp: requeue_transitions list_all_iff unit_transition_valid_def transition_of_def)
  show "list_all unit_transition_valid (snd (snd (lease_next cfg now db agent models)))"
    using U SELECT_LEASE_CANDIDATE_SomeD(1)
    by (auto simp: lease_next_eq [OF queue_inv_units(1) [OF inv]] unit_transition_valid_def
        unit_inv_def lease_fields_ok_def split: option.split)
  show "list_all unit_transition_valid (snd (snd (complete_unit now db agent attempt res)))"
  proof (cases rule: complete_unit_cases [of now db agent attempt res])
    case (finalizes w)
    have w: "w \<in> set (work_units db)" "w_work_unit_id w = wr_work_unit_id res"
      using row_of_SomeD [OF finalizes(1)] by auto
    then have "1 \<le> w_attempts w"
      using finalizes(3) U [OF w(1)] leased [OF w(1)]
      by (auto simp: completion_accepted_def backup_role_def unit_inv_def holds_backup_def list_ex_iff)
    then show ?thesis by (simp add: finalizes(5) unit_transition_valid_def)
  qed simp
  show "list_all unit_transition_valid (snd (snd (requeue_expired cfg now db)))"
    "list_all unit_transition_valid (snd (snd (requeue_agent cfg now db agent)))"
    using requeued [of "SELECTOR_EXPIRED now"] requeued [of "SELECTOR_BY_AGENT agent"] SELECTOR_LEASED
    by (auto simp: requeue_expired_def requeue_agent_def case_prod_beta Let_def)
qed

text \<open>Every transition handed to the observer is well-formed: its attempt is at least one, so
  building the message never raises.\<close>

theorem emitted_transitions_valid:
  assumes "queue_cfg_ok cfg" and "queue_reach cfg db"
  shows "list_all unit_transition_valid (snd (snd (lease_next cfg now db agent models))) \<and>
    list_all unit_transition_valid (snd (snd (complete_unit now db agent attempt res))) \<and>
    list_all unit_transition_valid (snd (snd (requeue_expired cfg now db))) \<and>
    list_all unit_transition_valid (snd (snd (requeue_agent cfg now db agent)))"
  using transitions_valid_facts [OF assms] by blast

theorem emitted_transitions_valid_witness:
  "list_all unit_transition_valid (snd (snd (requeue_expired cfg0 200 db1))) \<and>
   snd (snd (requeue_expired cfg0 200 db1)) \<noteq> []"
proof -
  have "snd (snd (requeue_expired cfg0 200 db1)) \<noteq> []" by code_simp
  then show ?thesis using emitted_transitions_valid [OF cfg0_ok db1_reach] by blast
qed

text \<open>Finalization is recorded once: the first count stored for a job is the one every later
  call returns, and a negative count or an unknown job is refused without a change.\<close>

theorem mark_job_finalized_once:
  "(case mark_job_finalized db jid n of
      (db', Inr k) \<Rightarrow> 0 \<le> n \<and> job_finalization db' jid = Some k \<and>
        (\<forall>n' \<ge> 0. mark_job_finalized db' jid n' = (db', Inr k)) \<and>
        (job_finalization db jid = None \<longrightarrow> k = n)
    | (db', Inl e) \<Rightarrow> db' = db \<and>
        (n < 0 \<or> job_finalization db jid = None \<and> \<not> has_key j_job_id jid (jobs db)))"
  by (auto simp: mark_job_finalized_def job_finalization_def map_add_def split: option.split)

theorem mark_job_finalized_once_witness:
  "\<exists>db'. mark_job_finalized db0 ''j'' 7 = (db', Inr 7) \<and> mark_job_finalized db' ''j'' 9 = (db', Inr 7) \<and>
     snd (mark_job_finalized db0 ''zz'' 7) = Inl IntegrityError"
proof -
  have "snd (mark_job_finalized db0 ''j'' 7) = Inr 7" "snd (mark_job_finalized db0 ''zz'' 7) = Inl IntegrityError"
    by code_simp+
  then show ?thesis
    using mark_job_finalized_once [where db = db0 and jid = "''j''" and n = 7]
    by (cases "mark_job_finalized db0 ''j'' 7") auto
qed

end
