(* ===== verification/Queue_Dedup.thy ===== *)
theory Queue_Dedup
  imports Queue_Props
begin

text \<open>
  Resubmitting completed work: the content-addressed deduplication of \<open>submit_job\<close>.
\<close>

section \<open>Content-addressed deduplication\<close>

text \<open>The membership a deduplicated unit gets in the new job.\<close>

definition dedup_member :: "ident \<Rightarrow> (ident \<times> string) list \<Rightarrow> work_unit_spec \<Rightarrow> membership_row" where
  "dedup_member jid deduped u =
     \<lparr>m_job_id = jid, m_work_unit_id = us_work_unit_id u, m_idx = us_idx u,
      m_input_ref = us_input_ref u, m_terminal_state = Some DONE, m_result_status = Some SUCCEEDED,
      m_result_ref = map_of deduped (us_work_unit_id u)\<rparr>"

lemma submit_units_dedup:
  assumes "db_ok cfg db" "queue_cfg_ok cfg" and "has_key j_job_id jid (jobs db)"
    and "distinct (map us_work_unit_id us)"
    and "\<And>u. u \<in> set us \<Longrightarrow> \<not> has_key m_key (jid, us_work_unit_id u) (job_unit_memberships db)"
    and "\<And>u. u \<in> set us \<Longrightarrow> dedup_ok db deduped (us_work_unit_id u)"
    and "\<And>u. u \<in> set us \<Longrightarrow> map_of deduped (us_work_unit_id u) \<noteq> None"
  shows "unit_results (fold (submit_unit now jid deduped) us db) = unit_results db \<and>
    result_payload_bindings (fold (submit_unit now jid deduped) us db) = result_payload_bindings db \<and>
    jobs (fold (submit_unit now jid deduped) us db) = jobs db \<and>
    job_members (fold (submit_unit now jid deduped) us db) jid =
      job_members db jid @ map (dedup_member jid deduped) us"
  using assms
proof (induction us arbitrary: db)
  case (Cons u us)
  note tabs = submit_unit_tables [OF SNAPSHOT_TERMINAL_OWNER_id [OF Cons.prems(1)],
      where u = u and now = now and jid = jid and deduped = deduped]
  let ?db = "submit_unit now jid deduped u db"
  have dn: "map_of deduped (us_work_unit_id u) \<noteq> None" using Cons.prems(7) by simp
  have ne: "us_work_unit_id v \<noteq> us_work_unit_id u" if "v \<in> set us" for v
    using Cons.prems(4) that by (auto simp: image_iff)
  have "db_ok cfg ?db" using Cons.prems by (intro submit_unit_db_ok) auto
  moreover have "dedup_ok ?db deduped (us_work_unit_id v)" if "v \<in> set us" for v
    using Cons.prems(1) Cons.prems(6) [of v] ne [OF that] that by (intro dedup_ok_submit_unit) auto
  moreover have "\<not> has_key m_key (jid, us_work_unit_id v) (job_unit_memberships ?db)" if "v \<in> set us" for v
    using Cons.prems(5) [of v] ne [OF that] that by (simp add: tabs(7))
  ultimately show ?case
    using Cons.IH [of ?db] Cons.prems(2,3,4,7) dn
    by (simp add: tabs job_members_def dedup_member_def del: not_None_eq)
qed simp

lemma completed_ref_deduped:
  assumes "keyed r_work_unit_id (unit_results db)" and "completed_result_ref db uid = Some ref"
    and "uid \<in> set uids"
  shows "map_of (SELECT_SUCCEEDED_RESULTS db uids) uid \<noteq> None"
proof -
  obtain r where r: "result_of db uid = Some r" "r_status r = SUCCEEDED" "result_bound db r"
      "r_result_ref r = Some ref"
    using assms(2)
    by (auto simp: completed_result_ref_def SELECT_COMPLETED_RESULT_REF_def split: option.splits if_splits)
  then have "(uid, ref) \<in> set (SELECT_SUCCEEDED_RESULTS db uids)"
    using row_of_SomeD [OF r(1)] assms(3) by (force simp: SELECT_SUCCEEDED_RESULTS_def)
  then show ?thesis by (metis weak_map_of_SomeI option.distinct(1))
qed

lemma completed_result_ref_cong:
  "unit_results db' = unit_results db \<Longrightarrow> result_payload_bindings db' = result_payload_bindings db \<Longrightarrow>
     completed_result_ref db' uid = completed_result_ref db uid"
  by (simp add: completed_result_ref_def SELECT_COMPLETED_RESULT_REF_def result_bound_def
      split: option.split)

text \<open>C5: Submitting a job all of whose units were completed before costs no work: the job is done
  at once, all its distinct units count as done, and their results are the stored ones.\<close>

theorem resubmission_deduplicated:
  assumes "queue_cfg_ok cfg" and "queue_reach cfg db"
    and "\<And>u. u \<in> set us \<Longrightarrow> completed_result_ref db (us_work_unit_id u) \<noteq> None"
    and "submit_job now jid db job us False = (db', Inr jid')"
  shows "job_status db' jid' =
      Some \<lparr>jv_job_id = jid', jv_state = JOB_DONE, jv_total_units = int (length (unique_units [] us)),
           jv_done_units = int (length (unique_units [] us)), jv_dead_units = 0\<rparr> \<and>
    (\<forall>uid. completed_result_ref db' uid = completed_result_ref db uid)"
proof -
  define us' where "us' = unique_units [] us"
  define j where "j = \<lparr>j_job_id = jid, j_kind = js_kind job, j_model_id = js_model_id job,
    j_payload_ref = js_payload_ref job, j_params_json = dump_params (js_params job),
    j_priority = js_priority job, j_state = JOB_PENDING, j_created_at = now\<rparr>"
  have ok: "db_ok cfg db" "jobs_ok_except {} db"
    using queue_reach_inv [OF assms(1,2)] by (simp_all add: queue_inv_def)
  obtain db1 where ins: "INSERT_JOB j db = Inr db1" and jid': "jid' = jid"
    using assms(4) by (auto simp: submit_job_def submit_new_job_def j_def [symmetric] Let_def split: sum.splits)
  define deduped where "deduped = SELECT_SUCCEEDED_RESULTS db1 (map us_work_unit_id us')"
  define db2 where "db2 = fold (submit_unit now jid deduped) us' db1"
  have "submit_job now jid db job us False = (recompute_job_state jid db2, Inr jid)"
    using ins
    by (simp add: submit_job_def submit_new_job_def j_def [symmetric] us'_def [symmetric]
        deduped_def [symmetric] db2_def [symmetric] Let_def)
  then have db': "db' = recompute_job_state jid db2" using assms(4) by simp
  note I = INSERT_JOB_ok [OF ok ins]
  have jid: "j_job_id j = jid" by (simp add: j_def)
  have no_member: "m_job_id m \<noteq> jid" if "m \<in> set (job_unit_memberships db)" for m
    using db_okD(5) [OF ok(1) that] I(4) jid by (auto simp: member_inv_def)
  have refs: "completed_result_ref db1 uid = completed_result_ref db uid" for uid
    by (rule completed_result_ref_cong) (simp_all add: I(3))
  have "set us' \<subseteq> set us" unfolding us'_def by (rule unique_units_subset)
  have deduped_all: "map_of deduped (us_work_unit_id u) \<noteq> None" if u: "u \<in> set us'" for u
    unfolding deduped_def
  proof -
    obtain ref where "completed_result_ref db1 (us_work_unit_id u) = Some ref"
      using assms(3) [of u] \<open>set us' \<subseteq> set us\<close> u refs by auto
    then show "map_of (SELECT_SUCCEEDED_RESULTS db1 (map us_work_unit_id us')) (us_work_unit_id u) \<noteq> None"
      using db_okD(1) [OF I(1)] u by (intro completed_ref_deduped) (simp_all add: keys_inv_def)
  qed
  have D: "unit_results db2 = unit_results db1 \<and> result_payload_bindings db2 = result_payload_bindings db1 \<and>
      jobs db2 = jobs db1 \<and> job_members db2 jid = job_members db1 jid @ map (dedup_member jid deduped) us'"
    unfolding db2_def
  proof (rule submit_units_dedup [OF I(1) assms(1)])
    show "has_key j_job_id jid (jobs db1)" using I(3) jid by simp
    show "distinct (map us_work_unit_id us')" unfolding us'_def by (rule unique_units_distinct)
    show "\<not> has_key m_key (jid, us_work_unit_id u) (job_unit_memberships db1)" for u
      using no_member I(3) by (auto simp: has_key_def)
    show "dedup_ok db1 deduped (us_work_unit_id u)" for u unfolding deduped_def by (rule dedup_ok_select)
  qed (rule deduped_all)
  have mem: "job_members db2 jid = map (dedup_member jid deduped) us'"
    using D no_member I(3) by (simp add: job_members_def filter_empty_conv)
  have eff: "effective_state db2 (dedup_member jid deduped u) = Some DONE" for u
    by (simp add: effective_state_def dedup_member_def)
  have cnt: "COUNT_JOB_UNITS db2 jid = \<lparr>uc_total = length us', uc_pending = 0, uc_leased = 0,
      uc_done = length us', uc_dead = 0\<rparr>"
    by (simp add: COUNT_JOB_UNITS_def count_effective_def mem filter_map comp_def eff)
  have "row_of j_job_id jid (jobs db') = Some (j\<lparr>j_state := JOB_DONE\<rparr>)"
  proof -
    have "row_of j_job_id jid (jobs db) = None" using I(4) jid by (simp add: row_of_None)
    then have "row_of j_job_id jid (jobs db2) = Some j"
      using D I(3) jid by (simp add: row_of_append row_of_single)
    then show ?thesis
      by (simp add: db' recompute_job_state_def cnt next_job_state_def SET_JOB_STATE_def
          row_of_update_where jid)
  qed
  moreover have "COUNT_JOB_UNITS db' jid = COUNT_JOB_UNITS db2 jid"
    by (simp add: db' recompute_job_state_def SET_JOB_STATE_def)
  moreover have "completed_result_ref db' uid = completed_result_ref db uid" for uid
  proof -
    have "completed_result_ref db' uid = completed_result_ref db1 uid"
      by (rule completed_result_ref_cong) (simp_all add: db' D)
    then show ?thesis by (simp add: refs)
  qed
  ultimately show ?thesis
    by (simp add: job_status_def Let_def cnt jid' us'_def)
qed

theorem resubmission_deduplicated_witness:
  "\<exists>db'. submit_job 50 ''k'' db3 job0 [unit0 ''a'' 0, unit0 ''a'' 0] False = (db', Inr ''k'') \<and>
     map_option jv_state (job_status db' ''k'') = Some JOB_DONE \<and>
     completed_result_ref db' ''a'' = Some ''out''"
proof -
  have reach: "queue_reach cfg0 db3"
    unfolding db3_def by (rule reach_step [OF db2_reach qs_work [OF ws_complete]])
  have fin: "completed_result_ref db3 ''a'' = Some ''out''" by code_simp
  have all: "completed_result_ref db3 (us_work_unit_id u) \<noteq> None"
    if "u \<in> set [unit0 ''a'' 0, unit0 ''a'' 0]" for u
    using that fin by (auto simp: unit0_def)
  have "snd (submit_job 50 ''k'' db3 job0 [unit0 ''a'' 0, unit0 ''a'' 0] False) = Inr ''k''" by code_simp
  then obtain db' where s: "submit_job 50 ''k'' db3 job0 [unit0 ''a'' 0, unit0 ''a'' 0] False = (db', Inr ''k'')"
    by (cases "submit_job 50 ''k'' db3 job0 [unit0 ''a'' 0, unit0 ''a'' 0] False") auto
  show ?thesis
    using resubmission_deduplicated [OF cfg0_ok reach all s] s fin by auto
qed

end
