(* ===== verification/Registry_Store.thy ===== *)
theory Registry_Store
  imports Fallow_Protocol
begin

text \<open>
  The agent registry, authentication store and model catalogue
  (\<open>fallow_coordinator/registry\<close>: \<open>sqlite_registry.py\<close>, \<open>schema.sql\<close>, \<open>records.py\<close>, \<open>config.py\<close>,
  \<open>errors.py\<close>, \<open>mapping.py\<close>, \<open>tokens.py\<close>, \<open>tunnel_mode.py\<close>).

  Tables are row lists as in the queue. JSON columns hold the structure itself (\<open>serde.py\<close> prints
  and reads them back through pydantic), timestamps the instant. The clock, the token factory,
  \<open>uuid4\<close> and the digest \<open>sha\<close> (the hex digest of \<open>hash_token\<close>) are arguments. A method is a
  function on the database as its connection sees it; a failed method is \<open>Inl\<close>. Statement-level
  interleaving on the shared connection is modelled separately in \<open>Registry_Conn\<close>.
\<close>

section \<open>Modes, transports and errors\<close>

datatype enrollment_mode = LEGACY | SITE

datatype transport = DIRECT | SITE_RELAY

primrec mode_value :: "enrollment_mode \<Rightarrow> string" where
  "mode_value LEGACY = ''legacy''"
| "mode_value SITE = ''site''"

definition mode_of :: "string \<Rightarrow> enrollment_mode option" where
  "mode_of s = (if s = ''legacy'' then Some LEGACY else if s = ''site'' then Some SITE else None)"

definition transport_for_mode :: "enrollment_mode \<Rightarrow> transport" where
  "transport_for_mode m = (if m = SITE then SITE_RELAY else DIRECT)"

datatype registry_error =
  RegistryValueError
| RegistryIntegrityError
| ProtocolMismatchError int int
| EnrollmentTokenError
| UnknownAgentError ident
| RevokedAgentError ident

section \<open>Records\<close>

record api_key_info =
  ak_name :: string
  ak_key_id :: string
  ak_model_allowlist :: "ident list option"
  ak_rpm_limit :: "int option"
  ak_daily_limit :: "int option"
  ak_is_admin :: bool

record enrollment_token_info =
  eti_token_id :: string
  eti_mode :: enrollment_mode
  eti_state :: string
  eti_created_at :: instant

record revoked_agent_info =
  rai_agent_id :: ident
  rai_hostname :: string
  rai_revoked_at :: instant

record quota_snapshot =
  qs_key_id :: string
  qs_bucket_tokens :: real
  qs_bucket_updated_at :: instant
  qs_day :: int
  qs_daily_count :: int
  qs_snapshotted_at :: instant

record model_record =
  mr_manifest :: model_manifest
  mr_blob_path :: string
  mr_enabled :: bool

record site_fleet_entry =
  sf_agent_id :: ident
  sf_enrollment_mode :: enrollment_mode
  sf_transport :: transport
  sf_heartbeat_age_s :: secs
  sf_presence_generation :: int
  sf_revoked :: bool

section \<open>Configuration\<close>

record registry_config =
  rc_admin_key :: string
  rc_heartbeat_interval_s :: secs
  rc_idle_threshold_s :: secs
  rc_poll_interval_ms :: int
  rc_vram_evict_after_s :: secs
  rc_bench_mode :: bool
  rc_suspect_after_s :: secs
  rc_offline_after_s :: secs

definition DEFAULT_SUSPECT_AFTER_S :: secs where
  "DEFAULT_SUSPECT_AFTER_S = 15"

definition DEFAULT_OFFLINE_AFTER_S :: secs where
  "DEFAULT_OFFLINE_AFTER_S = 45"

definition registry_config_default :: "string \<Rightarrow> registry_config" where
  "registry_config_default key =
     \<lparr>rc_admin_key = key, rc_heartbeat_interval_s = 5, rc_idle_threshold_s = 120,
      rc_poll_interval_ms = 100, rc_vram_evict_after_s = 60, rc_bench_mode = False,
      rc_suspect_after_s = DEFAULT_SUSPECT_AFTER_S, rc_offline_after_s = DEFAULT_OFFLINE_AFTER_S\<rparr>"

section \<open>Schema\<close>

record agent_row =
  a_agent_id :: ident
  a_hostname :: string
  a_host :: string
  a_caps :: device_caps
  a_device_token_hash :: string
  a_state :: agent_state
  a_last_seen :: instant
  a_user_idle_s :: secs
  a_mem_available_mb :: int
  a_gpus :: "gpu_status list"
  a_replicas :: "replica_status list"
  a_serving_paused :: bool
  a_predicted_idle_remaining_s :: "secs option"
  a_predicted_idle_confidence :: "real option"
  a_enrollment_mode :: enrollment_mode
  a_transport :: transport
  a_presence_sequence :: int
  a_presence_generation :: int
  a_revoked_at :: "instant option"
  a_registered_at :: instant

record token_row =
  t_token_hash :: string
  t_created_at :: instant
  t_used_at :: "instant option"
  t_mode :: enrollment_mode
  t_revoked_at :: "instant option"

record api_key_row =
  k_key_hash :: string
  k_name :: string
  k_model_allowlist :: "ident list option"
  k_rpm_limit :: "int option"
  k_daily_limit :: "int option"
  k_created_at :: instant
  k_revoked_at :: "instant option"

record model_row =
  mo_model_id :: ident
  mo_manifest :: model_manifest
  mo_blob_path :: string
  mo_enabled :: bool
  mo_created_at :: instant

record registry_db =
  registry_agents :: "agent_row list"
  registry_enrollment_tokens :: "token_row list"
  registry_api_keys :: "api_key_row list"
  registry_api_key_quota_snapshots :: "quota_snapshot list"
  registry_models :: "model_row list"
  registry_assignments :: "(ident \<times> ident) list"

definition empty_registry :: registry_db where
  "empty_registry =
     \<lparr>registry_agents = [], registry_enrollment_tokens = [], registry_api_keys = [],
      registry_api_key_quota_snapshots = [], registry_models = [], registry_assignments = []\<rparr>"

section \<open>Tokens\<close>

definition TOKEN_ID_CHARS :: nat where
  "TOKEN_ID_CHARS = 12"

text \<open>The characters \<open>str.strip\<close> removes, and \<open>str.lower\<close> on ASCII letters.\<close>

definition is_py_space :: "char \<Rightarrow> bool" where
  "is_py_space c \<longleftrightarrow>
     of_char c \<in> {9..13 :: nat} \<union> {28..32} \<union> {133, 160}"

definition py_strip :: "string \<Rightarrow> string" where
  "py_strip s = rev (dropWhile is_py_space (rev (dropWhile is_py_space s)))"

definition lower_char :: "char \<Rightarrow> char" where
  "lower_char c = (if of_char c \<in> {65..90 :: nat} then char_of (of_char c + 32 :: nat) else c)"

definition py_lower :: "string \<Rightarrow> string" where
  "py_lower s = map lower_char s"

definition normalize_token_id :: "string \<Rightarrow> registry_error + string" where
  "normalize_token_id raw =
     (let candidate = py_lower (py_strip raw)
      in if length candidate = TOKEN_ID_CHARS \<and> list_all is_hex_digit candidate
         then Inr candidate else Inl EnrollmentTokenError)"

definition token_id :: "(string \<Rightarrow> string) \<Rightarrow> string \<Rightarrow> string" where
  "token_id sha token = take TOKEN_ID_CHARS (sha token)"

definition token_matches :: "(string \<Rightarrow> string) \<Rightarrow> string \<Rightarrow> string \<Rightarrow> bool" where
  "token_matches sha presented stored \<longleftrightarrow> sha presented = stored"

definition token_state :: "instant option \<Rightarrow> instant option \<Rightarrow> string" where
  "token_state used revoked =
     (if revoked \<noteq> None then ''revoked'' else if used \<noteq> None then ''used'' else ''outstanding'')"

section \<open>Token issuance and revocation\<close>

abbreviation agent_of :: "registry_db \<Rightarrow> ident \<Rightarrow> agent_row option" where
  "agent_of db aid \<equiv> row_of a_agent_id aid (registry_agents db)"

definition create_enrollment_token ::
  "(string \<Rightarrow> string) \<Rightarrow> instant \<Rightarrow> string \<Rightarrow> string \<Rightarrow> registry_db \<Rightarrow>
   registry_db \<times> (registry_error + string)" where
  "create_enrollment_token sha now token mode db =
     (case mode_of mode of
        None \<Rightarrow> (db, Inl RegistryValueError)
      | Some m \<Rightarrow>
          if has_key t_token_hash (sha token) (registry_enrollment_tokens db)
          then (db, Inl RegistryIntegrityError)
          else (db\<lparr>registry_enrollment_tokens := registry_enrollment_tokens db @
                  [\<lparr>t_token_hash = sha token, t_created_at = now, t_used_at = None, t_mode = m,
                    t_revoked_at = None\<rparr>]\<rparr>, Inr token))"

definition list_enrollment_tokens :: "registry_db \<Rightarrow> enrollment_token_info list" where
  "list_enrollment_tokens db =
     map (\<lambda>r. \<lparr>eti_token_id = take TOKEN_ID_CHARS (t_token_hash r), eti_mode = t_mode r,
               eti_state = token_state (t_used_at r) (t_revoked_at r),
               eti_created_at = t_created_at r\<rparr>)
       (sort_key (\<lambda>r. (t_created_at r, t_token_hash r)) (registry_enrollment_tokens db))"

text \<open>
  The \<open>SELECT ... LIMIT 2\<close> resolves the prefix before the \<open>UPDATE\<close>; both run under the write lock.
\<close>

definition revoke_enrollment_token ::
  "instant \<Rightarrow> string \<Rightarrow> registry_db \<Rightarrow> registry_db \<times> (registry_error + bool)" where
  "revoke_enrollment_token now tid db =
     (case normalize_token_id tid of
        Inl e \<Rightarrow> (db, Inl e)
      | Inr normalized \<Rightarrow>
          (case take 2 (map t_token_hash
                  (filter (\<lambda>r. take TOKEN_ID_CHARS (t_token_hash r) = normalized \<and> t_used_at r = None)
                    (registry_enrollment_tokens db))) of
             [] \<Rightarrow> (db, Inr False)
           | [h] \<Rightarrow>
               let p = (\<lambda>r. t_token_hash r = h \<and> t_used_at r = None);
                   rows = registry_enrollment_tokens db
               in (db\<lparr>registry_enrollment_tokens :=
                       update_where p (\<lambda>r. r\<lparr>t_used_at := Some now, t_revoked_at := Some now\<rparr>) rows\<rparr>,
                   Inr (filter p rows \<noteq> []))
           | _ \<Rightarrow> (db, Inl EnrollmentTokenError)))"

definition revoke_agent :: "instant \<Rightarrow> ident \<Rightarrow> registry_db \<Rightarrow> registry_db \<times> (registry_error + unit)" where
  "revoke_agent now aid db =
     (let p = (\<lambda>r. a_agent_id r = aid); rows = registry_agents db
      in (db\<lparr>registry_agents := update_where p
              (\<lambda>r. r\<lparr>a_revoked_at := (case a_revoked_at r of None \<Rightarrow> Some now | Some t \<Rightarrow> Some t)\<rparr>) rows\<rparr>,
          if length (filter p rows) = 1 then Inr () else Inl (UnknownAgentError aid)))"

definition list_revoked_agents :: "registry_db \<Rightarrow> revoked_agent_info list" where
  "list_revoked_agents db =
     map (\<lambda>r. \<lparr>rai_agent_id = a_agent_id r, rai_hostname = a_hostname r,
               rai_revoked_at = the (a_revoked_at r)\<rparr>)
       (sort_key (\<lambda>r. (the (a_revoked_at r), a_agent_id r))
         (filter (\<lambda>r. a_revoked_at r \<noteq> None) (registry_agents db)))"

definition validate_quota_limit :: "int option \<Rightarrow> bool" where
  "validate_quota_limit v \<longleftrightarrow> (case v of None \<Rightarrow> True | Some n \<Rightarrow> 0 < n)"

definition create_api_key ::
  "(string \<Rightarrow> string) \<Rightarrow> instant \<Rightarrow> string \<Rightarrow> string \<Rightarrow> ident list option \<Rightarrow> int option \<Rightarrow> int option \<Rightarrow>
   registry_db \<Rightarrow> registry_db \<times> (registry_error + string)" where
  "create_api_key sha now key name allow rpm daily db =
     (if \<not> validate_quota_limit rpm \<or> \<not> validate_quota_limit daily then (db, Inl RegistryValueError)
      else if has_key k_key_hash (sha key) (registry_api_keys db) then (db, Inl RegistryIntegrityError)
      else (db\<lparr>registry_api_keys := registry_api_keys db @
              [\<lparr>k_key_hash = sha key, k_name = name, k_model_allowlist = allow, k_rpm_limit = rpm,
                k_daily_limit = daily, k_created_at = now, k_revoked_at = None\<rparr>]\<rparr>, Inr key))"

section \<open>Assignments\<close>

definition desired_models :: "registry_db \<Rightarrow> ident \<Rightarrow> ident list" where
  "desired_models db aid =
     sort (map fst (filter (\<lambda>(m, a). a = aid) (registry_assignments db)))"

definition agent_revoked :: "registry_db \<Rightarrow> ident \<Rightarrow> bool" where
  "agent_revoked db aid \<longleftrightarrow>
     list_ex (\<lambda>r. a_agent_id r = aid \<and> a_revoked_at r \<noteq> None) (registry_agents db)"

definition set_assignments :: "ident \<Rightarrow> ident list \<Rightarrow> registry_db \<Rightarrow> registry_db" where
  "set_assignments aid mids db =
     db\<lparr>registry_assignments :=
          fold (\<lambda>mid rows. if agent_revoked db aid then rows
                           else insert_ignore id (mid, aid) rows) mids
            (filter (\<lambda>(m, a). a \<noteq> aid) (registry_assignments db))\<rparr>"

section \<open>Registration and heartbeats\<close>

definition agent_config_for :: "registry_config \<Rightarrow> ident list \<Rightarrow> agent_config" where
  "agent_config_for c assigned =
     \<lparr>ac_heartbeat_interval_s = rc_heartbeat_interval_s c, ac_idle_threshold_s = rc_idle_threshold_s c,
      ac_poll_interval_ms = rc_poll_interval_ms c, ac_vram_evict_after_s = rc_vram_evict_after_s c,
      ac_bench_mode = rc_bench_mode c, ac_assigned_models = assigned\<rparr>"

definition INSERT_AGENT ::
  "ident \<Rightarrow> device_caps \<Rightarrow> string \<Rightarrow> string \<Rightarrow> instant \<Rightarrow> enrollment_mode \<Rightarrow> agent_row" where
  "INSERT_AGENT aid caps host thash now mode =
     \<lparr>a_agent_id = aid, a_hostname = dc_hostname caps, a_host = host, a_caps = caps,
      a_device_token_hash = thash, a_state = ACTIVE, a_last_seen = now, a_user_idle_s = 0,
      a_mem_available_mb = 0, a_gpus = [], a_replicas = [], a_serving_paused = False,
      a_predicted_idle_remaining_s = None, a_predicted_idle_confidence = None,
      a_enrollment_mode = mode, a_transport = transport_for_mode mode, a_presence_sequence = -1,
      a_presence_generation = 0, a_revoked_at = None, a_registered_at = now\<rparr>"

text \<open>
  Consuming the token and inserting the agent are one transaction: a failed insert rolls the
  consumption back.
\<close>

definition register_agent ::
  "(string \<Rightarrow> string) \<Rightarrow> registry_config \<Rightarrow> instant \<Rightarrow> ident \<Rightarrow> string \<Rightarrow> register_request \<Rightarrow> string \<Rightarrow>
   registry_db \<Rightarrow> registry_db \<times> (registry_error + register_response)" where
  "register_agent sha cfg now uuid device_token rq host db =
     (if rq_protocol_version rq \<noteq> PROTOCOL_VERSION
      then (db, Inl (ProtocolMismatchError (rq_protocol_version rq) PROTOCOL_VERSION))
      else
        let p = (\<lambda>r. t_token_hash r = sha (rq_enrollment_token rq) \<and> t_used_at r = None);
            token_rows = filter p (registry_enrollment_tokens db);
            mode = (case token_rows of [] \<Rightarrow> LEGACY | r # _ \<Rightarrow> t_mode r);
            db1 = db\<lparr>registry_enrollment_tokens :=
                      update_where p (\<lambda>r. r\<lparr>t_used_at := Some now\<rparr>) (registry_enrollment_tokens db)\<rparr>
        in if length token_rows \<noteq> 1 then (db, Inl EnrollmentTokenError)
           else if has_key a_agent_id uuid (registry_agents db1)
           then (db, Inl RegistryIntegrityError)
           else
             let db2 = db1\<lparr>registry_agents := registry_agents db1 @
                         [INSERT_AGENT uuid (rq_caps rq) host (sha device_token) now mode]\<rparr>
             in (db2, Inr \<lparr>rr_agent_id = uuid, rr_device_token = device_token,
                          rr_config = agent_config_for cfg (desired_models db2 uuid)\<rparr>))"

definition update_agent ::
  "ident \<Rightarrow> (agent_row \<Rightarrow> agent_row) \<Rightarrow> registry_db \<Rightarrow> registry_db \<times> (registry_error + unit)" where
  "update_agent aid f db =
     (db\<lparr>registry_agents := update_where (\<lambda>r. a_agent_id r = aid) f (registry_agents db)\<rparr>,
      if length (filter (\<lambda>r. a_agent_id r = aid) (registry_agents db)) = 1 then Inr ()
      else Inl (UnknownAgentError aid))"

definition heartbeat_fresh :: "heartbeat \<Rightarrow> agent_row \<Rightarrow> bool" where
  "heartbeat_fresh h r \<longleftrightarrow> a_transport r = DIRECT \<or> a_presence_sequence r \<le> hb_seq h"

definition record_heartbeat ::
  "instant \<Rightarrow> ident \<Rightarrow> heartbeat \<Rightarrow> registry_db \<Rightarrow> registry_db \<times> (registry_error + unit)" where
  "record_heartbeat now aid h =
     update_agent aid (\<lambda>r.
       r\<lparr>a_last_seen := now,
         a_state := (if heartbeat_fresh h r then hb_state h else a_state r),
         a_user_idle_s := hb_user_idle_s h,
         a_mem_available_mb := hb_mem_available_mb h,
         a_gpus := hb_gpus h,
         a_replicas := hb_replicas h,
         a_serving_paused := (if heartbeat_fresh h r then hb_serving_paused h else a_serving_paused r),
         a_predicted_idle_remaining_s := hb_predicted_idle_remaining_s h,
         a_predicted_idle_confidence := hb_predicted_idle_confidence h,
         a_presence_sequence := max (a_presence_sequence r) (hb_seq h)\<rparr>)"

definition set_agent_state ::
  "instant \<Rightarrow> ident \<Rightarrow> agent_state \<Rightarrow> registry_db \<Rightarrow> registry_db \<times> (registry_error + unit)" where
  "set_agent_state now aid st = update_agent aid (\<lambda>r. r\<lparr>a_state := st, a_last_seen := now\<rparr>)"

section \<open>Presence\<close>

definition presence_generation_of :: "registry_db \<Rightarrow> ident \<Rightarrow> registry_error + int" where
  "presence_generation_of db aid =
     (case agent_of db aid of
        None \<Rightarrow> Inl (UnknownAgentError aid) | Some r \<Rightarrow> Inr (a_presence_generation r))"

text \<open>
  An event whose sequence does not exceed the stored one changes nothing and reads the stored
  generation back.
\<close>

definition apply_presence_event ::
  "instant \<Rightarrow> ident \<Rightarrow> string \<Rightarrow> int \<Rightarrow> registry_db \<Rightarrow> registry_db \<times> (registry_error + int)" where
  "apply_presence_event now aid kind sequence db =
     (if kind \<notin> set [''user_returned'', ''user_idle'', ''reclaim''] \<or> sequence < 0
      then (db, Inl RegistryValueError)
      else
        let st = (if kind \<in> set [''user_returned'', ''reclaim''] then ACTIVE else IDLE);
            db1 = db\<lparr>registry_agents :=
              update_where (\<lambda>r. a_agent_id r = aid \<and> a_presence_sequence r < sequence)
                (\<lambda>r. r\<lparr>a_state := st, a_serving_paused := (kind = ''reclaim''),
                       a_presence_sequence := sequence,
                       a_presence_generation := a_presence_generation r + 1,
                       a_last_seen := now\<rparr>) (registry_agents db)\<rparr>
        in (db1, presence_generation_of db1 aid))"

definition bump_presence_generation ::
  "ident \<Rightarrow> registry_db \<Rightarrow> registry_db \<times> (registry_error + int)" where
  "bump_presence_generation aid db =
     (case update_agent aid (\<lambda>r. r\<lparr>a_presence_generation := a_presence_generation r + 1\<rparr>) db of
        (db1, Inl e) \<Rightarrow> (db1, Inl e)
      | (db1, Inr _) \<Rightarrow> (db1, presence_generation_of db1 aid))"

definition site_route :: "registry_db \<Rightarrow> ident \<Rightarrow> (transport \<times> int) option" where
  "site_route db aid =
     map_option (\<lambda>r. (a_transport r, a_presence_generation r))
       (find (\<lambda>r. a_agent_id r = aid \<and> a_revoked_at r = None) (registry_agents db))"

definition agent_transport :: "registry_db \<Rightarrow> ident \<Rightarrow> transport option" where
  "agent_transport db aid = map_option a_transport (agent_of db aid)"

definition age_s :: "instant \<Rightarrow> instant \<Rightarrow> secs" where
  "age_s now last_seen = now - last_seen"

definition site_fleet :: "instant \<Rightarrow> registry_db \<Rightarrow> site_fleet_entry list" where
  "site_fleet now db =
     map (\<lambda>r. \<lparr>sf_agent_id = a_agent_id r, sf_enrollment_mode = a_enrollment_mode r,
               sf_transport = a_transport r, sf_heartbeat_age_s = age_s now (a_last_seen r),
               sf_presence_generation = a_presence_generation r,
               sf_revoked = (a_revoked_at r \<noteq> None)\<rparr>)
       (sort_key a_registered_at (filter (\<lambda>r. a_transport r = SITE_RELAY) (registry_agents db)))"

section \<open>Authentication\<close>

definition authenticate_agent ::
  "(string \<Rightarrow> string) \<Rightarrow> string \<Rightarrow> registry_db \<Rightarrow> registry_error + ident option" where
  "authenticate_agent sha bearer db =
     (case row_of a_device_token_hash (sha bearer) (registry_agents db) of
        None \<Rightarrow> Inr None
      | Some r \<Rightarrow> if a_revoked_at r \<noteq> None then Inl (RevokedAgentError (a_agent_id r))
                  else Inr (Some (a_agent_id r)))"

definition authenticate_api_key ::
  "(string \<Rightarrow> string) \<Rightarrow> registry_config \<Rightarrow> string \<Rightarrow> registry_db \<Rightarrow> api_key_info option" where
  "authenticate_api_key sha cfg bearer db =
     (if token_matches sha bearer (sha (rc_admin_key cfg))
      then Some \<lparr>ak_name = ''admin'', ak_key_id = sha (rc_admin_key cfg), ak_model_allowlist = None,
                 ak_rpm_limit = None, ak_daily_limit = None, ak_is_admin = True\<rparr>
      else map_option
        (\<lambda>r. \<lparr>ak_name = k_name r, ak_key_id = k_key_hash r, ak_model_allowlist = k_model_allowlist r,
              ak_rpm_limit = k_rpm_limit r, ak_daily_limit = k_daily_limit r, ak_is_admin = False\<rparr>)
        (find (\<lambda>r. k_key_hash r = sha bearer \<and> k_revoked_at r = None) (registry_api_keys db)))"

section \<open>Quota snapshots\<close>

definition load_quota_snapshots :: "registry_db \<Rightarrow> quota_snapshot list" where
  "load_quota_snapshots db = registry_api_key_quota_snapshots db"

text \<open>
  \<open>executemany\<close> of the upsert: a row whose key violates the foreign key on \<open>registry_api_keys\<close>
  raises, leaving the rows before it written on the connection.
\<close>

fun save_quota_snapshots ::
  "quota_snapshot list \<Rightarrow> registry_db \<Rightarrow> registry_db \<times> (registry_error + unit)" where
  "save_quota_snapshots [] db = (db, Inr ())"
| "save_quota_snapshots (s # ss) db =
     (if has_key k_key_hash (qs_key_id s) (registry_api_keys db)
      then save_quota_snapshots ss
        (db\<lparr>registry_api_key_quota_snapshots :=
             upsert qs_key_id (\<lambda>_ n. n) s (registry_api_key_quota_snapshots db)\<rparr>)
      else (db, Inl RegistryIntegrityError))"

section \<open>Liveness views\<close>

definition snapshot_from_row :: "agent_row \<Rightarrow> bool \<Rightarrow> agent_snapshot" where
  "snapshot_from_row r suspect =
     \<lparr>as_agent_id = a_agent_id r, as_host = a_host r, as_state = a_state r, as_suspect = suspect,
      as_caps = a_caps r, as_mem_available_mb = a_mem_available_mb r, as_gpus = a_gpus r,
      as_replicas = a_replicas r, as_user_idle_s = a_user_idle_s r,
      as_serving_paused = a_serving_paused r,
      as_predicted_idle_remaining_s = a_predicted_idle_remaining_s r,
      as_predicted_idle_confidence = a_predicted_idle_confidence r\<rparr>"

definition ready_endpoints_for_row :: "agent_row \<Rightarrow> ident \<Rightarrow> replica_endpoint list" where
  "ready_endpoints_for_row r mid =
     map (\<lambda>p. \<lparr>re_agent_id = a_agent_id r, re_host = a_host r, re_port = rs_port p,
               re_model_id = mid, re_inflight = rs_inflight p\<rparr>)
       (filter (\<lambda>p. rs_model_id p = mid \<and> rs_state p = READY) (a_replicas r))"

definition snapshots :: "registry_config \<Rightarrow> instant \<Rightarrow> registry_db \<Rightarrow> agent_snapshot list" where
  "snapshots cfg now db =
     map (\<lambda>r. snapshot_from_row r (rc_suspect_after_s cfg < age_s now (a_last_seen r)))
       (filter (\<lambda>r. \<not> rc_offline_after_s cfg < age_s now (a_last_seen r))
         (sort_key a_registered_at (filter (\<lambda>r. a_revoked_at r = None) (registry_agents db))))"

definition list_offline :: "registry_config \<Rightarrow> instant \<Rightarrow> registry_db \<Rightarrow> ident list" where
  "list_offline cfg now db =
     map a_agent_id
       (filter (\<lambda>r. rc_offline_after_s cfg < age_s now (a_last_seen r)) (registry_agents db))"

definition replica_endpoints ::
  "registry_config \<Rightarrow> ident \<Rightarrow> instant \<Rightarrow> registry_db \<Rightarrow> replica_endpoint list" where
  "replica_endpoints cfg mid now db =
     concat (map (\<lambda>r.
        if rc_suspect_after_s cfg < age_s now (a_last_seen r) then []
        else if a_serving_paused r then []
        else if a_state r \<noteq> IDLE then []
        else ready_endpoints_for_row r mid)
       (filter (\<lambda>r. a_revoked_at r = None) (registry_agents db)))"

text \<open>The pure site predicate of \<open>tunnel_mode.py\<close>.\<close>

definition site_eligible :: "agent_snapshot \<Rightarrow> ident \<Rightarrow> bool \<Rightarrow> bool" where
  "site_eligible a mid claim_waiter \<longleftrightarrow>
     as_state a = IDLE \<and> \<not> as_suspect a \<and> \<not> as_serving_paused a \<and> claim_waiter \<and>
     list_ex (\<lambda>p. rs_model_id p = mid \<and> rs_state p = READY) (as_replicas a)"

section \<open>Model catalogue\<close>

definition put_model ::
  "instant \<Rightarrow> model_manifest \<Rightarrow> string \<Rightarrow> bool \<Rightarrow> registry_db \<Rightarrow> registry_db" where
  "put_model now m blob enabled db =
     db\<lparr>registry_models :=
          upsert mo_model_id
            (\<lambda>old new. old\<lparr>mo_manifest := mo_manifest new, mo_blob_path := mo_blob_path new,
                           mo_enabled := mo_enabled new\<rparr>)
            \<lparr>mo_model_id = mm_model_id m, mo_manifest = m, mo_blob_path = blob,
             mo_enabled = enabled, mo_created_at = now\<rparr> (registry_models db)\<rparr>"

definition get_model :: "registry_db \<Rightarrow> ident \<Rightarrow> model_record option" where
  "get_model db mid =
     map_option (\<lambda>r. \<lparr>mr_manifest = mo_manifest r, mr_blob_path = mo_blob_path r,
                      mr_enabled = mo_enabled r\<rparr>)
       (row_of mo_model_id mid (registry_models db))"

definition get_manifest :: "registry_db \<Rightarrow> ident \<Rightarrow> model_manifest option" where
  "get_manifest db mid = map_option mr_manifest (get_model db mid)"

definition list_models :: "registry_db \<Rightarrow> model_manifest list" where
  "list_models db =
     map mo_manifest (sort_key (\<lambda>r. (mo_created_at r, mo_model_id r)) (registry_models db))"

end
