(* ===== verification/Registry_Props.thy ===== *)
theory Registry_Props
  imports Registry_Store
begin

text \<open>
  The registry as a transition system: its row invariant, single-use enrollment, terminal
  revocation, the presence fence and the liveness views.
\<close>

section \<open>The transition system\<close>

text \<open>
  One step is one call of a method that writes. The device token of a registration is fresh: its
  digest is not already stored, as the 32 random bytes of \<open>secrets.token_urlsafe\<close> provide.
\<close>

inductive registry_step :: "(string \<Rightarrow> string) \<Rightarrow> registry_config \<Rightarrow> registry_db \<Rightarrow> registry_db \<Rightarrow> bool"
  for sha cfg where
  rs_token: "registry_step sha cfg db (fst (create_enrollment_token sha now tok mode db))"
| rs_revoke_token: "registry_step sha cfg db (fst (revoke_enrollment_token now tid db))"
| rs_revoke_agent: "registry_step sha cfg db (fst (revoke_agent now aid db))"
| rs_key: "registry_step sha cfg db (fst (create_api_key sha now key name allow rpm daily db))"
| rs_register:
    "\<not> has_key a_device_token_hash (sha dtok) (registry_agents db) \<Longrightarrow>
     registry_step sha cfg db (fst (register_agent sha cfg now uuid dtok rq host db))"
| rs_heartbeat: "registry_step sha cfg db (fst (record_heartbeat now aid h db))"
| rs_state: "registry_step sha cfg db (fst (set_agent_state now aid st db))"
| rs_presence: "registry_step sha cfg db (fst (apply_presence_event now aid kind sq db))"
| rs_bump: "registry_step sha cfg db (fst (bump_presence_generation aid db))"
| rs_quota: "registry_step sha cfg db (fst (save_quota_snapshots ss db))"
| rs_model: "registry_step sha cfg db (put_model now m blob en db)"
| rs_assign: "registry_step sha cfg db (set_assignments aid mids db)"

inductive_cases registry_stepE: "registry_step sha cfg db db'"

abbreviation registry_reach :: "(string \<Rightarrow> string) \<Rightarrow> registry_config \<Rightarrow> registry_db \<Rightarrow> bool" where
  "registry_reach sha cfg \<equiv> reach (\<lambda>db. db = empty_registry) (registry_step sha cfg)"

section \<open>Row invariants\<close>

definition agent_row_ok :: "agent_row \<Rightarrow> bool" where
  "agent_row_ok r \<longleftrightarrow>
     a_transport r = transport_for_mode (a_enrollment_mode r) \<and>
     -1 \<le> a_presence_sequence r \<and> 0 \<le> a_presence_generation r"

definition token_row_ok :: "token_row \<Rightarrow> bool" where
  "token_row_ok t \<longleftrightarrow> (t_revoked_at t \<noteq> None \<longrightarrow> t_used_at t = t_revoked_at t)"

definition api_key_row_ok :: "api_key_row \<Rightarrow> bool" where
  "api_key_row_ok k \<longleftrightarrow> validate_quota_limit (k_rpm_limit k) \<and> validate_quota_limit (k_daily_limit k)"

definition registry_inv :: "registry_db \<Rightarrow> bool" where
  "registry_inv db \<longleftrightarrow>
     keyed a_agent_id (registry_agents db) \<and>
     keyed a_device_token_hash (registry_agents db) \<and>
     list_all agent_row_ok (registry_agents db) \<and>
     keyed t_token_hash (registry_enrollment_tokens db) \<and>
     list_all token_row_ok (registry_enrollment_tokens db) \<and>
     keyed k_key_hash (registry_api_keys db) \<and>
     list_all api_key_row_ok (registry_api_keys db) \<and>
     keyed qs_key_id (registry_api_key_quota_snapshots db) \<and>
     list_all (\<lambda>s. has_key k_key_hash (qs_key_id s) (registry_api_keys db))
       (registry_api_key_quota_snapshots db) \<and>
     keyed mo_model_id (registry_models db) \<and>
     list_all (\<lambda>m. mm_model_id (mo_manifest m) = mo_model_id m) (registry_models db) \<and>
     keyed id (registry_assignments db)"

lemma registry_inv_empty: "registry_inv empty_registry"
  by (simp add: registry_inv_def empty_registry_def)

text \<open>An update of agent rows that keeps the keys and the row invariant keeps the registry's.\<close>

lemma list_all_update_where:
  assumes "list_all P rows" and "\<And>r. p r \<Longrightarrow> P r \<Longrightarrow> P (f r)"
  shows "list_all P (update_where p f rows)"
  using assms by (auto simp: list_all_iff update_where_def)

lemma registry_inv_agents:
  assumes "registry_inv db"
    and "\<And>r. a_agent_id (f r) = a_agent_id r" "\<And>r. a_device_token_hash (f r) = a_device_token_hash r"
    and "\<And>r. p r \<Longrightarrow> agent_row_ok r \<Longrightarrow> agent_row_ok (f r)"
  shows "registry_inv (db\<lparr>registry_agents := update_where p f (registry_agents db)\<rparr>)"
  using assms by (simp add: registry_inv_def keyed_update_where list_all_update_where)

lemma registry_inv_tokens:
  assumes "registry_inv db" and "\<And>r. t_token_hash (f r) = t_token_hash r"
    and "\<And>r. p r \<Longrightarrow> token_row_ok r \<Longrightarrow> token_row_ok (f r)"
  shows "registry_inv (db\<lparr>registry_enrollment_tokens := update_where p f (registry_enrollment_tokens db)\<rparr>)"
  using assms by (simp add: registry_inv_def keyed_update_where list_all_update_where)

lemma update_agent_inv:
  assumes "registry_inv db"
    and "\<And>r. a_agent_id (f r) = a_agent_id r" "\<And>r. a_device_token_hash (f r) = a_device_token_hash r"
    and "\<And>r. agent_row_ok r \<Longrightarrow> agent_row_ok (f r)"
  shows "registry_inv (fst (update_agent aid f db))"
  using assms by (simp add: update_agent_def registry_inv_agents)

lemma create_enrollment_token_inv:
  "registry_inv db \<Longrightarrow> registry_inv (fst (create_enrollment_token sha now tok mode db))"
  by (auto simp: create_enrollment_token_def registry_inv_def keyed_append token_row_ok_def
      split: option.split)

lemma revoke_enrollment_token_inv:
  assumes "registry_inv db"
  shows "registry_inv (fst (revoke_enrollment_token now tid db))"
proof -
  have "registry_inv (db\<lparr>registry_enrollment_tokens :=
      update_where p (\<lambda>r. r\<lparr>t_used_at := Some now, t_revoked_at := Some now\<rparr>)
        (registry_enrollment_tokens db)\<rparr>)" for p
    using assms by (rule registry_inv_tokens) (simp_all add: token_row_ok_def)
  with assms show ?thesis
    by (auto simp: revoke_enrollment_token_def Let_def split: sum.split list.split)
qed

lemma revoke_agent_inv: "registry_inv db \<Longrightarrow> registry_inv (fst (revoke_agent now aid db))"
  unfolding revoke_agent_def Let_def fst_conv
  by (rule registry_inv_agents) (auto simp: agent_row_ok_def)

lemma create_api_key_inv:
  "registry_inv db \<Longrightarrow> registry_inv (fst (create_api_key sha now key name allow rpm daily db))"
  by (auto simp: create_api_key_def registry_inv_def keyed_append api_key_row_ok_def list_all_iff)

lemma register_agent_inv:
  assumes "registry_inv db" "\<not> has_key a_device_token_hash (sha dtok) (registry_agents db)"
  shows "registry_inv (fst (register_agent sha cfg now uuid dtok rq host db))"
proof -
  let ?p = "\<lambda>r. t_token_hash r = sha (rq_enrollment_token rq) \<and> t_used_at r = None"
  let ?db = "db\<lparr>registry_enrollment_tokens :=
      update_where ?p (\<lambda>r. r\<lparr>t_used_at := Some now\<rparr>) (registry_enrollment_tokens db)\<rparr>"
  have inv: "registry_inv ?db"
    using assms(1) by (rule registry_inv_tokens) (auto simp: token_row_ok_def)
  have "registry_inv (?db\<lparr>registry_agents := registry_agents db @
      [INSERT_AGENT uuid caps host (sha dtok) now m]\<rparr>)"
    if "\<not> has_key a_agent_id uuid (registry_agents db)" for m caps
    using inv assms(2) that
    by (simp add: registry_inv_def keyed_append INSERT_AGENT_def agent_row_ok_def)
  with assms(1) show ?thesis by (simp add: register_agent_def Let_def)
qed

lemma record_heartbeat_inv:
  "registry_inv db \<Longrightarrow> registry_inv (fst (record_heartbeat now aid h db))"
  unfolding record_heartbeat_def by (rule update_agent_inv) (auto simp: agent_row_ok_def)

lemma set_agent_state_inv:
  "registry_inv db \<Longrightarrow> registry_inv (fst (set_agent_state now aid st db))"
  unfolding set_agent_state_def by (rule update_agent_inv) (auto simp: agent_row_ok_def)

lemma apply_presence_event_inv:
  "registry_inv db \<Longrightarrow> registry_inv (fst (apply_presence_event now aid kind sq db))"
  unfolding apply_presence_event_def Let_def
  by (cases "kind \<notin> set [''user_returned'', ''user_idle'', ''reclaim''] \<or> sq < 0")
    (simp, simp only: if_False fst_conv, rule registry_inv_agents, auto simp: agent_row_ok_def)

lemma bump_presence_generation_inv:
  assumes "registry_inv db"
  shows "registry_inv (fst (bump_presence_generation aid db))"
proof -
  have "registry_inv (fst (update_agent aid
      (\<lambda>r. r\<lparr>a_presence_generation := a_presence_generation r + 1\<rparr>) db))"
    using assms by (rule update_agent_inv) (auto simp: agent_row_ok_def)
  then show ?thesis by (auto simp: bump_presence_generation_def split: prod.split sum.split)
qed

lemma save_quota_snapshots_inv:
  "registry_inv db \<Longrightarrow> registry_inv (fst (save_quota_snapshots ss db))"
proof (induction ss db rule: save_quota_snapshots.induct)
  case (2 s ss db)
  let ?snaps = "registry_api_key_quota_snapshots db"
  have "registry_inv (db\<lparr>registry_api_key_quota_snapshots := upsert qs_key_id (\<lambda>_ n. n) s ?snaps\<rparr>)"
    if k: "has_key k_key_hash (qs_key_id s) (registry_api_keys db)"
  proof -
    have "keyed qs_key_id (upsert qs_key_id (\<lambda>_ n. n) s ?snaps)"
      using 2(2) by (intro keyed_upsert) (simp_all add: registry_inv_def)
    moreover have "list_all (\<lambda>s. has_key k_key_hash (qs_key_id s) (registry_api_keys db))
        (upsert qs_key_id (\<lambda>_ n. n) s ?snaps)"
      using 2(2) k by (simp add: upsert_def list_all_update_where registry_inv_def)
    ultimately show ?thesis using 2(2) by (simp add: registry_inv_def)
  qed
  with 2 show ?case by simp
qed simp

lemma put_model_inv: "registry_inv db \<Longrightarrow> registry_inv (put_model now m blob en db)"
  unfolding put_model_def registry_inv_def
  by (simp add: keyed_upsert) (simp add: upsert_def list_all_update_where)

lemma keyed_insert_ignore_fold:
  "keyed id rows \<Longrightarrow> keyed id (fold (\<lambda>m rows. if b then rows else insert_ignore id (m, a) rows) ms rows)"
  by (induction ms arbitrary: rows) auto

lemma set_assignments_inv: "registry_inv db \<Longrightarrow> registry_inv (set_assignments aid mids db)"
  by (auto simp: set_assignments_def registry_inv_def intro!: keyed_insert_ignore_fold)

lemmas registry_inv_ops =
  create_enrollment_token_inv revoke_enrollment_token_inv revoke_agent_inv create_api_key_inv
  register_agent_inv record_heartbeat_inv set_agent_state_inv apply_presence_event_inv
  bump_presence_generation_inv save_quota_snapshots_inv put_model_inv set_assignments_inv

lemma registry_step_inv: "registry_inv db \<Longrightarrow> registry_step sha cfg db db' \<Longrightarrow> registry_inv db'"
  by (erule registry_stepE) (simp_all add: registry_inv_ops)

interpretation registry_sys: inv_system "\<lambda>db. db = empty_registry" "registry_step sha cfg" registry_inv
  for sha cfg
  by unfold_locales (auto simp: registry_inv_empty intro: registry_step_inv)

section \<open>Rows along a run\<close>

text \<open>What a step may do to one agent row and to one token row.\<close>

definition agent_evolves :: "agent_row \<Rightarrow> agent_row \<Rightarrow> bool" where
  "agent_evolves r r' \<longleftrightarrow>
     a_agent_id r' = a_agent_id r \<and> a_device_token_hash r' = a_device_token_hash r \<and>
     a_enrollment_mode r' = a_enrollment_mode r \<and> a_transport r' = a_transport r \<and>
     a_presence_sequence r \<le> a_presence_sequence r' \<and>
     a_presence_generation r \<le> a_presence_generation r' \<and>
     (a_revoked_at r \<noteq> None \<longrightarrow> a_revoked_at r' = a_revoked_at r)"

definition token_evolves :: "token_row \<Rightarrow> token_row \<Rightarrow> bool" where
  "token_evolves t t' \<longleftrightarrow>
     t_token_hash t' = t_token_hash t \<and> t_mode t' = t_mode t \<and>
     (t_used_at t \<noteq> None \<longrightarrow> t' = t)"

definition rows_evolve :: "('r \<Rightarrow> 'r \<Rightarrow> bool) \<Rightarrow> 'r list \<Rightarrow> 'r list \<Rightarrow> bool" where
  "rows_evolve R rows rows' \<longleftrightarrow> (\<forall>r \<in> set rows. \<exists>r' \<in> set rows'. R r r')"

lemma agent_evolves_refl [simp]: "agent_evolves r r"
  by (simp add: agent_evolves_def)

lemma token_evolves_refl [simp]: "token_evolves t t"
  by (simp add: token_evolves_def)

lemma agent_evolves_trans: "agent_evolves r r' \<Longrightarrow> agent_evolves r' r'' \<Longrightarrow> agent_evolves r r''"
  by (auto simp: agent_evolves_def)

lemma token_evolves_trans: "token_evolves r r' \<Longrightarrow> token_evolves r' r'' \<Longrightarrow> token_evolves r r''"
  by (auto simp: token_evolves_def)

lemma rows_evolve_refl: "(\<And>r. R r r) \<Longrightarrow> rows_evolve R rows rows"
  by (auto simp: rows_evolve_def)

lemma rows_evolve_append: "(\<And>r. R r r) \<Longrightarrow> rows_evolve R rows (rows @ rows')"
  by (auto simp: rows_evolve_def)

lemma rows_evolve_update_where:
  assumes "\<And>r. R r r" and "\<And>r. p r \<Longrightarrow> R r (f r)"
  shows "rows_evolve R rows (update_where p f rows)"
  unfolding rows_evolve_def using assms by (metis in_update_whereI)

lemma rows_evolve_trans:
  assumes "rows_evolve R a b" "rows_evolve R b c" "\<And>x y z. R x y \<Longrightarrow> R y z \<Longrightarrow> R x z"
  shows "rows_evolve R a c"
  using assms unfolding rows_evolve_def by meson

definition registry_evolves :: "registry_db \<Rightarrow> registry_db \<Rightarrow> bool" where
  "registry_evolves db db' \<longleftrightarrow>
     rows_evolve agent_evolves (registry_agents db) (registry_agents db') \<and>
     rows_evolve token_evolves (registry_enrollment_tokens db) (registry_enrollment_tokens db')"

lemma registry_evolves_trans:
  "registry_evolves a b \<Longrightarrow> registry_evolves b c \<Longrightarrow> registry_evolves a c"
  unfolding registry_evolves_def
  by (meson rows_evolve_trans agent_evolves_trans token_evolves_trans)

lemma registry_evolves_same:
  assumes "registry_agents db' = registry_agents db"
    and "registry_enrollment_tokens db' = registry_enrollment_tokens db"
  shows "registry_evolves db db'"
  using assms by (simp add: registry_evolves_def rows_evolve_refl)

lemma registry_evolves_refl [simp]: "registry_evolves db db"
  by (simp add: registry_evolves_same)

lemma registry_evolves_agents:
  assumes "\<And>r. p r \<Longrightarrow> agent_evolves r (f r)"
  shows "registry_evolves db (db\<lparr>registry_agents := update_where p f (registry_agents db)\<rparr>)"
  using assms by (simp add: registry_evolves_def rows_evolve_refl rows_evolve_update_where)

lemma registry_evolves_tokens:
  assumes "\<And>r. p r \<Longrightarrow> token_evolves r (f r)"
  shows "registry_evolves db
    (db\<lparr>registry_enrollment_tokens := update_where p f (registry_enrollment_tokens db)\<rparr>)"
  using assms by (simp add: registry_evolves_def rows_evolve_refl rows_evolve_update_where)

lemma save_quota_snapshots_tables:
  "registry_agents (fst (save_quota_snapshots ss db)) = registry_agents db"
  "registry_enrollment_tokens (fst (save_quota_snapshots ss db)) = registry_enrollment_tokens db"
  by (induction ss db rule: save_quota_snapshots.induct) auto

lemma create_enrollment_token_evolves:
  "registry_evolves db (fst (create_enrollment_token sha now tok mode db))"
  by (auto simp: create_enrollment_token_def registry_evolves_def rows_evolve_refl
      rows_evolve_append split: option.split)

lemma revoke_enrollment_token_evolves:
  "registry_evolves db (fst (revoke_enrollment_token now tid db))"
proof -
  have "registry_evolves db (db\<lparr>registry_enrollment_tokens :=
      update_where (\<lambda>r. t_token_hash r = h \<and> t_used_at r = None)
        (\<lambda>r. r\<lparr>t_used_at := Some now, t_revoked_at := Some now\<rparr>) (registry_enrollment_tokens db)\<rparr>)"
    for h by (rule registry_evolves_tokens) (simp add: token_evolves_def)
  then show ?thesis
    by (auto simp: revoke_enrollment_token_def Let_def split: sum.split list.split)
qed

lemma register_agent_evolves:
  "registry_evolves db (fst (register_agent sha cfg now uuid dtok rq host db))"
proof -
  let ?p = "\<lambda>r. t_token_hash r = sha (rq_enrollment_token rq) \<and> t_used_at r = None"
  have "rows_evolve token_evolves (registry_enrollment_tokens db)
      (update_where ?p (\<lambda>r. r\<lparr>t_used_at := Some now\<rparr>) (registry_enrollment_tokens db))"
    by (rule rows_evolve_update_where) (simp_all add: token_evolves_def)
  then show ?thesis
    by (simp add: register_agent_def Let_def registry_evolves_def rows_evolve_append rows_evolve_refl)
qed

lemma agent_writes_evolve:
  "registry_evolves db (fst (revoke_agent now aid db))"
  "registry_evolves db (fst (record_heartbeat now aid h db))"
  "registry_evolves db (fst (set_agent_state now aid st db))"
  unfolding revoke_agent_def record_heartbeat_def set_agent_state_def update_agent_def Let_def fst_conv
  by (rule registry_evolves_agents, auto simp: agent_evolves_def)+

lemma presence_writes_evolve:
  "registry_evolves db (fst (apply_presence_event now aid kind sq db))"
  "registry_evolves db (fst (bump_presence_generation aid db))"
proof -
  have "registry_evolves db (db\<lparr>registry_agents :=
      update_where (\<lambda>r. a_agent_id r = aid \<and> a_presence_sequence r < sq)
        (\<lambda>r. r\<lparr>a_state := st, a_serving_paused := b, a_presence_sequence := sq,
               a_presence_generation := a_presence_generation r + 1, a_last_seen := now\<rparr>)
        (registry_agents db)\<rparr>)" for st b
    by (rule registry_evolves_agents) (auto simp: agent_evolves_def)
  then show "registry_evolves db (fst (apply_presence_event now aid kind sq db))"
    unfolding apply_presence_event_def Let_def by (simp del: list.set set_simps)
  have "registry_evolves db (fst (update_agent aid
      (\<lambda>r. r\<lparr>a_presence_generation := a_presence_generation r + 1\<rparr>) db))"
    unfolding update_agent_def fst_conv
    by (rule registry_evolves_agents) (auto simp: agent_evolves_def)
  then show "registry_evolves db (fst (bump_presence_generation aid db))"
    by (auto simp: bump_presence_generation_def split: prod.split sum.split)
qed

lemma registry_step_evolves: "registry_step sha cfg db db' \<Longrightarrow> registry_evolves db db'"
  by (erule registry_stepE)
    (simp_all add: create_enrollment_token_evolves revoke_enrollment_token_evolves
      register_agent_evolves agent_writes_evolve presence_writes_evolve registry_evolves_same
      save_quota_snapshots_tables put_model_def set_assignments_def create_api_key_def)

lemma registry_steps_evolve: "(registry_step sha cfg)\<^sup>*\<^sup>* db db' \<Longrightarrow> registry_evolves db db'"
  by (induction rule: rtranclp_induct) (auto intro: registry_evolves_trans registry_step_evolves)

lemma registry_evolves_agent:
  assumes "registry_evolves db db'" "registry_inv db'" "agent_of db aid = Some r"
  obtains r' where "agent_of db' aid = Some r'" "agent_evolves r r'"
proof -
  from assms(3) have r: "r \<in> set (registry_agents db)" "a_agent_id r = aid"
    by (auto dest: row_of_SomeD)
  with assms(1) obtain r' where r': "r' \<in> set (registry_agents db')" "agent_evolves r r'"
    unfolding registry_evolves_def rows_evolve_def by blast
  then have "a_agent_id r' = aid" using r by (simp add: agent_evolves_def)
  with r' assms(2) have "agent_of db' aid = Some r'"
    by (simp add: row_of_eq registry_inv_def)
  with r' show thesis using that by blast
qed

section \<open>Sample registry\<close>

text \<open>A registry with one legacy agent and one unused site token, built by the methods.\<close>

definition rcfg0 :: registry_config where
  "rcfg0 = registry_config_default ''root''"

definition rcaps0 :: device_caps where
  "rcaps0 = \<lparr>dc_hostname = ''desk'', dc_os = LINUX, dc_os_version = ''6'', dc_cpu_model = ''x'',
             dc_cpu_cores = 8, dc_ram_mb = 16000, dc_disk_free_mb = 100, dc_gpus = [],
             dc_agent_version = ''1''\<rparr>"

definition rq0 :: register_request where
  "rq0 = \<lparr>rq_enrollment_token = ''join'', rq_protocol_version = PROTOCOL_VERSION, rq_caps = rcaps0\<rparr>"

definition rdb0 :: registry_db where
  "rdb0 = fst (create_enrollment_token id 1 ''join'' ''site'' empty_registry)"

definition rdb1 :: registry_db where
  "rdb1 = fst (register_agent id rcfg0 2 ''A'' ''dev'' rq0 ''10.0.0.1'' rdb0)"

lemma rdb0_eq:
  "rdb0 = empty_registry\<lparr>registry_enrollment_tokens :=
     [\<lparr>t_token_hash = ''join'', t_created_at = 1, t_used_at = None, t_mode = SITE, t_revoked_at = None\<rparr>]\<rparr>"
  by (simp add: rdb0_def create_enrollment_token_def mode_of_def empty_registry_def)

lemma rdb1_eq:
  "rdb1 = empty_registry\<lparr>
     registry_agents := [INSERT_AGENT ''A'' rcaps0 ''10.0.0.1'' ''dev'' 2 SITE],
     registry_enrollment_tokens :=
       [\<lparr>t_token_hash = ''join'', t_created_at = 1, t_used_at = Some 2, t_mode = SITE, t_revoked_at = None\<rparr>]\<rparr>"
  by (simp add: rdb1_def rdb0_eq register_agent_def Let_def rq0_def empty_registry_def update_where_def)

lemma rdb0_reach: "registry_reach id rcfg0 rdb0"
  unfolding rdb0_def by (rule reach_step [where s = empty_registry]) (auto intro: reach_init rs_token)

lemma rdb1_reach: "registry_reach id rcfg0 rdb1"
  unfolding rdb1_def
  by (rule reach_step [OF rdb0_reach rs_register]) (simp add: rdb0_eq empty_registry_def)

section \<open>Enrollment\<close>

text \<open>C16: An enrollment token is single-use: once a registration with a token has succeeded on a
  reachable registry, then after any further calls of the registry's methods, every registration
  that presents that token again (from any host, under any new id) is refused with
  \<open>EnrollmentTokenError\<close> and changes nothing; and the first registration gives exactly one
  new agent, live and carrying the transport of the token's mode.\<close>

theorem enrollment_single_use:
  assumes "registry_reach sha cfg db"
    and "\<not> has_key a_device_token_hash (sha dtok) (registry_agents db)"
    and "register_agent sha cfg now uuid dtok rq host db = (db1, Inr resp)"
    and "(registry_step sha cfg)\<^sup>*\<^sup>* db1 db2"
    and "rq_enrollment_token rq' = rq_enrollment_token rq"
    and "rq_protocol_version rq' = PROTOCOL_VERSION"
  shows "register_agent sha cfg now' uuid' dtok' rq' host' db2 = (db2, Inl EnrollmentTokenError) \<and>
    (\<exists>t. t \<in> set (registry_enrollment_tokens db) \<and> t_used_at t = None \<and>
       t_token_hash t = sha (rq_enrollment_token rq) \<and>
       registry_agents db1 = registry_agents db @
         [INSERT_AGENT uuid (rq_caps rq) host (sha dtok) now (t_mode t)]) \<and>
    authenticate_agent sha dtok db1 = Inr (Some uuid)"
proof -
  let ?h = "sha (rq_enrollment_token rq)"
  let ?p = "\<lambda>r. t_token_hash r = ?h \<and> t_used_at r = None"
  have inv: "registry_inv db" using assms(1) by (rule registry_sys.reach_inv)
  from assms(3) have len: "length (filter ?p (registry_enrollment_tokens db)) = 1"
    by (auto simp: register_agent_def Let_def split: if_splits)
  then obtain t where t: "filter ?p (registry_enrollment_tokens db) = [t]"
    by (cases "filter ?p (registry_enrollment_tokens db)") auto
  then have "t \<in> set (filter ?p (registry_enrollment_tokens db))" by simp
  then have tin: "t \<in> set (registry_enrollment_tokens db)" "t_token_hash t = ?h" "t_used_at t = None"
    by simp_all
  from assms(3) t have db1: "registry_agents db1 = registry_agents db @
         [INSERT_AGENT uuid (rq_caps rq) host (sha dtok) now (t_mode t)]"
      "registry_enrollment_tokens db1 =
         update_where ?p (\<lambda>r. r\<lparr>t_used_at := Some now\<rparr>) (registry_enrollment_tokens db)"
    by (auto simp: register_agent_def Let_def split: if_splits)
  let ?t1 = "t\<lparr>t_used_at := Some now\<rparr>"
  have "?t1 \<in> set (registry_enrollment_tokens db1)"
    using in_update_whereI [OF tin(1), of ?p "\<lambda>r. r\<lparr>t_used_at := Some now\<rparr>"] tin db1(2) by simp
  with registry_steps_evolve [OF assms(4)] obtain t2 where t2: "t2 \<in> set (registry_enrollment_tokens db2)"
      "token_evolves ?t1 t2"
    unfolding registry_evolves_def rows_evolve_def by blast
  then have t2h: "t_token_hash t2 = ?h" "t_used_at t2 = Some now"
    using tin by (auto simp: token_evolves_def)
  have "registry_step sha cfg db db1"
    using rs_register [where sha = sha and dtok = dtok and db = db and cfg = cfg and now = now
        and uuid = uuid and rq = rq and host = host] assms(2,3) by simp
  then have inv2: "registry_inv db2"
    using registry_sys.steps_inv [OF assms(4)] registry_step_inv inv by blast
  have none: "filter ?p (registry_enrollment_tokens db2) = []"
  proof (rule filter_False, rule ballI, rule notI)
    fix x assume x: "x \<in> set (registry_enrollment_tokens db2)" "?p x"
    have "x = t2"
      using keyed_eq [of t_token_hash "registry_enrollment_tokens db2" x t2] inv2 x t2(1) t2h
      by (simp add: registry_inv_def)
    with x t2h show False by simp
  qed
  have "authenticate_agent sha dtok db1 = Inr (Some uuid)"
    using assms(2)
    by (simp add: authenticate_agent_def db1(1) row_of_append row_of_single row_of_None [THEN iffD2]
        INSERT_AGENT_def)
  moreover have "register_agent sha cfg now' uuid' dtok' rq' host' db2 = (db2, Inl EnrollmentTokenError)"
    using none assms(5,6) by (simp add: register_agent_def)
  ultimately show ?thesis using tin db1(1) by blast
qed

theorem enrollment_single_use_witness:
  "\<exists>resp. register_agent id rcfg0 2 ''A'' ''dev'' rq0 ''10.0.0.1'' rdb0 = (rdb1, Inr resp) \<and>
     register_agent id rcfg0 9 ''B'' ''dev2'' rq0 ''10.0.0.9'' rdb1 = (rdb1, Inl EnrollmentTokenError)"
proof -
  have ok: "\<not> has_key a_device_token_hash (id ''dev'') (registry_agents rdb0)"
    by (simp add: rdb0_eq empty_registry_def)
  obtain resp where r: "register_agent id rcfg0 2 ''A'' ''dev'' rq0 ''10.0.0.1'' rdb0 = (rdb1, Inr resp)"
    by (simp add: rdb1_def rdb0_eq register_agent_def Let_def rq0_def empty_registry_def update_where_def)
  have "register_agent id rcfg0 9 ''B'' ''dev2'' rq0 ''10.0.0.9'' rdb1 = (rdb1, Inl EnrollmentTokenError)"
    using enrollment_single_use [OF rdb0_reach ok r rtranclp.rtrancl_refl, of rq0]
    by (simp add: rq0_def)
  with r show ?thesis by blast
qed

section \<open>Revocation\<close>

lemma site_route_revoked:
  assumes "registry_inv db" "agent_of db aid = Some r" "a_revoked_at r \<noteq> None"
  shows "site_route db aid = None"
proof -
  have "find (\<lambda>r. a_agent_id r = aid \<and> a_revoked_at r = None) (registry_agents db) = None"
  proof (rule ccontr)
    assume "\<not> ?thesis"
    then obtain x where x: "x \<in> set (registry_agents db)" "a_agent_id x = aid" "a_revoked_at x = None"
      by (auto dest: find_SomeD)
    with assms(1) have "agent_of db aid = Some x" by (simp add: row_of_eq registry_inv_def)
    with assms(2,3) x(3) show False by simp
  qed
  then show ?thesis by (simp add: site_route_def)
qed

lemma agent_not_live:
  assumes "registry_inv db" "agent_of db aid = Some r" "a_revoked_at r \<noteq> None"
    and "x \<in> set (registry_agents db)" "a_agent_id x = aid"
  shows "a_revoked_at x \<noteq> None"
  using assms row_of_eq [of a_agent_id "registry_agents db" x aid] by (simp add: registry_inv_def)

lemma snapshots_ids:
  "as_agent_id ` set (snapshots cfg now db) =
     {a_agent_id r |r. r \<in> set (registry_agents db) \<and> a_revoked_at r = None \<and>
        \<not> rc_offline_after_s cfg < age_s now (a_last_seen r)}"
  by (auto simp: snapshots_def snapshot_from_row_def image_iff)

lemma replica_endpointsD:
  assumes "e \<in> set (replica_endpoints cfg mid now db)"
  obtains r p where "r \<in> set (registry_agents db)" "a_agent_id r = re_agent_id e"
    "a_revoked_at r = None" "a_last_seen r + rc_suspect_after_s cfg \<ge> now" "\<not> a_serving_paused r"
    "a_state r = IDLE" "p \<in> set (a_replicas r)" "rs_model_id p = mid" "rs_state p = READY"
    "re_host e = a_host r" "re_port e = rs_port p" "re_model_id e = mid" "re_inflight e = rs_inflight p"
  using assms
  by (auto simp: replica_endpoints_def ready_endpoints_for_row_def age_s_def split: if_splits)

lemma fold_const: "fold (\<lambda>m rows. rows) ms rows = rows"
  by (induction ms) auto

lemma desired_after_set_assignments_revoked:
  assumes "agent_revoked db aid"
  shows "desired_models (set_assignments aid mids db) aid = []"
  using assms
  by (simp add: set_assignments_def desired_models_def fold_const filter_empty_conv split: prod.split)

text \<open>A revoked agent stays revoked and never gains an assignment.\<close>

lemma set_assignments_revoked: "agent_revoked (set_assignments aid mids db) k = agent_revoked db k"
  by (simp add: set_assignments_def agent_revoked_def)

lemma assignments_other:
  "(m, k) \<in> set (fold (\<lambda>mid rows. if gone then rows else insert_ignore id (mid, aid) rows) mids rows) \<Longrightarrow>
   (m, k) \<in> set rows \<or> k = aid \<and> \<not> gone"
proof (induction mids arbitrary: rows)
  case (Cons a mids)
  then have "(m, k) \<in> set (fold (\<lambda>mid rows. if gone then rows else insert_ignore id (mid, aid) rows) mids
      (if gone then rows else insert_ignore id (a, aid) rows))" by simp
  from Cons.IH [OF this] show ?case by (auto simp: insert_ignore_def split: if_splits)
qed simp

lemma save_quota_assignments [simp]: "registry_assignments (fst (save_quota_snapshots ss db)) = registry_assignments db"
  by (induction ss db rule: save_quota_snapshots.induct) simp_all

lemma assignments_frame:
  "registry_assignments (fst (create_enrollment_token sha now tok mode db)) = registry_assignments db"
  "registry_assignments (fst (revoke_enrollment_token now tid db)) = registry_assignments db"
  "registry_assignments (fst (revoke_agent now aid db)) = registry_assignments db"
  "registry_assignments (fst (create_api_key sha now key name allow rpm daily db)) = registry_assignments db"
  "registry_assignments (fst (register_agent sha cfg now uuid dtok rq host db)) = registry_assignments db"
  "registry_assignments (fst (record_heartbeat now aid h db)) = registry_assignments db"
  "registry_assignments (fst (set_agent_state now aid st db)) = registry_assignments db"
  "registry_assignments (fst (apply_presence_event now aid kind sq db)) = registry_assignments db"
  "registry_assignments (fst (bump_presence_generation aid db)) = registry_assignments db"
  "registry_assignments (put_model now m blob en db) = registry_assignments db"
  by (simp_all add: create_enrollment_token_def revoke_enrollment_token_def revoke_agent_def create_api_key_def register_agent_def
      record_heartbeat_def set_agent_state_def apply_presence_event_def bump_presence_generation_def put_model_def
      update_agent_def Let_def split: option.split sum.split list.split)

lemma assignments_kept:
  "registry_step sha cfg db db' \<Longrightarrow>
   (\<exists>aid mids. db' = set_assignments aid mids db) \<or> registry_assignments db' = registry_assignments db"
  by (erule registry_step.cases) (simp_all only: assignments_frame save_quota_assignments, auto)

lemma desired_shrinks:
  assumes "registry_step sha cfg db db'" "agent_revoked db k"
  shows "set (desired_models db' k) \<subseteq> set (desired_models db k)"
  using assignments_kept [OF assms(1)]
proof (elim disjE exE)
  fix aid mids
  assume "db' = set_assignments aid mids db"
  then show ?thesis
    using assms(2) assignments_other [of _ k "agent_revoked db aid" aid mids "filter (\<lambda>(m, a). a \<noteq> aid) (registry_assignments db)"]
    by (force simp: set_assignments_def desired_models_def)
qed (simp add: desired_models_def)

lemma desired_shrinks_steps:
  assumes "(registry_step sha cfg)\<^sup>*\<^sup>* db db'" "registry_inv db" "agent_revoked db k"
  shows "set (desired_models db' k) \<subseteq> set (desired_models db k)"
  using assms
proof (induction rule: rtranclp_induct)
  case (step y z)
  obtain r where "r \<in> set (registry_agents db)" "a_agent_id r = k" "a_revoked_at r \<noteq> None"
    using step.prems(2) by (auto simp: agent_revoked_def list_ex_iff)
  then have "agent_of db k = Some r" "a_revoked_at r \<noteq> None"
    using step.prems(1) by (auto simp: row_of_eq registry_inv_def)
  moreover have "registry_inv y" using registry_sys.steps_inv [OF step.hyps(1)] step.prems(1) by blast
  ultimately obtain r' where "agent_of y k = Some r'" "a_revoked_at r' \<noteq> None"
    using registry_evolves_agent [OF registry_steps_evolve [OF step.hyps(1)]] by (metis agent_evolves_def)
  then have "agent_revoked y k" by (auto simp: agent_revoked_def list_ex_iff dest: row_of_SomeD)
  from desired_shrinks [OF step.hyps(2) this] step.IH [OF step.prems] show ?case by blast
qed simp

text \<open>C17: Revocation is terminal: once \<open>revoke_agent\<close> has succeeded on a reachable registry, then
  after any further calls of the registry's methods the agent's device token authenticates to a
  \<open>RevokedAgentError\<close> naming it, the agent has no relay route, appears in no scheduling snapshot
  and among no model's routable endpoints at any time, and it is still listed as revoked, with the
  instant of its first revocation. The models it was assigned before stay until they are cleared, but it
  gains none, and once \<open>set_assignments\<close> has been called for it, with whatever models, it has no
  assignment ever after.\<close>

theorem revocation_terminal:
  assumes "registry_reach sha cfg db"
    and "revoke_agent now aid db = (db1, Inr ())"
    and "(registry_step sha cfg)\<^sup>*\<^sup>* db1 db2"
    and "agent_of db aid = Some r" and "sha dtok = a_device_token_hash r"
  shows "authenticate_agent sha dtok db2 = Inl (RevokedAgentError aid) \<and>
    site_route db2 aid = None \<and>
    aid \<notin> as_agent_id ` set (snapshots cfg now' db2) \<and>
    aid \<notin> re_agent_id ` set (replica_endpoints cfg mid now' db2) \<and>
    set (desired_models db2 aid) \<subseteq> set (desired_models db1 aid) \<and>
    (\<forall>db3. (registry_step sha cfg)\<^sup>*\<^sup>* (set_assignments aid mids db2) db3 \<longrightarrow> desired_models db3 aid = []) \<and>
    (\<exists>i \<in> set (list_revoked_agents db2). rai_agent_id i = aid \<and>
       rai_revoked_at i = (case a_revoked_at r of None \<Rightarrow> now | Some t \<Rightarrow> t))"
proof -
  let ?f = "\<lambda>r. r\<lparr>a_revoked_at := (case a_revoked_at r of None \<Rightarrow> Some now | Some t \<Rightarrow> Some t)\<rparr>"
  let ?t = "case a_revoked_at r of None \<Rightarrow> now | Some t \<Rightarrow> t"
  have inv: "registry_inv db" using assms(1) by (rule registry_sys.reach_inv)
  have db1: "db1 = fst (revoke_agent now aid db)" using assms(2) by simp
  then have inv1: "registry_inv db1" and inv2: "registry_inv db2"
    using inv registry_sys.steps_inv [OF assms(3)] by (auto intro: revoke_agent_inv)
  have row1: "agent_of db1 aid = Some (?f r)"
    using assms(4) row_of_SomeD [OF assms(4)]
    by (simp add: db1 revoke_agent_def Let_def row_of_update_where)
  then obtain r2 where r2: "agent_of db2 aid = Some r2" "agent_evolves (?f r) r2"
    using registry_steps_evolve [OF assms(3)] inv2 by (blast elim: registry_evolves_agent)
  have rev: "a_revoked_at r2 = Some ?t" and tok: "a_device_token_hash r2 = sha dtok"
    using r2(2) assms(5) by (auto simp: agent_evolves_def split: option.splits)
  have r2in: "r2 \<in> set (registry_agents db2)" "a_agent_id r2 = aid"
    using r2(1) by (auto dest: row_of_SomeD)
  have notlive: "a_revoked_at x \<noteq> None" if "x \<in> set (registry_agents db2)" "a_agent_id x = aid" for x
    using agent_not_live [OF inv2 r2(1)] rev that by simp
  have "row_of a_device_token_hash (sha dtok) (registry_agents db2) = Some r2"
    using inv2 r2in tok by (simp add: row_of_eq registry_inv_def)
  then have "authenticate_agent sha dtok db2 = Inl (RevokedAgentError aid)"
    using rev r2in by (simp add: authenticate_agent_def)
  moreover have "site_route db2 aid = None"
    using site_route_revoked [OF inv2 r2(1)] rev by simp
  moreover have "aid \<notin> as_agent_id ` set (snapshots cfg now' db2)"
    using notlive by (auto simp: snapshots_ids)
  moreover have "aid \<notin> re_agent_id ` set (replica_endpoints cfg mid now' db2)"
    using notlive by (fastforce elim: replica_endpointsD)
  moreover have "agent_revoked db1 aid"
    using row_of_SomeD [OF row1] by (auto simp: agent_revoked_def list_ex_iff split: option.splits intro!: bexI [of _ "?f r"])
  then have "set (desired_models db2 aid) \<subseteq> set (desired_models db1 aid)"
    using desired_shrinks_steps [OF assms(3) inv1] by simp
  moreover have "agent_revoked db2 aid"
    using r2in rev by (auto simp: agent_revoked_def list_ex_iff)
  then have "desired_models db3 aid = []" if "(registry_step sha cfg)\<^sup>*\<^sup>* (set_assignments aid mids db2) db3" for db3
    using desired_after_set_assignments_revoked [of db2 aid mids]
      desired_shrinks_steps [OF that registry_step_inv [OF inv2 rs_assign], of aid]
    by (simp add: set_assignments_revoked)
  moreover have "\<exists>i \<in> set (list_revoked_agents db2). rai_agent_id i = aid \<and> rai_revoked_at i = ?t"
    using r2in rev by (force simp: list_revoked_agents_def)
  ultimately show ?thesis by blast
qed

theorem revocation_terminal_witness:
  "\<exists>db1 r. revoke_agent 5 ''A'' rdb1 = (db1, Inr ()) \<and> agent_of rdb1 ''A'' = Some r \<and>
     a_device_token_hash r = ''dev'' \<and>
     authenticate_agent id ''dev'' (set_assignments ''A'' [''m''] db1) = Inl (RevokedAgentError ''A'')"
proof -
  let ?db1 = "fst (revoke_agent 5 ''A'' rdb1)"
  let ?r = "INSERT_AGENT ''A'' rcaps0 ''10.0.0.1'' ''dev'' 2 SITE"
  have rev: "revoke_agent 5 ''A'' rdb1 = (?db1, Inr ())"
    by (simp add: rdb1_eq revoke_agent_def Let_def INSERT_AGENT_def)
  have r: "agent_of rdb1 ''A'' = Some ?r" "id ''dev'' = a_device_token_hash ?r"
    by (simp_all add: rdb1_eq INSERT_AGENT_def row_of_def)
  have "(registry_step id rcfg0)\<^sup>*\<^sup>* ?db1 (set_assignments ''A'' [''m''] ?db1)"
    by (rule r_into_rtranclp) (rule rs_assign)
  then have "authenticate_agent id ''dev'' (set_assignments ''A'' [''m''] ?db1) =
      Inl (RevokedAgentError ''A'')"
    using revocation_terminal [OF rdb1_reach rev _ r] by blast
  then show ?thesis using rev r by (metis id_apply)
qed

section \<open>Presence fence\<close>

text \<open>
  What keeps a row out of interactive routing while heartbeats older than the fence arrive: a
  reclaimed or returned site agent.
\<close>

definition withheld :: "int \<Rightarrow> agent_row \<Rightarrow> bool" where
  "withheld sq r \<longleftrightarrow>
     a_transport r = SITE_RELAY \<and> sq \<le> a_presence_sequence r \<and> a_state r = ACTIVE"

lemma record_heartbeat_row:
  "agent_of (fst (record_heartbeat now aid h db)) aid' =
     map_option (\<lambda>r. if a_agent_id r = aid then
       r\<lparr>a_last_seen := now,
         a_state := (if heartbeat_fresh h r then hb_state h else a_state r),
         a_user_idle_s := hb_user_idle_s h, a_mem_available_mb := hb_mem_available_mb h,
         a_gpus := hb_gpus h, a_replicas := hb_replicas h,
         a_serving_paused := (if heartbeat_fresh h r then hb_serving_paused h else a_serving_paused r),
         a_predicted_idle_remaining_s := hb_predicted_idle_remaining_s h,
         a_predicted_idle_confidence := hb_predicted_idle_confidence h,
         a_presence_sequence := max (a_presence_sequence r) (hb_seq h)\<rparr> else r) (agent_of db aid')"
  by (simp add: record_heartbeat_def update_agent_def row_of_update_where)

lemma withheld_stale_heartbeat:
  assumes "agent_of db aid = Some r" "withheld sq r" "hb_seq h < sq"
  obtains r' where "agent_of (fst (record_heartbeat now aid' h db)) aid = Some r'" "withheld sq r'"
proof -
  let ?db = "fst (record_heartbeat now aid' h db)"
  have "\<not> heartbeat_fresh h r" using assms(2,3) by (simp add: withheld_def heartbeat_fresh_def)
  then obtain r' where "agent_of ?db aid = Some r'" "a_transport r' = a_transport r"
      "a_state r' = a_state r" "a_presence_sequence r \<le> a_presence_sequence r'"
    using assms(1) by (auto simp: record_heartbeat_row)
  with assms(2) that show thesis by (auto simp: withheld_def)
qed

text \<open>A run of heartbeats, each a time, an agent and a message.\<close>

definition heartbeats :: "(instant \<times> ident \<times> heartbeat) list \<Rightarrow> registry_db \<Rightarrow> registry_db" where
  "heartbeats hs db = fold (\<lambda>(now, aid, h) db. fst (record_heartbeat now aid h db)) hs db"

lemma withheld_stale_heartbeats:
  assumes "agent_of db aid = Some r" "withheld sq r" "\<forall>(_, _, h) \<in> set hs. hb_seq h < sq"
  shows "\<exists>r'. agent_of (heartbeats hs db) aid = Some r' \<and> withheld sq r'"
  using assms
proof (induction hs arbitrary: db r)
  case Nil
  then show ?case by (simp add: heartbeats_def)
next
  case (Cons x hs)
  obtain now a h where x: "x = (now, a, h)" by (cases x)
  obtain r' where "agent_of (fst (record_heartbeat now a h db)) aid = Some r'" "withheld sq r'"
    using Cons.prems x by (auto elim: withheld_stale_heartbeat [where now = now and aid' = a])
  with Cons.IH [of "fst (record_heartbeat now a h db)" r'] Cons.prems x show ?case
    by (simp add: heartbeats_def)
qed

lemma heartbeats_inv: "registry_inv db \<Longrightarrow> registry_inv (heartbeats hs db)"
  unfolding heartbeats_def
  by (induction hs arbitrary: db) (auto simp: record_heartbeat_inv split: prod.split)

lemma withheld_not_routed:
  assumes "registry_inv db" "agent_of db aid = Some r" "withheld sq r"
  shows "aid \<notin> re_agent_id ` set (replica_endpoints cfg mid now db)"
proof
  assume "aid \<in> re_agent_id ` set (replica_endpoints cfg mid now db)"
  then obtain x where "x \<in> set (registry_agents db)" "a_agent_id x = aid" "a_state x = IDLE"
    by (auto elim: replica_endpointsD)
  with assms have "x = r" by (simp add: registry_inv_def row_of_eq)
  with assms(3) \<open>a_state x = IDLE\<close> show False by (simp add: withheld_def)
qed

text \<open>C18: The presence fence. On a reachable registry, a \<open>user_returned\<close> or \<open>reclaim\<close> event of a
  site agent whose sequence exceeds the stored one raises the presence generation by exactly one,
  and from then on, however many heartbeats older than the event arrive late from any agents, no
  model is routed to that machine; replaying the event changes nothing and reports the same
  generation.\<close>

theorem reclaim_outlives_stale_heartbeats:
  assumes "registry_reach sha cfg db"
    and "agent_of db aid = Some r" and "a_transport r = SITE_RELAY"
    and "0 \<le> sq" and "a_presence_sequence r < sq"
    and "kind = ''user_returned'' \<or> kind = ''reclaim''"
    and "apply_presence_event now aid kind sq db = (db1, res)"
    and "\<forall>(_, _, h) \<in> set hs. hb_seq h < sq"
  shows "res = Inr (a_presence_generation r + 1) \<and>
    aid \<notin> re_agent_id ` set (replica_endpoints cfg mid now' (heartbeats hs db1)) \<and>
    apply_presence_event now'' aid kind sq db1 = (db1, res)"
proof -
  have inv: "registry_inv db" using assms(1) by (rule registry_sys.reach_inv)
  let ?p = "\<lambda>r. a_agent_id r = aid \<and> a_presence_sequence r < sq"
  let ?f = "\<lambda>n r. r\<lparr>a_state := ACTIVE, a_serving_paused := (kind = ''reclaim''),
     a_presence_sequence := sq, a_presence_generation := a_presence_generation r + 1,
     a_last_seen := n\<rparr>"
  have ape: "apply_presence_event n aid kind sq d =
      (let d1 = d\<lparr>registry_agents := update_where ?p (?f n) (registry_agents d)\<rparr>
       in (d1, presence_generation_of d1 aid))" for n d
    using assms(4,6) by (auto simp: apply_presence_event_def)
  have db1: "db1 = db\<lparr>registry_agents := update_where ?p (?f now) (registry_agents db)\<rparr>"
    and res: "res = presence_generation_of db1 aid"
    using assms(7) by (auto simp: ape Let_def)
  have row1: "agent_of db1 aid = Some (?f now r)"
    using assms(2,5) row_of_SomeD [OF assms(2)] by (simp add: db1 row_of_update_where)
  then have resv: "res = Inr (a_presence_generation r + 1)"
    by (simp add: res presence_generation_of_def)
  have "registry_inv db1"
    using apply_presence_event_inv [OF inv, of now aid kind sq] assms(7) by simp
  have "withheld sq (?f now r)" using assms(3) by (simp add: withheld_def)
  then obtain r' where "agent_of (heartbeats hs db1) aid = Some r'" "withheld sq r'"
    using withheld_stale_heartbeats [OF row1 _ assms(8)] by blast
  then have "aid \<notin> re_agent_id ` set (replica_endpoints cfg mid now' (heartbeats hs db1))"
    using \<open>registry_inv db1\<close> by (intro withheld_not_routed) (simp_all add: heartbeats_inv)
  moreover have "update_where ?p (?f now'') (registry_agents db1) = registry_agents db1"
    by (auto simp: db1 update_where_def)
  then have "apply_presence_event now'' aid kind sq db1 = (db1, res)"
    by (simp add: ape Let_def res)
  ultimately show ?thesis using resv by blast
qed

definition hb0 :: heartbeat where
  "hb0 = \<lparr>hb_agent_id = ''A'', hb_seq = 3, hb_sent_at = 3, hb_protocol_version = 1, hb_state = IDLE,
          hb_user_idle_s = 900, hb_cpu_percent = 1, hb_mem_available_mb = 100, hb_load_avg = None,
          hb_temp_cpu_c = None, hb_gpus = [],
          hb_replicas = [\<lparr>rs_model_id = ''m'', rs_port = 8000, rs_state = READY, rs_inflight = 0,
                          rs_gpu = False\<rparr>],
          hb_lease_ids = [], hb_serving_paused = False, hb_predicted_idle_remaining_s = None,
          hb_predicted_idle_confidence = None\<rparr>"

theorem reclaim_outlives_stale_heartbeats_witness:
  "\<exists>r. agent_of rdb1 ''A'' = Some r \<and> a_transport r = SITE_RELAY \<and> a_presence_sequence r < 4 \<and>
     ''A'' \<notin> re_agent_id ` set (replica_endpoints rcfg0 ''m'' 6
       (heartbeats [(6, ''A'', hb0)] (fst (apply_presence_event 5 ''A'' ''reclaim'' 4 rdb1)))) \<and>
     ''A'' \<in> re_agent_id ` set (replica_endpoints rcfg0 ''m'' 6 (heartbeats [(6, ''A'', hb0)] rdb1))"
proof -
  let ?r = "INSERT_AGENT ''A'' rcaps0 ''10.0.0.1'' ''dev'' 2 SITE"
  have r: "agent_of rdb1 ''A'' = Some ?r" "a_transport ?r = SITE_RELAY" "a_presence_sequence ?r < 4"
    by (simp_all add: rdb1_eq INSERT_AGENT_def row_of_def transport_for_mode_def)
  have "''A'' \<in> re_agent_id ` set (replica_endpoints rcfg0 ''m'' 6 (heartbeats [(6, ''A'', hb0)] rdb1))"
    by (simp add: heartbeats_def record_heartbeat_def update_agent_def rdb1_eq hb0_def INSERT_AGENT_def
        update_where_def replica_endpoints_def ready_endpoints_for_row_def heartbeat_fresh_def
        age_s_def rcfg0_def registry_config_default_def DEFAULT_SUSPECT_AFTER_S_def)
  moreover have "''A'' \<notin> re_agent_id ` set (replica_endpoints rcfg0 ''m'' 6
       (heartbeats [(6, ''A'', hb0)] (fst (apply_presence_event 5 ''A'' ''reclaim'' 4 rdb1))))"
  proof -
    have *: "(0::int) \<le> 4" "''reclaim'' = ''user_returned'' \<or> ''reclaim'' = ''reclaim''"
      "apply_presence_event 5 ''A'' ''reclaim'' 4 rdb1 =
        (fst (apply_presence_event 5 ''A'' ''reclaim'' 4 rdb1),
         snd (apply_presence_event 5 ''A'' ''reclaim'' 4 rdb1))"
      "\<forall>(_, _, h) \<in> set [(6, ''A'', hb0)]. hb_seq h < 4"
      by (simp_all add: hb0_def)
    show ?thesis
      using reclaim_outlives_stale_heartbeats [OF rdb1_reach r(1,2) *(1) r(3) *(2,3,4)] by blast
  qed
  ultimately show ?thesis using r by blast
qed

section \<open>Liveness views\<close>

text \<open>The endpoints a scheduling snapshot offers to interactive traffic for one model.\<close>

definition snapshot_endpoints :: "ident \<Rightarrow> agent_snapshot \<Rightarrow> replica_endpoint set" where
  "snapshot_endpoints mid s =
     {\<lparr>re_agent_id = as_agent_id s, re_host = as_host s, re_port = rs_port p, re_model_id = mid,
       re_inflight = rs_inflight p\<rparr> |p.
        p \<in> set (as_replicas s) \<and> rs_model_id p = mid \<and> rs_state p = READY \<and>
        as_state s = IDLE \<and> \<not> as_suspect s \<and> \<not> as_serving_paused s}"

lemma replica_endpoints_snapshots:
  assumes "rc_suspect_after_s cfg \<le> rc_offline_after_s cfg"
  shows "set (replica_endpoints cfg mid now db) =
    (\<Union>s \<in> set (snapshots cfg now db). snapshot_endpoints mid s)"
proof -
  let ?ep = "\<lambda>r. if rc_suspect_after_s cfg < age_s now (a_last_seen r) then []
        else if a_serving_paused r then [] else if a_state r \<noteq> IDLE then []
        else ready_endpoints_for_row r mid"
  let ?snap = "\<lambda>r. snapshot_from_row r (rc_suspect_after_s cfg < age_s now (a_last_seen r))"
  let ?live = "{r \<in> set (registry_agents db). a_revoked_at r = None}"
  have row: "set (?ep r) = snapshot_endpoints mid (?snap r)" for r
    by (auto simp: ready_endpoints_for_row_def snapshot_endpoints_def snapshot_from_row_def)
  have off: "snapshot_endpoints mid (?snap r) = {}" if "rc_offline_after_s cfg < age_s now (a_last_seen r)" for r
    using that assms by (auto simp: snapshot_endpoints_def snapshot_from_row_def)
  have "set (replica_endpoints cfg mid now db) = (\<Union>r \<in> ?live. set (?ep r))"
    unfolding replica_endpoints_def set_concat set_map set_filter image_image ..
  also have "\<dots> = (\<Union>r \<in> ?live. snapshot_endpoints mid (?snap r))"
    by (simp only: row)
  also have "\<dots> = (\<Union>r \<in> {r \<in> ?live. \<not> rc_offline_after_s cfg < age_s now (a_last_seen r)}.
      snapshot_endpoints mid (?snap r))"
    using off by blast
  also have "\<dots> = (\<Union>s \<in> set (snapshots cfg now db). snapshot_endpoints mid s)"
    by (auto simp: snapshots_def)
  finally show ?thesis .
qed

text \<open>The two liveness views agree: on a reachable registry whose suspect threshold does not
  exceed its offline threshold, the gateway's routable endpoints of a model are exactly the ready
  replicas of the scheduler's unsuspected, idle, unpaused snapshots, and no agent is both in the
  snapshots and in the offline list the eviction loop reads.\<close>

theorem liveness_views_agree:
  assumes "registry_reach sha cfg db" and "rc_suspect_after_s cfg \<le> rc_offline_after_s cfg"
  shows "set (replica_endpoints cfg mid now db) =
      (\<Union>s \<in> set (snapshots cfg now db). snapshot_endpoints mid s) \<and>
    as_agent_id ` set (snapshots cfg now db) \<inter> set (list_offline cfg now db) = {}"
proof -
  have k: "keyed a_agent_id (registry_agents db)"
    using registry_sys.reach_inv [OF assms(1)] by (simp add: registry_inv_def)
  have "as_agent_id ` set (snapshots cfg now db) \<inter> set (list_offline cfg now db) = {}"
    unfolding snapshots_ids list_offline_def using keyed_eq [OF k] by fastforce
  with replica_endpoints_snapshots [OF assms(2)] show ?thesis by blast
qed

theorem liveness_views_agree_witness:
  "set (replica_endpoints rcfg0 ''m'' 6 rdb1) =
     (\<Union>s \<in> set (snapshots rcfg0 6 rdb1). snapshot_endpoints ''m'' s) \<and>
   as_agent_id ` set (snapshots rcfg0 6 rdb1) = {''A''}"
proof -
  have "rc_suspect_after_s rcfg0 \<le> rc_offline_after_s rcfg0"
    by (simp add: rcfg0_def registry_config_default_def DEFAULT_SUSPECT_AFTER_S_def
        DEFAULT_OFFLINE_AFTER_S_def)
  from liveness_views_agree [OF rdb1_reach this] show ?thesis
    by (auto simp: snapshots_ids rdb1_eq INSERT_AGENT_def age_s_def rcfg0_def
        registry_config_default_def DEFAULT_OFFLINE_AFTER_S_def)
qed

end
