(* ===== verification/Registry_Conn.thy ===== *)
theory Registry_Conn
  imports Registry_Props
begin

text \<open>
  Statement-level interleaving on the registry's one shared \<open>aiosqlite\<close> connection. Every coroutine
  executes, commits and rolls back inside the same implicit transaction, which the first data
  statement after a commit or rollback opens; each \<open>await\<close> is a point where another coroutine's
  statement may run. \<open>register_agent\<close> rolls back under \<open>_write_lock\<close>; the methods of one statement
  do not take that lock.
\<close>

section \<open>The connection\<close>

record conn =
  committed :: registry_db
  pending :: registry_db

definition conn_of :: "registry_db \<Rightarrow> conn" where
  "conn_of db = \<lparr>committed = db, pending = db\<rparr>"

datatype stmt =
  Execute "registry_db \<Rightarrow> registry_db"
| Commit
| Rollback

primrec run_stmt :: "stmt \<Rightarrow> conn \<Rightarrow> conn" where
  "run_stmt (Execute f) c = c\<lparr>pending := f (pending c)\<rparr>"
| "run_stmt Commit c = c\<lparr>committed := pending c\<rparr>"
| "run_stmt Rollback c = c\<lparr>pending := committed c\<rparr>"

definition run_stmts :: "stmt list \<Rightarrow> conn \<Rightarrow> conn" where
  "run_stmts ss c = fold run_stmt ss c"

section \<open>Two methods as statement sequences\<close>

text \<open>\<open>register_agent\<close> with a token that matches no outstanding row: the \<open>UPDATE\<close>, then the rollback.\<close>

definition consume_token :: "(string \<Rightarrow> string) \<Rightarrow> instant \<Rightarrow> string \<Rightarrow> registry_db \<Rightarrow> registry_db" where
  "consume_token sha now tok db =
     db\<lparr>registry_enrollment_tokens :=
          update_where (\<lambda>r. t_token_hash r = sha tok \<and> t_used_at r = None)
            (\<lambda>r. r\<lparr>t_used_at := Some now\<rparr>) (registry_enrollment_tokens db)\<rparr>"

definition rejected_register_stmts :: "(string \<Rightarrow> string) \<Rightarrow> instant \<Rightarrow> string \<Rightarrow> stmt list" where
  "rejected_register_stmts sha now tok = [Execute (consume_token sha now tok), Rollback]"

text \<open>\<open>apply_presence_event\<close> with a valid event: the \<open>UPDATE\<close>, then the commit.\<close>

definition presence_event_stmts :: "instant \<Rightarrow> ident \<Rightarrow> string \<Rightarrow> int \<Rightarrow> stmt list" where
  "presence_event_stmts now aid kind sq =
     [Execute (\<lambda>db. fst (apply_presence_event now aid kind sq db)), Commit]"

text \<open>Run after the other, either order, the statements have the effect of the methods.\<close>

lemma serial_register_presence:
  "committed (run_stmts (rejected_register_stmts sha now tok @ presence_event_stmts now' aid kind sq)
     (conn_of db)) = fst (apply_presence_event now' aid kind sq db)"
  "committed (run_stmts (presence_event_stmts now' aid kind sq @ rejected_register_stmts sha now tok)
     (conn_of db)) = fst (apply_presence_event now' aid kind sq db)"
  by (simp_all add: run_stmts_def rejected_register_stmts_def presence_event_stmts_def conn_of_def)

text \<open>C40: A rejected registration can undo a user-return. For every registry in which an idle site
  agent is routable, every token and every accepted \<open>user_returned\<close> or \<open>reclaim\<close> event of that
  agent, some interleaving of the event's two statements with those of a rejected
  \<open>register_agent\<close> commits no change at all: the agent stays idle and routable although the event
  was accepted, while either serial order withdraws it.\<close>

theorem rejected_register_discards_presence:
  assumes "agent_of db aid = Some r" and "a_state r = IDLE" and "a_presence_sequence r < sq"
    and "0 \<le> sq" and "kind = ''user_returned'' \<or> kind = ''reclaim''"
  shows "(\<exists>ss \<in> shuffles (rejected_register_stmts sha now tok) (presence_event_stmts now' aid kind sq).
       committed (run_stmts ss (conn_of db)) = db) \<and>
     (\<forall>ss \<in> {rejected_register_stmts sha now tok @ presence_event_stmts now' aid kind sq,
              presence_event_stmts now' aid kind sq @ rejected_register_stmts sha now tok}.
       \<exists>r'. agent_of (committed (run_stmts ss (conn_of db))) aid = Some r' \<and> a_state r' = ACTIVE)"
proof -
  let ?e = "Execute (\<lambda>db. fst (apply_presence_event now' aid kind sq db))"
  let ?ss = "[Execute (consume_token sha now tok), ?e, Rollback, Commit]"
  have "?ss \<in> shuffles (rejected_register_stmts sha now tok) (presence_event_stmts now' aid kind sq)"
    by (simp add: rejected_register_stmts_def presence_event_stmts_def)
  moreover have "committed (run_stmts ?ss (conn_of db)) = db"
    by (simp add: run_stmts_def conn_of_def)
  moreover have "\<exists>r'. agent_of (fst (apply_presence_event now' aid kind sq db)) aid = Some r' \<and>
      a_state r' = ACTIVE"
    using assms row_of_SomeD [OF assms(1)]
    by (auto simp: apply_presence_event_def Let_def row_of_update_where)
  ultimately show ?thesis
    by (auto simp only: serial_register_presence ball_simps intro!: bexI [of _ ?ss])
qed

theorem rejected_register_discards_presence_witness:
  "\<exists>ss \<in> shuffles (rejected_register_stmts id 7 ''bogus'') (presence_event_stmts 7 ''A'' ''reclaim'' 9).
     \<exists>r. agent_of (committed (run_stmts ss (conn_of (heartbeats [(6, ''A'', hb0)] rdb1)))) ''A'' = Some r \<and>
         a_state r = IDLE"
proof -
  let ?db = "heartbeats [(6, ''A'', hb0)] rdb1"
  have "\<exists>r. agent_of ?db ''A'' = Some r \<and> a_state r = IDLE \<and> a_presence_sequence r < 9"
    by (simp add: heartbeats_def record_heartbeat_def update_agent_def rdb1_eq hb0_def INSERT_AGENT_def
        update_where_def row_of_def heartbeat_fresh_def)
  then obtain r where r: "agent_of ?db ''A'' = Some r" "a_state r = IDLE" "a_presence_sequence r < 9"
    by blast
  have "(0::int) \<le> 9" "''reclaim'' = ''user_returned'' \<or> ''reclaim'' = ''reclaim''" by simp_all
  from rejected_register_discards_presence [OF r this] r show ?thesis by metis
qed

end
