(* ===== verification/Gw_Inflight.thy ===== *)
theory Gw_Inflight
  imports Fallow_Prelude
begin

text \<open>
  In-flight accounting of the gateway (\<open>gateway/inflight.py\<close>). The tracker's counts are a
  dictionary keyed by \<open>(host, port)\<close>; the \<open>InflightHold\<close> objects handed out are a list of
  their key and released flag, a hold being its index. The invariant says each count is the number
  of holds outstanding for its key.
\<close>

type_synonym hostport = "string \<times> int"

record inflight =
  if_counts :: "(hostport, int) odict"
  if_holds :: "(hostport \<times> bool) list"

definition InflightTracker :: inflight where
  "InflightTracker = \<lparr>if_counts = [], if_holds = []\<rparr>"

definition if_count :: "inflight \<Rightarrow> hostport \<Rightarrow> int" where
  "if_count t k = (case map_of (if_counts t) k of None \<Rightarrow> 0 | Some n \<Rightarrow> n)"

definition get_inflight :: "inflight \<Rightarrow> (hostport, int) odict" where
  "get_inflight t = if_counts t"

definition hold :: "hostport \<Rightarrow> inflight \<Rightarrow> nat \<times> inflight" where
  "hold k t =
     (length (if_holds t),
      \<lparr>if_counts = AList.update k (if_count t k + 1) (if_counts t),
       if_holds = if_holds t @ [(k, False)]\<rparr>)"

definition decrement :: "hostport \<Rightarrow> inflight \<Rightarrow> inflight" where
  "decrement k t =
     (let remaining = if_count t k - 1
      in if remaining \<le> 0 then t\<lparr>if_counts := AList.delete k (if_counts t)\<rparr>
         else t\<lparr>if_counts := AList.update k remaining (if_counts t)\<rparr>)"

text \<open>\<open>release\<close> of hold \<open>i\<close>: the flag is set before the counter is decremented.\<close>

definition release :: "nat \<Rightarrow> inflight \<Rightarrow> inflight" where
  "release i t =
     (if i < length (if_holds t) \<and> \<not> snd (if_holds t ! i)
      then decrement (fst (if_holds t ! i))
             (t\<lparr>if_holds := (if_holds t)[i := (fst (if_holds t ! i), True)]\<rparr>)
      else t)"

section \<open>Counts are outstanding holds\<close>

definition outstanding :: "inflight \<Rightarrow> hostport \<Rightarrow> nat" where
  "outstanding t k = length (filter (\<lambda>(k', released). k' = k \<and> \<not> released) (if_holds t))"

definition inflight_inv :: "inflight \<Rightarrow> bool" where
  "inflight_inv t \<longleftrightarrow> od_wf (if_counts t) \<and>
     (\<forall>k. map_of (if_counts t) k = (if outstanding t k = 0 then None else Some (int (outstanding t k))))"

lemma outstanding_simps [simp]:
  "outstanding (t\<lparr>if_counts := c\<rparr>) k = outstanding t k"
  by (simp add: outstanding_def)

lemma inflight_inv_wf: "inflight_inv t \<Longrightarrow> od_wf (if_counts t)"
  by (simp add: inflight_inv_def)

lemma inflight_inv_map:
  "inflight_inv t \<Longrightarrow>
     map_of (if_counts t) k = (if outstanding t k = 0 then None else Some (int (outstanding t k)))"
  unfolding inflight_inv_def by blast

lemma inflight_invI:
  assumes "od_wf (if_counts t)"
    and "\<And>k. map_of (if_counts t) k = (if outstanding t k = 0 then None else Some (int (outstanding t k)))"
  shows "inflight_inv t"
  using assms unfolding inflight_inv_def by blast

lemma inflight_inv_count: "inflight_inv t \<Longrightarrow> if_count t k = int (outstanding t k)"
  by (simp add: inflight_inv_map if_count_def)

lemma outstanding_hold:
  "outstanding (snd (hold k t)) k' = outstanding t k' + (if k' = k then 1 else 0)"
  by (simp add: outstanding_def hold_def)

lemma length_filter_update_one:
  assumes "i < length xs" "P (xs ! i)" "\<not> P y"
  shows "Suc (length (filter P (xs[i := y]))) = length (filter P xs)"
  using assms
proof (induction xs arbitrary: i)
  case (Cons x xs)
  then show ?case by (cases i) auto
qed simp

lemma length_filter_update_same:
  assumes "i < length xs" "P (xs ! i) = P y"
  shows "length (filter P (xs[i := y])) = length (filter P xs)"
  using assms
proof (induction xs arbitrary: i)
  case (Cons x xs)
  then show ?case by (cases i) auto
qed simp

lemma outstanding_flag:
  assumes "i < length (if_holds t)" "if_holds t ! i = (k, False)"
  shows "int (outstanding (t\<lparr>if_holds := (if_holds t)[i := (k, True)]\<rparr>) k') =
    int (outstanding t k') - (if k' = k then 1 else 0)"
proof (cases "k' = k")
  case True
  then show ?thesis
    using length_filter_update_one [OF assms(1), of "\<lambda>(k', rel). k' = k \<and> \<not> rel" "(k, True)"] assms(2)
    by (simp add: outstanding_def)
next
  case False
  then show ?thesis
    using length_filter_update_same [OF assms(1), of "\<lambda>(k'', rel). k'' = k' \<and> \<not> rel" "(k, True)"] assms(2)
    by (simp add: outstanding_def)
qed

lemma hold_inv:
  assumes "inflight_inv t"
  shows "inflight_inv (snd (hold k t))"
proof -
  have "if_counts (snd (hold k t)) = AList.update k (if_count t k + 1) (if_counts t)"
    by (simp add: hold_def)
  with assms show ?thesis
    by (intro inflight_invI)
      (simp_all add: inflight_inv_wf outstanding_hold update_conv' inflight_inv_map inflight_inv_count)
qed

lemma release_inv:
  assumes "inflight_inv t"
  shows "inflight_inv (release i t)"
proof (cases "i < length (if_holds t) \<and> \<not> snd (if_holds t ! i)")
  case True
  obtain k where k: "if_holds t ! i = (k, False)" using True by (cases "if_holds t ! i") auto
  let ?t = "t\<lparr>if_holds := (if_holds t)[i := (k, True)]\<rparr>"
  have o: "int (outstanding ?t k') = int (outstanding t k') - (if k' = k then 1 else 0)" for k'
    using outstanding_flag True k by blast
  have c: "if_count ?t k = int (outstanding ?t k) + 1"
    using inflight_inv_count [OF assms, of k] o [of k] by (simp add: if_count_def)
  have other: "outstanding ?t k' = outstanding t k'" if "k' \<noteq> k" for k'
    using o [of k'] that by simp
  have wf: "od_wf (if_counts t)" and m: "map_of (if_counts t) k' =
      (if outstanding t k' = 0 then None else Some (int (outstanding t k')))" for k'
    using assms by (simp_all add: inflight_inv_wf inflight_inv_map)
  have "inflight_inv (decrement k ?t)"
  proof (rule inflight_invI)
    show "od_wf (if_counts (decrement k ?t))" using wf by (simp add: decrement_def Let_def)
    fix k'
    show "map_of (if_counts (decrement k ?t)) k' = (if outstanding (decrement k ?t) k' = 0 then None
        else Some (int (outstanding (decrement k ?t) k')))"
    proof (cases "k' = k")
      case True
      then show ?thesis using c by (simp add: decrement_def Let_def map_of_delete_other update_conv')
    next
      case False
      then show ?thesis using m [of k'] other [OF False]
        by (simp add: decrement_def Let_def map_of_delete_other update_conv')
    qed
  qed
  with True k show ?thesis by (simp add: release_def)
next
  case False
  then have "release i t = t" by (auto simp: release_def)
  with assms show ?thesis by simp
qed

lemma release_twice: "release i (release i t) = release i t"
proof (cases "i < length (if_holds t) \<and> \<not> snd (if_holds t ! i)")
  case True
  have "if_holds (decrement k t') = if_holds t'" for k t' by (simp add: decrement_def Let_def)
  with True show ?thesis by (simp add: release_def)
next
  case False
  then have "release i t = t" by (auto simp: release_def)
  then show ?thesis by simp
qed

text \<open>The interface clients rely on: a step is a \<open>hold\<close> or a \<open>release\<close>, in any order.\<close>

inductive inflight_step :: "inflight \<Rightarrow> inflight \<Rightarrow> bool" where
  is_hold: "inflight_step t (snd (hold k t))"
| is_release: "inflight_step t (release i t)"

inductive_cases inflight_stepE: "inflight_step t t'"

interpretation inflight_sys: inv_system "\<lambda>t. t = InflightTracker" inflight_step inflight_inv
proof unfold_locales
  show "inflight_inv t" if "t = InflightTracker" for t
    using that by (auto intro: inflight_invI simp: InflightTracker_def outstanding_def)
  show "inflight_inv t'" if "inflight_inv t" "inflight_step t t'" for t t'
    using that(2,1) by (cases rule: inflight_step.cases) (auto intro: hold_inv release_inv)
qed

end
