(* ===== verification/Gw_Proxy.thy ===== *)
theory Gw_Proxy
  imports Gw_Inflight Gw_Body
begin

text \<open>
  Upstream acquisition with one retry before the first byte, and the streaming bodies
  (\<open>gateway/proxy.py\<close>, \<open>gateway/streaming.py\<close>). The HTTP client and the relay exchange are
  arguments: what one call on them returns or raises. The in-flight tracker is threaded through;
  an exception that escapes is \<open>Inl\<close>. Bytes are strings.
\<close>

section \<open>Requests, responses, outcomes\<close>

record proxy_request =
  pr_method :: string
  pr_path :: string
  pr_body :: string
  pr_content_type :: string

record pass_through =
  pt_status_code :: int
  pt_body :: string
  pt_media_type :: string

datatype http_exn = ConnectError | ConnectTimeout | TimeoutException | HTTPError | OtherException

record http_response =
  hr_status_code :: int
  hr_content :: string
  hr_content_type :: "string option"

datatype first_read = FirstChunk string | NoChunk | FirstFailed | FirstRaised http_exn

text \<open>An open streaming response: its head, its body if read whole, its first chunk, the rest.\<close>

datatype chunk_event = Chunk string | StreamEnd | StreamFailed | ClientGone

record open_response =
  or_status_code :: int
  or_content_type :: "string option"
  or_aread :: "http_exn + string"
  or_first :: first_read
  or_rest :: "chunk_event list"

record stream_handle =
  sh_status_code :: int
  sh_first :: "string option"
  sh_media_type :: string
  sh_rest :: "chunk_event list"

datatype try_outcome =
  Passed pass_through
| Streamed stream_handle
| RelayStreamed stream_handle
| Retry "pass_through option"

record acquired =
  aq_endpoint :: replica_endpoint
  aq_retried :: bool
  aq_hold :: "nat option"
  aq_stream :: "stream_handle option"
  aq_buffered :: "pass_through option"
  aq_relay_stream :: "stream_handle option"

datatype acquire_result = Acquired acquired | NoUpstream bool

definition MAX_ATTEMPTS :: nat where
  "MAX_ATTEMPTS = 2"

definition SERVER_ERROR :: int where
  "SERVER_ERROR = 500"

definition DEFAULT_MEDIA :: string where
  "DEFAULT_MEDIA = ''application/json''"

definition STREAM_MEDIA :: string where
  "STREAM_MEDIA = ''text/event-stream''"

definition retryable :: "http_exn \<Rightarrow> bool" where
  "retryable e \<longleftrightarrow> e \<in> {ConnectError, ConnectTimeout, TimeoutException}"

abbreviation ep_key :: "replica_endpoint \<Rightarrow> hostport" where
  "ep_key e \<equiv> (re_host e, re_port e)"

section \<open>The retry loop\<close>

definition as_success :: "try_outcome \<Rightarrow> nat \<Rightarrow> replica_endpoint \<Rightarrow> bool \<Rightarrow> inflight \<Rightarrow> acquired \<times> inflight" where
  "as_success out h ep retried tr =
     (let base = \<lparr>aq_endpoint = ep, aq_retried = retried, aq_hold = None, aq_stream = None,
                  aq_buffered = None, aq_relay_stream = None\<rparr>
      in case out of
           Streamed s \<Rightarrow> (base\<lparr>aq_hold := Some h, aq_stream := Some s\<rparr>, tr)
         | RelayStreamed s \<Rightarrow> (base\<lparr>aq_hold := Some h, aq_relay_stream := Some s\<rparr>, tr)
         | Passed p \<Rightarrow> (base\<lparr>aq_buffered := Some p\<rparr>, release h tr)
         | Retry _ \<Rightarrow> (base, tr))"

definition exhausted ::
  "nat \<Rightarrow> (replica_endpoint \<times> pass_through) option \<Rightarrow> acquire_result" where
  "exhausted attempts last5xx =
     (case last5xx of
        Some (ep, p) \<Rightarrow>
          Acquired \<lparr>aq_endpoint = ep, aq_retried = (1 < attempts), aq_hold = None, aq_stream = None,
                    aq_buffered = Some p, aq_relay_stream = None\<rparr>
      | None \<Rightarrow> NoUpstream (1 < attempts))"

text \<open>
  \<open>budget\<close> is \<open>_MAX_ATTEMPTS\<close> less the attempts made. \<open>try_once\<close> is given the attempt's number,
  so that one endpoint may answer differently the second time.
\<close>

fun attempt_loop ::
  "(nat \<Rightarrow> replica_endpoint \<Rightarrow> http_exn + try_outcome) \<Rightarrow> (hostport set \<Rightarrow> replica_endpoint option) \<Rightarrow>
   nat \<Rightarrow> nat \<Rightarrow> replica_endpoint option \<Rightarrow> hostport set \<Rightarrow>
   (replica_endpoint \<times> pass_through) option \<Rightarrow> inflight \<Rightarrow> (http_exn + acquire_result) \<times> inflight" where
  "attempt_loop try_once repick 0 attempts ep tried last5xx tr = (Inr (exhausted attempts last5xx), tr)"
| "attempt_loop try_once repick (Suc b) attempts None tried last5xx tr = (Inr (exhausted attempts last5xx), tr)"
| "attempt_loop try_once repick (Suc b) attempts (Some ep) tried last5xx tr =
     (let attempts' = Suc attempts; (h, tr1) = hold (ep_key ep) tr
      in case try_once attempts' ep of
           Inl e \<Rightarrow> (Inl e, tr1)
         | Inr (Retry p) \<Rightarrow>
             let last5xx' = (case p of None \<Rightarrow> last5xx | Some q \<Rightarrow> Some (ep, q));
                 tried' = insert (ep_key ep) tried
             in attempt_loop try_once repick b attempts' (if 0 < b then repick tried' else None)
                  tried' last5xx' (release h tr1)
         | Inr out \<Rightarrow>
             let (a, tr2) = as_success out h ep (1 < attempts') tr1 in (Inr (Acquired a), tr2))"

definition run_attempts ::
  "(nat \<Rightarrow> replica_endpoint \<Rightarrow> http_exn + try_outcome) \<Rightarrow> (hostport set \<Rightarrow> replica_endpoint option) \<Rightarrow>
   replica_endpoint \<Rightarrow> inflight \<Rightarrow> (http_exn + acquire_result) \<times> inflight" where
  "run_attempts try_once repick first tr =
     attempt_loop try_once repick MAX_ATTEMPTS 0 (Some first) {} None tr"

section \<open>The direct transport\<close>

definition url :: "replica_endpoint \<Rightarrow> string \<Rightarrow> string" where
  "url ep path = ''http://'' @ re_host ep @ '':'' @ str_of_int (re_port ep) @ path"

definition media :: "string option \<Rightarrow> string" where
  "media ct = (case ct of None \<Rightarrow> DEFAULT_MEDIA | Some m \<Rightarrow> m)"

definition try_buffered ::
  "(proxy_request \<Rightarrow> string \<Rightarrow> http_exn + http_response) \<Rightarrow> proxy_request \<Rightarrow> replica_endpoint \<Rightarrow>
   http_exn + try_outcome" where
  "try_buffered client rq ep =
     (case client rq (url ep (pr_path rq)) of
        Inl e \<Rightarrow> if retryable e then Inr (Retry None) else Inl e
      | Inr r \<Rightarrow>
          let p = \<lparr>pt_status_code = hr_status_code r, pt_body = hr_content r,
                   pt_media_type = media (hr_content_type r)\<rparr>
          in if SERVER_ERROR \<le> hr_status_code r then Inr (Retry (Some p)) else Inr (Passed p))"

definition first_chunk :: "open_response \<Rightarrow> http_exn + try_outcome" where
  "first_chunk r =
     (let handle = (\<lambda>first. Streamed
            \<lparr>sh_status_code = or_status_code r, sh_first = first,
             sh_media_type = (case or_content_type r of None \<Rightarrow> STREAM_MEDIA | Some m \<Rightarrow> m),
             sh_rest = or_rest r\<rparr>)
      in case or_first r of
           FirstChunk c \<Rightarrow> Inr (handle (Some c))
         | NoChunk \<Rightarrow> Inr (handle None)
         | FirstFailed \<Rightarrow> Inr (Retry None)
         | FirstRaised e \<Rightarrow> Inl e)"

definition try_stream ::
  "(proxy_request \<Rightarrow> string \<Rightarrow> http_exn + open_response) \<Rightarrow> proxy_request \<Rightarrow> replica_endpoint \<Rightarrow>
   http_exn + try_outcome" where
  "try_stream client rq ep =
     (case client rq (url ep (pr_path rq)) of
        Inl e \<Rightarrow> if retryable e then Inr (Retry None) else Inl e
      | Inr r \<Rightarrow>
          if SERVER_ERROR \<le> or_status_code r then
            (case or_aread r of
               Inl e \<Rightarrow> Inl e
             | Inr body \<Rightarrow> Inr (Retry (Some \<lparr>pt_status_code = or_status_code r, pt_body = body,
                              pt_media_type = media (or_content_type r)\<rparr>)))
          else first_chunk r)"

section \<open>The relay transport\<close>

text \<open>
  A relay exchange as one attempt sees it: the drained response (\<open>None\<close> for a failed or late one),
  the response with its first chunk, and the chunks after it. \<open>nonretryable\<close> says whether the agent
  reported \<open>retryable: false\<close> for the claim.
\<close>

record relay_exchange_view =
  rx_claim_id :: string
  rx_drained :: "(int \<times> string \<times> string) option"
  rx_first :: "(int \<times> string \<times> string option) option"
  rx_rest :: "chunk_event list"

definition normalize_json_media :: "string \<Rightarrow> string" where
  "normalize_json_media ct =
     (if py_lower (py_strip (takeWhile (\<lambda>c. c \<noteq> CHR '';'') ct)) = DEFAULT_MEDIA then DEFAULT_MEDIA else ct)"

definition on_failure :: "(string \<Rightarrow> bool) \<Rightarrow> relay_exchange_view \<Rightarrow> try_outcome" where
  "on_failure nonretryable x =
     (if nonretryable (rx_claim_id x)
      then Passed \<lparr>pt_status_code = SERVER_ERROR, pt_body = [], pt_media_type = DEFAULT_MEDIA\<rparr>
      else Retry None)"

definition relay_try_buffered ::
  "(proxy_request \<Rightarrow> replica_endpoint \<Rightarrow> relay_exchange_view option) \<Rightarrow> (string \<Rightarrow> bool) \<Rightarrow>
   proxy_request \<Rightarrow> replica_endpoint \<Rightarrow> try_outcome" where
  "relay_try_buffered offer nonretryable rq ep =
     (case offer (rq\<lparr>pr_content_type := normalize_json_media (pr_content_type rq)\<rparr>) ep of
        None \<Rightarrow> Retry None
      | Some x \<Rightarrow>
          (case rx_drained x of
             None \<Rightarrow> on_failure nonretryable x
           | Some (status, ct, body) \<Rightarrow>
               let p = \<lparr>pt_status_code = status, pt_body = body, pt_media_type = ct\<rparr>
               in if SERVER_ERROR \<le> status then Retry (Some p) else Passed p))"

fun chunk_bytes :: "chunk_event list \<Rightarrow> string" where
  "chunk_bytes (Chunk c # es) = c @ chunk_bytes es"
| "chunk_bytes _ = []"

definition relay_try_stream ::
  "(proxy_request \<Rightarrow> replica_endpoint \<Rightarrow> relay_exchange_view option) \<Rightarrow> (string \<Rightarrow> bool) \<Rightarrow>
   proxy_request \<Rightarrow> replica_endpoint \<Rightarrow> try_outcome" where
  "relay_try_stream offer nonretryable rq ep =
     (case offer (rq\<lparr>pr_content_type := normalize_json_media (pr_content_type rq)\<rparr>) ep of
        None \<Rightarrow> Retry None
      | Some x \<Rightarrow>
          (case rx_first x of
             None \<Rightarrow> on_failure nonretryable x
           | Some (status, ct, first) \<Rightarrow>
               if SERVER_ERROR \<le> status
               then Retry (Some \<lparr>pt_status_code = status,
                      pt_body = (case first of None \<Rightarrow> [] | Some c \<Rightarrow> c) @ chunk_bytes (rx_rest x),
                      pt_media_type = ct\<rparr>)
               else RelayStreamed \<lparr>sh_status_code = status, sh_first = first, sh_media_type = ct,
                                   sh_rest = rx_rest x\<rparr>))"

text \<open>The transport of each attempt: a site agent is relayed, never dialled.\<close>

definition site_aware ::
  "(ident \<Rightarrow> bool) \<Rightarrow> (replica_endpoint \<Rightarrow> try_outcome) \<Rightarrow> (replica_endpoint \<Rightarrow> http_exn + try_outcome) \<Rightarrow>
   replica_endpoint \<Rightarrow> http_exn + try_outcome" where
  "site_aware has_route relay direct ep =
     (if has_route (re_agent_id ep) then Inr (relay ep) else direct ep)"

section \<open>Streaming bodies\<close>

text \<open>
  The chunks sent to the client: the first, then the rest up to the end of the stream, a failure or
  the client's disconnect; the \<open>finally\<close> block releases the hold whichever way it ends.
\<close>

fun guarded_chunks :: "chunk_event list \<Rightarrow> string list" where
  "guarded_chunks (Chunk c # es) = c # guarded_chunks es"
| "guarded_chunks _ = []"

definition stream_body :: "stream_handle \<Rightarrow> nat \<Rightarrow> inflight \<Rightarrow> string list \<times> inflight" where
  "stream_body sh h tr =
     ((case sh_first sh of None \<Rightarrow> [] | Some c \<Rightarrow> [c]) @ guarded_chunks (sh_rest sh), release h tr)"

section \<open>Slot accounting\<close>

definition make_repick ::
  "(ident \<Rightarrow> replica_endpoint list \<Rightarrow> replica_endpoint option) \<Rightarrow> ident \<Rightarrow> replica_endpoint list \<Rightarrow>
   hostport set \<Rightarrow> replica_endpoint option" where
  "make_repick pick model enriched tried = pick model (filter (\<lambda>e. ep_key e \<notin> tried) enriched)"

definition result_hold :: "acquire_result \<Rightarrow> (nat \<times> hostport) option" where
  "result_hold r =
     (case r of
        NoUpstream _ \<Rightarrow> None
      | Acquired a \<Rightarrow> map_option (\<lambda>h. (h, ep_key (aq_endpoint a))) (aq_hold a))"

lemma hold_facts:
  assumes "hold k t = (h, t1)"
  shows "h < length (if_holds t1)" "if_holds t1 ! h = (k, False)"
    and "outstanding t1 k' = outstanding t k' + (if k' = k then 1 else 0)"
    and "inflight_inv t \<Longrightarrow> inflight_inv t1"
  using assms outstanding_hold [of k t k'] hold_inv [of t k] by (auto simp: hold_def)

lemma outstanding_release:
  assumes "h < length (if_holds t)" "if_holds t ! h = (k, False)"
  shows "int (outstanding (release h t) k') = int (outstanding t k') - (if k' = k then 1 else 0)"
proof -
  have "outstanding (decrement k u) k' = outstanding u k'" for u
    by (simp add: decrement_def Let_def)
  then have "outstanding (release h t) k' = outstanding (t\<lparr>if_holds := (if_holds t)[h := (k, True)]\<rparr>) k'"
    using assms by (simp add: release_def)
  then show ?thesis using outstanding_flag [OF assms] by simp
qed

lemma hold_release:
  assumes "hold k t = (h, t1)"
  shows "outstanding (release h t1) k' = outstanding t k'"
  using outstanding_release [OF hold_facts(1,2) [OF assms], of k'] hold_facts(3) [OF assms, of k'] by (simp split: if_splits)

text \<open>One held slot more than before, for the given key.\<close>

definition one_more :: "inflight \<Rightarrow> inflight \<Rightarrow> hostport \<Rightarrow> bool" where
  "one_more t t' k \<longleftrightarrow> (\<forall>k'. outstanding t' k' = outstanding t k' + (if k' = k then 1 else 0))"

definition loop_accounts :: "inflight \<Rightarrow> (http_exn + acquire_result) \<times> inflight \<Rightarrow> bool" where
  "loop_accounts tr r \<longleftrightarrow>
     (case r of
        (Inl e, tr') \<Rightarrow> \<exists>k. one_more tr tr' k
      | (Inr res, tr') \<Rightarrow>
          (case result_hold res of
             None \<Rightarrow> \<forall>k. outstanding tr' k = outstanding tr k
           | Some (h, k) \<Rightarrow> h < length (if_holds tr') \<and> if_holds tr' ! h = (k, False) \<and> one_more tr tr' k))"

lemma result_hold_exhausted [simp]: "result_hold (exhausted n l) = None"
  by (simp add: result_hold_def exhausted_def split: option.split)

lemma as_success_accounts:
  assumes "hold (ep_key ep) tr = (h, tr1)" "as_success out h ep retried tr1 = (a, tr2)"
    and "\<forall>p. out \<noteq> Retry p"
  shows "loop_accounts tr (Inr (Acquired a), tr2) \<and> aq_endpoint a = ep"
proof -
  note f = hold_facts [OF assms(1)]
  have one: "one_more tr tr1 (ep_key ep)" using f(3) by (simp add: one_more_def)
  have rel: "\<forall>k. outstanding (release h tr1) k = outstanding tr k" using hold_release [OF assms(1)] by blast
  show ?thesis
  proof (cases out)
    case (Retry p)
    then show ?thesis using assms(3) by simp
  next
    case (Passed p)
    then show ?thesis using assms(2) rel by (auto simp: as_success_def Let_def loop_accounts_def result_hold_def)
  next
    case (Streamed sh)
    then show ?thesis
      using assms(2) f(1,2) one by (auto simp: as_success_def Let_def loop_accounts_def result_hold_def)
  next
    case (RelayStreamed sh)
    then show ?thesis
      using assms(2) f(1,2) one by (auto simp: as_success_def Let_def loop_accounts_def result_hold_def)
  qed
qed

lemma loop_accounts_cong:
  assumes "loop_accounts tr1 r" "\<forall>k. outstanding tr1 k = outstanding tr k"
  shows "loop_accounts tr r"
proof -
  have eq: "outstanding tr1 = outstanding tr" by (rule ext) (rule assms(2) [rule_format])
  show ?thesis using assms(1) unfolding loop_accounts_def one_more_def eq .
qed

lemma attempt_loop_accounts:
  "loop_accounts tr (attempt_loop try_once repick b attempts ep tried l tr)"
proof (induction try_once repick b attempts ep tried l tr rule: attempt_loop.induct)
  case (3 try_once repick b attempts ep tried l tr)
  obtain h tr1 where h: "hold (ep_key ep) tr = (h, tr1)" by (cases "hold (ep_key ep) tr")
  show ?case
  proof (cases "try_once (Suc attempts) ep")
    case (Inl e)
    then show ?thesis
      using h hold_facts(3) [OF h] by (auto simp: loop_accounts_def one_more_def)
  next
    case (Inr out)
    show ?thesis
    proof (cases "\<exists>p. out = Retry p")
      case True
      then obtain p where p: "out = Retry p" ..
      let ?l = "case p of None \<Rightarrow> l | Some q \<Rightarrow> Some (ep, q)"
      let ?t = "insert (ep_key ep) tried"
      have "loop_accounts (release h tr1) (attempt_loop try_once repick b (Suc attempts)
          (if 0 < b then repick ?t else None) ?t ?l (release h tr1))"
        using "3.IH" [OF refl h [symmetric] refl] Inr p by simp
      then have "loop_accounts tr (attempt_loop try_once repick b (Suc attempts)
          (if 0 < b then repick ?t else None) ?t ?l (release h tr1))"
        by (rule loop_accounts_cong) (simp add: hold_release [OF h])
      with Inr p h show ?thesis by (simp add: Let_def)
    next
      case False
      obtain a tr2 where a: "as_success out h ep (1 < Suc attempts) tr1 = (a, tr2)"
        by (cases "as_success out h ep (1 < Suc attempts) tr1")
      have "attempt_loop try_once repick (Suc b) attempts (Some ep) tried l tr = (Inr (Acquired a), tr2)"
        using Inr h a False by (cases out) (simp_all add: Let_def)
      then show ?thesis using as_success_accounts [OF h a] False by simp
    qed
  qed
next
  case (1 try_once repick attempts ep tried l tr)
  show ?case by (simp add: loop_accounts_def)
next
  case (2 try_once repick b attempts tried l tr)
  show ?case by (simp add: loop_accounts_def)
qed

text \<open>The loop unrolled: at most two attempts, the second on the repicked endpoint.\<close>

lemma run_attempts_unrolled:
  "fst (run_attempts try_once repick first tr) =
     (case try_once 1 first of
        Inl e \<Rightarrow> Inl e
      | Inr (Retry p) \<Rightarrow>
          (case repick {ep_key first} of
             None \<Rightarrow> Inr (exhausted 1 (map_option (Pair first) p))
           | Some ep \<Rightarrow>
               (case try_once 2 ep of
                  Inl e \<Rightarrow> Inl e
                | Inr (Retry q) \<Rightarrow>
                    Inr (exhausted 2 (case q of None \<Rightarrow> map_option (Pair first) p | Some x \<Rightarrow> Some (ep, x)))
                | Inr out \<Rightarrow>
                    Inr (Acquired (fst (as_success out (Suc (length (if_holds tr))) ep True tr)))))
      | Inr out \<Rightarrow> Inr (Acquired (fst (as_success out (length (if_holds tr)) first False tr))))"
proof -
  have dl: "length (if_holds (decrement k t)) = length (if_holds t)" for k t
    by (simp add: decrement_def Let_def)
  have rl: "length (if_holds (release h t)) = length (if_holds t)" for h t
    by (simp add: release_def dl)
  have two: "MAX_ATTEMPTS = Suc (Suc 0)" by (simp add: MAX_ATTEMPTS_def)
  show ?thesis
    unfolding run_attempts_def two
    by (simp add: hold_def rl Let_def numeral_2_eq_2 as_success_def
        split: sum.split try_outcome.split option.split)
qed

end
