(* ===== verification/Gw_Affinity.thy ===== *)
theory Gw_Affinity
  imports Fallow_Protocol
begin

text \<open>
  Session affinity of the gateway (\<open>gateway/affinity.py\<close>): a bounded, sliding-TTL map from
  sessions to replica endpoints kept in least-recently-used order. The clock is an argument of each
  operation. The invariant (entries ordered by their last touch, at most \<open>max_entries\<close> of them)
  makes expiry from the front equal to expiry of every stale entry.
\<close>

section \<open>State and operations\<close>

datatype affinity_state = AFF_NONE | AFF_HIT | AFF_MISS

type_synonym endpoint_key = "string \<times> string \<times> int \<times> string"

record af_entry =
  en_endpoint :: endpoint_key
  en_touched_at :: instant

record affinity =
  af_ttl :: secs
  af_max :: int
  af_entries :: "(string, af_entry) odict"

type_synonym affinity_decision = "replica_endpoint option \<times> affinity_state"

definition AffinityMap :: "secs \<Rightarrow> int \<Rightarrow> affinity option" where
  "AffinityMap ttl n =
     (if ttl \<le> 0 then None else if n \<le> 0 then None
      else Some \<lparr>af_ttl = ttl, af_max = n, af_entries = []\<rparr>)"

definition endpoint_key_of :: "replica_endpoint \<Rightarrow> endpoint_key" where
  "endpoint_key_of e = (re_agent_id e, re_host e, re_port e, re_model_id e)"

text \<open>\<open>_expire\<close> removes entries from the front until it meets a fresh one.\<close>

fun expire_entries :: "secs \<Rightarrow> instant \<Rightarrow> (string, af_entry) odict \<Rightarrow> (string, af_entry) odict" where
  "expire_entries ttl now [] = []"
| "expire_entries ttl now ((k, e) # es) =
     (if now - en_touched_at e < ttl then (k, e) # es else expire_entries ttl now es)"

definition af_expire :: "instant \<Rightarrow> affinity \<Rightarrow> affinity" where
  "af_expire now m = m\<lparr>af_entries := expire_entries (af_ttl m) now (af_entries m)\<rparr>"

definition remember :: "instant \<Rightarrow> string \<Rightarrow> replica_endpoint \<Rightarrow> affinity \<Rightarrow> affinity" where
  "remember now s ep m =
     (let m1 = af_expire now m;
          es = AList.update s \<lparr>en_endpoint = endpoint_key_of ep, en_touched_at = now\<rparr> (af_entries m1)
      in m1\<lparr>af_entries := evict_oldest (af_max m) (od_move_to_end s es)\<rparr>)"

definition forget :: "string \<Rightarrow> affinity \<Rightarrow> affinity" where
  "forget s m = m\<lparr>af_entries := AList.delete s (af_entries m)\<rparr>"

definition resolve ::
  "instant \<Rightarrow> string option \<Rightarrow> replica_endpoint list \<Rightarrow>
   (replica_endpoint list \<Rightarrow> replica_endpoint option) \<Rightarrow> bool \<Rightarrow> affinity \<Rightarrow>
   affinity \<times> affinity_decision" where
  "resolve now session cands pick preserve_missing m =
     (case session of
        None \<Rightarrow> (m, pick cands, AFF_NONE)
      | Some s \<Rightarrow>
          let m1 = af_expire now m;
              replacement = (\<lambda>m2.
                case pick cands of
                  None \<Rightarrow> (m2, None, AFF_MISS)
                | Some ep \<Rightarrow> (remember now s ep m2, Some ep, AFF_MISS))
          in case map_of (af_entries m1) s of
               None \<Rightarrow> replacement m1
             | Some entry \<Rightarrow>
                 (case find (\<lambda>c. endpoint_key_of c = en_endpoint entry) cands of
                    Some ep \<Rightarrow>
                      (m1\<lparr>af_entries := od_move_to_end s
                            (AList.update s (entry\<lparr>en_touched_at := now\<rparr>) (af_entries m1))\<rparr>,
                       Some ep, AFF_HIT)
                  | None \<Rightarrow>
                      if preserve_missing \<and> cands = [] then (m1, None, AFF_MISS)
                      else replacement (m1\<lparr>af_entries := AList.delete s (af_entries m1)\<rparr>)))"

section \<open>Invariant\<close>

definition touched :: "(string, af_entry) odict \<Rightarrow> instant list" where
  "touched es = map (\<lambda>(k, e). en_touched_at e) es"

definition affinity_inv :: "instant \<Rightarrow> affinity \<Rightarrow> bool" where
  "affinity_inv t m \<longleftrightarrow>
     0 < af_ttl m \<and> 0 < af_max m \<and> od_wf (af_entries m) \<and> int (length (af_entries m)) \<le> af_max m \<and>
     sorted (touched (af_entries m)) \<and> (\<forall>x \<in> set (touched (af_entries m)). x \<le> t)"

lemma touched_simps [simp]:
  "touched [] = []"
  "touched ((k, e) # es) = en_touched_at e # touched es"
  "touched (es @ es') = touched es @ touched es'"
  by (simp_all add: touched_def)

lemma set_touched: "set (touched es) = (\<lambda>(k, e). en_touched_at e) ` set es"
  by (simp add: touched_def)

lemma move_to_end_update:
  "od_move_to_end s (AList.update s v d) = AList.delete s d @ [(s, v)]"
  by (simp add: od_move_to_end_def update_conv' delete_update_same)

lemma expire_entries_suffix: "\<exists>pre. es = pre @ expire_entries ttl now es"
proof (induction es)
  case (Cons x es)
  obtain k e where x: "x = (k, e)" by (cases x)
  from Cons.IH obtain pre where pre: "es = pre @ expire_entries ttl now es" ..
  show ?case
  proof (cases "now - en_touched_at e < ttl")
    case True
    then show ?thesis using x by (intro exI [of _ "[]"]) simp
  next
    case False
    then show ?thesis using x pre by (intro exI [of _ "x # pre"]) simp
  qed
qed simp

text \<open>With the entries in touch order, expiry from the front removes exactly the stale entries.\<close>

lemma expire_entries_filter:
  assumes "sorted (touched es)"
  shows "expire_entries ttl now es = filter (\<lambda>(k, e). now - en_touched_at e < ttl) es"
  using assms
proof (induction es)
  case (Cons x es)
  obtain k e where x: "x = (k, e)" by (cases x)
  show ?case
  proof (cases "now - en_touched_at e < ttl")
    case True
    have "\<forall>(k', e') \<in> set es. now - en_touched_at e' < ttl"
      using Cons.prems True x by (fastforce simp: set_touched)
    then have "filter (\<lambda>(k, e). now - en_touched_at e < ttl) es = es"
      by (intro filter_True) auto
    with True x show ?thesis by simp
  next
    case False
    with Cons x show ?thesis by simp
  qed
qed simp

text \<open>The order part of the invariant, for intermediate states of \<open>remember\<close>.\<close>

definition entries_ok :: "instant \<Rightarrow> (string, af_entry) odict \<Rightarrow> bool" where
  "entries_ok t es \<longleftrightarrow> od_wf es \<and> sorted (touched es) \<and> (\<forall>x \<in> set (touched es). x \<le> t)"

lemma affinity_inv_eq:
  "affinity_inv t m \<longleftrightarrow>
     0 < af_ttl m \<and> 0 < af_max m \<and> int (length (af_entries m)) \<le> af_max m \<and> entries_ok t (af_entries m)"
  by (auto simp: affinity_inv_def entries_ok_def)

lemma entries_ok_suffix: "entries_ok t (pre @ es) \<Longrightarrow> entries_ok t es"
  by (auto simp: entries_ok_def od_wf_def sorted_append)

lemma delete_filter: "AList.delete s es = filter (\<lambda>x. fst x \<noteq> s) es"
  by (auto simp: AList.delete_eq intro: filter_cong)

lemma entries_ok_delete:
  assumes "entries_ok t es"
  shows "entries_ok t (AList.delete s es)"
proof -
  have "sorted (touched (AList.delete s es))"
    using assms unfolding entries_ok_def touched_def delete_filter
    by (auto simp: case_prod_beta' intro: sorted_filter)
  moreover have "set (touched (AList.delete s es)) \<subseteq> set (touched es)"
    by (auto simp: set_touched delete_filter)
  ultimately show ?thesis using assms by (auto simp: entries_ok_def)
qed

lemma entries_ok_touch:
  assumes "entries_ok t es" "t \<le> now" "en_touched_at e = now"
  shows "entries_ok now (AList.delete s es @ [(s, e)])"
  using entries_ok_delete [OF assms(1), of s] assms(2,3)
  by (auto simp: entries_ok_def od_wf_def sorted_append delete_filter intro: order_trans)

lemma inv_suffix:
  assumes "affinity_inv t m" and "af_entries m = pre @ es"
  shows "affinity_inv t (m\<lparr>af_entries := es\<rparr>)"
  using assms entries_ok_suffix by (auto simp: affinity_inv_eq)

lemma length_delete: "length (AList.delete s es) \<le> length es"
  by (simp add: delete_filter)

lemma inv_delete:
  "affinity_inv t m \<Longrightarrow> affinity_inv t (m\<lparr>af_entries := AList.delete s (af_entries m)\<rparr>)"
  using length_delete [of s "af_entries m"] by (simp add: affinity_inv_eq entries_ok_delete)

lemma inv_later: "affinity_inv t m \<Longrightarrow> t \<le> now \<Longrightarrow> affinity_inv now m"
  by (fastforce simp: affinity_inv_def)

lemma af_expire_inv: "affinity_inv t m \<Longrightarrow> affinity_inv t (af_expire now m)"
  unfolding af_expire_def using expire_entries_suffix inv_suffix by blast

lemma remember_inv:
  assumes "affinity_inv t m" "t \<le> now"
  shows "affinity_inv now (remember now s ep m)"
proof -
  let ?e = "\<lparr>en_endpoint = endpoint_key_of ep, en_touched_at = now\<rparr>"
  let ?es = "AList.delete s (af_entries (af_expire now m)) @ [(s, ?e)]"
  have inv: "affinity_inv t (af_expire now m)" using assms(1) by (rule af_expire_inv)
  then have "entries_ok now ?es"
    using assms(2) by (intro entries_ok_touch [of t]) (simp_all add: affinity_inv_eq)
  moreover obtain pre where "?es = pre @ evict_oldest (af_max m) ?es"
    using evict_oldest_suffix by blast
  ultimately have "entries_ok now (evict_oldest (af_max m) ?es)"
    by (metis entries_ok_suffix)
  then show ?thesis
    using assms(1) evict_oldest_length [of "af_max m" ?es]
    by (simp add: remember_def Let_def affinity_inv_eq af_expire_def move_to_end_update)
qed

lemma length_touch:
  assumes "map_of es s = Some e"
  shows "length (AList.delete s es @ [(s, e')]) \<le> length es"
  using assms
proof (induction es)
  case (Cons x es)
  then show ?case
    using length_delete [of s es] by (cases x) (auto simp: delete_filter split: if_splits)
qed simp

lemma resolve_inv:
  assumes "affinity_inv t m" "t \<le> now"
  shows "affinity_inv now (fst (resolve now s cands pick pres m))"
proof -
  have inv: "affinity_inv t (af_expire now m)" using assms(1) by (rule af_expire_inv)
  have rep: "affinity_inv now (fst (case pick cands of None \<Rightarrow> (m2, None, AFF_MISS)
      | Some ep \<Rightarrow> (remember now k ep m2, Some ep, AFF_MISS)))" if "affinity_inv t m2" for m2 k
    using that assms(2) by (auto simp: remember_inv inv_later split: option.split)
  have hit: "affinity_inv now (af_expire now m\<lparr>af_entries := od_move_to_end k
      (AList.update k (e\<lparr>en_touched_at := now\<rparr>) (af_entries (af_expire now m)))\<rparr>)"
    if "map_of (af_entries (af_expire now m)) k = Some e" for k e
    using inv entries_ok_touch [of t "af_entries (af_expire now m)" now "e\<lparr>en_touched_at := now\<rparr>" k]
      assms(2) length_touch [OF that, of "e\<lparr>en_touched_at := now\<rparr>"]
    by (simp add: affinity_inv_eq move_to_end_update)
  show ?thesis
  proof (cases s)
    case None
    then show ?thesis using assms by (simp add: resolve_def inv_later)
  next
    case (Some k)
    note rep1 = rep [OF inv, of k] and rep2 = rep [OF inv_delete [OF inv, of k], of k]
    show ?thesis
    proof (cases "map_of (af_entries (af_expire now m)) k")
      case None
      then show ?thesis using Some rep1 by (simp add: resolve_def Let_def)
    next
      case (Some e)
      show ?thesis
      proof (cases "find (\<lambda>c. endpoint_key_of c = en_endpoint e) cands")
        case None
        then show ?thesis
          using Some \<open>s = Some k\<close> rep2 inv_later [OF inv assms(2)] by (simp add: resolve_def Let_def)
      next
        case (Some ep)
        then show ?thesis
          using \<open>map_of _ k = Some e\<close> \<open>s = Some k\<close> hit by (simp add: resolve_def Let_def)
      qed
    qed
  qed
qed

lemma forget_inv: "affinity_inv t m \<Longrightarrow> affinity_inv t (forget s m)"
  unfolding forget_def by (rule inv_delete)

section \<open>Runs\<close>

text \<open>The gateway's calls, each at a clock reading; the clock does not go back.\<close>

datatype affinity_op =
  Resolve "string option" "replica_endpoint list" "replica_endpoint list \<Rightarrow> replica_endpoint option" bool
| Remember string replica_endpoint
| Forget string

primrec affinity_do :: "affinity_op \<Rightarrow> instant \<Rightarrow> affinity \<Rightarrow> affinity" where
  "affinity_do (Resolve s cands pick pres) now m = fst (resolve now s cands pick pres m)"
| "affinity_do (Remember s ep) now m = remember now s ep m"
| "affinity_do (Forget s) now m = forget s m"

lemma affinity_do_inv:
  "affinity_inv t m \<Longrightarrow> t \<le> now \<Longrightarrow> affinity_inv now (affinity_do op now m)"
  by (cases op) (simp_all add: resolve_inv remember_inv forget_inv inv_later)

inductive affinity_step :: "instant \<times> affinity \<Rightarrow> instant \<times> affinity \<Rightarrow> bool" where
  as_op: "t \<le> now \<Longrightarrow> affinity_step (t, m) (now, affinity_do op now m)"

interpretation affinity_sys: inv_system
  "\<lambda>(t, m). \<exists>ttl n. AffinityMap ttl n = Some m" affinity_step "\<lambda>(t, m). affinity_inv t m"
proof unfold_locales
  show "case s of (t, m) \<Rightarrow> affinity_inv t m"
    if "case s of (t, m) \<Rightarrow> \<exists>ttl n. AffinityMap ttl n = Some m" for s
    using that by (auto simp: AffinityMap_def affinity_inv_def split: if_splits)
  show "case s' of (t, m) \<Rightarrow> affinity_inv t m"
    if "case s of (t, m) \<Rightarrow> affinity_inv t m" "affinity_step s s'" for s s'
    using that(2,1) by (cases rule: affinity_step.cases) (auto intro: affinity_do_inv)
qed

abbreviation affinity_reach :: "instant \<Rightarrow> affinity \<Rightarrow> bool" where
  "affinity_reach t m \<equiv>
     reach (\<lambda>(t, m). \<exists>ttl n. AffinityMap ttl n = Some m) affinity_step (t, m)"

lemma affinity_reach_inv: "affinity_reach t m \<Longrightarrow> affinity_inv t m"
  using affinity_sys.reach_inv by fastforce

section \<open>A fresh binding sticks\<close>

primrec op_sessions :: "affinity_op \<Rightarrow> string set" where
  "op_sessions (Resolve s cands pick pres) = set_option s"
| "op_sessions (Remember s ep) = {s}"
| "op_sessions (Forget s) = {s}"

definition affinity_run :: "(instant \<times> affinity_op) list \<Rightarrow> affinity \<Rightarrow> affinity" where
  "affinity_run ops m = fold (\<lambda>(now, op). affinity_do op now) ops m"

text \<open>An entry is bound, and only sessions of \<open>S\<close> were touched after it.\<close>

definition sticky :: "string \<Rightarrow> af_entry \<Rightarrow> string set \<Rightarrow> (string, af_entry) odict \<Rightarrow> bool" where
  "sticky s en S es \<longleftrightarrow> od_wf es \<and> (\<exists>pre post. es = pre @ (s, en) # post \<and> fst ` set post \<subseteq> S)"

lemma stickyI: "od_wf (pre @ (s, en) # post) \<Longrightarrow> fst ` set post \<subseteq> S \<Longrightarrow> sticky s en S (pre @ (s, en) # post)"
  by (auto simp: sticky_def)

lemma stickyE:
  assumes "sticky s en S es"
  obtains pre post where "es = pre @ (s, en) # post" "od_wf es" "fst ` set post \<subseteq> S"
  using assms by (auto simp: sticky_def)

lemma sticky_lookup: "sticky s en S es \<Longrightarrow> map_of es s = Some en"
  by (auto simp: sticky_def od_wf_def map_add_Some_iff)

lemma sticky_mono: "sticky s en S es \<Longrightarrow> S \<subseteq> T \<Longrightarrow> sticky s en T es"
  unfolding sticky_def by blast

lemma sticky_expire:
  assumes "sticky s en S es" "now - en_touched_at en < ttl"
  shows "sticky s en S (expire_entries ttl now es)"
proof -
  from assms(1) obtain pre post where es: "es = pre @ (s, en) # post" "od_wf es" "fst ` set post \<subseteq> S"
    by (rule stickyE)
  have "\<exists>pre'. expire_entries ttl now (pre @ (s, en) # post) = pre' @ (s, en) # post"
  proof (induction pre)
    case Nil
    show ?case using assms(2) by (intro exI [of _ "[]"]) simp
  next
    case (Cons x pre)
    then show ?case by (cases x) (auto intro: exI [of _ "x # pre"])
  qed
  then obtain pre' where e: "expire_entries ttl now es = pre' @ (s, en) # post" using es by blast
  moreover have "od_wf (expire_entries ttl now es)"
    using expire_entries_suffix [of es ttl now] es(2)
    by (metis distinct_append map_append od_wf_def)
  ultimately show ?thesis using es(3) by (auto simp: sticky_def)
qed

lemma sticky_delete:
  assumes "sticky s en S es" "s' \<noteq> s"
  shows "sticky s en S (AList.delete s' es)"
proof -
  from assms(1) obtain pre post where es: "es = pre @ (s, en) # post" "od_wf es" "fst ` set post \<subseteq> S"
    by (rule stickyE)
  let ?d = "filter (\<lambda>x. fst x \<noteq> s')"
  have "AList.delete s' es = ?d pre @ (s, en) # ?d post"
    using es(1) assms(2) by (simp add: delete_filter)
  moreover have "od_wf (AList.delete s' es)" "fst ` set (?d post) \<subseteq> S" using es by auto
  ultimately show ?thesis unfolding sticky_def by blast
qed

lemma sticky_touch:
  assumes "sticky s en S es" "s' \<noteq> s"
  shows "sticky s en (insert s' S) (AList.delete s' es @ [(s', e)])"
proof -
  from sticky_delete [OF assms] obtain pre post where
    d: "AList.delete s' es = pre @ (s, en) # post" "od_wf (AList.delete s' es)" "fst ` set post \<subseteq> S"
    by (rule stickyE)
  have "od_wf (AList.delete s' es @ [(s', e)])"
    using d(2) by (auto simp: od_wf_def delete_filter)
  with d show ?thesis using stickyI [of pre s en "post @ [(s', e)]" "insert s' S"] by auto
qed

lemma sticky_evict:
  assumes "sticky s en S es" "finite S" "int (card S) < n"
  shows "sticky s en S (evict_oldest n es)"
proof -
  from assms(1) obtain pre post where es: "es = pre @ (s, en) # post" "od_wf es" "fst ` set post \<subseteq> S"
    by (rule stickyE)
  have "length post = card (fst ` set post)"
    using es(1,2) distinct_card [of "map fst post"] by (simp add: od_wf_def)
  also have "\<dots> \<le> card S" using es(3) assms(2) by (rule card_mono [rotated])
  finally have len: "int (length ((s, en) # post)) \<le> n" using assms(3) by simp
  have "\<exists>pre'. evict_oldest n (pre @ (s, en) # post) = pre' @ (s, en) # post"
  proof (induction pre)
    case Nil
    show ?case using len by (intro exI [of _ "[]"]) simp
  next
    case (Cons x pre)
    then show ?case by (auto intro: exI [of _ "x # pre"])
  qed
  moreover have "od_wf (evict_oldest n es)"
    using evict_oldest_suffix [of es n] es(2)
    by (metis distinct_append map_append od_wf_def)
  ultimately show ?thesis using es by (auto simp: sticky_def)
qed

lemma sticky_remember:
  assumes "sticky s en S (af_entries m)" "now - en_touched_at en < af_ttl m" "s' \<noteq> s"
    and "finite S" "int (card (insert s' S)) < af_max m"
  shows "sticky s en (insert s' S) (af_entries (remember now s' ep m))"
  using sticky_evict [OF sticky_touch [OF sticky_expire [OF assms(1,2)] assms(3)]] assms(4,5)
  by (simp add: remember_def Let_def af_expire_def move_to_end_update)

lemma affinity_do_params [simp]:
  "af_ttl (affinity_do op now m) = af_ttl m" "af_max (affinity_do op now m) = af_max m"
  by (cases op; auto simp: resolve_def remember_def forget_def af_expire_def Let_def split: option.split)+

lemma sticky_resolve:
  assumes "sticky s en S (af_entries m)" "now - en_touched_at en < af_ttl m" "s' \<noteq> s"
    and "finite S" "int (card (insert s' S)) < af_max m"
  shows "sticky s en (insert s' S) (af_entries (fst (resolve now (Some s') cands pick pres m)))"
proof -
  let ?m = "af_expire now m"
  have ttl: "af_ttl ?m = af_ttl m" "af_max ?m = af_max m" by (simp_all add: af_expire_def)
  have e: "sticky s en S (af_entries ?m)"
    using sticky_expire [OF assms(1,2)] by (simp add: af_expire_def)
  have d: "sticky s en S (AList.delete s' (af_entries ?m))"
    using e assms(3) by (rule sticky_delete)
  have rem: "sticky s en (insert s' S) (af_entries (remember now s' ep m2))"
    if "sticky s en S (af_entries m2)" "af_ttl m2 = af_ttl m" "af_max m2 = af_max m" for m2 ep
    using sticky_remember [OF that(1)] that assms by simp
  have rep: "sticky s en (insert s' S) (af_entries (fst (case pick cands of None \<Rightarrow> (m2, None, AFF_MISS)
      | Some ep \<Rightarrow> (remember now s' ep m2, Some ep, AFF_MISS))))"
    if "sticky s en S (af_entries m2)" "af_ttl m2 = af_ttl m" "af_max m2 = af_max m" for m2
    using rem [OF that] sticky_mono [OF that(1), of "insert s' S"] by (auto split: option.split)
  show ?thesis
  proof (cases "map_of (af_entries ?m) s'")
    case None
    then show ?thesis using rep [OF e ttl] by (simp add: resolve_def Let_def)
  next
    case (Some en')
    show ?thesis
    proof (cases "find (\<lambda>c. endpoint_key_of c = en_endpoint en') cands")
      case None
      then show ?thesis
        using Some rep [of "?m\<lparr>af_entries := AList.delete s' (af_entries ?m)\<rparr>"] d ttl
          sticky_mono [OF e, of "insert s' S"]
        by (auto simp: resolve_def Let_def)
    next
      case (Some ep)
      then show ?thesis
        using \<open>map_of _ s' = Some en'\<close> sticky_touch [OF e assms(3)]
        by (simp add: resolve_def Let_def move_to_end_update)
    qed
  qed
qed

lemma sticky_do:
  assumes "sticky s en S (af_entries m)" "now - en_touched_at en < af_ttl m"
    and "s \<notin> op_sessions op" "finite S" "int (card (op_sessions op \<union> S)) < af_max m"
  shows "sticky s en (op_sessions op \<union> S) (af_entries (affinity_do op now m))"
proof (cases op)
  case (Resolve k cands pick pres)
  show ?thesis
  proof (cases k)
    case None
    with Resolve assms(1) show ?thesis by (simp add: resolve_def)
  next
    case (Some k')
    with Resolve assms sticky_resolve show ?thesis by simp
  qed
next
  case (Remember k ep)
  with assms sticky_remember show ?thesis by simp
next
  case (Forget k)
  with assms sticky_mono [OF sticky_delete [OF assms(1), of k], of "insert k S"] show ?thesis
    by (auto simp: forget_def)
qed

lemma op_sessions_finite [simp]: "finite (op_sessions op)"
  by (cases op) auto

lemma sticky_run:
  assumes "sticky s en S (af_entries m)" "finite S"
    and "\<forall>(now, op) \<in> set ops. now - en_touched_at en < af_ttl m \<and> s \<notin> op_sessions op"
    and "int (card (S \<union> (\<Union>(now, op) \<in> set ops. op_sessions op))) < af_max m"
  shows "sticky s en (S \<union> (\<Union>(now, op) \<in> set ops. op_sessions op)) (af_entries (affinity_run ops m)) \<and>
    af_ttl (affinity_run ops m) = af_ttl m"
  using assms
proof (induction ops arbitrary: m S)
  case Nil
  then show ?case by (simp add: affinity_run_def)
next
  case (Cons x ops)
  obtain now op where x: "x = (now, op)" by (cases x)
  let ?U = "\<Union>(now, op) \<in> set ops. op_sessions op"
  have "card (op_sessions op \<union> S) \<le> card (S \<union> (\<Union>(now, op) \<in> set (x # ops). op_sessions op))"
    using Cons.prems(2) x by (intro card_mono) auto
  then have "int (card (op_sessions op \<union> S)) < af_max m" using Cons.prems(4) by linarith
  then have "sticky s en (op_sessions op \<union> S) (af_entries (affinity_do op now m))"
    using Cons.prems x by (intro sticky_do) auto
  moreover have "op_sessions op \<union> S \<union> ?U = S \<union> (\<Union>(now, op) \<in> set (x # ops). op_sessions op)"
    using x by auto
  ultimately show ?case
    using Cons.IH [of "op_sessions op \<union> S" "affinity_do op now m"] Cons.prems x
    by (simp add: affinity_run_def)
qed

section \<open>Properties\<close>

definition ep0 :: "ident \<Rightarrow> int \<Rightarrow> replica_endpoint" where
  "ep0 a port = \<lparr>re_agent_id = a, re_host = ''h'', re_port = port, re_model_id = ''m'', re_inflight = 0\<rparr>"

definition aff0 :: affinity where
  "aff0 = \<lparr>af_ttl = 60, af_max = 2, af_entries = []\<rparr>"

lemma aff0_reach: "affinity_reach 0 aff0"
proof -
  have "AffinityMap 60 2 = Some aff0" by (simp add: AffinityMap_def aff0_def)
  then show ?thesis by (intro reach_init) auto
qed

text \<open>Session affinity sticks. On any reachable map, once the endpoint that served a session is
  remembered at time \<open>t\<close>, then after any further calls for other sessions, as long as less than the
  TTL has passed and those calls name fewer distinct sessions than the capacity, resolving the
  session is a hit on the first candidate with that endpoint's key, whatever the replica policy
  would pick; and the map never holds more entries than its capacity.\<close>

theorem affinity_sticks:
  assumes "affinity_reach t0 m0" and "t0 \<le> t"
    and "\<forall>(now, op) \<in> set ops. now < t + af_ttl m0 \<and> s \<notin> op_sessions op"
    and "int (card (\<Union>(now, op) \<in> set ops. op_sessions op)) < af_max m0"
    and "now < t + af_ttl m0"
    and "find (\<lambda>c. endpoint_key_of c = endpoint_key_of ep) cands = Some c"
  shows "snd (resolve now (Some s) cands pick pres (affinity_run ops (remember t s ep m0))) = (Some c, AFF_HIT) \<and>
    int (length (af_entries (remember t s ep m0))) \<le> af_max m0"
proof -
  let ?en = "\<lparr>en_endpoint = endpoint_key_of ep, en_touched_at = t\<rparr>"
  let ?m1 = "remember t s ep m0"
  let ?m2 = "affinity_run ops ?m1"
  have inv0: "affinity_inv t0 m0" using assms(1) by (rule affinity_reach_inv)
  have inv1: "affinity_inv t ?m1" using inv0 assms(2) by (rule remember_inv)
  have params: "af_ttl ?m1 = af_ttl m0" "af_max ?m1 = af_max m0"
    by (simp_all add: remember_def Let_def af_expire_def)
  have wf: "od_wf (AList.delete s (expire_entries (af_ttl m0) t (af_entries m0)))"
    using af_expire_inv [OF inv0, of t] by (simp add: af_expire_def affinity_inv_def)
  have "sticky s ?en {} (AList.delete s (expire_entries (af_ttl m0) t (af_entries m0)) @ [(s, ?en)])"
    using wf by (intro stickyI) (auto simp: od_wf_def delete_filter)
  then have st: "sticky s ?en {} (af_entries ?m1)"
    using sticky_evict [of s ?en "{}" _ "af_max m0"] inv0
    by (simp add: remember_def Let_def af_expire_def move_to_end_update affinity_inv_def)
  have fresh: "\<forall>(now, op) \<in> set ops. now - en_touched_at ?en < af_ttl ?m1 \<and> s \<notin> op_sessions op"
    using assms(3) params by fastforce
  have "int (card ({} \<union> (\<Union>(now, op) \<in> set ops. op_sessions op))) < af_max ?m1"
    using assms(4) params by simp
  from sticky_run [OF st finite.emptyI fresh this]
  have st2: "sticky s ?en ({} \<union> (\<Union>(now, op) \<in> set ops. op_sessions op)) (af_entries ?m2)"
    and ttl2: "af_ttl ?m2 = af_ttl m0" using params by auto
  have "map_of (af_entries (af_expire now ?m2)) s = Some ?en"
    using sticky_lookup [OF sticky_expire [OF st2]] assms(5) ttl2 by (simp add: af_expire_def)
  then have "snd (resolve now (Some s) cands pick pres ?m2) = (Some c, AFF_HIT)"
    using assms(6) by (simp add: resolve_def Let_def)
  moreover have "int (length (af_entries ?m1)) \<le> af_max m0"
    using inv1 params by (simp add: affinity_inv_def)
  ultimately show ?thesis by blast
qed

theorem affinity_sticks_witness:
  "snd (resolve 50 (Some ''s'') [ep0 ''B'' 2, ep0 ''A'' 1] (\<lambda>_. Some (ep0 ''B'' 2)) False
      (affinity_run [(20, Remember ''other'' (ep0 ''B'' 2))] (remember 10 ''s'' (ep0 ''A'' 1) aff0))) =
    (Some (ep0 ''A'' 1), AFF_HIT)"
proof -
  have *: "(0::real) \<le> 10"
    "\<forall>(now, op) \<in> set [(20, Remember ''other'' (ep0 ''B'' 2))].
       now < 10 + af_ttl aff0 \<and> ''s'' \<notin> op_sessions op"
    "int (card (\<Union>(now, op) \<in> set [(20 :: real, Remember ''other'' (ep0 ''B'' 2))]. op_sessions op)) < af_max aff0"
    "50 < 10 + af_ttl aff0"
    "find (\<lambda>c. endpoint_key_of c = endpoint_key_of (ep0 ''A'' 1)) [ep0 ''B'' 2, ep0 ''A'' 1] = Some (ep0 ''A'' 1)"
    by (simp_all add: aff0_def ep0_def endpoint_key_of_def)
  show ?thesis by (rule conjunct1 [OF affinity_sticks [OF aff0_reach *]])
qed

text \<open>Expiry from the front is complete. On any reachable map the loop that stops at the first
  fresh entry keeps exactly the entries touched within the TTL, in their order, so a session hits
  if and only if its own binding is fresh and its endpoint is still a candidate; otherwise the
  policy's choice is asked for, unless the caller preserves a binding with no candidate at all.\<close>

theorem affinity_expiry_complete:
  assumes "affinity_reach t m"
  shows "af_entries (af_expire now m) =
      filter (\<lambda>(k, e). now - en_touched_at e < af_ttl m) (af_entries m) \<and>
    (snd (snd (resolve now (Some s) cands pick pres m)) = AFF_HIT \<longleftrightarrow>
       (\<exists>e. map_of (af_entries m) s = Some e \<and> now - en_touched_at e < af_ttl m \<and>
          en_endpoint e \<in> endpoint_key_of ` set cands)) \<and>
    (snd (snd (resolve now (Some s) cands pick pres m)) = AFF_MISS \<longrightarrow>
       fst (snd (resolve now (Some s) cands pick pres m)) \<in> {pick cands, None})"
proof -
  have inv: "affinity_inv t m" using assms by (rule affinity_reach_inv)
  let ?fresh = "\<lambda>(k, e). now - en_touched_at e < af_ttl m"
  have f: "af_entries (af_expire now m) = filter ?fresh (af_entries m)"
    using inv by (simp add: af_expire_def expire_entries_filter affinity_inv_def)
  have wf: "od_wf (af_entries m)" using inv by (simp add: affinity_inv_def)
  have look: "map_of (filter ?fresh es) s = (case map_of es s of None \<Rightarrow> None
      | Some e \<Rightarrow> if now - en_touched_at e < af_ttl m then Some e else None)" if "od_wf es" for es
    using that by (induction es) (auto simp: od_wf_def map_of_eq_None_iff split: option.splits)
  let ?res = "resolve now (Some s) cands pick pres m"
  have miss: "snd (snd ?res) = AFF_MISS \<and> fst (snd ?res) \<in> {pick cands, None}"
    if "map_of (af_entries (af_expire now m)) s = None"
    using that by (auto simp: resolve_def Let_def split: option.split)
  show ?thesis
  proof (cases "map_of (af_entries (af_expire now m)) s")
    case None
    then show ?thesis using f miss look [OF wf] by (auto split: option.splits)
  next
    case (Some e)
    note look_s = Some
    then have e: "map_of (af_entries m) s = Some e" "now - en_touched_at e < af_ttl m"
      using f look [OF wf] by (auto split: option.splits if_splits)
    show ?thesis
    proof (cases "find (\<lambda>c. endpoint_key_of c = en_endpoint e) cands")
      case None
      then have "en_endpoint e \<notin> endpoint_key_of ` set cands" by (auto simp: find_None_iff)
      with None Some e f show ?thesis by (auto simp: resolve_def Let_def split: option.split)
    next
      case (Some ep)
      then have "en_endpoint e \<in> endpoint_key_of ` set cands" 
        using find_SomeD [OF Some] by (intro image_eqI [of _ _ ep]) simp_all
      with Some look_s e f show ?thesis by (simp add: resolve_def Let_def)
    qed
  qed
qed

theorem affinity_expiry_complete_witness:
  "snd (snd (resolve 50 (Some ''s'') [ep0 ''A'' 1] (\<lambda>_. None) False (remember 10 ''s'' (ep0 ''A'' 1) aff0))) = AFF_HIT"
proof -
  have r: "affinity_reach 10 (remember 10 ''s'' (ep0 ''A'' 1) aff0)"
    using reach_step [OF aff0_reach as_op [of 0 10 aff0 "Remember ''s'' (ep0 ''A'' 1)"]] by simp
  have "\<exists>e. map_of (af_entries (remember 10 ''s'' (ep0 ''A'' 1) aff0)) ''s'' = Some e \<and>
      50 - en_touched_at e < af_ttl (remember 10 ''s'' (ep0 ''A'' 1) aff0) \<and>
      en_endpoint e \<in> endpoint_key_of ` set [ep0 ''A'' 1]"
    by (simp add: remember_def aff0_def af_expire_def od_move_to_end_def)
  then show ?thesis using affinity_expiry_complete [OF r] by blast
qed

end
