(* ===== verification/Gw_Quota.thy ===== *)
theory Gw_Quota
  imports Registry_Store
begin

text \<open>
  Per-key request quotas of the gateway (\<open>gateway/quota.py\<close>): a token bucket per minute and a
  counter per UTC day. Instants are UTC seconds, a date is the number of its day; the snapshot's
  \<open>day\<close> column holds that number (\<open>isoformat\<close> and \<open>fromisoformat\<close> are inverse on dates).
  A zero \<open>rpm_limit\<close>, which the registry refuses, would divide by zero: that is the outcome
  \<open>ZeroDivision\<close>.
\<close>

section \<open>State and operations\<close>

record key_state =
  ks_bucket_tokens :: real
  ks_bucket_updated_at :: instant
  ks_day :: int
  ks_daily_count :: int

type_synonym quota_states = "(string, key_state) odict"

datatype quota_outcome = Allowed | QuotaExceeded int | ZeroDivision

definition utc_day :: "instant \<Rightarrow> int" where
  "utc_day now = \<lfloor>now / 86400\<rfloor>"

definition quota_restore :: "quota_snapshot list \<Rightarrow> quota_states" where
  "quota_restore snaps =
     fold (\<lambda>i d. AList.update (qs_key_id i)
             \<lparr>ks_bucket_tokens = qs_bucket_tokens i, ks_bucket_updated_at = qs_bucket_updated_at i,
              ks_day = qs_day i, ks_daily_count = qs_daily_count i\<rparr> d) snaps []"

definition quota_refresh :: "api_key_info \<Rightarrow> instant \<Rightarrow> key_state \<Rightarrow> key_state" where
  "quota_refresh key now st =
     (let st1 = (case ak_rpm_limit key of
                   None \<Rightarrow> st
                 | Some rpm \<Rightarrow>
                     let elapsed = max 0 (now - ks_bucket_updated_at st)
                     in st\<lparr>ks_bucket_tokens :=
                            min (of_int rpm) (ks_bucket_tokens st + elapsed * of_int rpm / 60)\<rparr>);
          st2 = st1\<lparr>ks_bucket_updated_at := max (ks_bucket_updated_at st) now\<rparr>
      in if ks_day st2 < utc_day now then st2\<lparr>ks_day := utc_day now, ks_daily_count := 0\<rparr> else st2)"

definition new_key_state :: "api_key_info \<Rightarrow> instant \<Rightarrow> key_state" where
  "new_key_state key now =
     \<lparr>ks_bucket_tokens = (case ak_rpm_limit key of None \<Rightarrow> 0 | Some rpm \<Rightarrow> of_int rpm),
      ks_bucket_updated_at = now, ks_day = utc_day now, ks_daily_count = 0\<rparr>"

definition rpm_delay :: "int \<Rightarrow> key_state \<Rightarrow> int" where
  "rpm_delay rpm st = max 1 \<lceil>(1 - ks_bucket_tokens st) / (of_int rpm / 60)\<rceil>"

definition day_delay :: "instant \<Rightarrow> int" where
  "day_delay now = max 1 \<lceil>of_int (utc_day now + 1) * 86400 - now\<rceil>"

definition rpm_blocked :: "api_key_info \<Rightarrow> key_state \<Rightarrow> bool" where
  "rpm_blocked key st \<longleftrightarrow>
     (case ak_rpm_limit key of None \<Rightarrow> False | Some rpm \<Rightarrow> ks_bucket_tokens st < 1)"

definition day_blocked :: "api_key_info \<Rightarrow> key_state \<Rightarrow> bool" where
  "day_blocked key st \<longleftrightarrow>
     (case ak_daily_limit key of None \<Rightarrow> False | Some n \<Rightarrow> n \<le> ks_daily_count st)"

definition retry_delays :: "api_key_info \<Rightarrow> instant \<Rightarrow> key_state \<Rightarrow> int list" where
  "retry_delays key now st =
     (if rpm_blocked key st then [rpm_delay (the (ak_rpm_limit key)) st] else []) @
     (if day_blocked key st then [day_delay now] else [])"

definition take_one :: "api_key_info \<Rightarrow> key_state \<Rightarrow> key_state" where
  "take_one key st =
     (let st1 = (if ak_rpm_limit key = None then st
                 else st\<lparr>ks_bucket_tokens := ks_bucket_tokens st - 1\<rparr>)
      in if ak_daily_limit key = None then st1
         else st1\<lparr>ks_daily_count := ks_daily_count st1 + 1\<rparr>)"

text \<open>\<open>consume\<close> on the key's state: the list of retry delays is empty, or their maximum is returned.\<close>

definition consume_state :: "api_key_info \<Rightarrow> instant \<Rightarrow> key_state \<Rightarrow> key_state \<times> quota_outcome" where
  "consume_state key now st0 =
     (let st = quota_refresh key now st0
      in if rpm_blocked key st \<and> ak_rpm_limit key = Some 0 then (st, ZeroDivision)
         else if retry_delays key now st \<noteq> []
         then (st, QuotaExceeded (Max (set (retry_delays key now st))))
         else (take_one key st, Allowed))"

definition quota_key :: "api_key_info \<Rightarrow> string" where
  "quota_key key = (if ak_key_id key \<noteq> [] then ak_key_id key else ak_name key)"

definition unmetered :: "api_key_info \<Rightarrow> bool" where
  "unmetered key \<longleftrightarrow> ak_is_admin key \<or> ak_rpm_limit key = None \<and> ak_daily_limit key = None"

definition consume :: "api_key_info \<Rightarrow> instant \<Rightarrow> quota_states \<Rightarrow> quota_states \<times> quota_outcome" where
  "consume key now states =
     (if unmetered key then (states, Allowed)
      else
        let st0 = (case map_of states (quota_key key) of
                     None \<Rightarrow> new_key_state key now | Some st \<Rightarrow> st);
            (st, res) = consume_state key now st0
        in (AList.update (quota_key key) st states, res))"

definition quota_take_snapshot :: "instant \<Rightarrow> quota_states \<Rightarrow> quota_snapshot list" where
  "quota_take_snapshot now states =
     map (\<lambda>(k, st). \<lparr>qs_key_id = k, qs_bucket_tokens = ks_bucket_tokens st,
                     qs_bucket_updated_at = ks_bucket_updated_at st, qs_day = ks_day st,
                     qs_daily_count = ks_daily_count st, qs_snapshotted_at = now\<rparr>)
       (sort_key fst states)"

section \<open>The token bucket bounds the rate\<close>

lemma utc_day_mono: "t \<le> now \<Longrightarrow> utc_day t \<le> utc_day now"
  by (simp add: utc_day_def floor_mono divide_right_mono)

definition key_ok :: "api_key_info \<Rightarrow> bool" where
  "key_ok key \<longleftrightarrow> validate_quota_limit (ak_rpm_limit key) \<and> validate_quota_limit (ak_daily_limit key)"

definition state_ok :: "api_key_info \<Rightarrow> key_state \<Rightarrow> bool" where
  "state_ok key st \<longleftrightarrow>
     (case ak_rpm_limit key of None \<Rightarrow> True
      | Some rpm \<Rightarrow> 0 \<le> ks_bucket_tokens st \<and> ks_bucket_tokens st \<le> of_int rpm) \<and>
     (case ak_daily_limit key of None \<Rightarrow> True
      | Some n \<Rightarrow> 0 \<le> ks_daily_count st \<and> ks_daily_count st \<le> n)"

lemma refresh_fields:
  "ks_bucket_updated_at (quota_refresh key now st) = max (ks_bucket_updated_at st) now"
  "ks_day (quota_refresh key now st) = max (ks_day st) (utc_day now)"
  "ks_daily_count (quota_refresh key now st) =
     (if ks_day st < utc_day now then 0 else ks_daily_count st)"
  "ks_bucket_tokens (quota_refresh key now st) =
     (case ak_rpm_limit key of None \<Rightarrow> ks_bucket_tokens st
      | Some rpm \<Rightarrow> min (of_int rpm)
          (ks_bucket_tokens st + max 0 (now - ks_bucket_updated_at st) * of_int rpm / 60))"
  by (auto simp: quota_refresh_def Let_def split: option.split)

lemma refresh_ok:
  assumes "key_ok key" "state_ok key st"
  shows "state_ok key (quota_refresh key now st)"
  using assms
  by (auto simp: state_ok_def key_ok_def validate_quota_limit_def refresh_fields
      intro!: add_nonneg_nonneg divide_nonneg_nonneg mult_nonneg_nonneg split: option.splits)

lemma not_zero_division: "key_ok key \<Longrightarrow> ak_rpm_limit key \<noteq> Some 0"
  by (auto simp: key_ok_def validate_quota_limit_def)

lemma retry_delays_Nil: "retry_delays key now st = [] \<longleftrightarrow> \<not> rpm_blocked key st \<and> \<not> day_blocked key st"
  by (simp add: retry_delays_def)

lemma retry_delays_pos: "d \<in> set (retry_delays key now st) \<Longrightarrow> 1 \<le> d"
  by (auto simp: retry_delays_def rpm_delay_def day_delay_def split: if_splits)

text \<open>One call, with the outcome spelled out.\<close>

lemma consume_state_ok:
  assumes "key_ok key"
  shows "consume_state key now st0 =
    (let st = quota_refresh key now st0
     in if rpm_blocked key st \<or> day_blocked key st
        then (st, QuotaExceeded (Max (set (retry_delays key now st)))) else (take_one key st, Allowed))"
  using not_zero_division [OF assms] by (simp add: consume_state_def Let_def retry_delays_Nil)

lemma take_one_fields:
  "ks_bucket_tokens (take_one key st) =
     ks_bucket_tokens st - (if ak_rpm_limit key = None then 0 else 1)"
  "ks_daily_count (take_one key st) =
     ks_daily_count st + (if ak_daily_limit key = None then 0 else 1)"
  "ks_bucket_updated_at (take_one key st) = ks_bucket_updated_at st"
  "ks_day (take_one key st) = ks_day st"
  by (simp_all add: take_one_def Let_def)

lemma take_one_ok:
  assumes "state_ok key st" "\<not> rpm_blocked key st" "\<not> day_blocked key st"
  shows "state_ok key (take_one key st)"
  using assms
  by (auto simp: state_ok_def rpm_blocked_def day_blocked_def take_one_fields split: option.splits)

lemma consume_state_keeps_ok:
  assumes "key_ok key" "state_ok key st"
  shows "state_ok key (fst (consume_state key now st))"
  using refresh_ok [OF assms] by (simp add: consume_state_ok [OF assms(1)] Let_def take_one_ok)

section \<open>Runs of calls\<close>

text \<open>
  The manager's calls in order, each with its key and clock reading, and their outcomes. A key's
  \<open>grants\<close> are its admitted calls.
\<close>

fun consume_run ::
  "(api_key_info \<times> instant) list \<Rightarrow> quota_states \<Rightarrow> ((api_key_info \<times> instant) \<times> quota_outcome) list" where
  "consume_run [] states = []"
| "consume_run ((key, now) # calls) states =
     ((key, now), snd (consume key now states)) # consume_run calls (fst (consume key now states))"

definition grants ::
  "api_key_info \<Rightarrow> (instant \<Rightarrow> bool) \<Rightarrow> ((api_key_info \<times> instant) \<times> quota_outcome) list \<Rightarrow> nat" where
  "grants key P outs = length (filter (\<lambda>((k, now), res). k = key \<and> P now \<and> res = Allowed) outs)"

definition own_key :: "api_key_info \<Rightarrow> (api_key_info \<times> instant) list \<Rightarrow> bool" where
  "own_key key calls \<longleftrightarrow> (\<forall>(k, now) \<in> set calls. \<not> unmetered k \<and> quota_key k = quota_key key \<longrightarrow> k = key)"

lemma own_key_Cons [simp]:
  "own_key key ((k, now) # calls) \<longleftrightarrow>
     (\<not> unmetered k \<and> quota_key k = quota_key key \<longrightarrow> k = key) \<and> own_key key calls"
  by (simp add: own_key_def)

lemma grants_simps [simp]:
  "grants key P [] = 0"
  "grants key P (((k, now), res) # outs) =
     (if k = key \<and> P now \<and> res = Allowed then 1 else 0) + grants key P outs"
  by (simp_all add: grants_def)

text \<open>A call of another key leaves the key's state alone; its own call is \<open>consume_state\<close>.\<close>

lemma consume_other:
  "unmetered k \<or> quota_key k \<noteq> q \<Longrightarrow> map_of (fst (consume k now states)) q = map_of states q"
  by (auto simp: consume_def update_conv' split: prod.split)

definition state_before :: "api_key_info \<Rightarrow> instant \<Rightarrow> quota_states \<Rightarrow> key_state" where
  "state_before key now states =
     (case map_of states (quota_key key) of None \<Rightarrow> new_key_state key now | Some st \<Rightarrow> st)"

lemma consume_own:
  assumes "\<not> unmetered key"
  shows "map_of (fst (consume key now states)) (quota_key key) =
      Some (fst (consume_state key now (state_before key now states)))"
    and "snd (consume key now states) = snd (consume_state key now (state_before key now states))"
  using assms by (auto simp: consume_def state_before_def update_conv' split: prod.split)

definition stored_ok :: "api_key_info \<Rightarrow> instant \<Rightarrow> quota_states \<Rightarrow> bool" where
  "stored_ok key t states \<longleftrightarrow>
     (case map_of states (quota_key key) of None \<Rightarrow> True
      | Some st \<Rightarrow> state_ok key st \<and> ks_bucket_updated_at st \<le> t \<and> ks_day st \<le> utc_day t)"

lemma new_key_state_ok: "key_ok key \<Longrightarrow> state_ok key (new_key_state key now)"
  by (auto simp: state_ok_def new_key_state_def key_ok_def validate_quota_limit_def split: option.splits)

lemma state_before_ok:
  assumes "key_ok key" "stored_ok key t states" "t \<le> now"
  shows "state_ok key (state_before key now states) \<and>
    ks_bucket_updated_at (state_before key now states) \<le> now \<and>
    ks_day (state_before key now states) \<le> utc_day now"
proof -
  have "utc_day t \<le> utc_day now" using assms(3) by (rule utc_day_mono)
  then show ?thesis
    using assms new_key_state_ok [of key now]
    by (fastforce simp: stored_ok_def state_before_def new_key_state_def split: option.splits)
qed

lemma consume_state_times:
  assumes "key_ok key" "ks_bucket_updated_at st \<le> now" "ks_day st \<le> utc_day now"
  shows "ks_bucket_updated_at (fst (consume_state key now st)) = now"
    and "ks_day (fst (consume_state key now st)) = utc_day now"
  using assms by (simp_all add: consume_state_ok Let_def refresh_fields take_one_fields)

lemma consume_own_stored_ok:
  assumes "key_ok key" "\<not> unmetered key" "stored_ok key t states" "t \<le> now"
  shows "stored_ok key now (fst (consume key now states))"
  using state_before_ok [OF assms(1,3,4)] consume_state_keeps_ok [OF assms(1)]
    consume_state_times [OF assms(1)] assms(2)
  by (simp add: stored_ok_def consume_own)

lemma stored_ok_later:
  assumes "stored_ok key t states" "t \<le> now"
  shows "stored_ok key now states"
proof -
  have "utc_day t \<le> utc_day now" using assms(2) by (rule utc_day_mono)
  with assms show ?thesis by (auto simp: stored_ok_def split: option.splits)
qed

lemma consume_other_stored_ok:
  assumes "unmetered k \<or> quota_key k \<noteq> quota_key key" "stored_ok key t states" "t \<le> now"
  shows "stored_ok key now (fst (consume k now states))"
  using stored_ok_later [OF assms(2,3)] consume_other [OF assms(1)] by (simp add: stored_ok_def)

text \<open>Tokens the bucket would hold at time \<open>t\<close>: the potential of the rate bound.\<close>

definition tokens_at :: "int \<Rightarrow> api_key_info \<Rightarrow> instant \<Rightarrow> quota_states \<Rightarrow> real" where
  "tokens_at rpm key t states =
     (case map_of states (quota_key key) of None \<Rightarrow> of_int rpm
      | Some st \<Rightarrow> min (of_int rpm) (ks_bucket_tokens st + (t - ks_bucket_updated_at st) * of_int rpm / 60))"

lemma tokens_at_grow:
  assumes "0 < rpm" "t \<le> now"
  shows "tokens_at rpm key now states \<le> tokens_at rpm key t states + (now - t) * of_int rpm / 60"
proof -
  have d: "0 \<le> (now - t) * real_of_int rpm / 60" using assms by simp
  have m: "min c (x + e) \<le> min c x + e" if "0 \<le> e" for c x e :: real
    using that by (simp add: min_def)
  show ?thesis
  proof (cases "map_of states (quota_key key)")
    case None
    with d show ?thesis by (simp add: tokens_at_def)
  next
    case (Some st)
    let ?x = "ks_bucket_tokens st + (t - ks_bucket_updated_at st) * of_int rpm / 60"
    have "ks_bucket_tokens st + (now - ks_bucket_updated_at st) * of_int rpm / 60 =
        ?x + (now - t) * of_int rpm / 60"
      by (simp add: field_simps)
    then show ?thesis using Some m [OF d, of "of_int rpm" ?x] by (simp only: tokens_at_def option.case)
  qed
qed

lemma tokens_at_own:
  assumes "key_ok key" "\<not> unmetered key" "ak_rpm_limit key = Some rpm" "stored_ok key t states" "t \<le> now"
  shows "(if snd (consume key now states) = Allowed then 1 else 0) +
      tokens_at rpm key now (fst (consume key now states)) \<le> tokens_at rpm key now states"
proof -
  let ?st = "state_before key now states"
  have rpm: "0 < rpm" using assms(1,3) by (simp add: key_ok_def validate_quota_limit_def)
  have st: "state_ok key ?st" "ks_bucket_updated_at ?st \<le> now" "ks_day ?st \<le> utc_day now"
    using state_before_ok [OF assms(1,4,5)] by auto
  have ref: "ks_bucket_tokens (quota_refresh key now ?st) = tokens_at rpm key now states"
    using assms(3) st(2) rpm
    by (auto simp: refresh_fields tokens_at_def state_before_def new_key_state_def split: option.splits)
  have le: "tokens_at rpm key now states \<le> of_int rpm"
    by (auto simp: tokens_at_def split: option.split)
  have "tokens_at rpm key now (fst (consume key now states)) =
      ks_bucket_tokens (fst (consume_state key now ?st))"
    using assms(1,2,3) consume_state_times [OF assms(1) st(2,3)] consume_state_keeps_ok [OF assms(1) st(1)]
    by (simp add: tokens_at_def consume_own state_ok_def)
  then show ?thesis
    using assms(3) ref le
    by (simp add: consume_own(2) [OF assms(2)] consume_state_ok [OF assms(1)] Let_def take_one_fields)
qed

definition calls_within :: "instant \<Rightarrow> instant \<Rightarrow> (api_key_info \<times> instant) list \<Rightarrow> bool" where
  "calls_within a b calls \<longleftrightarrow> sorted (a # map snd calls) \<and> (\<forall>(k, now) \<in> set calls. now \<le> b)"

lemma calls_within_Cons:
  "calls_within a b ((k, now) # calls) \<longleftrightarrow> a \<le> now \<and> now \<le> b \<and> calls_within now b calls"
  by (fastforce simp: calls_within_def)

lemma grants_rate:
  assumes "key_ok key" "\<not> unmetered key" "ak_rpm_limit key = Some rpm"
    and "calls_within a b calls" "own_key key calls" "stored_ok key a states" "a \<le> b"
  shows "real (grants key (\<lambda>_. True) (consume_run calls states)) \<le>
    tokens_at rpm key a states + (b - a) * of_int rpm / 60"
  using assms(4-)
proof (induction calls arbitrary: a states)
  case Nil
  have rpm: "0 < rpm" using assms(1,3) by (simp add: key_ok_def validate_quota_limit_def)
  have "0 \<le> tokens_at rpm key a states"
    using Nil.prems rpm assms(3)
    by (auto simp: tokens_at_def stored_ok_def state_ok_def intro!: add_nonneg_nonneg split: option.splits)
  with Nil.prems rpm show ?case by simp
next
  case (Cons x calls)
  obtain k now where x: "x = (k, now)" by (cases x)
  have rpm: "0 < rpm" using assms(1,3) by (simp add: key_ok_def validate_quota_limit_def)
  have w: "a \<le> now" "now \<le> b" "calls_within now b calls"
    using Cons.prems(1) x by (simp_all add: calls_within_Cons)
  let ?s = "fst (consume k now states)"
  have split: "(b - a) * real_of_int rpm / 60 = (now - a) * of_int rpm / 60 + (b - now) * of_int rpm / 60"
    by (simp add: field_simps)
  note grow = tokens_at_grow [OF rpm w(1), of key states]
  show ?case
  proof (cases "k = key")
    case True
    have "stored_ok key now ?s" using consume_own_stored_ok [OF assms(1,2) Cons.prems(3) w(1)] True by simp
    then have "real (grants key (\<lambda>_. True) (consume_run calls ?s)) \<le>
        tokens_at rpm key now ?s + (b - now) * of_int rpm / 60"
      using Cons.IH [OF w(3)] Cons.prems x w by simp
    moreover have "real (grants key (\<lambda>_. True) (consume_run (x # calls) states)) =
        (if snd (consume key now states) = Allowed then 1 else 0) +
        real (grants key (\<lambda>_. True) (consume_run calls ?s))"
      using True x by simp
    ultimately show ?thesis
      using tokens_at_own [OF assms(1-3) Cons.prems(3) w(1)] grow split unfolding True by linarith
  next
    case False
    then have o: "unmetered k \<or> quota_key k \<noteq> quota_key key" using Cons.prems(2) x by auto
    have "stored_ok key now ?s" using consume_other_stored_ok [OF o Cons.prems(3) w(1)] .
    then have "real (grants key (\<lambda>_. True) (consume_run calls ?s)) \<le>
        tokens_at rpm key now ?s + (b - now) * of_int rpm / 60"
      using Cons.IH [OF w(3)] Cons.prems x w by simp
    moreover have "tokens_at rpm key now ?s = tokens_at rpm key now states"
      by (simp add: tokens_at_def consume_other [OF o])
    moreover have "real (grants key (\<lambda>_. True) (consume_run (x # calls) states)) =
        real (grants key (\<lambda>_. True) (consume_run calls ?s))"
      using False x by simp
    ultimately show ?thesis using grow split by linarith
  qed
qed

section \<open>The daily counter\<close>

definition used_on :: "api_key_info \<Rightarrow> int \<Rightarrow> quota_states \<Rightarrow> int" where
  "used_on key d states =
     (case map_of states (quota_key key) of None \<Rightarrow> 0
      | Some st \<Rightarrow> if ks_day st = d then ks_daily_count st else 0)"

lemma grants_past_day:
  assumes "calls_within a b calls" "d < utc_day a"
  shows "grants key (\<lambda>now. utc_day now = d) (consume_run calls states) = 0"
  using assms
proof (induction calls arbitrary: a states)
  case (Cons x calls)
  obtain k now where x: "x = (k, now)" by (cases x)
  then have "a \<le> now" "calls_within now b calls" using Cons.prems by (auto simp: calls_within_Cons)
  then have "utc_day a \<le> utc_day now" by (simp add: utc_day_mono)
  with Cons x \<open>calls_within now b calls\<close> show ?case by simp
qed simp

lemma used_on_own:
  assumes "key_ok key" "\<not> unmetered key" "ak_daily_limit key = Some n" "stored_ok key t states" "t \<le> now"
    and "utc_day now \<le> d"
  shows "(if utc_day now = d \<and> snd (consume key now states) = Allowed then 1 else 0) + used_on key d states =
      used_on key d (fst (consume key now states)) \<and>
    used_on key d (fst (consume key now states)) \<le> n"
proof -
  let ?st = "state_before key now states"
  have st: "state_ok key ?st" "ks_bucket_updated_at ?st \<le> now" "ks_day ?st \<le> utc_day now"
    using state_before_ok [OF assms(1,4,5)] by auto
  let ?r = "quota_refresh key now ?st"
  have n: "0 < n" using assms(1,3) by (simp add: key_ok_def validate_quota_limit_def)
  have stored: "stored_ok key now states" using assms(4,5) by (rule stored_ok_later)
  have before: "used_on key d states = (if utc_day now = d then ks_daily_count ?r else 0)"
    using st(3) stored assms(6)
    by (auto simp: used_on_def refresh_fields state_before_def new_key_state_def stored_ok_def split: option.splits)
  have "used_on key d (fst (consume key now states)) =
      (if utc_day now = d then ks_daily_count (fst (consume_state key now ?st)) else 0)"
    using assms(2) consume_state_times [OF assms(1) st(2,3)] by (simp add: used_on_def consume_own)
  moreover have "state_ok key (fst (consume_state key now ?st))"
    using assms(1) st(1) by (rule consume_state_keeps_ok)
  ultimately show ?thesis
    using before assms(3) n consume_own(2) [OF assms(2), of now states]
    by (auto simp: consume_state_ok [OF assms(1)] Let_def take_one_fields state_ok_def)
qed

lemma grants_daily:
  assumes "key_ok key" "\<not> unmetered key" "ak_daily_limit key = Some n"
    and "calls_within a b calls" "own_key key calls" "stored_ok key a states"
    and "used_on key d states \<le> n"
  shows "int (grants key (\<lambda>now. utc_day now = d) (consume_run calls states)) \<le> n - used_on key d states"
  using assms(4-)
proof (induction calls arbitrary: a states)
  case (Cons x calls)
  obtain k now where x: "x = (k, now)" by (cases x)
  have w: "a \<le> now" "now \<le> b" "calls_within now b calls"
    using Cons.prems(1) x by (simp_all add: calls_within_Cons)
  let ?s = "fst (consume k now states)"
  show ?case
  proof (cases "utc_day now \<le> d")
    case False
    then have "grants key (\<lambda>now. utc_day now = d) (consume_run calls ?s) = 0"
      using grants_past_day [OF w(3)] by simp
    with False Cons.prems x show ?thesis by simp
  next
    case le: True
    show ?thesis
    proof (cases "k = key")
      case True
      note own = used_on_own [OF assms(1-3) Cons.prems(3) w(1) le]
      have "stored_ok key now ?s" using consume_own_stored_ok [OF assms(1,2) Cons.prems(3) w(1)] True by simp
      then have "int (grants key (\<lambda>now. utc_day now = d) (consume_run calls ?s)) \<le> n - used_on key d ?s"
        using Cons.IH [OF w(3)] Cons.prems x own True by simp
      with own True x show ?thesis by (auto split: if_splits)
    next
      case False
      then have o: "unmetered k \<or> quota_key k \<noteq> quota_key key" using Cons.prems(2) x by auto
      have "used_on key d ?s = used_on key d states" by (simp add: used_on_def consume_other [OF o])
      moreover have "stored_ok key now ?s" using consume_other_stored_ok [OF o Cons.prems(3) w(1)] .
      ultimately have "int (grants key (\<lambda>now. utc_day now = d) (consume_run calls ?s)) \<le> n - used_on key d states"
        using Cons.IH [OF w(3), of ?s] Cons.prems(2,4) x by simp
      with x False show ?thesis by simp
    qed
  qed
qed simp

section \<open>Properties\<close>

definition key0 :: "int option \<Rightarrow> int option \<Rightarrow> api_key_info" where
  "key0 rpm daily = \<lparr>ak_name = ''lab'', ak_key_id = ''k1'', ak_model_allowlist = None,
     ak_rpm_limit = rpm, ak_daily_limit = daily, ak_is_admin = False\<rparr>"

text \<open>C35: Quotas bound what is admitted. Over any sequence of calls at nondecreasing times in a
  window from \<open>a\<close> to \<open>b\<close>, from any counters that satisfy the counter bounds (none stored yet, or
  restored), and with any calls of other keys interleaved: a key with a per-minute limit is admitted
  at most limit times \<open>1 + (b - a) / 60\<close> calls, and a key with a daily limit at most that many on
  each UTC day.\<close>

theorem quota_bounds_admissions:
  assumes "key_ok key" and "\<not> unmetered key"
    and "calls_within a b calls" and "own_key key calls" and "stored_ok key a states" and "a \<le> b"
  shows "(\<forall>rpm. ak_rpm_limit key = Some rpm \<longrightarrow>
      real (grants key (\<lambda>_. True) (consume_run calls states)) \<le> of_int rpm * (1 + (b - a) / 60)) \<and>
    (\<forall>n d. ak_daily_limit key = Some n \<longrightarrow>
      int (grants key (\<lambda>now. utc_day now = d) (consume_run calls states)) \<le> n)"
proof (intro conjI allI impI)
  fix rpm assume r: "ak_rpm_limit key = Some rpm"
  have "tokens_at rpm key a states \<le> of_int rpm" by (auto simp: tokens_at_def split: option.split)
  with grants_rate [OF assms(1,2) r assms(3-6)]
  show "real (grants key (\<lambda>_. True) (consume_run calls states)) \<le> of_int rpm * (1 + (b - a) / 60)"
    by (simp add: field_simps)
next
  fix n d assume n: "ak_daily_limit key = Some n"
  have "0 < n" using assms(1) n by (simp add: key_ok_def validate_quota_limit_def)
  then have "0 \<le> used_on key d states \<and> used_on key d states \<le> n"
    using assms(5) n by (auto simp: used_on_def stored_ok_def state_ok_def split: option.split)
  with grants_daily [OF assms(1,2) n assms(3-5)]
  show "int (grants key (\<lambda>now. utc_day now = d) (consume_run calls states)) \<le> n"
    by fastforce
qed

theorem quota_bounds_admissions_witness:
  "real (grants (key0 (Some 2) None) (\<lambda>_. True)
     (consume_run [(key0 (Some 2) None, 0), (key0 (Some 2) None, 1), (key0 (Some 2) None, 2)] [])) \<le> 2 * (1 + (30 - 0) / 60)"
proof -
  let ?k = "key0 (Some 2) None"
  have *: "key_ok ?k" "\<not> unmetered ?k" "calls_within 0 30 [(?k, 0), (?k, 1), (?k, 2)]"
    "own_key ?k [(?k, 0), (?k, 1), (?k, 2)]" "stored_ok ?k 0 []" "(0::real) \<le> 30"
    by (simp_all add: key_ok_def key0_def validate_quota_limit_def unmetered_def calls_within_def
        own_key_def stored_ok_def)
  have "ak_rpm_limit ?k = Some 2" by (simp add: key0_def)
  with quota_bounds_admissions [OF *] show ?thesis by fastforce
qed

text \<open>A later refresh of a state refreshed at \<open>now\<close>: when each limit stops blocking.\<close>

lemma utc_day_less: "utc_day now < utc_day now' \<longleftrightarrow> of_int (utc_day now + 1) * 86400 \<le> now'"
proof -
  have "utc_day now < utc_day now' \<longleftrightarrow> utc_day now + 1 \<le> \<lfloor>now' / 86400\<rfloor>"
    by (auto simp: utc_day_def)
  also have "\<dots> \<longleftrightarrow> of_int (utc_day now + 1) \<le> now' / 86400" by (rule le_floor_iff)
  finally show ?thesis by (simp add: field_simps)
qed

lemma utc_day_next: "now < of_int (utc_day now + 1) * 86400"
  using real_of_int_floor_add_one_gt [of "now / 86400"] by (simp add: utc_day_def field_simps)

lemma refreshed_rpm_free:
  assumes "key_ok key" "ak_rpm_limit key = Some rpm" "ks_bucket_updated_at r = now" "now \<le> now'"
  shows "1 \<le> ks_bucket_tokens (quota_refresh key now' r) \<longleftrightarrow>
    (1 - ks_bucket_tokens r) / (of_int rpm / 60) \<le> now' - now"
proof -
  have rpm: "1 \<le> real_of_int rpm" using assms(1,2) by (simp add: key_ok_def validate_quota_limit_def)
  have "ks_bucket_tokens (quota_refresh key now' r) =
      min (of_int rpm) (ks_bucket_tokens r + (now' - now) * of_int rpm / 60)"
    using assms(2-) by (subst refresh_fields(4)) simp
  with rpm show ?thesis by (auto simp: field_simps)
qed

lemma refreshed_count:
  assumes "ks_day r = utc_day now"
  shows "ks_daily_count (quota_refresh key now' r) =
    (if utc_day now < utc_day now' then 0 else ks_daily_count r)"
  using assms by (subst refresh_fields(3)) simp

lemma rpm_free_after_delay:
  assumes "key_ok key" "ks_bucket_updated_at r = now" "\<forall>x \<in> set (retry_delays key now r). x \<le> d"
    and "1 \<le> d" "now + of_int d \<le> now'"
  shows "\<not> rpm_blocked key (quota_refresh key now' r)"
proof (cases "ak_rpm_limit key")
  case (Some rpm)
  have rpm: "1 \<le> real_of_int rpm" using assms(1) Some by (simp add: key_ok_def validate_quota_limit_def)
  have "(1 - ks_bucket_tokens r) / (of_int rpm / 60) \<le> of_int d"
  proof (cases "ks_bucket_tokens r < 1")
    case True
    then have "rpm_delay rpm r \<le> d" using Some assms(3) by (simp add: retry_delays_def rpm_blocked_def)
    then show ?thesis by (simp add: rpm_delay_def ceiling_le_iff)
  next
    case False
    then have "(1 - ks_bucket_tokens r) / (of_int rpm / 60) \<le> 0" using rpm by (simp add: divide_nonpos_pos)
    then show ?thesis using assms(4) by linarith
  qed
  moreover have "now \<le> now'" using assms(4,5) by linarith
  ultimately have "1 \<le> ks_bucket_tokens (quota_refresh key now' r)"
    using refreshed_rpm_free [OF assms(1) Some assms(2), of now'] assms(5) by linarith
  with Some show ?thesis by (simp add: rpm_blocked_def)
qed (simp add: rpm_blocked_def)

lemma day_free_after_delay:
  assumes "key_ok key" "ks_day r = utc_day now" "\<forall>x \<in> set (retry_delays key now r). x \<le> d"
    and "now + of_int d \<le> now'"
  shows "\<not> day_blocked key (quota_refresh key now' r)"
proof (cases "ak_daily_limit key")
  case (Some n)
  have n: "0 < n" using assms(1) Some by (simp add: key_ok_def validate_quota_limit_def)
  show ?thesis
  proof (cases "n \<le> ks_daily_count r")
    case True
    then have "day_delay now \<le> d" using Some assms(3) by (simp add: retry_delays_def day_blocked_def)
    then have "of_int (utc_day now + 1) * 86400 - now \<le> of_int d"
      by (simp add: day_delay_def ceiling_le_iff)
    then have "utc_day now < utc_day now'" using utc_day_less [of now now'] assms(4) by linarith
    with Some n show ?thesis by (simp add: day_blocked_def refreshed_count [OF assms(2)])
  next
    case False
    with Some n show ?thesis by (simp add: day_blocked_def refreshed_count [OF assms(2)])
  qed
qed (simp add: day_blocked_def)

lemma blocked_before_delay:
  assumes "key_ok key" "ks_bucket_updated_at r = now" "ks_day r = utc_day now"
    and "d \<in> set (retry_delays key now r)" "now \<le> now'" "now' \<le> now + of_int (d - 1)"
  shows "rpm_blocked key (quota_refresh key now' r) \<or> day_blocked key (quota_refresh key now' r)"
proof -
  from assms(4) consider
      (rpm) rpm where "rpm_blocked key r" "ak_rpm_limit key = Some rpm" "d = rpm_delay rpm r"
    | (day) n where "day_blocked key r" "ak_daily_limit key = Some n" "d = day_delay now"
    by (auto simp: retry_delays_def rpm_blocked_def day_blocked_def split: if_splits option.splits)
  then show ?thesis
  proof cases
    case rpm
    let ?x = "(1 - ks_bucket_tokens r) / (of_int rpm / 60)"
    have "1 \<le> real_of_int rpm" using assms(1) rpm(2) by (simp add: key_ok_def validate_quota_limit_def)
    then have "0 < ?x" using rpm(1,2) by (simp add: rpm_blocked_def)
    then have "of_int (d - 1) < ?x" using rpm(3) by (simp add: rpm_delay_def) linarith
    then have "\<not> 1 \<le> ks_bucket_tokens (quota_refresh key now' r)"
      using refreshed_rpm_free [OF assms(1) rpm(2) assms(2,5)] assms(6) by linarith
    with rpm(2) show ?thesis by (simp add: rpm_blocked_def)
  next
    case day
    let ?x = "of_int (utc_day now + 1) * 86400 - now"
    have "0 < ?x" using utc_day_next [of now] by simp
    then have "of_int (d - 1) < ?x" using day(3) by (simp add: day_delay_def) linarith
    then have "\<not> utc_day now < utc_day now'" using utc_day_less [of now now'] assms(6) by linarith
    with day(1,2) show ?thesis by (simp add: day_blocked_def refreshed_count [OF assms(3)])
  qed
qed

text \<open>The retry delay is exact to the second. When a call is refused with \<open>Retry-After\<close> \<open>d\<close> and
  the key makes no call in between, every retry at least \<open>d\<close> seconds later is admitted, and every
  retry up to \<open>d - 1\<close> seconds later is refused again.\<close>

theorem quota_retry_delay_exact:
  assumes "key_ok key" and "ks_bucket_updated_at st \<le> now" and "ks_day st \<le> utc_day now"
    and "consume_state key now st = (st', QuotaExceeded d)" and "now \<le> now'"
  shows "(now + of_int d \<le> now' \<longrightarrow> snd (consume_state key now' st') = Allowed) \<and>
    (now' \<le> now + of_int (d - 1) \<longrightarrow> (\<exists>d'. snd (consume_state key now' st') = QuotaExceeded d'))"
proof -
  let ?r = "quota_refresh key now st"
  have st': "st' = ?r" and d: "d = Max (set (retry_delays key now ?r))"
    and blocked: "rpm_blocked key ?r \<or> day_blocked key ?r"
    using assms(4) by (auto simp: consume_state_ok [OF assms(1)] Let_def split: if_splits)
  have upd: "ks_bucket_updated_at ?r = now" "ks_day ?r = utc_day now"
    using assms(2,3) by (simp_all add: refresh_fields)
  have le: "\<forall>x \<in> set (retry_delays key now ?r). x \<le> d" using d by simp
  have mem: "d \<in> set (retry_delays key now ?r)"
    using Max_in [of "set (retry_delays key now ?r)"] blocked retry_delays_Nil [of key now ?r] d by auto
  then have "1 \<le> d" by (rule retry_delays_pos)
  then show ?thesis
    using rpm_free_after_delay [OF assms(1) upd(1) le] day_free_after_delay [OF assms(1) upd(2) le]
      blocked_before_delay [OF assms(1) upd mem assms(5)] st'
    by (auto simp: consume_state_ok [OF assms(1)] Let_def)
qed

theorem quota_retry_delay_exact_witness:
  "\<exists>st' d. consume_state (key0 (Some 60) None) 10
      \<lparr>ks_bucket_tokens = 0, ks_bucket_updated_at = 10, ks_day = 0, ks_daily_count = 0\<rparr> = (st', QuotaExceeded d) \<and>
      d = 1 \<and> snd (consume_state (key0 (Some 60) None) 11 st') = Allowed"
proof -
  let ?k = "key0 (Some 60) None"
  let ?st = "\<lparr>ks_bucket_tokens = 0, ks_bucket_updated_at = 10, ks_day = 0, ks_daily_count = 0\<rparr>"
  have k: "key_ok ?k" by (simp add: key_ok_def key0_def validate_quota_limit_def)
  have u: "utc_day 10 = 0" by (simp add: utc_day_def)
  have r: "quota_refresh ?k 10 ?st = ?st" by (simp add: quota_refresh_def key0_def u)
  have f: "ak_rpm_limit ?k = Some 60" "ak_daily_limit ?k = None" by (simp_all add: key0_def)
  have c: "consume_state ?k 10 ?st = (?st, QuotaExceeded 1)"
    by (simp add: consume_state_ok [OF k] Let_def r rpm_blocked_def day_blocked_def retry_delays_def
        rpm_delay_def f)
  from quota_retry_delay_exact [OF k _ _ c, of 11] c u show ?thesis by simp
qed

section \<open>Surviving a restart\<close>

lemma map_of_restore:
  "map_of (quota_restore snaps) k =
     map_option (\<lambda>i. \<lparr>ks_bucket_tokens = qs_bucket_tokens i, ks_bucket_updated_at = qs_bucket_updated_at i,
              ks_day = qs_day i, ks_daily_count = qs_daily_count i\<rparr>)
       (find (\<lambda>i. qs_key_id i = k) (rev snaps))"
proof (induction snaps rule: rev_induct)
  case Nil
  show ?case by (simp add: quota_restore_def)
next
  case (snoc i snaps)
  then show ?case by (simp add: quota_restore_def update_conv')
qed

lemma find_rev_keyed:
  assumes "keyed key rows"
  shows "find (\<lambda>r. key r = k) (rev rows) = row_of key k rows"
proof (cases "row_of key k rows")
  case None
  then have "\<forall>x \<in> set rows. key x \<noteq> k" by (auto simp: row_of_None has_key_def)
  then have "find (\<lambda>r. key r = k) (rev rows) = None" by (auto simp: find_None_iff)
  with None show ?thesis by simp
next
  case (Some r)
  have "keyed key (rev rows)" using assms by (simp add: keyed_def flip: rev_map)
  then show ?thesis using row_of_eq [of key "rev rows" r k] row_of_SomeD [OF Some] Some by (simp add: row_of_def)
qed

lemma row_of_save_quota:
  assumes "\<forall>s \<in> set ss. has_key k_key_hash (qs_key_id s) (registry_api_keys db)"
    and "keyed qs_key_id (registry_api_key_quota_snapshots db)" and "keyed qs_key_id ss"
  shows "snd (save_quota_snapshots ss db) = Inr () \<and>
    keyed qs_key_id (registry_api_key_quota_snapshots (fst (save_quota_snapshots ss db))) \<and>
    row_of qs_key_id k (registry_api_key_quota_snapshots (fst (save_quota_snapshots ss db))) =
      (case row_of qs_key_id k ss of None \<Rightarrow> row_of qs_key_id k (registry_api_key_quota_snapshots db)
       | Some s \<Rightarrow> Some s)"
  using assms
proof (induction ss arbitrary: db)
  case Nil
  then show ?case by (simp add: row_of_def)
next
  case (Cons s ss)
  let ?db = "db\<lparr>registry_api_key_quota_snapshots :=
      upsert qs_key_id (\<lambda>_ n. n) s (registry_api_key_quota_snapshots db)\<rparr>"
  have k: "keyed qs_key_id (registry_api_key_quota_snapshots ?db)"
    using Cons.prems(2) by (simp add: keyed_upsert)
  have ss: "keyed qs_key_id ss" "\<not> has_key qs_key_id (qs_key_id s) ss"
    using Cons.prems(3) by (auto simp: keyed_def has_key_image)
  then have none: "row_of qs_key_id (qs_key_id s) ss = None" by (simp add: row_of_None)
  have cons: "row_of qs_key_id k (s # ss) = (if qs_key_id s = k then Some s else row_of qs_key_id k ss)"
    by (simp add: row_of_def)
  show ?case
    using Cons.IH [of ?db] Cons.prems(1) k ss(1) none
    by (auto simp: cons row_of_upsert_replace split: option.split)
qed

lemma row_of_take_snapshot:
  assumes "od_wf states"
  shows "keyed qs_key_id (quota_take_snapshot now states) \<and>
    row_of qs_key_id k (quota_take_snapshot now states) =
      map_option (\<lambda>st. \<lparr>qs_key_id = k, qs_bucket_tokens = ks_bucket_tokens st,
                     qs_bucket_updated_at = ks_bucket_updated_at st, qs_day = ks_day st,
                     qs_daily_count = ks_daily_count st, qs_snapshotted_at = now\<rparr>) (map_of states k)"
proof -
  let ?g = "\<lambda>(k, st). \<lparr>qs_key_id = k, qs_bucket_tokens = ks_bucket_tokens st,
       qs_bucket_updated_at = ks_bucket_updated_at st, qs_day = ks_day st,
       qs_daily_count = ks_daily_count st, qs_snapshotted_at = now\<rparr>"
  have wf: "od_wf (sort_key fst states)"
    using assms by (simp add: od_wf_def distinct_map)
  have same: "map_of (sort_key fst states) = map_of states"
    using assms wf by (intro map_of_inject_set [THEN iffD2]) (auto simp: od_wf_def)
  have r: "row_of qs_key_id k (map ?g xs) = map_option (\<lambda>st. ?g (k, st)) (map_of xs k)" for xs
    by (induction xs) (auto simp: row_of_def)
  have "keyed qs_key_id (map ?g (sort_key fst states))"
    using wf by (simp add: keyed_def od_wf_def comp_def case_prod_beta')
  then show ?thesis
    unfolding quota_take_snapshot_def using r [of "sort_key fst states"] by (simp add: same)
qed

text \<open>Quota counters survive a restart. Saving a snapshot of counters whose keys are all
  registered succeeds, and restoring from what the registry then returns gives back the counters of
  every key exactly, including the bucket level, its update instant, the day and the daily count.\<close>

theorem quota_survives_restart:
  assumes "od_wf states"
    and "\<forall>(k, st) \<in> set states. has_key k_key_hash k (registry_api_keys db)"
    and "keyed qs_key_id (registry_api_key_quota_snapshots db)"
    and "save_quota_snapshots (quota_take_snapshot now states) db = (db', res)"
  shows "res = Inr () \<and>
    (\<forall>k \<in> fst ` set states. map_of (quota_restore (load_quota_snapshots db')) k = map_of states k)"
proof -
  let ?ss = "quota_take_snapshot now states"
  have keys: "\<forall>s \<in> set ?ss. has_key k_key_hash (qs_key_id s) (registry_api_keys db)"
    using assms(2) by (auto simp: quota_take_snapshot_def)
  have ss: "keyed qs_key_id ?ss" using row_of_take_snapshot [OF assms(1)] by blast
  note saved = row_of_save_quota [OF keys assms(3) ss]
  have "res = Inr ()" using saved assms(4) by simp
  moreover have "map_of (quota_restore (load_quota_snapshots db')) k = map_of states k"
    if "k \<in> fst ` set states" for k
  proof -
    from that assms(1) obtain st where st: "map_of states k = Some st"
      by (metis map_of_eq_None_iff not_Some_eq)
    have k': "keyed qs_key_id (registry_api_key_quota_snapshots db')" using saved assms(4) by simp
    have "row_of qs_key_id k (registry_api_key_quota_snapshots db') = row_of qs_key_id k ?ss"
      using saved [of k] assms(4) row_of_take_snapshot [OF assms(1), of now k] st by simp
    then show ?thesis
      using st row_of_take_snapshot [OF assms(1), of now k]
      by (simp add: map_of_restore find_rev_keyed [OF k'] load_quota_snapshots_def)
  qed
  ultimately show ?thesis by blast
qed

theorem quota_survives_restart_witness:
  "\<exists>db'. save_quota_snapshots (quota_take_snapshot 9
        [(''k1'', \<lparr>ks_bucket_tokens = 1, ks_bucket_updated_at = 5, ks_day = 0, ks_daily_count = 3\<rparr>)])
        (fst (create_api_key id 1 ''k1'' ''lab'' None (Some 2) None empty_registry)) = (db', Inr ()) \<and>
      map_of (quota_restore (load_quota_snapshots db')) ''k1'' =
        Some \<lparr>ks_bucket_tokens = 1, ks_bucket_updated_at = 5, ks_day = 0, ks_daily_count = 3\<rparr>"
proof -
  let ?states = "[(''k1'', \<lparr>ks_bucket_tokens = 1, ks_bucket_updated_at = 5, ks_day = 0, ks_daily_count = 3\<rparr>)]"
  let ?db = "fst (create_api_key id 1 ''k1'' ''lab'' None (Some 2) None empty_registry)"
  obtain db' res where s: "save_quota_snapshots (quota_take_snapshot 9 ?states) ?db = (db', res)"
    by (cases "save_quota_snapshots (quota_take_snapshot 9 ?states) ?db")
  have *: "od_wf ?states" "\<forall>(k, st) \<in> set ?states. has_key k_key_hash k (registry_api_keys ?db)"
    "keyed qs_key_id (registry_api_key_quota_snapshots ?db)"
    by (simp_all add: od_wf_def create_api_key_def validate_quota_limit_def empty_registry_def)
  from quota_survives_restart [OF * s] s show ?thesis by auto
qed

end
