(* ===== verification/Gw_Admission.thy ===== *)
theory Gw_Admission
  imports Fallow_Prelude
begin

text \<open>
  The gateway's bounded first-in-first-out waiting room (\<open>gateway/admission.py\<close>). The shared state
  is the dictionary of lanes, each a queue of tickets, and the counter of waiting tickets. A call of
  \<open>wait\<close> is a waiter whose program counter names the \<open>await\<close> it is suspended at; each step runs one
  segment of the method between two awaits, so the steps of several waiters interleave freely, and
  a waiter may be cancelled or its probe may raise at any await. The lock makes \<open>_is_head\<close>,
  \<open>_remove\<close> and the enqueueing section atomic. Clock readings are arguments of the steps.
\<close>

section \<open>Shared state\<close>

datatype admission_status = ADMITTED | OVERFLOW | TIMEOUT

record admission_cfg =
  ad_capacity :: int
  ad_timeout_s :: secs
  ad_poll_interval_s :: secs

definition AdmissionQueue :: "int \<Rightarrow> secs \<Rightarrow> secs \<Rightarrow> admission_cfg option" where
  "AdmissionQueue cap timeout poll =
     (if cap \<le> 0 then None else if timeout < 0 then None else if poll \<le> 0 then None
      else Some \<lparr>ad_capacity = cap, ad_timeout_s = timeout, ad_poll_interval_s = poll\<rparr>)"

record admission =
  ad_lanes :: "(string, nat list) odict"
  ad_waiting :: int

definition empty_admission :: admission where
  "empty_admission = \<lparr>ad_lanes = [], ad_waiting = 0\<rparr>"

definition lane_queue :: "admission \<Rightarrow> string \<Rightarrow> nat list" where
  "lane_queue q lane = (case map_of (ad_lanes q) lane of None \<Rightarrow> [] | Some xs \<Rightarrow> xs)"

definition elapsed_ms :: "secs \<Rightarrow> int" where
  "elapsed_ms s = py_round (s * 1000)"

definition probes_over_capacity :: "admission_cfg \<Rightarrow> admission \<Rightarrow> bool" where
  "probes_over_capacity cfg q \<longleftrightarrow> ad_capacity cfg \<le> ad_waiting q"

text \<open>The enqueueing section; \<open>None\<close> is the immediate overflow.\<close>

definition enqueue :: "admission_cfg \<Rightarrow> string \<Rightarrow> nat \<Rightarrow> admission \<Rightarrow> admission option" where
  "enqueue cfg lane ticket q =
     (if lane_queue q lane \<noteq> [] \<and> probes_over_capacity cfg q then None
      else Some \<lparr>ad_lanes = AList.update lane (lane_queue q lane @ [ticket]) (ad_lanes q),
                 ad_waiting = ad_waiting q + 1\<rparr>)"

definition is_head :: "string \<Rightarrow> nat \<Rightarrow> admission \<Rightarrow> bool" where
  "is_head lane ticket q \<longleftrightarrow> (case lane_queue q lane of [] \<Rightarrow> False | x # _ \<Rightarrow> x = ticket)"

definition remove_ticket :: "string \<Rightarrow> nat \<Rightarrow> admission \<Rightarrow> admission" where
  "remove_ticket lane ticket q =
     (case map_of (ad_lanes q) lane of
        None \<Rightarrow> q
      | Some xs \<Rightarrow>
          if ticket \<notin> set xs then q
          else
            let xs' = remove1 ticket xs
            in \<lparr>ad_lanes = (if xs' = [] then AList.delete lane (ad_lanes q)
                            else AList.update lane xs' (ad_lanes q)),
                ad_waiting = ad_waiting q - 1\<rparr>)"

section \<open>A waiter\<close>

datatype 'v wait_outcome =
  WaitResult admission_status "'v option" int
| WaitCancelled int
| WaitRaised

datatype 'v wait_pc =
  AtTop
| AtHead secs secs
| AtProbe
| Removing "'v wait_outcome"
| Finished "'v wait_outcome"

record 'v waiter =
  wt_lane :: string
  wt_started :: instant
  wt_over :: bool
  wt_first_probe :: bool
  wt_pc :: "'v wait_pc"

text \<open>With a zero timeout \<open>wait\<close> probes once and never queues.\<close>

definition wait_once :: "secs \<Rightarrow> 'v option \<Rightarrow> 'v wait_outcome" where
  "wait_once elapsed value =
     WaitResult (if value \<noteq> None then ADMITTED else TIMEOUT) value (elapsed_ms elapsed)"

text \<open>The part of the loop body after the head test and the probe: overflow, timeout or sleep.\<close>

definition after_probe :: "secs \<Rightarrow> secs \<Rightarrow> 'v waiter \<Rightarrow> 'v waiter" where
  "after_probe elapsed remaining w =
     (if wt_first_probe w \<and> wt_over w then w\<lparr>wt_pc := Removing (WaitResult OVERFLOW None 0)\<rparr>
      else if remaining \<le> 0
      then w\<lparr>wt_first_probe := False,
             wt_pc := Removing (WaitResult TIMEOUT None (elapsed_ms (max elapsed 0)))\<rparr>
      else w\<lparr>wt_first_probe := False, wt_pc := AtTop\<rparr>)"

definition loop_top :: "admission_cfg \<Rightarrow> instant \<Rightarrow> 'v waiter \<Rightarrow> 'v waiter" where
  "loop_top cfg now w =
     (let elapsed = now - wt_started w; remaining = ad_timeout_s cfg - elapsed
      in if wt_first_probe w \<or> 0 < remaining then w\<lparr>wt_pc := AtHead elapsed remaining\<rparr>
         else after_probe elapsed remaining w)"

definition head_checked :: "bool \<Rightarrow> secs \<Rightarrow> secs \<Rightarrow> 'v waiter \<Rightarrow> 'v waiter" where
  "head_checked head elapsed remaining w =
     (if head then w\<lparr>wt_pc := AtProbe\<rparr> else after_probe elapsed remaining w)"

definition probed :: "admission_cfg \<Rightarrow> instant \<Rightarrow> 'v option \<Rightarrow> 'v waiter \<Rightarrow> 'v waiter" where
  "probed cfg now value w =
     (let elapsed = now - wt_started w; remaining = ad_timeout_s cfg - elapsed
      in if remaining \<le> 0
         then w\<lparr>wt_pc := Removing (WaitResult TIMEOUT None (elapsed_ms (max elapsed 0)))\<rparr>
         else if value \<noteq> None
         then w\<lparr>wt_pc := Removing (WaitResult ADMITTED value (elapsed_ms elapsed))\<rparr>
         else after_probe elapsed remaining w)"

section \<open>The interleaved system\<close>

text \<open>A ticket is the index of its waiter, in order of arrival.\<close>

record 'v adm_sys =
  sys_q :: admission
  sys_ws :: "'v waiter list"

definition arrive :: "admission_cfg \<Rightarrow> string \<Rightarrow> instant \<Rightarrow> 'v adm_sys \<Rightarrow> 'v adm_sys" where
  "arrive cfg lane now s =
     (case enqueue cfg lane (length (sys_ws s)) (sys_q s) of
        None \<Rightarrow>
          s\<lparr>sys_ws := sys_ws s @ [\<lparr>wt_lane = lane, wt_started = now, wt_over = True,
              wt_first_probe = True, wt_pc = Finished (WaitResult OVERFLOW None 0)\<rparr>]\<rparr>
      | Some q \<Rightarrow>
          \<lparr>sys_q = q, sys_ws = sys_ws s @ [\<lparr>wt_lane = lane, wt_started = now,
              wt_over = probes_over_capacity cfg (sys_q s), wt_first_probe = True, wt_pc = AtTop\<rparr>]\<rparr>)"

definition set_waiter :: "nat \<Rightarrow> 'v waiter \<Rightarrow> 'v adm_sys \<Rightarrow> 'v adm_sys" where
  "set_waiter i w s = s\<lparr>sys_ws := (sys_ws s)[i := w]\<rparr>"

text \<open>A suspended waiter: it has not finished.\<close>

definition queued :: "'v waiter \<Rightarrow> bool" where
  "queued w \<longleftrightarrow> (case wt_pc w of Finished _ \<Rightarrow> False | _ \<Rightarrow> True)"

inductive adm_step :: "admission_cfg \<Rightarrow> 'v adm_sys \<Rightarrow> 'v adm_sys \<Rightarrow> bool" for cfg where
  ad_arrive: "adm_step cfg s (arrive cfg lane now s)"
| ad_top: "i < length (sys_ws s) \<Longrightarrow> w = sys_ws s ! i \<Longrightarrow> wt_pc w = AtTop \<Longrightarrow>
    adm_step cfg s (set_waiter i (loop_top cfg now w) s)"
| ad_head: "i < length (sys_ws s) \<Longrightarrow> w = sys_ws s ! i \<Longrightarrow> wt_pc w = AtHead el rm \<Longrightarrow>
    adm_step cfg s (set_waiter i (head_checked (is_head (wt_lane w) i (sys_q s)) el rm w) s)"
| ad_probe: "i < length (sys_ws s) \<Longrightarrow> w = sys_ws s ! i \<Longrightarrow> wt_pc w = AtProbe \<Longrightarrow>
    adm_step cfg s (set_waiter i (probed cfg now value w) s)"
| ad_raise: "i < length (sys_ws s) \<Longrightarrow> w = sys_ws s ! i \<Longrightarrow> wt_pc w = AtProbe \<Longrightarrow>
    adm_step cfg s (set_waiter i (w\<lparr>wt_pc := Removing WaitRaised\<rparr>) s)"
| ad_cancel: "i < length (sys_ws s) \<Longrightarrow> w = sys_ws s ! i \<Longrightarrow> queued w \<Longrightarrow>
    adm_step cfg s (set_waiter i
      (w\<lparr>wt_pc := Removing (WaitCancelled (elapsed_ms (max (now - wt_started w) 0)))\<rparr>) s)"
| ad_remove: "i < length (sys_ws s) \<Longrightarrow> w = sys_ws s ! i \<Longrightarrow> wt_pc w = Removing out \<Longrightarrow>
    adm_step cfg s (set_waiter i (w\<lparr>wt_pc := Finished out\<rparr>)
      (s\<lparr>sys_q := remove_ticket (wt_lane w) i (sys_q s)\<rparr>))"

inductive_cases adm_stepE: "adm_step cfg s s'"

definition adm_init :: "'v adm_sys \<Rightarrow> bool" where
  "adm_init s \<longleftrightarrow> sys_q s = empty_admission \<and> sys_ws s = []"

section \<open>Invariant\<close>

text \<open>The tickets of a lane: its unfinished waiters in order of arrival.\<close>

definition lane_tickets :: "'v waiter list \<Rightarrow> string \<Rightarrow> nat list" where
  "lane_tickets ws lane = filter (\<lambda>i. queued (ws ! i) \<and> wt_lane (ws ! i) = lane) [0..<length ws]"

definition counted :: "'v waiter list \<Rightarrow> nat" where
  "counted ws = length (filter (\<lambda>w. queued w \<and> \<not> wt_over w) ws)"

definition at_head :: "'v wait_pc \<Rightarrow> bool" where
  "at_head pc \<longleftrightarrow> (case pc of AtProbe \<Rightarrow> True | Removing (WaitResult ADMITTED v ms) \<Rightarrow> True | _ \<Rightarrow> False)"

definition adm_inv :: "admission_cfg \<Rightarrow> 'v adm_sys \<Rightarrow> bool" where
  "adm_inv cfg s \<longleftrightarrow>
     od_wf (ad_lanes (sys_q s)) \<and> (\<forall>(l, xs) \<in> set (ad_lanes (sys_q s)). xs \<noteq> []) \<and>
     (\<forall>lane. lane_queue (sys_q s) lane = lane_tickets (sys_ws s) lane) \<and>
     ad_waiting (sys_q s) = int (length (filter queued (sys_ws s))) \<and>
     int (counted (sys_ws s)) \<le> max 0 (ad_capacity cfg) \<and>
     (\<forall>i < length (sys_ws s). at_head (wt_pc (sys_ws s ! i)) \<longrightarrow>
        (\<exists>xs. lane_tickets (sys_ws s) (wt_lane (sys_ws s ! i)) = i # xs))"

lemma adm_inv_head:
  assumes "adm_inv cfg s" "i < length (sys_ws s)" "at_head (wt_pc (sys_ws s ! i))"
  obtains xs where "lane_tickets (sys_ws s) (wt_lane (sys_ws s ! i)) = i # xs"
  using assms by (auto simp: adm_inv_def)

lemma lane_tickets_append:
  "lane_tickets (ws @ [w]) lane =
     lane_tickets ws lane @ (if queued w \<and> wt_lane w = lane then [length ws] else [])"
  by (auto simp: lane_tickets_def nth_append intro!: filter_cong)

lemma lane_tickets_update:
  assumes "i < length ws" "wt_lane w = wt_lane (ws ! i)" "queued w = queued (ws ! i)"
  shows "lane_tickets (ws[i := w]) lane = lane_tickets ws lane"
  using assms unfolding lane_tickets_def by (auto simp: nth_list_update intro!: filter_cong)

lemma lane_tickets_finish:
  assumes "i < length ws" "wt_lane w = wt_lane (ws ! i)" "\<not> queued w"
  shows "lane_tickets (ws[i := w]) lane =
    (if lane = wt_lane (ws ! i) then remove1 i (lane_tickets ws lane) else lane_tickets ws lane)"
proof -
  have "lane_tickets (ws[i := w]) lane = filter (\<lambda>j. j \<noteq> i) (lane_tickets ws lane)"
    using assms unfolding lane_tickets_def by (auto simp: nth_list_update intro!: filter_cong)
  moreover have "distinct (lane_tickets ws lane)" by (simp add: lane_tickets_def)
  moreover have "i \<notin> set (lane_tickets ws lane)" if "lane \<noteq> wt_lane (ws ! i)"
    using that by (simp add: lane_tickets_def)
  ultimately show ?thesis
    by (auto simp: distinct_remove1_removeAll removeAll_filter_not_eq fun_Compl_def
        intro!: filter_True filter_cong)
qed

lemma length_filter_list_update:
  assumes "i < length ws"
  shows "int (length (filter P (ws[i := w]))) =
    int (length (filter P ws)) - (if P (ws ! i) then 1 else 0) + (if P w then 1 else 0)"
  using assms
proof (induction ws arbitrary: i)
  case (Cons x ws)
  show ?case
  proof (cases i)
    case (Suc j)
    then show ?thesis using Cons.IH [of j] Cons.prems by (auto split: if_splits)
  qed simp
qed simp

text \<open>A waiter that stays queued, in its lane, and reaches the probe only as head of its lane.\<close>

lemma adm_inv_set_waiter:
  assumes "adm_inv cfg s" "i < length (sys_ws s)" "wt_lane w = wt_lane (sys_ws s ! i)"
    and "queued w" "queued (sys_ws s ! i)" "wt_over w = wt_over (sys_ws s ! i)"
    and "at_head (wt_pc w) \<Longrightarrow> at_head (wt_pc (sys_ws s ! i)) \<or> is_head (wt_lane w) i (sys_q s)"
  shows "adm_inv cfg (set_waiter i w s)"
proof -
  let ?ws = "(sys_ws s)[i := w]"
  have t: "lane_tickets ?ws lane = lane_tickets (sys_ws s) lane" for lane
    using assms by (intro lane_tickets_update) simp_all
  have c: "counted ?ws = counted (sys_ws s)" "length (filter queued ?ws) = length (filter queued (sys_ws s))"
    using length_filter_list_update [OF assms(2), of "\<lambda>w. queued w \<and> \<not> wt_over w" w]
      length_filter_list_update [OF assms(2), of queued w] assms(4-6)
    by (auto simp: counted_def split: if_splits)
  have q: "lane_queue (sys_q s) l = lane_tickets (sys_ws s) l" for l using assms(1) by (simp add: adm_inv_def)
  have h: "\<exists>xs. lane_tickets (sys_ws s) (wt_lane (?ws ! j)) = j # xs"
    if "j < length ?ws" "at_head (wt_pc (?ws ! j))" for j
  proof (cases "j = i")
    case True
    then have "at_head (wt_pc w)" using that assms(2) by simp
    then consider "at_head (wt_pc (sys_ws s ! i))" | "is_head (wt_lane w) i (sys_q s)" using assms(7) by blast
    then show ?thesis
    proof cases
      case 1
      then show ?thesis using assms(1,2,3) True by (simp add: adm_inv_def)
    next
      case 2
      then show ?thesis using q [of "wt_lane w"] True assms(2) by (auto simp: is_head_def split: list.splits)
    qed
  next
    case False
    then show ?thesis using that assms(1) by (simp add: adm_inv_def)
  qed
  show ?thesis using assms(1) t c h by (simp add: adm_inv_def set_waiter_def)
qed

lemma after_probe_keeps:
  "wt_lane (after_probe el rm w) = wt_lane w" "wt_over (after_probe el rm w) = wt_over w"
  "queued (after_probe el rm w)" "\<not> at_head (wt_pc (after_probe el rm w))"
  by (simp_all add: after_probe_def queued_def at_head_def)

lemma queued_pc [simp]:
  "queued (w\<lparr>wt_pc := AtHead el rm\<rparr>)" "queued (w\<lparr>wt_pc := AtProbe\<rparr>)"
  "queued (w\<lparr>wt_pc := Removing out\<rparr>)" "\<not> queued (w\<lparr>wt_pc := Finished out\<rparr>)"
  by (simp_all add: queued_def)

lemma at_head_pc [simp]:
  "\<not> at_head (AtHead el rm)" "at_head AtProbe" "\<not> at_head (Removing WaitRaised)"
  "\<not> at_head (Removing (WaitCancelled ms))" "\<not> at_head (Finished out)"
  "at_head (Removing (WaitResult st v ms)) \<longleftrightarrow> st = ADMITTED"
  by (auto simp: at_head_def split: admission_status.split)

lemma loop_top_keeps:
  "wt_lane (loop_top cfg now w) = wt_lane w" "wt_over (loop_top cfg now w) = wt_over w"
  "queued (loop_top cfg now w)" "\<not> at_head (wt_pc (loop_top cfg now w))"
  by (simp_all add: loop_top_def Let_def after_probe_keeps)

lemma head_checked_keeps:
  "wt_lane (head_checked h el rm w) = wt_lane w" "wt_over (head_checked h el rm w) = wt_over w"
  "queued (head_checked h el rm w)" "at_head (wt_pc (head_checked h el rm w)) \<Longrightarrow> h"
  by (auto simp: head_checked_def after_probe_keeps split: if_splits)

lemma probed_keeps:
  "wt_lane (probed cfg now v w) = wt_lane w" "wt_over (probed cfg now v w) = wt_over w"
  "queued (probed cfg now v w)"
  by (simp_all add: probed_def Let_def after_probe_keeps)

lemma enqueue_lane_queue:
  assumes "enqueue cfg lane t q = Some q'"
  shows "lane_queue q' l = (if l = lane then lane_queue q lane @ [t] else lane_queue q l)"
    and "ad_waiting q' = ad_waiting q + 1"
    and "od_wf (ad_lanes q) \<Longrightarrow> od_wf (ad_lanes q')"
    and "(\<forall>(l, xs) \<in> set (ad_lanes q). xs \<noteq> []) \<Longrightarrow> (\<forall>(l, xs) \<in> set (ad_lanes q'). xs \<noteq> [])"
proof -
  have q': "q' = \<lparr>ad_lanes = AList.update lane (lane_queue q lane @ [t]) (ad_lanes q),
                 ad_waiting = ad_waiting q + 1\<rparr>"
    using assms by (simp add: enqueue_def split: if_splits)
  show "lane_queue q' l = (if l = lane then lane_queue q lane @ [t] else lane_queue q l)"
    by (simp add: q' lane_queue_def update_conv')
  show "ad_waiting q' = ad_waiting q + 1" "od_wf (ad_lanes q) \<Longrightarrow> od_wf (ad_lanes q')" by (simp_all add: q')
  show "\<forall>(l, xs) \<in> set (ad_lanes q'). xs \<noteq> []" if "\<forall>(l, xs) \<in> set (ad_lanes q). xs \<noteq> []"
  proof -
    have "set (AList.update lane v d) \<subseteq> insert (lane, v) (set d)" for v and d :: "(string, nat list) odict"
      by (induction d) auto
    then show ?thesis using that by (fastforce simp: q')
  qed
qed

lemma arrive_inv:
  assumes "adm_inv cfg s"
  shows "adm_inv cfg (arrive cfg lane now s)"
proof (cases "enqueue cfg lane (length (sys_ws s)) (sys_q s)")
  case None
  let ?w = "\<lparr>wt_lane = lane, wt_started = now, wt_over = True, wt_first_probe = True,
     wt_pc = Finished (WaitResult OVERFLOW None 0)\<rparr>"
  have nq: "\<not> queued ?w" by (simp add: queued_def)
  then show ?thesis
    using None assms
    by (auto simp: adm_inv_def arrive_def lane_tickets_append counted_def nth_append less_Suc_eq)
next
  case (Some q)
  let ?w = "\<lparr>wt_lane = lane, wt_started = now, wt_over = probes_over_capacity cfg (sys_q s),
     wt_first_probe = True, wt_pc = AtTop\<rparr>"
  have w: "queued ?w" "\<not> at_head (wt_pc ?w)" by (simp_all add: queued_def at_head_def)
  note e = enqueue_lane_queue [OF Some]
  have a: "arrive cfg lane now s = \<lparr>sys_q = q, sys_ws = sys_ws s @ [?w]\<rparr>"
    using Some by (simp add: arrive_def)
  have "counted ws \<le> length (filter queued ws)" for ws :: "'a waiter list"
    unfolding counted_def by (induction ws) auto
  from this [of "sys_ws s"] have le: "int (counted (sys_ws s)) \<le> ad_waiting (sys_q s)"
    "int (counted (sys_ws s)) \<le> max 0 (ad_capacity cfg)"
    using assms by (simp_all add: adm_inv_def)
  have "counted (sys_ws s @ [?w]) =
      counted (sys_ws s) + (if ad_capacity cfg \<le> ad_waiting (sys_q s) then 0 else 1)"
    by (simp add: counted_def probes_over_capacity_def queued_def)
  with le have "int (counted (sys_ws s @ [?w])) \<le> max 0 (ad_capacity cfg)" by auto
  moreover have "\<exists>xs. lane_tickets (sys_ws s @ [?w]) (wt_lane ((sys_ws s @ [?w]) ! i)) = i # xs"
    if h: "i < length (sys_ws s @ [?w])" "at_head (wt_pc ((sys_ws s @ [?w]) ! i))" for i
  proof -
    have i: "i < length (sys_ws s)" using h w by (auto simp: nth_append less_Suc_eq split: if_splits)
    with h(2) have "at_head (wt_pc (sys_ws s ! i))" by (simp add: nth_append)
    then obtain xs where "lane_tickets (sys_ws s) (wt_lane (sys_ws s ! i)) = i # xs"
      using adm_inv_head [OF assms i] by blast
    with i show ?thesis by (simp add: lane_tickets_append nth_append)
  qed
  ultimately show ?thesis
    using assms e w by (simp add: a adm_inv_def lane_tickets_append)
qed

lemma remove_ticket_lanes:
  assumes "od_wf (ad_lanes q)" "\<forall>(l, xs) \<in> set (ad_lanes q). xs \<noteq> []" "t \<in> set (lane_queue q lane)"
  shows "lane_queue (remove_ticket lane t q) l =
      (if l = lane then remove1 t (lane_queue q lane) else lane_queue q l)"
    and "ad_waiting (remove_ticket lane t q) = ad_waiting q - 1"
    and "od_wf (ad_lanes (remove_ticket lane t q))"
    and "\<forall>(l, xs) \<in> set (ad_lanes (remove_ticket lane t q)). xs \<noteq> []"
proof -
  obtain xs where xs: "map_of (ad_lanes q) lane = Some xs" "t \<in> set xs" "lane_queue q lane = xs"
    using assms(3) by (cases "map_of (ad_lanes q) lane") (simp_all add: lane_queue_def)
  have r: "remove_ticket lane t q =
      \<lparr>ad_lanes = (if remove1 t xs = [] then AList.delete lane (ad_lanes q)
                   else AList.update lane (remove1 t xs) (ad_lanes q)), ad_waiting = ad_waiting q - 1\<rparr>"
    using xs by (simp add: remove_ticket_def Let_def)
  show "lane_queue (remove_ticket lane t q) l =
      (if l = lane then remove1 t (lane_queue q lane) else lane_queue q l)"
    using xs by (simp add: r) (simp add: lane_queue_def update_conv' map_of_delete_other)
  show "ad_waiting (remove_ticket lane t q) = ad_waiting q - 1"
    "od_wf (ad_lanes (remove_ticket lane t q))"
    using assms(1) by (simp_all add: r)
  have u: "set (AList.update lane v d) \<subseteq> insert (lane, v) (set d)" for v and d :: "(string, nat list) odict"
    by (induction d) auto
  have d: "set (AList.delete lane d) \<subseteq> set d" for d :: "(string, nat list) odict"
    by (auto simp: AList.delete_eq)
  show "\<forall>(l, xs) \<in> set (ad_lanes (remove_ticket lane t q)). xs \<noteq> []"
    using assms(2) u [of "remove1 t xs" "ad_lanes q"] d [of "ad_lanes q"] by (auto simp: r)
qed

lemma finish_inv:
  assumes "adm_inv cfg s" "i < length (sys_ws s)" "queued (sys_ws s ! i)"
  shows "adm_inv cfg (set_waiter i ((sys_ws s ! i)\<lparr>wt_pc := Finished out\<rparr>)
    (s\<lparr>sys_q := remove_ticket (wt_lane (sys_ws s ! i)) i (sys_q s)\<rparr>))"
proof -
  let ?w = "(sys_ws s ! i)\<lparr>wt_pc := Finished out\<rparr>"
  let ?lane = "wt_lane (sys_ws s ! i)"
  let ?ws = "(sys_ws s)[i := ?w]"
  have q: "lane_queue (sys_q s) l = lane_tickets (sys_ws s) l" for l using assms(1) by (simp add: adm_inv_def)
  have wf: "od_wf (ad_lanes (sys_q s))" "\<forall>(l, xs) \<in> set (ad_lanes (sys_q s)). xs \<noteq> []"
    using assms(1) by (simp_all add: adm_inv_def)
  have mem: "i \<in> set (lane_queue (sys_q s) ?lane)" using assms(2,3) by (simp add: q lane_tickets_def)
  note r = remove_ticket_lanes [OF wf mem]
  have t: "lane_tickets ?ws l = (if l = ?lane then remove1 i (lane_tickets (sys_ws s) l)
      else lane_tickets (sys_ws s) l)" for l
    using assms(2) by (intro lane_tickets_finish) simp_all
  have c: "int (counted ?ws) \<le> int (counted (sys_ws s))"
    "int (length (filter queued ?ws)) = int (length (filter queued (sys_ws s))) - 1"
    using length_filter_list_update [OF assms(2), of "\<lambda>w. queued w \<and> \<not> wt_over w" ?w]
      length_filter_list_update [OF assms(2), of queued ?w] assms(3)
    by (auto simp: counted_def)
  have h: "\<exists>xs. lane_tickets ?ws (wt_lane (?ws ! j)) = j # xs"
    if j: "j < length (sys_ws s)" "at_head (wt_pc (?ws ! j))" for j
  proof -
    have ji: "j \<noteq> i" using j(2) assms(2) by auto
    then obtain xs where xs: "lane_tickets (sys_ws s) (wt_lane (sys_ws s ! j)) = j # xs"
      using j assms(1) by (auto simp: adm_inv_def)
    have "lane_tickets ?ws (wt_lane (sys_ws s ! j)) \<in> {j # remove1 i xs, j # xs}"
      unfolding t xs using ji by simp
    then show ?thesis using ji by auto
  qed
  show ?thesis
    using assms(1) r t c h q by (simp add: adm_inv_def set_waiter_def)
qed

lemma adm_step_inv:
  assumes "adm_inv cfg s" "adm_step cfg s s'"
  shows "adm_inv cfg s'"
  using assms(2)
proof (cases rule: adm_step.cases)
  case ad_arrive
  then show ?thesis using assms(1) by (simp add: arrive_inv)
next
  case (ad_top i w now)
  then show ?thesis
    using assms(1) by (simp, intro adm_inv_set_waiter) (auto simp: loop_top_keeps queued_def [of "sys_ws s ! i"])
next
  case (ad_head i w el rm)
  then show ?thesis
    using assms(1)
    by (simp, intro adm_inv_set_waiter)
      (auto simp: head_checked_keeps queued_def [of "sys_ws s ! i"] dest: head_checked_keeps(4))
next
  case (ad_probe i w now v)
  then show ?thesis
    using assms(1) by (simp, intro adm_inv_set_waiter) (auto simp: probed_keeps queued_def [of "sys_ws s ! i"])
next
  case (ad_raise i w)
  then show ?thesis
    using assms(1) by (simp, intro adm_inv_set_waiter) (auto simp: queued_def [of "sys_ws s ! i"])
next
  case (ad_cancel i w now)
  then show ?thesis using assms(1) by (simp, intro adm_inv_set_waiter) auto
next
  case (ad_remove i w out)
  then show ?thesis using finish_inv [OF assms(1), of i out] by (auto simp: queued_def)
qed

interpretation admission_sys: inv_system adm_init "adm_step cfg" "adm_inv cfg" for cfg
proof unfold_locales
  show "adm_inv cfg s" if "adm_init s" for s :: "'a adm_sys"
    using that by (simp add: adm_init_def adm_inv_def empty_admission_def lane_queue_def lane_tickets_def counted_def)
qed (rule adm_step_inv)

section \<open>Properties\<close>

lemma lane_tickets_sorted: "lane_tickets ws lane = i # xs \<Longrightarrow> j \<in> set (lane_tickets ws lane) \<Longrightarrow> i \<le> j"
proof -
  assume i: "lane_tickets ws lane = i # xs" and j: "j \<in> set (lane_tickets ws lane)"
  have "sorted (lane_tickets ws lane)" by (simp add: lane_tickets_def sorted_wrt_filter)
  with i j show "i \<le> j" by auto
qed

lemma no_queued_empty:
  assumes "adm_inv cfg s" "\<forall>w \<in> set (sys_ws s). \<not> queued w"
  shows "sys_q s = empty_admission"
proof -
  have none: "map_of (ad_lanes (sys_q s)) lane = None" for lane
  proof (rule ccontr)
    assume "map_of (ad_lanes (sys_q s)) lane \<noteq> None"
    then obtain xs where xs: "map_of (ad_lanes (sys_q s)) lane = Some xs" by blast
    then have "xs \<noteq> []" using assms(1) by (auto simp: adm_inv_def dest: map_of_SomeD)
    moreover have "xs = lane_tickets (sys_ws s) lane"
      using assms(1) xs by (metis adm_inv_def lane_queue_def option.simps(5))
    moreover have "lane_tickets (sys_ws s) lane = []"
      using assms(2) by (auto simp: lane_tickets_def filter_empty_conv)
    ultimately show False by simp
  qed
  have "ad_lanes (sys_q s) = []"
    using none by (cases "ad_lanes (sys_q s)") (auto split: if_splits, metis option.distinct(1))
  moreover have "ad_waiting (sys_q s) = 0"
    using assms by (simp add: adm_inv_def filter_empty_conv)
  ultimately show ?thesis by (simp add: empty_admission_def)
qed

text \<open>Every unfinished waiter has one ticket, in one lane.\<close>

lemma lanes_hold_queued:
  assumes "adm_inv cfg s"
  shows "sum_list (map (length \<circ> snd) (ad_lanes (sys_q s))) = length (filter queued (sys_ws s))"
proof -
  let ?ws = "sys_ws s" and ?L = "ad_lanes (sys_q s)"
  have wf: "distinct (map fst ?L)" and ne: "\<forall>(l, xs) \<in> set ?L. xs \<noteq> []"
    and q: "\<And>lane. lane_queue (sys_q s) lane = lane_tickets ?ws lane"
    using assms by (auto simp: adm_inv_def od_wf_def)
  have len: "length (snd e) = card {i. i < length ?ws \<and> queued (?ws ! i) \<and> wt_lane (?ws ! i) = fst e}" if "e \<in> set ?L" for e
  proof -
    have "map_of ?L (fst e) = Some (snd e)" using that wf by simp
    then have "lane_queue (sys_q s) (fst e) = snd e" by (simp add: lane_queue_def)
    then have "snd e = lane_tickets ?ws (fst e)" by (simp add: q)
    moreover have "distinct (lane_tickets ?ws (fst e))" by (simp add: lane_tickets_def)
    ultimately have "length (snd e) = card (set (lane_tickets ?ws (fst e)))" by (simp add: distinct_card)
    also have "set (lane_tickets ?ws (fst e)) = {i. i < length ?ws \<and> queued (?ws ! i) \<and> wt_lane (?ws ! i) = fst e}"
      by (auto simp: lane_tickets_def)
    finally show ?thesis .
  qed
  have dom: "wt_lane (?ws ! i) \<in> fst ` set ?L" if "i < length ?ws" "queued (?ws ! i)" for i
  proof -
    have "i \<in> set (lane_queue (sys_q s) (wt_lane (?ws ! i)))" using that by (simp add: q lane_tickets_def)
    then obtain xs where "map_of ?L (wt_lane (?ws ! i)) = Some xs"
      by (cases "map_of ?L (wt_lane (?ws ! i))") (simp_all add: lane_queue_def)
    then show ?thesis by (force dest: map_of_SomeD)
  qed
  have "sum_list (map (length \<circ> snd) ?L) = (\<Sum>e \<leftarrow> ?L. card {i. i < length ?ws \<and> queued (?ws ! i) \<and> wt_lane (?ws ! i) = fst e})"
    using len by (intro arg_cong [where f = sum_list] map_cong) simp_all
  also have "\<dots> = (\<Sum>l \<leftarrow> map fst ?L. card {i. i < length ?ws \<and> queued (?ws ! i) \<and> wt_lane (?ws ! i) = l})"
    by (simp add: comp_def)
  also have "\<dots> = (\<Sum>l \<in> fst ` set ?L. card {i. i < length ?ws \<and> queued (?ws ! i) \<and> wt_lane (?ws ! i) = l})"
    using sum_list_distinct_conv_sum_set [OF wf] by simp
  also have "\<dots> = card (\<Union>l \<in> fst ` set ?L. {i. i < length ?ws \<and> queued (?ws ! i) \<and> wt_lane (?ws ! i) = l})"
    by (intro card_UN_disjoint [symmetric]) auto
  also have "(\<Union>l \<in> fst ` set ?L. {i. i < length ?ws \<and> queued (?ws ! i) \<and> wt_lane (?ws ! i) = l})
      = {i. i < length ?ws \<and> queued (?ws ! i)}"
    using dom by blast
  finally show ?thesis by (simp add: length_filter_conv_card comp_def)
qed

text \<open>C36: The waiting room is first in, first out and bounded. In every interleaving of arrivals,
  polls, probes, failures and cancellations: each lane holds exactly the tickets of its unfinished
  waiters in their order of arrival, so no finished waiter keeps a ticket, and no empty lane is kept; a
  waiter that is probing or has been admitted is the oldest unfinished waiter of its lane; the counter
  equals the number of queued tickets, which is the number of unfinished waiters; those that entered
  within capacity never exceed it; and once every waiter has finished, by whatever outcome, no ticket,
  lane or count is left behind.\<close>

theorem admission_fifo_bounded:
  assumes "AdmissionQueue cap timeout poll = Some cfg" and "reach adm_init (adm_step cfg) s"
  shows "(\<forall>i < length (sys_ws s). \<forall>j < length (sys_ws s).
       at_head (wt_pc (sys_ws s ! i)) \<and> queued (sys_ws s ! j) \<and>
       wt_lane (sys_ws s ! j) = wt_lane (sys_ws s ! i) \<longrightarrow> i \<le> j) \<and>
    (\<forall>lane. lane_queue (sys_q s) lane =
       filter (\<lambda>i. queued (sys_ws s ! i) \<and> wt_lane (sys_ws s ! i) = lane) [0..<length (sys_ws s)]) \<and>
    distinct (map fst (ad_lanes (sys_q s))) \<and> [] \<notin> snd ` set (ad_lanes (sys_q s)) \<and>
    ad_waiting (sys_q s) = int (length (filter queued (sys_ws s))) \<and>
    ad_waiting (sys_q s) = int (sum_list (map (length \<circ> snd) (ad_lanes (sys_q s)))) \<and>
    int (length (filter (\<lambda>w. queued w \<and> \<not> wt_over w) (sys_ws s))) \<le> cap \<and>
    ((\<forall>w \<in> set (sys_ws s). \<not> queued w) \<longrightarrow> sys_q s = empty_admission)"
proof -
  have inv: "adm_inv cfg s" using assms(2) by (rule admission_sys.reach_inv)
  have cap: "ad_capacity cfg = cap" "0 < cap" using assms(1) by (auto simp: AdmissionQueue_def split: if_splits)
  have "i \<le> j" if h: "i < length (sys_ws s)" "j < length (sys_ws s)" "at_head (wt_pc (sys_ws s ! i))"
      "queued (sys_ws s ! j)" "wt_lane (sys_ws s ! j) = wt_lane (sys_ws s ! i)" for i j
  proof -
    obtain xs where "lane_tickets (sys_ws s) (wt_lane (sys_ws s ! i)) = i # xs"
      using adm_inv_head [OF inv h(1,3)] by blast
    moreover have "j \<in> set (lane_tickets (sys_ws s) (wt_lane (sys_ws s ! i)))"
      using h by (simp add: lane_tickets_def)
    ultimately show ?thesis by (rule lane_tickets_sorted)
  qed
  moreover have "int (length (filter (\<lambda>w. queued w \<and> \<not> wt_over w) (sys_ws s))) \<le> cap"
    using inv cap by (simp add: adm_inv_def counted_def)
  moreover have "\<forall>lane. lane_queue (sys_q s) lane =
      filter (\<lambda>i. queued (sys_ws s ! i) \<and> wt_lane (sys_ws s ! i) = lane) [0..<length (sys_ws s)]"
    using inv by (simp add: adm_inv_def lane_tickets_def)
  moreover have "distinct (map fst (ad_lanes (sys_q s)))" "[] \<notin> snd ` set (ad_lanes (sys_q s))"
    using inv by (auto simp: adm_inv_def od_wf_def)
  ultimately show ?thesis
    using inv no_queued_empty [OF inv] lanes_hold_queued [OF inv] by (auto simp: adm_inv_def)
qed

definition acfg0 :: admission_cfg where
  "acfg0 = \<lparr>ad_capacity = 1, ad_timeout_s = 30, ad_poll_interval_s = 1\<rparr>"

definition asys0 :: "nat adm_sys" where
  "asys0 = arrive acfg0 ''m'' 0 \<lparr>sys_q = empty_admission, sys_ws = []\<rparr>"

lemma asys0_eq:
  "asys0 = \<lparr>sys_q = \<lparr>ad_lanes = [(''m'', [0])], ad_waiting = 1\<rparr>,
     sys_ws = [\<lparr>wt_lane = ''m'', wt_started = 0, wt_over = False, wt_first_probe = True, wt_pc = AtTop\<rparr>]\<rparr>"
  by (simp add: asys0_def arrive_def enqueue_def lane_queue_def empty_admission_def
      probes_over_capacity_def acfg0_def)

theorem admission_fifo_bounded_witness:
  "AdmissionQueue 1 30 1 = Some acfg0 \<and> reach adm_init (adm_step acfg0) asys0 \<and>
   ad_waiting (sys_q asys0) = 1 \<and>
   int (length (filter (\<lambda>w. queued w \<and> \<not> wt_over w) (sys_ws asys0))) \<le> 1 \<and>
   sys_ws (arrive acfg0 ''m'' 1 asys0) ! 1 = \<lparr>wt_lane = ''m'', wt_started = 1, wt_over = True,
     wt_first_probe = True, wt_pc = Finished (WaitResult OVERFLOW None 0)\<rparr>"
proof -
  have c: "AdmissionQueue 1 30 1 = Some acfg0" by (simp add: AdmissionQueue_def acfg0_def)
  have r: "reach adm_init (adm_step acfg0) asys0"
    unfolding asys0_def
    by (rule reach_step [where s = "\<lparr>sys_q = empty_admission, sys_ws = []\<rparr>"])
      (auto intro: reach_init ad_arrive simp: adm_init_def)
  from admission_fifo_bounded [OF c r] c r show ?thesis
    by (auto simp: asys0_eq arrive_def enqueue_def lane_queue_def probes_over_capacity_def acfg0_def)
qed

end
