(* ===== verification/Sched_Churn.thy ===== *)
theory Sched_Churn
  imports Fallow_Protocol
begin

text \<open>
  The statistical models behind churn-aware placement: pairing idle/returned events into idle
  sessions (\<open>fallow_protocol/churn_events.py\<close>), the empirical survival estimator
  (\<open>scheduler/churn_model.py\<close>) with its binary search, and the task-success estimator
  (\<open>scheduler/reliability.py\<close>).

  A log line is a mapping with arbitrary values: a field that is missing or not a string is
  \<open>None\<close>. A \<open>datetime\<close> is its instant with its UTC offset, \<open>None\<close> for a naive one: subtraction and
  comparison of aware values go by the instant, \<open>hour\<close> reads the offset. \<open>datetime.fromisoformat\<close> is the
  argument \<open>fromiso\<close>, \<open>None\<close> where it raises.
\<close>

section \<open>Idle sessions\<close>

record datetime =
  dt_instant :: instant
  dt_utcoffset :: "secs option"

datatype at_raw = AtDatetime datetime | AtString string | AtOther

record churn_event =
  ce_agent_id :: "string option"
  ce_kind :: "string option"
  ce_at :: at_raw

record churn_session =
  cs_agent_id :: ident
  cs_start :: datetime
  cs_end :: datetime

definition length_s :: "churn_session \<Rightarrow> secs" where
  "length_s s = dt_instant (cs_end s) - dt_instant (cs_start s)"

definition replace_Z :: "string \<Rightarrow> string" where
  "replace_Z s = concat (map (\<lambda>c. if c = CHR ''Z'' then ''+00:00'' else [c]) s)"

definition parse_event_at :: "(string \<Rightarrow> datetime option) \<Rightarrow> at_raw \<Rightarrow> datetime option" where
  "parse_event_at fromiso raw =
     (let moment = (case raw of
                  AtDatetime d \<Rightarrow> Some d
                | AtString s \<Rightarrow> fromiso (replace_Z s)
                | AtOther \<Rightarrow> None)
      in case moment of
           None \<Rightarrow> None
         | Some d \<Rightarrow> if dt_utcoffset d = None then None else Some d)"

text \<open>One turn of the pairing loop: the open sessions, and the session the event completes.\<close>

definition pair_event ::
  "(string \<Rightarrow> datetime option) \<Rightarrow> churn_event \<Rightarrow> (ident, datetime) odict \<Rightarrow>
   (ident, datetime) odict \<times> churn_session list" where
  "pair_event fromiso e open_since =
     (case (ce_agent_id e, ce_kind e, parse_event_at fromiso (ce_at e)) of
        (Some agent, Some kind, Some ts) \<Rightarrow>
          if kind = event_kind_value USER_IDLE then (AList.update agent ts open_since, [])
          else if kind = event_kind_value USER_RETURNED then
            (AList.delete agent open_since,
             case map_of open_since agent of
               Some start \<Rightarrow>
                 if dt_instant start \<le> dt_instant ts
                 then [\<lparr>cs_agent_id = agent, cs_start = start, cs_end = ts\<rparr>] else []
             | None \<Rightarrow> [])
          else (open_since, [])
      | _ \<Rightarrow> (open_since, []))"

fun iter_churn_sessions ::
  "(string \<Rightarrow> datetime option) \<Rightarrow> (ident, datetime) odict \<Rightarrow> churn_event list \<Rightarrow>
   churn_session list" where
  "iter_churn_sessions fromiso open_since [] = []"
| "iter_churn_sessions fromiso open_since (e # es) =
     (let (open', out) = pair_event fromiso e open_since
      in out @ iter_churn_sessions fromiso open' es)"

lemma iter_churn_sessions_nonneg:
  "s \<in> set (iter_churn_sessions fromiso open_since es) \<Longrightarrow> 0 \<le> length_s s"
proof (induction fromiso open_since es rule: iter_churn_sessions.induct)
  case (2 fromiso open_since e es)
  have "0 \<le> length_s t" if "t \<in> set (snd (pair_event fromiso e open_since))" for t
    using that by (auto simp: pair_event_def length_s_def split: option.splits if_splits)
  then show ?case using 2 by (cases "pair_event fromiso e open_since") auto
qed simp

section \<open>The survival estimator\<close>

definition MIN_BUCKET_SAMPLES :: nat where
  "MIN_BUCKET_SAMPLES = 5"

definition DEFAULT_OPTIMISTIC_PRIOR :: real where
  "DEFAULT_OPTIMISTIC_PRIOR = 9 / 10"

text \<open>\<open>bisect.bisect_left\<close>: the insertion point by bisection.\<close>

function bisect_left_loop :: "real list \<Rightarrow> real \<Rightarrow> nat \<Rightarrow> nat \<Rightarrow> nat" where
  "bisect_left_loop a x lo hi =
     (if lo < hi then
        let mid = (lo + hi) div 2
        in if a ! mid < x then bisect_left_loop a x (mid + 1) hi
           else bisect_left_loop a x lo mid
      else lo)"
  by pat_completeness auto
termination by (relation "measure (\<lambda>(a, x, lo, hi). hi - lo)") auto

declare bisect_left_loop.simps [simp del]

definition bisect_left :: "real list \<Rightarrow> real \<Rightarrow> nat" where
  "bisect_left a x = bisect_left_loop a x 0 (length a)"

definition count_ge :: "real list \<Rightarrow> real \<Rightarrow> nat" where
  "count_ge samples threshold = length samples - bisect_left samples threshold"

record churn_model =
  by_bucket :: "(ident \<times> int, real list) odict"
  by_agent :: "(ident, real list) odict"
  optimistic_prior :: real

definition dict_get :: "('k, 'v) odict \<Rightarrow> 'k \<Rightarrow> 'v \<Rightarrow> 'v" where
  "dict_get d k dflt = (case map_of d k of None \<Rightarrow> dflt | Some v \<Rightarrow> v)"

definition samples_for :: "churn_model \<Rightarrow> ident \<Rightarrow> int \<Rightarrow> real list" where
  "samples_for m agent hour =
     (let bucket = dict_get (by_bucket m) (agent, hour) []
      in if MIN_BUCKET_SAMPLES \<le> length bucket then bucket else dict_get (by_agent m) agent [])"

definition survival :: "churn_model \<Rightarrow> ident \<Rightarrow> int \<Rightarrow> secs \<Rightarrow> secs \<Rightarrow> real" where
  "survival m agent hour idle_age horizon =
     (if horizon \<le> 0 then 1
      else
        let samples = samples_for m agent hour
        in if samples = [] then optimistic_prior m
           else
             let reached_age = count_ge samples idle_age
             in if reached_age = 0 then optimistic_prior m
                else real (count_ge samples (idle_age + horizon)) / real reached_age)"

definition extract_sessions ::
  "(string \<Rightarrow> datetime option) \<Rightarrow> (datetime \<Rightarrow> int) \<Rightarrow> churn_event list \<Rightarrow>
   (ident \<times> int \<times> real) list" where
  "extract_sessions fromiso hour_of es =
     map (\<lambda>s. (cs_agent_id s, hour_of (cs_start s), length_s s)) (iter_churn_sessions fromiso [] es)"

text \<open>\<open>_utc_hour\<close>, the \<open>hour_of\<close> the application passes: \<open>moment.hour\<close> is the hour on the clock of the
  value's own offset.\<close>

definition utc_hour :: "datetime \<Rightarrow> int" where
  "utc_hour moment = \<lfloor>(dt_instant moment + (case dt_utcoffset moment of Some z \<Rightarrow> z | None \<Rightarrow> 0)) / 3600\<rfloor> mod 24"

text \<open>\<open>d.setdefault(k, []).append(v)\<close>.\<close>

definition append_to :: "'k \<Rightarrow> 'v \<Rightarrow> ('k, 'v list) odict \<Rightarrow> ('k, 'v list) odict" where
  "append_to k v d = AList.update k (dict_get d k [] @ [v]) d"

definition build_churn_model ::
  "(string \<Rightarrow> datetime option) \<Rightarrow> (datetime \<Rightarrow> int) \<Rightarrow> real \<Rightarrow> churn_event list \<Rightarrow> churn_model" where
  "build_churn_model fromiso hour_of prior es =
     (let sessions = extract_sessions fromiso hour_of es;
          buckets = fold (\<lambda>(agent, hour, len). append_to (agent, hour) len) sessions [];
          agents = fold (\<lambda>(agent, hour, len). append_to agent len) sessions []
      in \<lparr>by_bucket = map (\<lambda>(k, vals). (k, sort vals)) buckets,
          by_agent = map (\<lambda>(k, vals). (k, sort vals)) agents,
          optimistic_prior = prior\<rparr>)"

subsection \<open>Bisection counts\<close>

lemma bisect_left_loop_spec:
  assumes "sorted a" and "lo \<le> hi" and "hi \<le> length a"
    and "\<And>i. i < lo \<Longrightarrow> a ! i < x" and "\<And>i. hi \<le> i \<Longrightarrow> i < length a \<Longrightarrow> x \<le> a ! i"
  shows "bisect_left_loop a x lo hi \<le> length a \<and>
    (\<forall>i < bisect_left_loop a x lo hi. a ! i < x) \<and>
    (\<forall>i. bisect_left_loop a x lo hi \<le> i \<and> i < length a \<longrightarrow> x \<le> a ! i)"
  using assms
proof (induction a x lo hi rule: bisect_left_loop.induct)
  case (1 a x lo hi)
  let ?mid = "(lo + hi) div 2"
  show ?case
  proof (cases "lo < hi")
    case True
    then have mid: "lo \<le> ?mid" "?mid < hi" "?mid < length a" using 1(5) by auto
    show ?thesis
    proof (cases "a ! ?mid < x")
      case less: True
      have "a ! i < x" if "i < ?mid + 1" for i
        using sorted_nth_mono [OF 1(3), of i ?mid] that mid less by simp
      moreover have eq: "bisect_left_loop a x lo hi = bisect_left_loop a x (?mid + 1) hi"
        using True less by (subst bisect_left_loop.simps) (simp add: Let_def)
      ultimately show ?thesis
        unfolding eq using mid 1(5,7) by (intro 1(1) [OF True refl less 1(3)]) auto
    next
      case ge: False
      have "x \<le> a ! i" if "?mid \<le> i" "i < length a" for i
        using sorted_nth_mono [OF 1(3), of ?mid i] that ge by simp
      moreover have eq: "bisect_left_loop a x lo hi = bisect_left_loop a x lo ?mid"
        using True ge by (subst bisect_left_loop.simps) (simp add: Let_def)
      ultimately show ?thesis
        unfolding eq using mid 1(6) by (intro 1(2) [OF True refl ge 1(3)]) auto
    qed
  next
    case False
    then have "bisect_left_loop a x lo hi = lo" by (simp add: bisect_left_loop.simps)
    then show ?thesis using False 1(4-7) by auto
  qed
qed

lemma length_filter_split_at:
  assumes "r \<le> length a" and "\<And>i. i < r \<Longrightarrow> \<not> P (a ! i)" and "\<And>i. r \<le> i \<Longrightarrow> i < length a \<Longrightarrow> P (a ! i)"
  shows "length (filter P a) = length a - r"
proof -
  have "filter P (take r a) = []" using assms(1,2) by (auto simp: filter_empty_conv in_set_conv_nth)
  moreover have "filter P (drop r a) = drop r a"
    using assms(3) by (auto simp: filter_id_conv in_set_conv_nth)
  ultimately have "filter P (take r a @ drop r a) = drop r a" by (simp del: append_take_drop_id)
  then show ?thesis by simp
qed

lemma count_ge_eq:
  assumes "sorted samples"
  shows "count_ge samples t = length (filter (\<lambda>s. t \<le> s) samples)"
proof -
  have "bisect_left samples t \<le> length samples \<and> (\<forall>i < bisect_left samples t. samples ! i < t) \<and>
      (\<forall>i. bisect_left samples t \<le> i \<and> i < length samples \<longrightarrow> t \<le> samples ! i)"
    unfolding bisect_left_def by (rule bisect_left_loop_spec) (use assms in auto)
  then show ?thesis
    unfolding count_ge_def by (intro length_filter_split_at [symmetric]) (auto simp: not_le)
qed

lemma count_ge_mono:
  assumes "sorted samples" and "t \<le> t'"
  shows "count_ge samples t' \<le> count_ge samples t"
  unfolding count_ge_eq [OF assms(1)] using assms(2)
  by (induction samples) auto

definition churn_model_sorted :: "churn_model \<Rightarrow> bool" where
  "churn_model_sorted m \<longleftrightarrow> list_all (\<lambda>(k, s). sorted s) (by_bucket m) \<and> list_all (\<lambda>(k, s). sorted s) (by_agent m)"

lemma build_churn_model_sorted: "churn_model_sorted (build_churn_model fromiso hour_of prior es)"
  by (auto simp: churn_model_sorted_def build_churn_model_def Let_def list_all_iff)

lemma samples_for_sorted: "churn_model_sorted m \<Longrightarrow> sorted (samples_for m agent hour)"
  by (auto simp: churn_model_sorted_def samples_for_def Let_def dict_get_def list_all_iff
      split: option.split dest!: map_of_SomeD)

subsection \<open>The estimator against the recorded sessions\<close>

text \<open>The completed sessions of an agent, of all hours or of one, as the log has them.\<close>

definition session_lengths :: "(ident \<times> int \<times> real) list \<Rightarrow> ident \<Rightarrow> int option \<Rightarrow> real list" where
  "session_lengths sessions agent hour =
     map (snd \<circ> snd) (filter (\<lambda>(a, h, len). a = agent \<and> (hour = None \<or> hour = Some h)) sessions)"

definition evidence :: "(ident \<times> int \<times> real) list \<Rightarrow> ident \<Rightarrow> int \<Rightarrow> real list" where
  "evidence sessions agent hour =
     (if 5 \<le> length (session_lengths sessions agent (Some hour))
      then session_lengths sessions agent (Some hour) else session_lengths sessions agent None)"

lemma dict_get_append_to:
  "dict_get (append_to k v d) k' [] = (if k' = k then dict_get d k [] @ [v] else dict_get d k' [])"
  by (simp add: dict_get_def append_to_def update_conv')

lemma dict_get_fold_append_to:
  "dict_get (fold (\<lambda>x. append_to (key x) (v x)) xs d) k [] =
     dict_get d k [] @ map v (filter (\<lambda>x. key x = k) xs)"
  by (induction xs arbitrary: d) (auto simp: dict_get_append_to)

lemma dict_get_map_sort:
  "dict_get (map (\<lambda>(k, vals). (k, sort vals)) d) k [] = sort (dict_get d k [])"
  by (induction d) (auto simp: dict_get_def)

lemma samples_for_built:
  "samples_for (build_churn_model fromiso hour_of prior es) agent hour =
     sort (evidence (extract_sessions fromiso hour_of es) agent hour)"
proof -
  let ?S = "extract_sessions fromiso hour_of es"
  have "dict_get (fold (\<lambda>(a, h, len). append_to (a, h) len) ?S []) (agent, hour) [] =
      session_lengths ?S agent (Some hour)"
    using dict_get_fold_append_to [of "\<lambda>x. (fst x, fst (snd x))" "\<lambda>x. snd (snd x)" ?S "[]" "(agent, hour)"]
    by (simp add: session_lengths_def case_prod_beta' comp_def dict_get_def eq_commute conj_commute)
  moreover have "dict_get (fold (\<lambda>(a, h, len). append_to a len) ?S []) agent [] =
      session_lengths ?S agent None"
    using dict_get_fold_append_to [of fst "\<lambda>x. snd (snd x)" ?S "[]" agent]
    by (simp add: session_lengths_def case_prod_beta' comp_def dict_get_def)
  ultimately show ?thesis
    by (simp add: samples_for_def build_churn_model_def Let_def dict_get_map_sort evidence_def
        MIN_BUCKET_SAMPLES_def)
qed

text \<open>C6: The survival estimate of a model built from an event log is the documented empirical
  fraction: of the completed idle sessions recorded for the agent (in that hour when there are
  at least five, else in all hours) that lasted the idle age, the share that also lasted the
  horizon; one for a non-positive horizon and the prior when no session reached the age.\<close>

theorem survival_empirical:
  "survival (build_churn_model fromiso hour_of prior es) agent hour age horizon =
     (let S = evidence (extract_sessions fromiso hour_of es) agent hour
      in if horizon \<le> 0 then 1
         else if filter (\<lambda>s. age \<le> s) S = [] then prior
         else real (length (filter (\<lambda>s. age + horizon \<le> s) S)) /
              real (length (filter (\<lambda>s. age \<le> s) S)))"
proof -
  let ?m = "build_churn_model fromiso hour_of prior es"
  let ?S = "evidence (extract_sessions fromiso hour_of es) agent hour"
  have "count_ge (sort ?S) t = length (filter (\<lambda>s. t \<le> s) ?S)" for t
    by (simp add: count_ge_eq filter_sort)
  moreover have "optimistic_prior ?m = prior" by (simp add: build_churn_model_def Let_def)
  moreover have "sort ?S = [] \<longleftrightarrow> ?S = []" by (metis length_0_conv length_sort)
  ultimately show ?thesis
    by (auto simp: survival_def samples_for_built Let_def)
qed

text \<open>The survival estimate is a probability, and waiting longer never looks safer: it does not
  increase with the horizon.\<close>

theorem survival_probability:
  assumes "churn_model_sorted m" and "0 \<le> optimistic_prior m" and "optimistic_prior m \<le> 1"
    and "t \<le> t'"
  shows "0 \<le> survival m agent hour age t \<and> survival m agent hour age t \<le> 1 \<and>
    survival m agent hour age t' \<le> survival m agent hour age t"
proof -
  let ?s = "samples_for m agent hour"
  have s: "sorted ?s" using assms(1) by (rule samples_for_sorted)
  have le1: "real (count_ge ?s (age + h)) / real (count_ge ?s age) \<le> 1" if "0 < h" for h
    using count_ge_mono [OF s, of age "age + h"] that by (simp add: divide_le_eq)
  have mono: "real (count_ge ?s (age + t')) / real (count_ge ?s age) \<le>
      real (count_ge ?s (age + t)) / real (count_ge ?s age)"
    using count_ge_mono [OF s, of "age + t" "age + t'"] assms(4) by (simp add: divide_right_mono)
  show ?thesis
    using le1 [of t] le1 [of t'] mono assms(2-4)
    by (auto simp: survival_def Let_def not_le)
qed

theorem survival_probability_witness:
  "\<exists>m. churn_model_sorted m \<and> survival m ''a'' 9 0 60 = 1/2 \<and>
     survival m ''a'' 9 0 120 \<le> survival m ''a'' 9 0 60"
proof -
  let ?m = "\<lparr>by_bucket = [], by_agent = [(''a'', [30, 90])], optimistic_prior = 9/10\<rparr>"
  have "survival ?m ''a'' 9 0 60 = 1/2" "churn_model_sorted ?m" by code_simp+
  then show ?thesis using survival_probability [of ?m 60 120 "''a''" 9 0] by (intro exI [of _ ?m]) simp
qed

section \<open>Task-success reliability\<close>

definition DEFAULT_RELIABILITY_PRIOR :: real where
  "DEFAULT_RELIABILITY_PRIOR = 9 / 10"

record reliability_model =
  rel_by_agent :: "(ident, nat \<times> nat) odict"
  rel_optimistic_prior :: real

definition success_rate :: "reliability_model \<Rightarrow> ident \<Rightarrow> real" where
  "success_rate m agent =
     (let (completed, dropped) = dict_get (rel_by_agent m) agent (0, 0);
          total = completed + dropped
      in if total = 0 then rel_optimistic_prior m else real completed / real total)"

datatype outcome = COMPLETED | DROPPED

definition classify :: "string option \<Rightarrow> outcome option" where
  "classify state =
     (case state of
        None \<Rightarrow> None
      | Some s \<Rightarrow>
          (case work_unit_state_of s of
             None \<Rightarrow> None
           | Some DONE \<Rightarrow> Some COMPLETED
           | Some PENDING \<Rightarrow> Some DROPPED
           | Some DEAD \<Rightarrow> Some DROPPED
           | Some LEASED \<Rightarrow> None))"

fun bump :: "outcome \<Rightarrow> nat \<times> nat \<Rightarrow> nat \<times> nat" where
  "bump COMPLETED (c, d) = (c + 1, d)"
| "bump DROPPED (c, d) = (c, d + 1)"

definition tally_transition ::
  "string option \<times> string option \<Rightarrow> (ident, nat \<times> nat) odict \<Rightarrow> (ident, nat \<times> nat) odict" where
  "tally_transition row tally =
     (case row of
        (Some agent, state) \<Rightarrow>
          if agent = [] then tally
          else (case classify state of
                  None \<Rightarrow> tally
                | Some out \<Rightarrow> AList.update agent (bump out (dict_get tally agent (0, 0))) tally)
      | (None, _) \<Rightarrow> tally)"

definition build_reliability_model ::
  "real \<Rightarrow> (string option \<times> string option) list \<Rightarrow> reliability_model" where
  "build_reliability_model prior rows =
     \<lparr>rel_by_agent = fold tally_transition rows [], rel_optimistic_prior = prior\<rparr>"

lemma success_rate_bounds:
  assumes "0 \<le> rel_optimistic_prior m" and "rel_optimistic_prior m \<le> 1"
  shows "0 \<le> success_rate m agent" and "success_rate m agent \<le> 1"
  using assms by (auto simp: success_rate_def Let_def case_prod_beta divide_le_eq)

lemma tally_counts:
  "dict_get (fold tally_transition rows tally) agent (0, 0) =
     (let (c, d) = dict_get tally agent (0, 0);
          outs = map (classify \<circ> snd) (filter (\<lambda>r. fst r = Some agent \<and> agent \<noteq> []) rows)
      in (c + length (filter (\<lambda>x. x = Some COMPLETED) outs),
          d + length (filter (\<lambda>x. x = Some DROPPED) outs)))"
proof (induction rows arbitrary: tally)
  case (Cons r rows)
  have "dict_get (tally_transition r tally) agent (0, 0) =
      (if fst r = Some agent \<and> agent \<noteq> [] then
         (case classify (snd r) of None \<Rightarrow> dict_get tally agent (0, 0)
          | Some out \<Rightarrow> bump out (dict_get tally agent (0, 0)))
       else dict_get tally agent (0, 0))"
    by (auto simp: tally_transition_def dict_get_def update_conv' split: option.split prod.split)
  then show ?case
    unfolding fold_simps Cons.IH
    by (cases "dict_get tally agent (0, 0)"; cases "classify (snd r)"; cases "the (classify (snd r))")
      (auto simp: Let_def)
qed (simp add: Let_def case_prod_beta)

text \<open>The success rate of a model built from the transition log is the share of the agent's
  terminal transitions that are completions: done counts for the agent, a requeue or a dead unit
  against it, leases and malformed rows count for nothing.\<close>

theorem success_rate_empirical:
  assumes "agent \<noteq> []"
  shows "success_rate (build_reliability_model prior rows) agent =
    (let outs = map (classify \<circ> snd) (filter (\<lambda>r. fst r = Some agent) rows);
         c = length (filter (\<lambda>x. x = Some COMPLETED) outs);
         d = length (filter (\<lambda>x. x = Some DROPPED) outs)
     in if c + d = 0 then prior else real c / real (c + d))"
proof -
  have "dict_get [] agent (0, 0) = (0 :: nat, 0 :: nat)" by (simp add: dict_get_def)
  then show ?thesis
    using assms by (simp add: success_rate_def build_reliability_model_def Let_def tally_counts
        filter_map comp_def)
qed

theorem success_rate_empirical_witness:
  "success_rate (build_reliability_model (9/10)
     [(Some ''a'', Some ''leased''), (Some ''a'', Some ''done''), (None, Some ''dead''),
      (Some ''a'', Some ''pending'')]) ''a'' = 1/2"
  by (subst success_rate_empirical) (simp_all add: classify_def work_unit_state_of_def)

end
