(* ===== verification/Sched_Policy.thy ===== *)
theory Sched_Policy
  imports Sched_Churn
begin

text \<open>
  Placement: the eligibility predicates (\<open>scheduler/_eligibility.py\<close>), model selection on enrol
  (\<open>selection.py\<close>), the three scheduler policies (\<open>policies.py\<close>, \<open>v2.py\<close>), the long-poll filter
  (\<open>poll.py\<close>) and the backup decision (\<open>speculative.py\<close>). The contract every policy promises its
  callers is the locale \<open>scheduler_policy\<close>, interpreted for the three of them.
\<close>

section \<open>Eligibility\<close>

definition agent_has_gpu :: "agent_snapshot \<Rightarrow> bool" where
  "agent_has_gpu agent \<longleftrightarrow> 0 < length (dc_gpus (as_caps agent))"

definition agent_is_fit :: "agent_snapshot \<Rightarrow> bool" where
  "agent_is_fit agent \<longleftrightarrow>
     as_state agent = IDLE \<and> \<not> as_suspect agent \<and> \<not> as_serving_paused agent"

definition is_eligible :: "agent_snapshot \<Rightarrow> bool \<Rightarrow> bool" where
  "is_eligible agent needs_gpu \<longleftrightarrow> agent_is_fit agent \<and> (\<not> needs_gpu \<or> agent_has_gpu agent)"

definition has_warm_replica :: "agent_snapshot \<Rightarrow> ident \<Rightarrow> bool" where
  "has_warm_replica agent model_id \<longleftrightarrow>
     list_ex (\<lambda>r. rs_model_id r = model_id \<and> (rs_state r = READY \<or> rs_state r = SUSPENDED))
       (as_replicas agent)"

record fit_report =
  fr_fits :: bool
  fr_required_vram_mb :: int
  fr_required_ram_mb :: int
  fr_available_vram_mb :: int
  fr_available_ram_mb :: int

text \<open>\<open>max(xs, default=0)\<close>.\<close>

definition max_default :: "int \<Rightarrow> int list \<Rightarrow> int" where
  "max_default d xs = (case xs of [] \<Rightarrow> d | y # ys \<Rightarrow> fold max ys y)"

definition agent_available_vram_mb :: "agent_snapshot \<Rightarrow> int" where
  "agent_available_vram_mb agent = max_default 0 (map gs_vram_free_mb (as_gpus agent))"

definition model_fit :: "model_manifest \<Rightarrow> agent_snapshot \<Rightarrow> fit_report" where
  "model_fit model agent =
     (let vram = agent_available_vram_mb agent; ram = as_mem_available_mb agent
      in \<lparr>fr_fits = (mm_min_ram_mb model \<le> ram \<and> mm_min_vram_mb model \<le> vram),
          fr_required_vram_mb = mm_min_vram_mb model, fr_required_ram_mb = mm_min_ram_mb model,
          fr_available_vram_mb = vram, fr_available_ram_mb = ram\<rparr>)"

section \<open>Model selection on enrol\<close>

definition capacity_snapshot :: "ident \<Rightarrow> device_caps \<Rightarrow> agent_snapshot" where
  "capacity_snapshot agent_id caps =
     \<lparr>as_agent_id = agent_id, as_host = [], as_state = IDLE, as_suspect = False, as_caps = caps,
      as_mem_available_mb = dc_ram_mb caps,
      as_gpus = map (\<lambda>g. \<lparr>gs_index = gi_index g, gs_vram_free_mb = gi_vram_mb g,
                           gs_util_percent = 0, gs_power_w = None, gs_temp_c = None\<rparr>)
                    (dc_gpus caps),
      as_replicas = [], as_user_idle_s = 0, as_serving_paused = False,
      as_predicted_idle_remaining_s = None, as_predicted_idle_confidence = None\<rparr>"

definition model_rank :: "bool \<Rightarrow> model_manifest \<Rightarrow> bool \<times> int \<times> string" where
  "model_rank prefer_gpu model =
     (\<not> (prefer_gpu \<and> 0 < mm_min_vram_mb model), - mm_size_bytes model, mm_model_id model)"

definition select_model_for_agent ::
  "agent_snapshot \<Rightarrow> model_manifest list \<Rightarrow> model_manifest option" where
  "select_model_for_agent agent models =
     (let fitting = filter (\<lambda>m. fr_fits (model_fit m agent)) models
      in if fitting = [] then None else min_key (model_rank (agent_has_gpu agent)) fitting)"

section \<open>Policies\<close>

definition endpoint_sort_key :: "replica_endpoint \<Rightarrow> int \<times> string" where
  "endpoint_sort_key r = (re_inflight r, re_host r @ '':'' @ str_of_int (re_port r))"

definition replicas_for :: "ident \<Rightarrow> replica_endpoint list \<Rightarrow> replica_endpoint list" where
  "replicas_for model_id replicas = filter (\<lambda>r. re_model_id r = model_id) replicas"

text \<open>\<open>CapabilityScheduler\<close>.\<close>

definition capability_rank :: "ident \<Rightarrow> agent_snapshot \<Rightarrow> bool \<times> bool \<times> int \<times> string" where
  "capability_rank model_id agent =
     (\<not> has_warm_replica agent model_id, \<not> agent_has_gpu agent, - as_mem_available_mb agent,
      as_agent_id agent)"

definition capability_select_agent :: "ident \<Rightarrow> bool \<Rightarrow> agent_snapshot list \<Rightarrow> ident option" where
  "capability_select_agent model_id needs_gpu agents =
     (let eligible = filter (\<lambda>a. is_eligible a needs_gpu) agents
      in if eligible = [] then None
         else map_option as_agent_id (min_key (capability_rank model_id) eligible))"

definition least_inflight :: "ident \<Rightarrow> replica_endpoint list \<Rightarrow> replica_endpoint option" where
  "least_inflight model_id replicas =
     (let candidates = replicas_for model_id replicas
      in if candidates = [] then None else min_key endpoint_sort_key candidates)"

text \<open>\<open>RoundRobinScheduler\<close>: the state is the cursor, returned advanced.\<close>

definition rr_reset :: nat where
  "rr_reset = 0"

definition rr_next_index :: "nat \<Rightarrow> nat \<Rightarrow> nat \<times> nat" where
  "rr_next_index cursor len = (cursor mod len, cursor + 1)"

definition rr_select_agent ::
  "nat \<Rightarrow> ident \<Rightarrow> bool \<Rightarrow> agent_snapshot list \<Rightarrow> ident option \<times> nat" where
  "rr_select_agent cursor model_id needs_gpu agents =
     (let eligible = sort_key as_agent_id (filter (\<lambda>a. is_eligible a needs_gpu) agents)
      in if eligible = [] then (None, cursor)
         else let (i, cursor') = rr_next_index cursor (length eligible)
              in (Some (as_agent_id (eligible ! i)), cursor'))"

definition rr_pick_replica ::
  "nat \<Rightarrow> ident \<Rightarrow> replica_endpoint list \<Rightarrow> replica_endpoint option \<times> nat" where
  "rr_pick_replica cursor model_id replicas =
     (let candidates = sort_key endpoint_sort_key (replicas_for model_id replicas)
      in if candidates = [] then (None, cursor)
         else let (i, cursor') = rr_next_index cursor (length candidates)
              in (Some (candidates ! i), cursor'))"

text \<open>\<open>ChurnAwareScheduler\<close>; \<open>hour\<close> is what \<open>hour_fn()\<close> returned.\<close>

definition DEFAULT_EST_UNIT_DURATION_S :: secs where
  "DEFAULT_EST_UNIT_DURATION_S = 60"

definition DEFAULT_RELIABILITY_WEIGHT :: real where
  "DEFAULT_RELIABILITY_WEIGHT = 1 / 10"

record churn_aware =
  ca_model :: churn_model
  ca_est_unit_duration_s :: secs
  ca_reliability :: "reliability_model option"
  ca_reliability_weight :: real

definition reliability_of :: "churn_aware \<Rightarrow> ident \<Rightarrow> real" where
  "reliability_of ca agent_id =
     (case ca_reliability ca of None \<Rightarrow> 0 | Some m \<Rightarrow> success_rate m agent_id)"

definition stays_idle :: "churn_aware \<Rightarrow> int \<Rightarrow> agent_snapshot \<Rightarrow> real" where
  "stays_idle ca hour agent =
     survival (ca_model ca) (as_agent_id agent) hour (as_user_idle_s agent) (ca_est_unit_duration_s ca)"

definition placement_score :: "churn_aware \<Rightarrow> int \<Rightarrow> agent_snapshot \<Rightarrow> real" where
  "placement_score ca hour agent =
     stays_idle ca hour agent + ca_reliability_weight ca * reliability_of ca (as_agent_id agent)"

definition churn_rank ::
  "churn_aware \<Rightarrow> ident \<Rightarrow> int \<Rightarrow> agent_snapshot \<Rightarrow> real \<times> bool \<times> bool \<times> int \<times> string" where
  "churn_rank ca model_id hour agent =
     (- placement_score ca hour agent, \<not> has_warm_replica agent model_id, \<not> agent_has_gpu agent,
      - as_mem_available_mb agent, as_agent_id agent)"

definition churn_select_agent ::
  "churn_aware \<Rightarrow> int \<Rightarrow> ident \<Rightarrow> bool \<Rightarrow> agent_snapshot list \<Rightarrow> ident option" where
  "churn_select_agent ca hour model_id needs_gpu agents =
     (let eligible = filter (\<lambda>a. is_eligible a needs_gpu) agents
      in if eligible = [] then None
         else map_option as_agent_id (min_key (churn_rank ca model_id hour) eligible))"

section \<open>Long-poll filter and backup decision\<close>

definition select_for_poll :: "agent_snapshot \<Rightarrow> ident list \<Rightarrow> ident list" where
  "select_for_poll agent model_ids = (if \<not> agent_is_fit agent then [] else model_ids)"

record tail_unit =
  tu_work_unit_id :: ident
  tu_holder_agent_id :: ident
  tu_est_duration_s :: "secs option"

definition holder_survival ::
  "churn_model \<Rightarrow> int \<Rightarrow> secs \<Rightarrow> (ident, agent_snapshot) odict \<Rightarrow> tail_unit \<Rightarrow> real option" where
  "holder_survival churn hour est holders u =
     map_option
       (\<lambda>h. survival churn (as_agent_id h) hour (as_user_idle_s h)
              (case tu_est_duration_s u of Some e \<Rightarrow> e | None \<Rightarrow> est))
       (map_of holders (tu_holder_agent_id u))"

fun choose_backup_loop ::
  "churn_model \<Rightarrow> int \<Rightarrow> secs \<Rightarrow> real \<Rightarrow> (ident, agent_snapshot) odict \<Rightarrow> tail_unit list \<Rightarrow>
   (real \<times> ident) option \<Rightarrow> (real \<times> ident) option" where
  "choose_backup_loop churn hour est threshold holders [] best = best"
| "choose_backup_loop churn hour est threshold holders (u # us) best =
     choose_backup_loop churn hour est threshold holders us
       (case holder_survival churn hour est holders u of
          None \<Rightarrow> best
        | Some s \<Rightarrow>
            if threshold \<le> s then best
            else (case best of
                    None \<Rightarrow> Some (s, tu_work_unit_id u)
                  | Some b \<Rightarrow> if (s, tu_work_unit_id u) < b then Some (s, tu_work_unit_id u) else best))"

definition choose_backup_unit ::
  "tail_unit list \<Rightarrow> (ident, agent_snapshot) odict \<Rightarrow> churn_model \<Rightarrow> int \<Rightarrow> real \<Rightarrow> secs \<Rightarrow> ident option" where
  "choose_backup_unit units holders churn hour threshold est =
     map_option snd (choose_backup_loop churn hour est threshold holders units None)"

section \<open>The contract of a policy\<close>

text \<open>What callers of \<open>SchedulerPolicy\<close> rely on: a choice is always an eligible candidate, and no
  choice means there was none.\<close>

locale scheduler_policy =
  fixes sel :: "ident \<Rightarrow> bool \<Rightarrow> agent_snapshot list \<Rightarrow> ident option"
    and pick :: "ident \<Rightarrow> replica_endpoint list \<Rightarrow> replica_endpoint option"
  assumes sel_Some: "sel m g agents = Some a \<Longrightarrow> \<exists>s \<in> set agents. as_agent_id s = a \<and> is_eligible s g"
    and sel_None: "sel m g agents = None \<Longrightarrow> s \<in> set agents \<Longrightarrow> \<not> is_eligible s g"
    and pick_Some: "pick m rs = Some r \<Longrightarrow> r \<in> set rs \<and> re_model_id r = m"
    and pick_None: "pick m rs = None \<Longrightarrow> r \<in> set rs \<Longrightarrow> re_model_id r \<noteq> m"
begin

lemma sel_None_iff: "sel m g agents = None \<longleftrightarrow> (\<forall>s \<in> set agents. \<not> is_eligible s g)"
  using sel_Some sel_None by (metis option.exhaust)

lemma sel_fit:
  assumes "distinct (map as_agent_id agents)" "sel m g agents = Some a" "s \<in> set agents"
    "as_agent_id s = a"
  shows "agent_is_fit s" and "g \<Longrightarrow> agent_has_gpu s"
proof -
  obtain t where t: "t \<in> set agents" "as_agent_id t = a" "is_eligible t g"
    using sel_Some [OF assms(2)] by blast
  then have "s = t" using assms by (metis distinct_map inj_onD)
  then show "agent_is_fit s" and "g \<Longrightarrow> agent_has_gpu s" using t by (auto simp: is_eligible_def)
qed

lemma placement:
  assumes "distinct (map as_agent_id agents)"
  shows "(sel m g agents = None \<longleftrightarrow> (\<forall>s \<in> set agents. \<not> is_eligible s g)) \<and>
    (\<forall>a. sel m g agents = Some a \<longrightarrow> (\<exists>s \<in> set agents. as_agent_id s = a)) \<and>
    (\<forall>s \<in> set agents. sel m g agents = Some (as_agent_id s) \<longrightarrow>
       agent_is_fit s \<and> (g \<longrightarrow> agent_has_gpu s))"
  using sel_None_iff [of m g agents] sel_Some [of m g agents] sel_fit [OF assms, of m g] by blast

lemma pick_None_iff: "pick m rs = None \<longleftrightarrow> (\<forall>r \<in> set rs. re_model_id r \<noteq> m)"
  using pick_Some pick_None by (metis option.exhaust)

end

lemma min_key_agent_sound:
  assumes "es = filter (\<lambda>a. is_eligible a g) agents"
  shows "map_option as_agent_id (min_key f es) = Some a \<Longrightarrow>
           \<exists>s \<in> set agents. as_agent_id s = a \<and> is_eligible s g"
  using assms by (auto dest!: min_key_in)

lemma least_inflight_sound:
  "least_inflight m rs = Some r \<Longrightarrow> r \<in> set rs \<and> re_model_id r = m"
  "least_inflight m rs = None \<Longrightarrow> r \<in> set rs \<Longrightarrow> re_model_id r \<noteq> m"
  by (auto simp: least_inflight_def replicas_for_def Let_def filter_empty_conv
      dest!: min_key_in split: if_splits)

interpretation capability: scheduler_policy capability_select_agent least_inflight
proof
  fix m g agents a
  assume "capability_select_agent m g agents = Some a"
  then show "\<exists>s \<in> set agents. as_agent_id s = a \<and> is_eligible s g"
    by (auto simp: capability_select_agent_def Let_def split: if_splits dest!: min_key_in)
next
  fix m g agents s
  assume "capability_select_agent m g agents = None" "s \<in> set agents"
  then show "\<not> is_eligible s g"
    by (auto simp: capability_select_agent_def Let_def filter_empty_conv split: if_splits)
qed (fact least_inflight_sound)+

interpretation churn_arm: scheduler_policy "churn_select_agent ca hour" least_inflight for ca hour
proof
  fix m g agents a
  assume "churn_select_agent ca hour m g agents = Some a"
  then show "\<exists>s \<in> set agents. as_agent_id s = a \<and> is_eligible s g"
    by (auto simp: churn_select_agent_def Let_def split: if_splits dest!: min_key_in)
next
  fix m g agents s
  assume "churn_select_agent ca hour m g agents = None" "s \<in> set agents"
  then show "\<not> is_eligible s g"
    by (auto simp: churn_select_agent_def Let_def filter_empty_conv split: if_splits)
qed (fact least_inflight_sound)+

lemma nth_mod_in: "xs \<noteq> [] \<Longrightarrow> xs ! (c mod length xs) \<in> set xs"
  by simp

lemma rr_select_sound:
  "fst (rr_select_agent c m g agents) = Some a \<Longrightarrow>
     \<exists>s \<in> set agents. as_agent_id s = a \<and> is_eligible s g"
  "fst (rr_select_agent c m g agents) = None \<Longrightarrow> s \<in> set agents \<Longrightarrow> \<not> is_eligible s g"
proof -
  let ?es = "sort_key as_agent_id (filter (\<lambda>a. is_eligible a g) agents)"
  have empty: "?es = [] \<longleftrightarrow> (\<forall>s \<in> set agents. \<not> is_eligible s g)"
    by (simp add: filter_empty_conv)
  show "fst (rr_select_agent c m g agents) = Some a \<Longrightarrow>
      \<exists>s \<in> set agents. as_agent_id s = a \<and> is_eligible s g"
    using nth_mod_in [of ?es c]
    by (auto simp: rr_select_agent_def rr_next_index_def Let_def split: if_splits)
  show "fst (rr_select_agent c m g agents) = None \<Longrightarrow> s \<in> set agents \<Longrightarrow> \<not> is_eligible s g"
    using empty by (auto simp: rr_select_agent_def rr_next_index_def Let_def split: if_splits)
qed

lemma rr_pick_sound:
  "fst (rr_pick_replica c m rs) = Some r \<Longrightarrow> r \<in> set rs \<and> re_model_id r = m"
  "fst (rr_pick_replica c m rs) = None \<Longrightarrow> r \<in> set rs \<Longrightarrow> re_model_id r \<noteq> m"
proof -
  let ?cs = "sort_key endpoint_sort_key (replicas_for m rs)"
  have empty: "?cs = [] \<longleftrightarrow> (\<forall>r \<in> set rs. re_model_id r \<noteq> m)"
    by (simp add: replicas_for_def filter_empty_conv)
  show "fst (rr_pick_replica c m rs) = Some r \<Longrightarrow> r \<in> set rs \<and> re_model_id r = m"
    using nth_mod_in [of ?cs c]
    by (auto simp: rr_pick_replica_def rr_next_index_def Let_def replicas_for_def split: if_splits)
  show "fst (rr_pick_replica c m rs) = None \<Longrightarrow> r \<in> set rs \<Longrightarrow> re_model_id r \<noteq> m"
    using empty by (auto simp: rr_pick_replica_def rr_next_index_def Let_def split: if_splits)
qed

interpretation round_robin: scheduler_policy
    "\<lambda>m g agents. fst (rr_select_agent c m g agents)" "\<lambda>m rs. fst (rr_pick_replica c m rs)" for c
  by unfold_locales (fact rr_select_sound rr_pick_sound)+

section \<open>Properties of placement\<close>

text \<open>C28: Each of the three policies places a unit exactly when some agent is eligible, and then on
  an agent that is idle, fresh and not paused, with a GPU when the unit needs one.\<close>

theorem policies_place_on_eligible:
  assumes "distinct (map as_agent_id agents)"
    and "sel = capability_select_agent m g agents \<or> sel = churn_select_agent ca hour m g agents \<or>
         sel = fst (rr_select_agent c m g agents)"
  shows "(sel = None \<longleftrightarrow> (\<forall>s \<in> set agents. \<not> is_eligible s g)) \<and>
    (\<forall>a. sel = Some a \<longrightarrow> (\<exists>s \<in> set agents. as_agent_id s = a)) \<and>
    (\<forall>s \<in> set agents. sel = Some (as_agent_id s) \<longrightarrow> agent_is_fit s \<and> (g \<longrightarrow> agent_has_gpu s))"
  using assms(2) capability.placement [OF assms(1), of m g] churn_arm.placement [OF assms(1), of ca hour m g]
    round_robin.placement [OF assms(1), of c m g]
  by (elim disjE) (hypsubst, assumption)+

definition caps0 :: device_caps where
  "caps0 = \<lparr>dc_hostname = ''h'', dc_os = LINUX, dc_os_version = [], dc_cpu_model = [], dc_cpu_cores = 8,
     dc_ram_mb = 16000, dc_disk_free_mb = 0, dc_gpus = [], dc_agent_version = ''1''\<rparr>"

definition agent0 :: "ident \<Rightarrow> agent_state \<Rightarrow> agent_snapshot" where
  "agent0 a st = (capacity_snapshot a caps0)\<lparr>as_state := st\<rparr>"

theorem policies_place_on_eligible_witness:
  "capability_select_agent ''m'' False [agent0 ''x'' ACTIVE, agent0 ''y'' IDLE] = Some ''y'' \<and>
   agent_is_fit (agent0 ''y'' IDLE)"
proof -
  have sel: "capability_select_agent ''m'' False [agent0 ''x'' ACTIVE, agent0 ''y'' IDLE] = Some ''y''"
    "distinct (map as_agent_id [agent0 ''x'' ACTIVE, agent0 ''y'' IDLE])"
    "as_agent_id (agent0 ''y'' IDLE) = ''y''"
    by code_simp+
  then show ?thesis using policies_place_on_eligible [OF sel(2) disjI1 [OF refl], of "''m''" False] by simp
qed

text \<open>Reliability never overturns a clear survival lead: no eligible agent is more likely to
  stay idle than the chosen one by more than the reliability weight; without a reliability model
  the chosen agent has the highest survival.\<close>

theorem survival_lead_kept:
  assumes "0 \<le> ca_reliability_weight ca"
    and "\<And>rm. ca_reliability ca = Some rm \<Longrightarrow> 0 \<le> rel_optimistic_prior rm \<and> rel_optimistic_prior rm \<le> 1"
    and "distinct (map as_agent_id agents)" and "churn_select_agent ca hour m g agents = Some (as_agent_id s)"
    and "s \<in> set agents" and "b \<in> set agents" and "is_eligible b g"
  shows "stays_idle ca hour b \<le>
    stays_idle ca hour s + (if ca_reliability ca = None then 0 else ca_reliability_weight ca)"
proof -
  let ?es = "filter (\<lambda>a. is_eligible a g) agents"
  obtain t where t: "min_key (churn_rank ca m hour) ?es = Some t" "as_agent_id t = as_agent_id s"
    using assms(4) by (auto simp: churn_select_agent_def Let_def split: if_splits)
  have "t = s" using t(2) min_key_in [OF t(1)] assms(3,5) by (metis distinct_map filter_is_subset inj_onD subsetD)
  then have "churn_rank ca m hour s \<le> churn_rank ca m hour b"
    using min_key_le [OF t(1)] assms(6,7) by simp
  then have score: "placement_score ca hour b \<le> placement_score ca hour s"
    by (auto simp: churn_rank_def less_eq_prod_def)
  show ?thesis
  proof (cases "ca_reliability ca")
    case None
    then show ?thesis using score by (simp add: placement_score_def reliability_of_def)
  next
    case (Some rm)
    have "0 \<le> reliability_of ca (as_agent_id b)" "reliability_of ca (as_agent_id s) \<le> 1"
      using success_rate_bounds assms(2) Some by (simp_all add: reliability_of_def)
    then have "0 \<le> ca_reliability_weight ca * reliability_of ca (as_agent_id b)"
      "ca_reliability_weight ca * reliability_of ca (as_agent_id s) \<le> ca_reliability_weight ca"
      using assms(1) by (simp_all add: mult_left_le)
    then show ?thesis using score Some by (simp add: placement_score_def)
  qed
qed

definition ca0 :: churn_aware where
  "ca0 = \<lparr>ca_model = \<lparr>by_bucket = [], by_agent = [(''x'', [30, 90]), (''y'', [90, 120])], optimistic_prior = 9/10\<rparr>,
     ca_est_unit_duration_s = 60, ca_reliability = None, ca_reliability_weight = 1/10\<rparr>"

theorem survival_lead_kept_witness:
  "churn_select_agent ca0 9 ''m'' False [agent0 ''x'' IDLE, agent0 ''y'' IDLE] = Some ''y'' \<and>
   stays_idle ca0 9 (agent0 ''x'' IDLE) \<le> stays_idle ca0 9 (agent0 ''y'' IDLE)"
proof -
  have sel: "churn_select_agent ca0 9 ''m'' False [agent0 ''x'' IDLE, agent0 ''y'' IDLE] = Some ''y''"
    by code_simp
  have ids: "as_agent_id (agent0 ''y'' IDLE) = ''y''" "distinct (map as_agent_id [agent0 ''x'' IDLE, agent0 ''y'' IDLE])"
    "is_eligible (agent0 ''x'' IDLE) False" by code_simp+
  show ?thesis
    using survival_lead_kept [of ca0 "[agent0 ''x'' IDLE, agent0 ''y'' IDLE]" 9 "''m''" False
        "agent0 ''y'' IDLE" "agent0 ''x'' IDLE"] sel ids
    by (simp add: ca0_def)
qed

text \<open>Round-robin handouts: the agents chosen by consecutive calls, the cursor threaded through.\<close>

fun rr_handouts :: "nat \<Rightarrow> nat \<Rightarrow> ident \<Rightarrow> bool \<Rightarrow> agent_snapshot list \<Rightarrow> ident option list" where
  "rr_handouts 0 cursor m g agents = []"
| "rr_handouts (Suc n) cursor m g agents =
     (let (a, cursor') = rr_select_agent cursor m g agents in a # rr_handouts n cursor' m g agents)"

lemma rr_handouts_nth:
  assumes "es = sort_key as_agent_id (filter (\<lambda>a. is_eligible a g) agents)" and "es \<noteq> []"
  shows "rr_handouts n cursor m g agents =
    map (\<lambda>i. Some (as_agent_id (es ! ((cursor + i) mod length es)))) [0..<n]"
proof (induction n arbitrary: cursor)
  case (Suc n)
  have "map (\<lambda>i. Some (as_agent_id (es ! ((cursor + i) mod length es)))) [0..<Suc n] =
    Some (as_agent_id (es ! (cursor mod length es))) #
    map (\<lambda>i. Some (as_agent_id (es ! ((cursor + 1 + i) mod length es)))) [0..<n]"
    by (simp add: upt_conv_Cons map_Suc_upt [symmetric] comp_def del: upt_Suc)
  moreover have "rr_select_agent cursor m g agents =
      (Some (as_agent_id (es ! (cursor mod length es))), cursor + 1)"
    using assms by (simp add: rr_select_agent_def rr_next_index_def Let_def)
  ultimately show ?case by (simp add: Suc.IH del: upt_Suc)
qed simp

lemma inj_on_shift_mod: "inj_on (\<lambda>i. (c + i) mod n) {0..<n}" for n :: nat
proof (rule linorder_inj_onI)
  fix i j assume "i < j" "i \<in> {0..<n}" "j \<in> {0..<n}"
  then have "\<not> n dvd (j - i)" by (auto dest: dvd_imp_le)
  then show "(c + i) mod n \<noteq> (c + j) mod n"
    using mod_eq_dvd_iff_nat [of "c + i" "c + j" n] \<open>i < j\<close> by auto
qed auto

text \<open>Round-robin is fair: whatever the cursor, as many consecutive handouts as there are
  eligible agents give every one of them exactly one unit.\<close>

theorem round_robin_fair:
  assumes "distinct (map as_agent_id agents)"
    and "n = length (filter (\<lambda>a. is_eligible a g) agents)"
  shows "distinct (rr_handouts n cursor m g agents) \<and>
    set (rr_handouts n cursor m g agents) =
      (\<lambda>s. Some (as_agent_id s)) ` {s \<in> set agents. is_eligible s g}"
proof (cases "n = 0")
  case True
  then show ?thesis using assms(2) by (auto simp: filter_empty_conv)
next
  case False
  define es where "es = sort_key as_agent_id (filter (\<lambda>a. is_eligible a g) agents)"
  have es: "length es = n" "es \<noteq> []" "set es = {s \<in> set agents. is_eligible s g}"
    using False assms(2) by (auto simp: es_def)
  have d: "distinct (map as_agent_id es)"
    unfolding es_def using assms(1) by (auto simp: distinct_map inj_on_def)
  let ?f = "\<lambda>i. (cursor + i) mod n"
  have H: "rr_handouts n cursor m g agents = map (\<lambda>i. Some (as_agent_id (es ! ?f i))) [0..<n]"
    using rr_handouts_nth [OF es_def es(2)] es(1) by simp
  have img: "?f ` {0..<n} = {0..<n}"
    by (rule endo_inj_surj) (use inj_on_shift_mod False in auto)
  have nth: "inj_on (\<lambda>k. as_agent_id (es ! k)) {0..<n}"
    unfolding inj_on_def using d es(1)
    by (metis atLeastLessThan_iff length_map nth_eq_iff_index_eq nth_map)
  have "inj_on (\<lambda>i. as_agent_id (es ! ?f i)) {0..<n}"
    using comp_inj_on [OF inj_on_shift_mod, of "\<lambda>k. as_agent_id (es ! k)" cursor n] nth img
    by (simp add: comp_def)
  then have "distinct (rr_handouts n cursor m g agents)"
    unfolding H by (simp add: distinct_map inj_on_def)
  moreover have "set (rr_handouts n cursor m g agents) = Some ` as_agent_id ` (!) es ` ?f ` {0..<n}"
    unfolding H by (simp add: image_image)
  moreover have "(!) es ` ?f ` {0..<n} = set es"
    unfolding img using nth_image [of n es] es(1) by simp
  ultimately have "set (rr_handouts n cursor m g agents) = Some ` as_agent_id ` set es" by (simp only:)
  with \<open>distinct (rr_handouts n cursor m g agents)\<close> show ?thesis
    unfolding es(3) image_image by (rule conjI)
qed

theorem round_robin_fair_witness:
  "rr_handouts 2 7 ''m'' False [agent0 ''x'' IDLE, agent0 ''z'' ACTIVE, agent0 ''y'' IDLE] = [Some ''y'', Some ''x''] \<and>
   distinct (rr_handouts 2 7 ''m'' False [agent0 ''x'' IDLE, agent0 ''z'' ACTIVE, agent0 ''y'' IDLE])"
proof -
  have *: "rr_handouts 2 7 ''m'' False [agent0 ''x'' IDLE, agent0 ''z'' ACTIVE, agent0 ''y'' IDLE] = [Some ''y'', Some ''x'']"
    "distinct (map as_agent_id [agent0 ''x'' IDLE, agent0 ''z'' ACTIVE, agent0 ''y'' IDLE])"
    "2 = length (filter (\<lambda>a. is_eligible a False) [agent0 ''x'' IDLE, agent0 ''z'' ACTIVE, agent0 ''y'' IDLE])"
    by code_simp+
  then show ?thesis using round_robin_fair [OF *(2,3), of 7 "''m''"] by simp
qed

text \<open>On enrol an agent gets the best model it can hold: when it has a GPU and some fitting model
  uses one, the choice does; no fitting model of the same class is larger; the choice does not
  depend on the catalogue's order, and there is none only when nothing fits.\<close>

theorem select_model_best:
  assumes "inj_on mm_model_id (set models)" and "set models' = set models"
  shows "select_model_for_agent agent models' = select_model_for_agent agent models \<and>
    (case select_model_for_agent agent models of
       None \<Rightarrow> (\<forall>m \<in> set models. \<not> fr_fits (model_fit m agent))
     | Some c \<Rightarrow> c \<in> set models \<and> fr_fits (model_fit c agent) \<and>
         (\<forall>m \<in> set models. fr_fits (model_fit m agent) \<longrightarrow>
            (agent_has_gpu agent \<and> 0 < mm_min_vram_mb m \<longrightarrow> 0 < mm_min_vram_mb c) \<and>
            ((agent_has_gpu agent \<longrightarrow> (0 < mm_min_vram_mb m \<longleftrightarrow> 0 < mm_min_vram_mb c)) \<longrightarrow>
               mm_size_bytes m \<le> mm_size_bytes c)))"
proof -
  let ?fit = "\<lambda>ms. filter (\<lambda>m. fr_fits (model_fit m agent)) ms"
  let ?r = "model_rank (agent_has_gpu agent)"
  have "inj_on ?r (set (?fit models'))"
    using assms by (auto simp: inj_on_def model_rank_def)
  then have "min_key ?r (?fit models') = min_key ?r (?fit models)"
    using assms(2) by (intro min_key_cong_set_key) auto
  then have eq: "select_model_for_agent agent models' = select_model_for_agent agent models"
    using assms(2) by (auto simp: select_model_for_agent_def Let_def filter_empty_conv)
  show ?thesis
  proof (cases "select_model_for_agent agent models")
    case None
    then show ?thesis
      using eq by (auto simp: select_model_for_agent_def Let_def filter_empty_conv split: if_splits)
  next
    case (Some c)
    then have c: "min_key ?r (?fit models) = Some c"
      by (auto simp: select_model_for_agent_def Let_def split: if_splits)
    have "?r c \<le> ?r m" if "m \<in> set models" "fr_fits (model_fit m agent)" for m
      using min_key_le [OF c] that by simp
    then show ?thesis
      using eq Some min_key_in [OF c]
      by (fastforce simp: model_rank_def less_eq_prod_def split: if_splits)
  qed
qed

definition model0 :: "ident \<Rightarrow> int \<Rightarrow> int \<Rightarrow> model_manifest" where
  "model0 mid sz ram = \<lparr>mm_model_id = mid, mm_family = [], mm_quant = [], mm_worker_kind = CHAT,
     mm_file_name = [], mm_sha256 = [], mm_size_bytes = sz, mm_min_ram_mb = ram, mm_min_vram_mb = 0,
     mm_default_args = [], mm_chat_template_hint = None, mm_license = None, mm_source_url = None\<rparr>"

theorem select_model_best_witness:
  "\<exists>c. select_model_for_agent (agent0 ''x'' IDLE) [model0 ''s'' 1 0, model0 ''big'' 9 99999, model0 ''l'' 5 0] = Some c \<and>
     mm_model_id c = ''l'' \<and>
     select_model_for_agent (agent0 ''x'' IDLE) [model0 ''l'' 5 0, model0 ''s'' 1 0, model0 ''big'' 9 99999] = Some c"
proof -
  let ?a = "agent0 ''x'' IDLE" and ?ms = "[model0 ''s'' 1 0, model0 ''big'' 9 99999, model0 ''l'' 5 0]"
  have sel: "map_option mm_model_id (select_model_for_agent ?a ?ms) = Some ''l''" by code_simp
  have inj: "inj_on mm_model_id (set ?ms)" by (auto simp: inj_on_def model0_def)
  have perm: "set [model0 ''l'' 5 0, model0 ''s'' 1 0, model0 ''big'' 9 99999] = set ?ms" by auto
  show ?thesis using select_model_best [OF inj perm, of ?a] sel by auto
qed

text \<open>The backup decision as a minimum over the units at risk.\<close>

definition at_risk ::
  "churn_model \<Rightarrow> int \<Rightarrow> secs \<Rightarrow> real \<Rightarrow> (ident, agent_snapshot) odict \<Rightarrow> tail_unit list \<Rightarrow>
   (real \<times> ident) list" where
  "at_risk churn hour est threshold holders units =
     concat (map (\<lambda>u. case holder_survival churn hour est holders u of
                        Some s \<Rightarrow> if s < threshold then [(s, tu_work_unit_id u)] else []
                      | None \<Rightarrow> []) units)"

lemma at_risk_simps:
  "at_risk churn hour est threshold holders [] = []"
  "at_risk churn hour est threshold holders (u # us) =
     (case holder_survival churn hour est holders u of
        Some s \<Rightarrow> if s < threshold then [(s, tu_work_unit_id u)] else []
      | None \<Rightarrow> []) @ at_risk churn hour est threshold holders us"
  by (simp_all add: at_risk_def)

lemma choose_backup_loop_min:
  "choose_backup_loop churn hour est threshold holders units best =
     (if best = None \<and> at_risk churn hour est threshold holders units = [] then None
      else Some (Min (set_option best \<union> set (at_risk churn hour est threshold holders units))))"
proof (induction units arbitrary: best)
  case Nil
  then show ?case by (cases best) (simp_all add: at_risk_simps)
next
  case (Cons u us)
  have min: "(if (s, i) < b then Some (s, i) else Some b) = Some (min b (s, i))" for s i and b :: "real \<times> ident"
    by (auto simp: min_def)
  show ?case
    by (cases "holder_survival churn hour est holders u"; cases best;
        cases "at_risk churn hour est threshold holders us = []")
      (simp_all add: Cons.IH at_risk_simps not_le not_less min min.assoc)
qed

text \<open>A backup is chosen among the tail units whose known holder is less likely than the
  threshold to stay idle long enough: the one most at risk, ties by unit id; none when no unit
  is at risk.\<close>

theorem choose_backup_most_at_risk:
  "choose_backup_unit units holders churn hour threshold est =
     (let risk = at_risk churn hour est threshold holders units
      in if risk = [] then None else Some (snd (Min (set risk))))"
  by (simp add: choose_backup_unit_def choose_backup_loop_min Let_def)

end
