(* ===== verification/Gw_Service.thy ===== *)
theory Gw_Service
  imports Gw_Proxy Gw_Affinity Gw_Quota Gw_Admission Sched_Policy Registry_Props
begin

text \<open>
  The gateway's orchestration of one interactive request (\<open>gateway/service.py\<close>), the route handlers
  in front of it (\<open>router.py\<close>), the error envelope (\<open>errors.py\<close>), the request log's record
  (\<open>logentry.py\<close>) and the configuration (\<open>config.py\<close>). It composes the theories of the parts: body
  parsing, retrieval, affinity, admission, the retry loop and the quotas. The state holds what the
  service mutates: the in-flight tracker, the affinity map, the request log, the quota states.

  What a request meets at its awaits is a \<open>request_run\<close>: the registry at each probe, how the
  admission wait ended, and the clock readings. Message texts are not modelled. A request is run to
  its end without another request between its awaits.
\<close>

section \<open>Configuration\<close>

record gateway_config =
  gc_connect_timeout_s :: secs
  gc_first_byte_timeout_s :: secs
  gc_inter_chunk_timeout_s :: secs
  gc_admission_timeout_s :: secs
  gc_admission_capacity :: int
  gc_admission_poll_interval_s :: secs
  gc_affinity_ttl_s :: secs
  gc_affinity_max :: int
  gc_eligibility_telemetry :: bool

definition default_gateway_config :: gateway_config where
  "default_gateway_config =
     \<lparr>gc_connect_timeout_s = 2, gc_first_byte_timeout_s = 30, gc_inter_chunk_timeout_s = 15,
      gc_admission_timeout_s = 10, gc_admission_capacity = 64, gc_admission_poll_interval_s = 5 / 100,
      gc_affinity_ttl_s = 1800, gc_affinity_max = 10000, gc_eligibility_telemetry = False\<rparr>"

text \<open>\<open>__post_init__\<close>: \<open>False\<close> is the \<open>ValueError\<close>.\<close>

definition gateway_config_ok :: "gateway_config \<Rightarrow> bool" where
  "gateway_config_ok c \<longleftrightarrow>
     0 < gc_connect_timeout_s c \<and> 0 < gc_first_byte_timeout_s c \<and> 0 < gc_inter_chunk_timeout_s c \<and>
     0 < gc_admission_poll_interval_s c \<and> 0 < gc_affinity_ttl_s c \<and> 0 < gc_affinity_max c \<and>
     0 \<le> gc_admission_timeout_s c \<and> 0 < gc_admission_capacity c"

text \<open>The transport timeouts: the read backstop and the connect timeout.\<close>

definition httpx_timeout :: "gateway_config \<Rightarrow> secs \<times> secs" where
  "httpx_timeout c =
     (max (gc_first_byte_timeout_s c) (gc_inter_chunk_timeout_s c) + 5, gc_connect_timeout_s c)"

section \<open>Log entries and responses\<close>

datatype log_status = LS_SERVED | LS_SHED | LS_ERROR | LS_CANCELLED

record gateway_log_entry =
  le_client_key_name :: string
  le_model_id :: ident
  le_agent_id :: "ident option"
  le_t_submit :: instant
  le_t_first_byte :: "instant option"
  le_t_done :: instant
  le_status :: log_status
  le_retried :: bool
  le_prompt_chars :: "int option"
  le_waited_ms :: int
  le_affinity :: affinity_state
  le_rag_k :: "int option"
  le_eligibility :: "eligibility option"

record model_entry =
  me_id :: ident
  me_created :: int
  me_owned_by :: string

text \<open>A streaming response is its head with the body generator not yet run.\<close>

record pending_stream =
  ps_status_code :: int
  ps_media_type :: string
  ps_handle :: stream_handle
  ps_hold :: nat
  ps_finalize :: "instant \<Rightarrow> gateway_log_entry"

datatype gw_response =
  ErrorBody int string "int option"
| PlainBody pass_through
| StreamingBody pending_stream
| ModelList "model_entry list"

definition openai_error :: "int \<Rightarrow> string \<Rightarrow> int option \<Rightarrow> gw_response" where
  "openai_error status typ retry_after = ErrorBody status typ retry_after"

definition TYPE_INVALID_REQUEST :: string where
  "TYPE_INVALID_REQUEST = ''invalid_request_error''"

definition TYPE_MODEL_NOT_FOUND :: string where
  "TYPE_MODEL_NOT_FOUND = ''model_not_found''"

definition TYPE_NO_REPLICA :: string where
  "TYPE_NO_REPLICA = ''no_replica_available''"

definition TYPE_RATE_LIMIT :: string where
  "TYPE_RATE_LIMIT = ''rate_limit_error''"

definition TYPE_UPSTREAM :: string where
  "TYPE_UPSTREAM = ''upstream_error''"

lemmas error_types = TYPE_INVALID_REQUEST_def TYPE_MODEL_NOT_FOUND_def TYPE_NO_REPLICA_def
  TYPE_RATE_LIMIT_def TYPE_UPSTREAM_def

definition sanitized_upstream_error :: "int \<Rightarrow> string \<Rightarrow> gw_response" where
  "sanitized_upstream_error status raw_body = openai_error 502 TYPE_UPSTREAM None"

section \<open>State and surroundings\<close>

record gateway =
  gs_tracker :: inflight
  gs_affinity :: affinity
  gs_log :: "gateway_log_entry list"
  gs_quotas :: "quota_states option"

text \<open>What \<open>create_gateway_router\<close> builds; \<open>None\<close> is a constructor's \<open>ValueError\<close>.\<close>

definition create_gateway :: "gateway_config \<Rightarrow> quota_states option \<Rightarrow> (admission_cfg \<times> gateway) option" where
  "create_gateway c quotas =
     (case AdmissionQueue (gc_admission_capacity c) (gc_admission_timeout_s c) (gc_admission_poll_interval_s c) of
        None \<Rightarrow> None
      | Some adm \<Rightarrow>
          (case AffinityMap (gc_affinity_ttl_s c) (gc_affinity_max c) of
             None \<Rightarrow> None
           | Some aff \<Rightarrow>
               Some (adm, \<lparr>gs_tracker = InflightTracker, gs_affinity = aff, gs_log = [], gs_quotas = quotas\<rparr>)))"

text \<open>The injected collaborators; a transport is given the number of the attempt.\<close>

record collaborators =
  gx_registry_cfg :: registry_config
  gx_sha :: "string \<Rightarrow> string"
  gx_loads :: "string \<Rightarrow> json option"
  gx_dumps :: "jobject \<Rightarrow> string"
  gx_pick :: "ident \<Rightarrow> replica_endpoint list \<Rightarrow> replica_endpoint option"
  gx_try_buffered :: "proxy_request \<Rightarrow> nat \<Rightarrow> replica_endpoint \<Rightarrow> http_exn + try_outcome"
  gx_try_stream :: "proxy_request \<Rightarrow> nat \<Rightarrow> replica_endpoint \<Rightarrow> http_exn + try_outcome"
  gx_retriever :: "retriever option"
  gx_eligibility_telemetry :: bool

record gw_request =
  gr_method :: string
  gr_authorization :: "string option"
  gr_session :: "string option"
  gr_content_type :: "string option"
  gr_raw :: string

record request_run =
  rr_t_quota :: instant
  rr_t_submit :: instant
  rr_db :: registry_db
  rr_probes :: "(registry_db \<times> instant \<times> instant) list"
  rr_wait_end :: "unit wait_outcome"
  rr_t_remember :: instant
  rr_t_first :: instant
  rr_t_done :: instant

datatype svc_exn = EscapedHttp http_exn | AdmissionCancelled int | ProbeRaised | AssertionFailed | DivisionByZero

record route_choice =
  ch_endpoint :: replica_endpoint
  ch_candidates :: "replica_endpoint list"
  ch_affinity :: affinity_state

text \<open>The arguments every log call of one request shares.\<close>

record log_args =
  la_key :: api_key_info
  la_model :: ident
  la_parsed :: parsed_body
  la_t_submit :: instant
  la_eligibility :: "eligibility option"

section \<open>The service\<close>

definition extract_bearer :: "string option \<Rightarrow> string option" where
  "extract_bearer authorization =
     (case authorization of
        None \<Rightarrow> None
      | Some a \<Rightarrow>
          if a = [] then None
          else
            let scheme = takeWhile (\<lambda>c. c \<noteq> CHR '' '') a; token = tl (dropWhile (\<lambda>c. c \<noteq> CHR '' '') a)
            in if py_lower scheme \<noteq> ''bearer'' \<or> py_strip token = [] then None else Some (py_strip token))"

definition authenticate :: "collaborators \<Rightarrow> registry_db \<Rightarrow> string option \<Rightarrow> api_key_info option" where
  "authenticate cx db authorization =
     (case extract_bearer authorization of
        None \<Rightarrow> None
      | Some token \<Rightarrow> authenticate_api_key (gx_sha cx) (gx_registry_cfg cx) token db)"

definition consume_quota :: "api_key_info \<Rightarrow> instant \<Rightarrow> gateway \<Rightarrow> gateway \<times> quota_outcome" where
  "consume_quota key now st =
     (case gs_quotas st of
        None \<Rightarrow> (st, Allowed)
      | Some qs \<Rightarrow> let (qs', out) = consume key now qs in (st\<lparr>gs_quotas := Some qs'\<rparr>, out))"

definition allows :: "api_key_info \<Rightarrow> ident \<Rightarrow> bool" where
  "allows key model \<longleftrightarrow> (case ak_model_allowlist key of None \<Rightarrow> True | Some ms \<Rightarrow> model \<in> set ms)"

definition svc_list_models :: "registry_db \<Rightarrow> instant \<Rightarrow> api_key_info \<Rightarrow> gw_response" where
  "svc_list_models db now key =
     ModelList (map (\<lambda>m. \<lparr>me_id = mm_model_id m, me_created = \<lfloor>now\<rfloor>, me_owned_by = ''fallow''\<rparr>)
       (filter (\<lambda>m. allows key (mm_model_id m)) (list_models db)))"

definition enrich :: "inflight \<Rightarrow> replica_endpoint list \<Rightarrow> replica_endpoint list" where
  "enrich tr = map (\<lambda>e. e\<lparr>re_inflight := max (re_inflight e) (if_count tr (ep_key e))\<rparr>)"

definition svc_resolve ::
  "collaborators \<Rightarrow> ident \<Rightarrow> string option \<Rightarrow> registry_db \<times> instant \<times> instant \<Rightarrow> gateway \<Rightarrow>
   (route_choice option \<times> affinity_state) \<times> gateway" where
  "svc_resolve cx model session view st =
     (let (db, t_query, t_affinity) = view;
          enriched = enrich (gs_tracker st) (replica_endpoints (gx_registry_cfg cx) model t_query db);
          (aff, ep, state) = resolve t_affinity session enriched (gx_pick cx model) True (gs_affinity st)
      in ((map_option (\<lambda>e. \<lparr>ch_endpoint = e, ch_candidates = enriched, ch_affinity = state\<rparr>) ep, state),
          st\<lparr>gs_affinity := aff\<rparr>))"

definition log_entry ::
  "log_args \<Rightarrow> ident option \<Rightarrow> log_status \<Rightarrow> instant option \<Rightarrow> bool \<Rightarrow> int \<Rightarrow> affinity_state \<Rightarrow> instant \<Rightarrow>
   gateway_log_entry" where
  "log_entry la agent_id status t_first retried waited_ms aff t_done =
     \<lparr>le_client_key_name = ak_name (la_key la), le_model_id = la_model la, le_agent_id = agent_id,
      le_t_submit = la_t_submit la, le_t_first_byte = t_first, le_t_done = t_done, le_status = status,
      le_retried = retried, le_prompt_chars = pb_prompt_chars (la_parsed la), le_waited_ms = waited_ms,
      le_affinity = aff, le_rag_k = pb_rag_k (la_parsed la), le_eligibility = la_eligibility la\<rparr>"

definition append_log :: "gateway_log_entry \<Rightarrow> gateway \<Rightarrow> gateway" where
  "append_log e st = st\<lparr>gs_log := gs_log st @ [e]\<rparr>"

definition buffered ::
  "acquired \<Rightarrow> log_args \<Rightarrow> request_run \<Rightarrow> int \<Rightarrow> affinity_state \<Rightarrow> gateway \<Rightarrow> (svc_exn + gw_response) \<times> gateway" where
  "buffered a la run waited_ms aff st =
     (case aq_buffered a of
        None \<Rightarrow> (Inl AssertionFailed, st)
      | Some served \<Rightarrow>
          if SERVER_ERROR \<le> pt_status_code served
          then (Inr (sanitized_upstream_error (pt_status_code served) (pt_body served)),
                append_log (log_entry la (Some (re_agent_id (aq_endpoint a))) LS_ERROR None (aq_retried a)
                  waited_ms aff (rr_t_done run)) st)
          else (Inr (PlainBody served),
                append_log (log_entry la (Some (re_agent_id (aq_endpoint a))) LS_SERVED (Some (rr_t_first run))
                  (aq_retried a) waited_ms aff (rr_t_done run)) st))"

definition stream ::
  "acquired \<Rightarrow> log_args \<Rightarrow> request_run \<Rightarrow> int \<Rightarrow> affinity_state \<Rightarrow> gateway \<Rightarrow> (svc_exn + gw_response) \<times> gateway" where
  "stream a la run waited_ms aff st =
     (case aq_hold a of
        None \<Rightarrow> (Inl AssertionFailed, st)
      | Some h \<Rightarrow>
          let finalize = log_entry la (Some (re_agent_id (aq_endpoint a))) LS_SERVED (Some (rr_t_first run))
                (aq_retried a) waited_ms aff;
              respond = (\<lambda>sh. (Inr (StreamingBody \<lparr>ps_status_code = sh_status_code sh,
                ps_media_type = sh_media_type sh, ps_handle = sh, ps_hold = h, ps_finalize = finalize\<rparr>), st))
          in (case aq_relay_stream a of
                Some sh \<Rightarrow> respond sh
              | None \<Rightarrow>
                  (case aq_stream a of None \<Rightarrow> (Inl AssertionFailed, st) | Some sh \<Rightarrow> respond sh)))"

definition respond ::
  "acquire_result \<Rightarrow> log_args \<Rightarrow> request_run \<Rightarrow> int \<Rightarrow> affinity_state \<Rightarrow> gateway \<Rightarrow>
   (svc_exn + gw_response) \<times> gateway" where
  "respond res la run waited_ms aff st =
     (case res of
        NoUpstream retried \<Rightarrow>
          (Inr (openai_error 502 TYPE_UPSTREAM None),
           append_log (log_entry la None LS_ERROR None retried waited_ms aff (rr_t_done run)) st)
      | Acquired a \<Rightarrow>
          if (aq_stream a \<noteq> None \<or> aq_relay_stream a \<noteq> None) \<and> aq_hold a \<noteq> None
          then stream a la run waited_ms aff st
          else buffered a la run waited_ms aff st)"

text \<open>
  The probes of one admission wait: each resolves the route again, until one finds a replica. The
  second component is the request's \<open>affinity\<close> variable.
\<close>

fun run_probes ::
  "collaborators \<Rightarrow> ident \<Rightarrow> string option \<Rightarrow> (registry_db \<times> instant \<times> instant) list \<Rightarrow>
   affinity_state \<Rightarrow> gateway \<Rightarrow> (route_choice option \<times> affinity_state) \<times> gateway" where
  "run_probes cx model session [] aff st = ((None, aff), st)"
| "run_probes cx model session (v # vs) aff st =
     (let ((choice, aff'), st') = svc_resolve cx model session v st
      in if choice \<noteq> None then ((choice, aff'), st') else run_probes cx model session vs aff' st')"

text \<open>
  How the wait ends: an admitted wait has the last probe's value; a probe that found a replica too
  late is a timeout, and without a value there is no admission.
\<close>

definition wait_result :: "unit wait_outcome \<Rightarrow> route_choice option \<Rightarrow> route_choice wait_outcome" where
  "wait_result e choice =
     (case e of
        WaitResult ADMITTED _ w \<Rightarrow>
          (case choice of None \<Rightarrow> WaitResult TIMEOUT None w | Some c \<Rightarrow> WaitResult ADMITTED (Some c) w)
      | WaitResult status _ w \<Rightarrow> WaitResult status None w
      | WaitCancelled w \<Rightarrow> WaitCancelled w
      | WaitRaised \<Rightarrow> WaitRaised)"

definition update_affinity ::
  "(affinity \<Rightarrow> affinity) \<Rightarrow> gateway \<Rightarrow> gateway" where
  "update_affinity f st = st\<lparr>gs_affinity := f (gs_affinity st)\<rparr>"

definition acquire ::
  "collaborators \<Rightarrow> proxy_request \<Rightarrow> bool \<Rightarrow> ident \<Rightarrow> route_choice \<Rightarrow> gateway \<Rightarrow>
   (http_exn + acquire_result) \<times> gateway" where
  "acquire cx preq streaming model choice st =
     (let (res, tr) = run_attempts
            (if streaming then gx_try_stream cx preq else gx_try_buffered cx preq)
            (make_repick (gx_pick cx) model (ch_candidates choice)) (ch_endpoint choice) (gs_tracker st)
      in (res, st\<lparr>gs_tracker := tr\<rparr>))"

definition route ::
  "collaborators \<Rightarrow> string \<Rightarrow> gw_request \<Rightarrow> log_args \<Rightarrow> string option \<Rightarrow> string \<Rightarrow> request_run \<Rightarrow> gateway \<Rightarrow>
   (svc_exn + gw_response) \<times> gateway" where
  "route cx path rq la session body run st =
     (let model = la_model la;
          ((choice, aff), st1) = run_probes cx model session (rr_probes run) AFF_NONE st
      in case wait_result (rr_wait_end run) choice of
           WaitRaised \<Rightarrow> (Inl ProbeRaised, st1)
         | WaitCancelled w \<Rightarrow>
             (Inl (AdmissionCancelled w),
              append_log (log_entry la None LS_CANCELLED None False w aff (rr_t_done run)) st1)
         | WaitResult status None w \<Rightarrow>
             let st2 = (case session of
                          Some s \<Rightarrow> if status = TIMEOUT then update_affinity (forget s) st1 else st1
                        | None \<Rightarrow> st1)
             in (Inr (openai_error 503 TYPE_NO_REPLICA None),
                 append_log (log_entry la None LS_SHED None False w aff (rr_t_done run)) st2)
         | WaitResult status (Some c) w \<Rightarrow>
             let preq = \<lparr>pr_method = gr_method rq, pr_path = path, pr_body = body,
                         pr_content_type = (case gr_content_type rq of None \<Rightarrow> DEFAULT_MEDIA | Some ct \<Rightarrow> ct)\<rparr>;
                 (res, st2) = acquire cx preq (pb_stream (la_parsed la)) model c st1
             in (case res of
                   Inl e \<Rightarrow> (Inl (EscapedHttp e), st2)
                 | Inr r \<Rightarrow>
                     let st3 = (case session of
                                  None \<Rightarrow> st2
                                | Some s \<Rightarrow>
                                    (case r of
                                       Acquired a \<Rightarrow> update_affinity (remember (rr_t_remember run) s (aq_endpoint a)) st2
                                     | NoUpstream _ \<Rightarrow> update_affinity (forget s) st2))
                     in respond r la run w (ch_affinity c) st3))"

definition classify :: "collaborators \<Rightarrow> jobject \<Rightarrow> eligibility option" where
  "classify cx d = (if gx_eligibility_telemetry cx then Some (classify_eligibility d) else None)"

definition svc_proxy ::
  "collaborators \<Rightarrow> string \<Rightarrow> gw_request \<Rightarrow> api_key_info \<Rightarrow> string \<Rightarrow> request_run \<Rightarrow> gateway \<Rightarrow>
   (svc_exn + gw_response) \<times> gateway" where
  "svc_proxy cx path rq key bearer run st =
     (case parse_json_object (gx_loads cx) (gr_raw rq) of
        None \<Rightarrow> (Inr (openai_error 400 TYPE_INVALID_REQUEST None), st)
      | Some d \<Rightarrow>
          (case json_str (jget d ''model'') of
             None \<Rightarrow> (Inr (openai_error 400 TYPE_INVALID_REQUEST None), st)
           | Some model \<Rightarrow>
               let parsed = parsed_body_of d;
                   go = (\<lambda>parsed raw classified.
                     route cx path rq
                       \<lparr>la_key = key, la_model = model, la_parsed = parsed, la_t_submit = rr_t_submit run,
                        la_eligibility = classify cx classified\<rparr>
                       (derive_session_key (gx_sha cx) model (gr_session rq) bearer parsed) raw run st)
               in if \<not> allows key model then (Inr (openai_error 403 TYPE_INVALID_REQUEST None), st)
                  else if model \<notin> mm_model_id ` set (list_models (rr_db run))
                  then (Inr (openai_error 404 TYPE_MODEL_NOT_FOUND None), st)
                  else if validate_chat_body path d \<noteq> None
                  then (Inr (openai_error 400 TYPE_INVALID_REQUEST None), st)
                  else if path = CHAT_COMPLETIONS_PATH
                  then (case apply_rag d (gx_retriever cx) key of
                          Inl (RagRetrievalError status typ) \<Rightarrow> (Inr (openai_error status typ None), st)
                        | Inr None \<Rightarrow> go parsed (gr_raw rq) d
                        | Inr (Some (body, k)) \<Rightarrow> go (parsed\<lparr>pb_rag_k := Some k\<rparr>) (gx_dumps cx body) body)
                  else go parsed (gr_raw rq) d))"

section \<open>The route handlers\<close>

definition unauthorized :: gw_response where
  "unauthorized = openai_error 401 TYPE_INVALID_REQUEST None"

definition rate_limited :: "int \<Rightarrow> gw_response" where
  "rate_limited retry_after_s = openai_error 429 TYPE_RATE_LIMIT (Some retry_after_s)"

text \<open>The guards both kinds of route share: authentication, then the quota.\<close>

definition guarded ::
  "collaborators \<Rightarrow> gw_request \<Rightarrow> request_run \<Rightarrow> gateway \<Rightarrow>
   (api_key_info \<Rightarrow> gateway \<Rightarrow> (svc_exn + gw_response) \<times> gateway) \<Rightarrow> (svc_exn + gw_response) \<times> gateway" where
  "guarded cx rq run st k =
     (case authenticate cx (rr_db run) (gr_authorization rq) of
        None \<Rightarrow> (Inr unauthorized, st)
      | Some key \<Rightarrow>
          (case consume_quota key (rr_t_quota run) st of
             (st1, QuotaExceeded n) \<Rightarrow> (Inr (rate_limited n), st1)
           | (st1, ZeroDivision) \<Rightarrow> (Inl DivisionByZero, st1)
           | (st1, Allowed) \<Rightarrow> k key st1))"

definition router_proxy ::
  "collaborators \<Rightarrow> string \<Rightarrow> gw_request \<Rightarrow> request_run \<Rightarrow> gateway \<Rightarrow> (svc_exn + gw_response) \<times> gateway" where
  "router_proxy cx path rq run st =
     guarded cx rq run st (\<lambda>key st1.
       case extract_bearer (gr_authorization rq) of
         None \<Rightarrow> (Inl AssertionFailed, st1)
       | Some bearer \<Rightarrow> svc_proxy cx path rq key bearer run st1)"

definition router_list_models ::
  "collaborators \<Rightarrow> gw_request \<Rightarrow> request_run \<Rightarrow> gateway \<Rightarrow> (svc_exn + gw_response) \<times> gateway" where
  "router_list_models cx rq run st =
     guarded cx rq run st (\<lambda>key st1. (Inr (svc_list_models (rr_db run) (rr_t_submit run) key), st1))"

text \<open>The server iterates a streaming body to its end; other responses are already complete.\<close>

definition run_body :: "instant \<Rightarrow> gw_response \<Rightarrow> gateway \<Rightarrow> string list \<times> gateway" where
  "run_body now resp st =
     (case resp of
        StreamingBody ps \<Rightarrow>
          let (chunks, tr) = stream_body (ps_handle ps) (ps_hold ps) (gs_tracker st)
          in (chunks, append_log (ps_finalize ps now) (st\<lparr>gs_tracker := tr\<rparr>))
      | _ \<Rightarrow> ([], st))"

section \<open>What the retry loop hands back\<close>

lemma run_attempts_accounts: "loop_accounts tr (run_attempts try_once repick first tr)"
  by (simp add: run_attempts_def attempt_loop_accounts)

definition acquired_ok :: "acquired \<Rightarrow> bool" where
  "acquired_ok a \<longleftrightarrow>
     (if aq_stream a \<noteq> None \<or> aq_relay_stream a \<noteq> None then aq_hold a \<noteq> None
      else aq_hold a = None \<and> aq_buffered a \<noteq> None)"

lemma as_success_ok: "\<forall>p. out \<noteq> Retry p \<Longrightarrow> acquired_ok (fst (as_success out h ep r tr))"
  by (cases out) (simp_all add: as_success_def acquired_ok_def)

lemma exhausted_ok: "exhausted n l = Acquired a \<Longrightarrow> acquired_ok a"
  by (auto simp: exhausted_def acquired_ok_def split: option.splits)

lemma run_attempts_ok:
  assumes "fst (run_attempts try_once repick first tr) = Inr (Acquired a)"
  shows "acquired_ok a"
  using assms unfolding run_attempts_unrolled
  by (auto split: sum.splits try_outcome.splits option.splits intro: exhausted_ok simp: as_success_ok)

lemma run_attempts_served:
  assumes "fst (run_attempts try_once repick first tr) = Inr (Acquired a)"
  shows "aq_endpoint a = first \<or> repick {ep_key first} = Some (aq_endpoint a) \<and> aq_retried a"
  using assms unfolding run_attempts_unrolled
  by (auto split: sum.splits try_outcome.splits option.splits simp: exhausted_def as_success_def)

section \<open>One log entry, no slot kept\<close>

text \<open>The disposition the log must record for what the client was sent.\<close>

fun disposition :: "gw_response \<Rightarrow> log_status option" where
  "disposition (PlainBody p) = Some LS_SERVED"
| "disposition (StreamingBody s) = Some LS_SERVED"
| "disposition (ErrorBody n typ h) =
     (if n = 503 then Some LS_SHED else if n = 502 then Some LS_ERROR else None)"
| "disposition (ModelList ms) = None"

definition entry_for :: "log_args \<Rightarrow> gateway_log_entry \<Rightarrow> bool" where
  "entry_for la e \<longleftrightarrow>
     le_client_key_name e = ak_name (la_key la) \<and> le_model_id e = la_model la \<and>
     le_t_submit e = la_t_submit la \<and> le_prompt_chars e = pb_prompt_chars (la_parsed la) \<and>
     le_rag_k e = pb_rag_k (la_parsed la) \<and> le_eligibility e = la_eligibility la"

definition settled :: "instant \<Rightarrow> log_args \<Rightarrow> gateway \<Rightarrow> gw_response \<Rightarrow> gateway \<Rightarrow> bool" where
  "settled t la st resp st1 \<longleftrightarrow>
     (\<exists>e. gs_log (snd (run_body t resp st1)) = gs_log st @ [e] \<and> entry_for la e \<and>
          disposition resp = Some (le_status e)) \<and>
     (\<forall>k. outstanding (gs_tracker (snd (run_body t resp st1))) k = outstanding (gs_tracker st) k)"

lemma entry_for_log_entry [simp]: "entry_for la (log_entry la ag s tf r w aff td)"
  by (simp add: entry_for_def log_entry_def)

lemma log_entry_sels [simp]:
  "le_status (log_entry la ag s tf r w aff td) = s"
  "le_agent_id (log_entry la ag s tf r w aff td) = ag"
  by (simp_all add: log_entry_def)

lemma append_log_sels [simp]:
  "gs_log (append_log e st) = gs_log st @ [e]" "gs_tracker (append_log e st) = gs_tracker st"
  by (simp_all add: append_log_def)

lemma update_affinity_sels [simp]:
  "gs_log (update_affinity f st) = gs_log st" "gs_tracker (update_affinity f st) = gs_tracker st"
  by (simp_all add: update_affinity_def)

lemma settled_plain:
  assumes "\<forall>ps. resp \<noteq> StreamingBody ps" "entry_for la e" "disposition resp = Some (le_status e)"
    "gs_log st1 = gs_log st @ [e]" "\<forall>k. outstanding (gs_tracker st1) k = outstanding (gs_tracker st) k"
  shows "settled t la st resp st1"
proof -
  have "run_body t resp st1 = ([], st1)" using assms(1) by (cases resp) (simp_all add: run_body_def)
  then show ?thesis using assms by (simp add: settled_def)
qed

lemma settled_stream:
  assumes "loop_accounts (gs_tracker st) (Inr (Acquired a), gs_tracker st1)" "aq_hold a = Some h"
    "gs_log st1 = gs_log st"
  shows "settled t la st
    (StreamingBody \<lparr>ps_status_code = c, ps_media_type = m, ps_handle = sh, ps_hold = h,
       ps_finalize = log_entry la ag LS_SERVED tf r w aff\<rparr>) st1"
proof -
  have *: "h < length (if_holds (gs_tracker st1))"
      "if_holds (gs_tracker st1) ! h = (ep_key (aq_endpoint a), False)"
      "one_more (gs_tracker st) (gs_tracker st1) (ep_key (aq_endpoint a))"
    using assms(1,2) by (simp_all add: loop_accounts_def result_hold_def)
  have "outstanding (release h (gs_tracker st1)) k = outstanding (gs_tracker st) k" for k
    using outstanding_release [OF *(1,2), of k] *(3) unfolding one_more_def
    by (cases "k = ep_key (aq_endpoint a)") auto
  then show ?thesis using assms(3) by (simp add: settled_def run_body_def stream_body_def)
qed

lemma respond_settles:
  assumes acc: "loop_accounts (gs_tracker st) (Inr r, gs_tracker st1)" and log: "gs_log st1 = gs_log st"
    and ok: "\<forall>a. r = Acquired a \<longrightarrow> acquired_ok a"
  shows "\<exists>resp. fst (respond r la run w aff st1) = Inr resp \<and>
           settled t la st resp (snd (respond r la run w aff st1))"
proof (cases r)
  case (NoUpstream b)
  then show ?thesis
    using acc log by (auto simp: respond_def openai_error_def loop_accounts_def result_hold_def
        intro!: settled_plain [where e = "log_entry la None LS_ERROR None b w aff (rr_t_done run)"])
next
  case (Acquired a)
  have ok': "acquired_ok a" using ok Acquired by simp
  show ?thesis
  proof (cases "aq_stream a \<noteq> None \<or> aq_relay_stream a \<noteq> None")
    case True
    then obtain h where h: "aq_hold a = Some h" using ok' by (auto simp: acquired_ok_def)
    have eq: "respond r la run w aff st1 = stream a la run w aff st1"
      using Acquired True h by (simp add: respond_def)
    show ?thesis
      unfolding eq using True h settled_stream [OF acc [unfolded Acquired] h log]
      by (cases "aq_relay_stream a") (auto simp: stream_def Let_def)
  next
    case False
    then obtain p where p: "aq_hold a = None" "aq_buffered a = Some p"
      using ok' by (auto simp: acquired_ok_def)
    have eq: "respond r la run w aff st1 = buffered a la run w aff st1"
      using Acquired False by (simp add: respond_def)
    have same: "\<forall>k. outstanding (gs_tracker st1) k = outstanding (gs_tracker st) k"
      using acc Acquired p by (simp add: loop_accounts_def result_hold_def)
    show ?thesis
      unfolding eq using p log same
      by (auto simp: buffered_def sanitized_upstream_error_def openai_error_def intro!: settled_plain)
  qed
qed

lemma svc_resolve_sels [simp]:
  "gs_log (snd (svc_resolve cx m s v st)) = gs_log st"
  "gs_tracker (snd (svc_resolve cx m s v st)) = gs_tracker st"
  by (simp_all add: svc_resolve_def Let_def split: prod.split)

lemma run_probes_sels [simp]:
  "gs_log (snd (run_probes cx m s vs aff st)) = gs_log st"
  "gs_tracker (snd (run_probes cx m s vs aff st)) = gs_tracker st"
proof (induction cx m s vs aff st rule: run_probes.induct)
  case (2 cx m s v vs aff st)
  obtain c aff' st' where r: "svc_resolve cx m s v st = ((c, aff'), st')" by (metis surj_pair)
  have "gs_log st' = gs_log st" "gs_tracker st' = gs_tracker st"
    using svc_resolve_sels [of cx m s v st] r by simp_all
  moreover note "2.IH" [OF r [symmetric] refl]
  ultimately show "gs_log (snd (run_probes cx m s (v # vs) aff st)) = gs_log st"
    and "gs_tracker (snd (run_probes cx m s (v # vs) aff st)) = gs_tracker st"
    using r by simp_all
qed simp_all

lemma acquire_facts:
  assumes "acquire cx preq b m c st = (res, st1)"
  shows "loop_accounts (gs_tracker st) (res, gs_tracker st1)" "gs_log st1 = gs_log st"
    and "res = Inr (Acquired a) \<Longrightarrow> acquired_ok a"
    and "res = Inr (Acquired a) \<Longrightarrow>
           aq_endpoint a = ch_endpoint c \<or>
           make_repick (gx_pick cx) m (ch_candidates c) {ep_key (ch_endpoint c)} = Some (aq_endpoint a)"
proof -
  let ?once = "if b then gx_try_stream cx preq else gx_try_buffered cx preq"
  let ?run = "run_attempts ?once (make_repick (gx_pick cx) m (ch_candidates c)) (ch_endpoint c) (gs_tracker st)"
  have run: "?run = (res, gs_tracker st1)" and log: "gs_log st1 = gs_log st"
    using assms by (auto simp: acquire_def Let_def split: prod.splits)
  show "loop_accounts (gs_tracker st) (res, gs_tracker st1)"
    using run_attempts_accounts [of "gs_tracker st" ?once] unfolding run [symmetric] by blast
  show "gs_log st1 = gs_log st" by (fact log)
  show "acquired_ok a" if "res = Inr (Acquired a)"
    using run_attempts_ok [of ?once] run that by (metis fst_conv)
  show "aq_endpoint a = ch_endpoint c \<or>
      make_repick (gx_pick cx) m (ch_candidates c) {ep_key (ch_endpoint c)} = Some (aq_endpoint a)"
    if "res = Inr (Acquired a)"
    using run_attempts_served [of ?once] run that by (metis fst_conv)
qed

text \<open>The ways a routed request ends.\<close>

definition probe_result :: "collaborators \<Rightarrow> log_args \<Rightarrow> string option \<Rightarrow> request_run \<Rightarrow> gateway \<Rightarrow>
    (route_choice option \<times> affinity_state) \<times> gateway" where
  "probe_result cx la session run st = run_probes cx (la_model la) session (rr_probes run) AFF_NONE st"

lemma route_outcome:
  assumes "route cx path rq la session body run st = (x, st1)"
  obtains
    (raised) "x = Inl ProbeRaised" "st1 = snd (probe_result cx la session run st)"
  | (cancelled) w where "x = Inl (AdmissionCancelled w)"
      "st1 = append_log (log_entry la None LS_CANCELLED None False w
               (snd (fst (probe_result cx la session run st))) (rr_t_done run)) (snd (probe_result cx la session run st))"
  | (shed) w f where "x = Inr (openai_error 503 TYPE_NO_REPLICA None)"
      "st1 = append_log (log_entry la None LS_SHED None False w
               (snd (fst (probe_result cx la session run st))) (rr_t_done run))
               (update_affinity f (snd (probe_result cx la session run st)))"
  | (escaped) c preq e where "fst (fst (probe_result cx la session run st)) = Some c" "x = Inl (EscapedHttp e)"
      "acquire cx preq (pb_stream (la_parsed la)) (la_model la) c (snd (probe_result cx la session run st)) = (Inl e, st1)"
  | (answered) c preq r st2 f w where "fst (fst (probe_result cx la session run st)) = Some c"
      "acquire cx preq (pb_stream (la_parsed la)) (la_model la) c (snd (probe_result cx la session run st)) = (Inr r, st2)"
      "(x, st1) = respond r la run w (ch_affinity c) (update_affinity f st2)"
proof -
  obtain choice aff s1 where p: "probe_result cx la session run st = ((choice, aff), s1)" by (metis surj_pair)
  note p' = p [unfolded probe_result_def]
  have upd: "\<exists>f. (if b then update_affinity g s else s) = update_affinity f s" for b g s
  proof (cases b)
    case False
    have "s = update_affinity (\<lambda>a. a) s" by (simp add: update_affinity_def)
    then show ?thesis using False by auto
  qed auto
  show thesis
  proof (cases "wait_result (rr_wait_end run) choice")
    case WaitRaised
    then show thesis using raised assms p' p by (simp add: route_def Let_def)
  next
    case (WaitCancelled w)
    then show thesis using cancelled [of w] assms p' p by (simp add: route_def Let_def)
  next
    case (WaitResult status v w)
    show thesis
    proof (cases v)
      case None
      let ?b = "session \<noteq> None \<and> status = TIMEOUT"
      obtain f where f: "(if ?b then update_affinity (forget (the session)) s1 else s1) = update_affinity f s1"
        using upd by blast
      have "x = Inr (openai_error 503 TYPE_NO_REPLICA None)"
        "st1 = append_log (log_entry la None LS_SHED None False w aff (rr_t_done run))
           (if ?b then update_affinity (forget (the session)) s1 else s1)"
        using assms p' WaitResult None by (auto simp: route_def Let_def split: option.splits)
      then show thesis using shed [of w f] f p by simp
    next
      case (Some c)
      have c: "choice = Some c"
        using WaitResult Some by (auto simp: wait_result_def split: wait_outcome.splits
            admission_status.splits option.splits)
      let ?preq = "\<lparr>pr_method = gr_method rq, pr_path = path, pr_body = body,
          pr_content_type = (case gr_content_type rq of None \<Rightarrow> DEFAULT_MEDIA | Some ct \<Rightarrow> ct)\<rparr>"
      obtain res s2 where a: "acquire cx ?preq (pb_stream (la_parsed la)) (la_model la) c s1 = (res, s2)"
        by (metis surj_pair)
      show thesis
      proof (cases res)
        case (Inl e)
        then show thesis using escaped [of c e ?preq] assms p' p WaitResult Some c a by (simp add: route_def Let_def)
      next
        case (Inr r)
        let ?g = "case r of Acquired a \<Rightarrow> remember (rr_t_remember run) (the session) (aq_endpoint a)
                  | NoUpstream _ \<Rightarrow> forget (the session)"
        obtain f where f: "(if session \<noteq> None then update_affinity ?g s2 else s2) = update_affinity f s2"
          using upd by blast
        have "(x, st1) = respond r la run w (ch_affinity c) (if session \<noteq> None then update_affinity ?g s2 else s2)"
          using assms p' WaitResult Some a Inr
          by (cases session; cases r) (simp_all add: route_def Let_def)
        then show thesis using answered [of c ?preq r s2 w f] p c a Inr f by simp
      qed
    qed
  qed
qed

lemma probe_result_sels [simp]:
  "gs_log (snd (probe_result cx la s run st)) = gs_log st"
  "gs_tracker (snd (probe_result cx la s run st)) = gs_tracker st"
  by (simp_all add: probe_result_def)

text \<open>C19: A routed request that answers writes exactly one log entry, after its body has been sent, with
  the request's key, model, prompt size and the disposition of the response (served for a body or
  stream, shed for the 503, error for the 502), and keeps no in-flight slot: every replica's count
  is what it was before, whether or not there was a retry.\<close>

theorem routed_request_settles:
  assumes "route cx path rq la session body run st = (Inr resp, st1)"
  shows "settled t la st resp st1"
  using assms
proof (cases rule: route_outcome)
  case (shed w f)
  then show ?thesis by (auto simp: openai_error_def intro!: settled_plain)
next
  case (answered c preq r st2 f w)
  note acq = acquire_facts [OF answered(2)]
  have "loop_accounts (gs_tracker st) (Inr r, gs_tracker (update_affinity f st2))"
    "gs_log (update_affinity f st2) = gs_log st"
    using acq(1,2) by simp_all
  then obtain resp' where "fst (respond r la run w (ch_affinity c) (update_affinity f st2)) = Inr resp'"
    "settled t la st resp' (snd (respond r la run w (ch_affinity c) (update_affinity f st2)))"
    using respond_settles [of st r "update_affinity f st2" la run w "ch_affinity c" t] acq(3) by blast
  then show ?thesis using answered(3) by (metis Inr_inject fst_conv snd_conv)
qed simp_all

text \<open>C29: How a routed request can fail instead of answering. A cancelled wait writes one cancelled
  entry and holds no slot; a failed probe writes nothing and holds no slot. An exception of the
  transport that is not one of the retryable ones escapes with no log entry and leaves one slot of
  the dialled replica held: its in-flight count stays one too high. No assertion fails.\<close>

theorem escaped_exception_leaks_slot:
  assumes "route cx path rq la session body run st = (Inl x, st1)"
  shows "case x of
      EscapedHttp e \<Rightarrow> gs_log st1 = gs_log st \<and> (\<exists>k. one_more (gs_tracker st) (gs_tracker st1) k)
    | AdmissionCancelled w \<Rightarrow>
        gs_tracker st1 = gs_tracker st \<and>
        (\<exists>e. gs_log st1 = gs_log st @ [e] \<and> entry_for la e \<and> le_status e = LS_CANCELLED)
    | ProbeRaised \<Rightarrow> gs_tracker st1 = gs_tracker st \<and> gs_log st1 = gs_log st
    | _ \<Rightarrow> False"
  using assms
proof (cases rule: route_outcome)
  case (escaped c preq e)
  note acq = acquire_facts [OF escaped(3)]
  have "\<exists>k. one_more (gs_tracker st) (gs_tracker st1) k" using acq(1) by (simp add: loop_accounts_def)
  then show ?thesis using escaped acq(2) by simp
next
  case (answered c preq r st2 f w)
  note acq = acquire_facts [OF answered(2)]
  have "loop_accounts (gs_tracker st) (Inr r, gs_tracker (update_affinity f st2))"
    "gs_log (update_affinity f st2) = gs_log st"
    using acq(1,2) by simp_all
  then have "\<exists>resp. fst (respond r la run w (ch_affinity c) (update_affinity f st2)) = Inr resp"
    using respond_settles [of st r "update_affinity f st2" la run w "ch_affinity c"] acq(3) by blast
  then show ?thesis using answered(3) by (metis Inl_Inr_False fst_conv)
qed auto

section \<open>Who serves\<close>

lemma enrich_member: "e \<in> set (enrich tr eps) \<Longrightarrow> \<exists>e' \<in> set eps. re_agent_id e = re_agent_id e'"
  by (auto simp: enrich_def)

lemma resolve_member:
  assumes "resolve now s cands pick b m = (m', Some ep, state)"
    and "\<And>e. pick cands = Some e \<Longrightarrow> e \<in> set cands"
  shows "ep \<in> set cands"
  using assms by (auto simp: resolve_def Let_def find_Some_iff split: option.splits if_splits)

lemma respond_agent:
  assumes "respond r la run w aff s1 = (Inr resp, st1)" "gs_log s1 = gs_log st"
    "gs_log (snd (run_body t resp st1)) = gs_log st @ [e]" "le_agent_id e = Some aid"
  shows "\<exists>a. r = Acquired a \<and> aid = re_agent_id (aq_endpoint a)"
proof (cases r)
  case (NoUpstream b)
  then show ?thesis using assms by (auto simp: respond_def run_body_def openai_error_def)
next
  case (Acquired a)
  have "aid = re_agent_id (aq_endpoint a)"
    using assms Acquired
    by (auto simp: respond_def stream_def buffered_def Let_def run_body_def openai_error_def stream_body_def
        sanitized_upstream_error_def split: if_splits option.splits)
  then show ?thesis using Acquired by simp
qed

context scheduler_policy
begin

lemma repick_member: "make_repick pick m cands tried = Some e \<Longrightarrow> e \<in> set cands \<and> ep_key e \<notin> tried"
  by (auto simp: make_repick_def dest!: pick_Some)

lemma svc_resolve_candidates:
  assumes "gx_pick cx = pick" "svc_resolve cx m s (db, tq, ta) st = ((Some c, aff), st')"
  shows "ch_endpoint c \<in> set (ch_candidates c) \<and>
    ch_candidates c = enrich (gs_tracker st) (replica_endpoints (gx_registry_cfg cx) m tq db)"
proof -
  let ?eps = "enrich (gs_tracker st) (replica_endpoints (gx_registry_cfg cx) m tq db)"
  obtain aff' ep st'' where r: "resolve ta s ?eps (pick m) True (gs_affinity st) = (aff', ep, st'')"
    by (metis surj_pair)
  with assms obtain e where e: "ep = Some e" "c = \<lparr>ch_endpoint = e, ch_candidates = ?eps, ch_affinity = st''\<rparr>"
    by (auto simp: svc_resolve_def Let_def)
  have "e \<in> set ?eps" by (rule resolve_member [OF r [unfolded e(1)]]) (blast dest: pick_Some)
  then show ?thesis using e by simp
qed

lemma run_probes_candidates:
  assumes "gx_pick cx = pick" "fst (fst (run_probes cx m s vs aff st)) = Some c"
  shows "ch_endpoint c \<in> set (ch_candidates c) \<and>
    (\<exists>(db, tq, ta) \<in> set vs. \<exists>tr. ch_candidates c = enrich tr (replica_endpoints (gx_registry_cfg cx) m tq db))"
  using assms
proof (induction cx m s vs aff st rule: run_probes.induct)
  case (2 cx m s v vs aff st)
  obtain c' aff' st' where r: "svc_resolve cx m s v st = ((c', aff'), st')" by (metis surj_pair)
  obtain db tq ta where v: "v = (db, tq, ta)" by (metis surj_pair)
  show ?case
  proof (cases c')
    case None
    then have "fst (fst (run_probes cx m s vs aff' st')) = Some c" using "2.prems"(2) r by simp
    then show ?thesis using "2.IH" [OF r [symmetric] refl] None "2.prems"(1) by auto
  next
    case (Some d)
    then have "d = c" using "2.prems"(2) r by simp
    then show ?thesis
      using svc_resolve_candidates [OF "2.prems"(1) r [unfolded v Some]] v by auto
  qed
qed simp

lemma acquired_candidate:
  assumes "gx_pick cx = pick" "acquire cx preq b m c st = (Inr (Acquired a), st1)"
    "ch_endpoint c \<in> set (ch_candidates c)"
  shows "aq_endpoint a \<in> set (ch_candidates c)"
proof -
  have "aq_endpoint a = ch_endpoint c \<or> make_repick pick m (ch_candidates c) {ep_key (ch_endpoint c)} = Some (aq_endpoint a)"
    using acquire_facts(4) [OF assms(2) refl] assms(1) by simp
  then show ?thesis using assms(3) repick_member by auto
qed

lemma served_ready:
  assumes pk: "gx_pick cx = pick" and rt: "route cx path rq la session body run st = (Inr resp, st1)"
    and lg: "gs_log (snd (run_body t resp st1)) = gs_log st @ [e]" and ag: "le_agent_id e = Some aid"
  shows "\<exists>(db, tq, ta) \<in> set (rr_probes run).
    aid \<in> re_agent_id ` set (replica_endpoints (gx_registry_cfg cx) (la_model la) tq db)"
  using rt
proof (cases rule: route_outcome)
  case (shed w f)
  then show ?thesis using lg ag by (auto simp: run_body_def openai_error_def)
next
  case (answered c preq r st2 f w)
  have l2: "gs_log (update_affinity f st2) = gs_log st" using acquire_facts(2) [OF answered(2)] by simp
  obtain a where a: "r = Acquired a" "aid = re_agent_id (aq_endpoint a)"
    using respond_agent [OF answered(3) [symmetric] l2 lg ag] by blast
  note cand = run_probes_candidates [OF pk answered(1) [unfolded probe_result_def]]
  have "aq_endpoint a \<in> set (ch_candidates c)"
    using acquired_candidate [OF pk answered(2) [unfolded a]] cand by blast
  with cand a(2) show ?thesis by (fastforce dest: enrich_member)
qed simp_all

end

lemma ready_agent_row:
  assumes "aid \<in> re_agent_id ` set (replica_endpoints cfg m tq db)"
  shows "\<exists>r \<in> set (registry_agents db). a_agent_id r = aid \<and> a_revoked_at r = None \<and> a_state r = IDLE \<and>
    \<not> a_serving_paused r \<and> tq \<le> a_last_seen r + rc_suspect_after_s cfg \<and>
    (\<exists>p \<in> set (a_replicas r). rs_model_id p = m \<and> rs_state p = READY)"
  using assms by (auto elim!: replica_endpointsD)

text \<open>C20: Whoever the log names as having served a request is an agent that, at one of the request's
  own probes, was enrolled and not revoked, heard from within the suspect threshold, idle, not
  paused, and reported a ready replica of the requested model. This holds for the least-inflight and
  the round-robin pick, through affinity, enrichment, admission and the retry.\<close>

theorem served_by_ready_agent:
  assumes "gx_pick cx = least_inflight \<or> gx_pick cx = (\<lambda>m rs. fst (rr_pick_replica n m rs))"
    and "route cx path rq la session body run st = (Inr resp, st1)"
    and "gs_log (snd (run_body t resp st1)) = gs_log st @ [e]" and "le_agent_id e = Some aid"
  shows "\<exists>(db, tq, ta) \<in> set (rr_probes run). \<exists>r \<in> set (registry_agents db).
    a_agent_id r = aid \<and> a_revoked_at r = None \<and> a_state r = IDLE \<and> \<not> a_serving_paused r \<and>
    tq \<le> a_last_seen r + rc_suspect_after_s (gx_registry_cfg cx) \<and>
    (\<exists>p \<in> set (a_replicas r). rs_model_id p = la_model la \<and> rs_state p = READY)"
proof -
  have "\<exists>(db, tq, ta) \<in> set (rr_probes run).
      aid \<in> re_agent_id ` set (replica_endpoints (gx_registry_cfg cx) (la_model la) tq db)"
    using assms(1) capability.served_ready [OF _ assms(2-4)] round_robin.served_ready [OF _ assms(2-4)]
    by blast
  then obtain db tq ta where v: "(db, tq, ta) \<in> set (rr_probes run)"
      "aid \<in> re_agent_id ` set (replica_endpoints (gx_registry_cfg cx) (la_model la) tq db)"
    by auto
  show ?thesis using bexI [OF _ v(1)] ready_agent_row [OF v(2)] by simp
qed

section \<open>The guards\<close>

definition routing_unchanged :: "gateway \<Rightarrow> gateway \<Rightarrow> bool" where
  "routing_unchanged st st1 \<longleftrightarrow>
     gs_log st1 = gs_log st \<and> gs_tracker st1 = gs_tracker st \<and> gs_affinity st1 = gs_affinity st"

lemma consume_quota_unchanged: "routing_unchanged st (fst (consume_quota key now st))"
  by (simp add: consume_quota_def routing_unchanged_def split: option.split prod.split)

lemma svc_proxy_outcome:
  assumes "svc_proxy cx path rq key bearer run st = (x, st1)"
  shows "(\<exists>status typ. x = Inr (ErrorBody status typ None) \<and> st1 = st) \<or>
    (\<exists>model la session body. allows key model \<and> model \<in> mm_model_id ` set (list_models (rr_db run)) \<and>
       la_key la = key \<and> la_model la = model \<and> route cx path rq la session body run st = (x, st1))"
  using assms
  by (simp add: svc_proxy_def Let_def openai_error_def split: option.splits sum.splits rag_error.splits if_splits) fastforce+

text \<open>C21: Nothing is routed before the guards pass: either the request presents a bearer that
  authenticates as a key whose quota admits it, with a model on that key's allowlist and in the
  catalogue, and the outcome is the router's; or the answer is an error and the log, the in-flight
  counts and the affinity map are untouched.\<close>

theorem nothing_routed_before_guards:
  assumes "router_proxy cx path rq run st = (x, st1)"
  shows "routing_unchanged st st1 \<and>
      (x = Inl DivisionByZero \<or> (\<exists>status typ h. x = Inr (ErrorBody status typ h))) \<or>
    (\<exists>bearer key la session body.
       extract_bearer (gr_authorization rq) = Some bearer \<and>
       authenticate_api_key (gx_sha cx) (gx_registry_cfg cx) bearer (rr_db run) = Some key \<and>
       snd (consume_quota key (rr_t_quota run) st) = Allowed \<and> la_key la = key \<and> allows key (la_model la) \<and>
       la_model la \<in> mm_model_id ` set (list_models (rr_db run)) \<and>
       route cx path rq la session body run (fst (consume_quota key (rr_t_quota run) st)) = (x, st1))"
proof (cases "extract_bearer (gr_authorization rq)")
  case None
  then show ?thesis
    using assms by (auto simp: router_proxy_def guarded_def authenticate_def routing_unchanged_def
        unauthorized_def openai_error_def)
next
  case (Some bearer)
  let ?auth = "authenticate_api_key (gx_sha cx) (gx_registry_cfg cx) bearer (rr_db run)"
  show ?thesis
  proof (cases ?auth)
    case None
    then show ?thesis
      using assms Some by (auto simp: router_proxy_def guarded_def authenticate_def routing_unchanged_def
          unauthorized_def openai_error_def)
  next
    case (Some key)
    obtain s1 out where q: "consume_quota key (rr_t_quota run) st = (s1, out)" by (metis surj_pair)
    have un: "routing_unchanged st s1" using consume_quota_unchanged [of st key "rr_t_quota run"] q by simp
    show ?thesis
    proof (cases "out = Allowed")
      case True
      then have "svc_proxy cx path rq key bearer run s1 = (x, st1)"
        using assms Some q \<open>extract_bearer _ = Some bearer\<close>
        by (simp add: router_proxy_def guarded_def authenticate_def)
      from svc_proxy_outcome [OF this] show ?thesis
        using un Some q True \<open>extract_bearer _ = Some bearer\<close> by fastforce
    next
      case False
      then show ?thesis
        using assms Some q un \<open>extract_bearer _ = Some bearer\<close>
        by (cases out) (auto simp: router_proxy_def guarded_def authenticate_def rate_limited_def openai_error_def)
    qed
  qed
qed

section \<open>A concrete request\<close>

definition gw_db0 :: registry_db where
  "gw_db0 = heartbeats [(6, ''A'', hb0)] rdb1"

definition gw_ep0 :: replica_endpoint where
  "gw_ep0 = \<lparr>re_agent_id = ''A'', re_host = ''10.0.0.1'', re_port = 8000, re_model_id = ''m'', re_inflight = 0\<rparr>"

definition gw_answer :: pass_through where
  "gw_answer = \<lparr>pt_status_code = 200, pt_body = ''ok'', pt_media_type = DEFAULT_MEDIA\<rparr>"

definition gw_cx :: "(http_exn + try_outcome) \<Rightarrow> collaborators" where
  "gw_cx out = \<lparr>gx_registry_cfg = rcfg0, gx_sha = id, gx_loads = (\<lambda>_. None), gx_dumps = (\<lambda>_. []),
     gx_pick = least_inflight, gx_try_buffered = (\<lambda>_ _ _. out), gx_try_stream = (\<lambda>_ _ _. out),
     gx_retriever = None, gx_eligibility_telemetry = False\<rparr>"

definition gw_la0 :: log_args where
  "gw_la0 = \<lparr>la_key = \<lparr>ak_name = ''k'', ak_key_id = ''k'', ak_model_allowlist = None, ak_rpm_limit = None,
       ak_daily_limit = None, ak_is_admin = False\<rparr>, la_model = ''m'', la_parsed = parsed_body_of [],
     la_t_submit = 6, la_eligibility = None\<rparr>"

definition gw_rq0 :: gw_request where
  "gw_rq0 = \<lparr>gr_method = ''POST'', gr_authorization = None, gr_session = None, gr_content_type = None,
     gr_raw = []\<rparr>"

definition gw_run0 :: request_run where
  "gw_run0 = \<lparr>rr_t_quota = 6, rr_t_submit = 6, rr_db = gw_db0, rr_probes = [(gw_db0, 6, 6)],
     rr_wait_end = WaitResult ADMITTED None 0, rr_t_remember = 7, rr_t_first = 7, rr_t_done = 8\<rparr>"

definition gw_st0 :: gateway where
  "gw_st0 = \<lparr>gs_tracker = InflightTracker, gs_affinity = \<lparr>af_ttl = 1800, af_max = 10000, af_entries = []\<rparr>,
     gs_log = [], gs_quotas = None\<rparr>"

lemma gw_endpoints0: "replica_endpoints rcfg0 ''m'' 6 gw_db0 = [gw_ep0]"
  by (simp add: gw_db0_def gw_ep0_def rdb1_eq INSERT_AGENT_def heartbeats_def record_heartbeat_def hb0_def update_agent_def
      update_where_def replica_endpoints_def ready_endpoints_for_row_def heartbeat_fresh_def
      rcfg0_def registry_config_default_def age_s_def DEFAULT_SUSPECT_AFTER_S_def)

lemma gw_probe0:
  "run_probes (gw_cx out) ''m'' None [(gw_db0, 6, 6)] AFF_NONE gw_st0 =
     ((Some \<lparr>ch_endpoint = gw_ep0, ch_candidates = [gw_ep0], ch_affinity = AFF_NONE\<rparr>, AFF_NONE), gw_st0)"
  by (simp add: svc_resolve_def Let_def gw_cx_def gw_endpoints0 enrich_def gw_st0_def if_count_def
      InflightTracker_def resolve_def gw_ep0_def least_inflight_def replicas_for_def)

lemma gw_route0:
  "route (gw_cx (Inr (Passed gw_answer))) ''/v1/embeddings'' gw_rq0 gw_la0 None [] gw_run0 gw_st0 =
     (Inr (PlainBody gw_answer),
      append_log (log_entry gw_la0 (Some ''A'') LS_SERVED (Some 7) False 0 AFF_NONE 8)
        (gw_st0\<lparr>gs_tracker := release 0 (snd (hold (''10.0.0.1'', 8000) InflightTracker))\<rparr>))"
proof -
  have "la_model gw_la0 = ''m''" "rr_probes gw_run0 = [(gw_db0, 6, 6)]"
    by (simp_all add: gw_la0_def gw_run0_def)
  then show ?thesis
    unfolding route_def Let_def
    by (simp only: gw_probe0 prod.case) (simp add: gw_run0_def wait_result_def acquire_def gw_cx_def run_attempts_def
        MAX_ATTEMPTS_def numeral_2_eq_2 gw_ep0_def gw_st0_def hold_def InflightTracker_def Let_def
        as_success_def respond_def buffered_def gw_answer_def SERVER_ERROR_def gw_la0_def)
qed

theorem routed_request_settles_witness:
  "\<exists>resp st1. route (gw_cx (Inr (Passed gw_answer))) ''/v1/embeddings'' gw_rq0 gw_la0 None [] gw_run0 gw_st0 =
     (Inr resp, st1) \<and> settled 9 gw_la0 gw_st0 resp st1 \<and> disposition resp = Some LS_SERVED"
  using routed_request_settles [OF gw_route0, of 9] gw_route0 by auto

lemma gw_route_escape:
  "fst (route (gw_cx (Inl HTTPError)) ''/v1/embeddings'' gw_rq0 gw_la0 None [] gw_run0 gw_st0) =
     Inl (EscapedHttp HTTPError)"
proof -
  have "la_model gw_la0 = ''m''" "rr_probes gw_run0 = [(gw_db0, 6, 6)]"
    by (simp_all add: gw_la0_def gw_run0_def)
  then show ?thesis
    unfolding route_def Let_def
    by (simp only: gw_probe0 prod.case) (simp add: gw_run0_def wait_result_def acquire_def gw_cx_def run_attempts_def
        MAX_ATTEMPTS_def numeral_2_eq_2 gw_ep0_def gw_st0_def hold_def InflightTracker_def Let_def gw_la0_def)
qed

theorem escaped_exception_leaks_slot_witness:
  "\<exists>st1 k. route (gw_cx (Inl HTTPError)) ''/v1/embeddings'' gw_rq0 gw_la0 None [] gw_run0 gw_st0 =
      (Inl (EscapedHttp HTTPError), st1) \<and> gs_log st1 = [] \<and> outstanding (gs_tracker st1) k = 1"
proof -
  obtain st1 where r: "route (gw_cx (Inl HTTPError)) ''/v1/embeddings'' gw_rq0 gw_la0 None [] gw_run0 gw_st0 =
      (Inl (EscapedHttp HTTPError), st1)"
    using gw_route_escape by (metis prod.collapse)
  have empty: "gs_log gw_st0 = []" "outstanding (gs_tracker gw_st0) k = 0" for k
    by (simp_all add: gw_st0_def InflightTracker_def outstanding_def)
  show ?thesis
    using escaped_exception_leaks_slot [OF r] r empty by (force simp: one_more_def)
qed

theorem served_by_ready_agent_witness:
  "\<exists>r \<in> set (registry_agents gw_db0). a_agent_id r = ''A'' \<and> a_state r = IDLE"
proof -
  let ?e = "log_entry gw_la0 (Some ''A'') LS_SERVED (Some 7) False 0 AFF_NONE 8"
  have *: "gx_pick (gw_cx (Inr (Passed gw_answer))) = least_inflight" by (simp add: gw_cx_def)
  have l: "gs_log (snd (run_body 9 (PlainBody gw_answer) (append_log ?e (gw_st0\<lparr>gs_tracker := tr\<rparr>)))) =
      gs_log gw_st0 @ [?e]" for tr
    by (simp add: run_body_def)
  have "\<exists>(db, tq, ta) \<in> set (rr_probes gw_run0). \<exists>r \<in> set (registry_agents db). a_agent_id r = ''A'' \<and> a_state r = IDLE"
    using served_by_ready_agent [OF disjI1 [OF *] gw_route0 l, of "''A''"] by fastforce
  then show ?thesis by (simp add: gw_run0_def)
qed

theorem nothing_routed_before_guards_witness:
  "routing_unchanged gw_st0 (snd (router_proxy (gw_cx (Inl HTTPError)) ''/v1/embeddings'' gw_rq0 gw_run0 gw_st0))"
proof -
  let ?r = "router_proxy (gw_cx (Inl HTTPError)) ''/v1/embeddings'' gw_rq0 gw_run0 gw_st0"
  have "extract_bearer (gr_authorization gw_rq0) = None" by (simp add: gw_rq0_def extract_bearer_def)
  then show ?thesis
    using nothing_routed_before_guards [of "gw_cx (Inl HTTPError)" "''/v1/embeddings''" gw_rq0 gw_run0 gw_st0 "fst ?r" "snd ?r"]
    by simp
qed

end
