(* ===== verification/Py_Text.thy ===== *)
theory Py_Text
  imports Gw_Body
begin

text \<open>
  What the sources use of Python's text functions: slices of a buffer, \<open>int\<close> of a string, the text
  \<open>json.dumps\<close> writes for strings and lists of strings, and hexadecimal digests, with the facts that the
  written text determines the value.
\<close>

section \<open>Slices\<close>

text \<open>The slices of a buffer at every multiple of a size.\<close>

function slices :: "nat \<Rightarrow> 'a list \<Rightarrow> 'a list list" where
  "slices n xs = (if n = 0 \<or> xs = [] then [] else take n xs # slices n (drop n xs))"
  by pat_completeness auto
termination by (relation "measure (\<lambda>(n, xs). length xs)") auto

declare slices.simps [simp del]

lemma concat_slices: "0 < n \<Longrightarrow> concat (slices n xs) = xs"
  by (induction n xs rule: slices.induct) (subst slices.simps, auto)

lemma slices_nonempty: "ys \<in> set (slices n xs) \<Longrightarrow> ys \<noteq> [] \<and> length ys \<le> n"
  by (induction n xs rule: slices.induct) (subst (asm) (2) slices.simps, auto split: if_splits)

lemma concat_map_slices: "0 < n \<Longrightarrow> concat (concat (map (slices n) xss)) = concat xss"
  by (induction xss) (simp_all add: concat_slices)

section \<open>Integers\<close>

text \<open>\<open>int\<close> on a string: surrounding space, a sign, digits with single underscores between them, and the
  interpreter's limit of 4300 digits. \<open>None\<close> is \<open>ValueError\<close>.\<close>

fun parse_digits :: "int \<Rightarrow> string \<Rightarrow> int option" where
  "parse_digits n [] = Some n"
| "parse_digits n (ch # cs) =
     (if is_digit ch then parse_digits (10 * n + int (of_char ch) - 48) cs
      else if ch = CHR ''_'' \<and> cs \<noteq> [] \<and> is_digit (hd cs) then parse_digits n cs
      else None)"

definition py_int :: "string \<Rightarrow> int option" where
  "py_int str =
     (let t = py_strip str;
          neg = (t \<noteq> [] \<and> hd t = CHR ''-'');
          ds = (if t \<noteq> [] \<and> hd t \<in> set ''+-'' then tl t else t)
      in if ds = [] \<or> \<not> is_digit (hd ds) \<or> 4300 < length (filter is_digit ds) then None
         else map_option (\<lambda>n. if neg then - n else n) (parse_digits 0 ds))"

section \<open>JSON text\<close>

text \<open>\<open>json.dumps\<close> of a list of strings: escapes, ASCII output, a separator between items.\<close>

definition hex_digit :: "nat \<Rightarrow> char" where
  "hex_digit n = ''0123456789abcdef'' ! (n mod 16)"

definition escape_char :: "char \<Rightarrow> string" where
  "escape_char ch =
     (if ch = CHR 0x22 then [CHR 0x5C, CHR 0x22]
      else if ch = CHR 0x5C then [CHR 0x5C, CHR 0x5C]
      else if ch = CHR 0x0A then [CHR 0x5C, CHR ''n'']
      else if ch = CHR 0x0D then [CHR 0x5C, CHR ''r'']
      else if ch = CHR 0x09 then [CHR 0x5C, CHR ''t'']
      else if ch = CHR 0x0C then [CHR 0x5C, CHR ''f'']
      else if ch = CHR 0x08 then [CHR 0x5C, CHR ''b'']
      else if of_char ch \<in> {32..126 :: nat} then [ch]
      else [CHR 0x5C, CHR ''u'', CHR ''0'', CHR ''0'', hex_digit (of_char ch div 16), hex_digit (of_char ch)])"

definition dumps_string :: "string \<Rightarrow> string" where
  "dumps_string t = CHR 0x22 # concat (map escape_char t) @ [CHR 0x22]"

fun dumps_items :: "string \<Rightarrow> string list \<Rightarrow> string" where
  "dumps_items sep [] = '']''"
| "dumps_items sep [t] = dumps_string t @ '']''"
| "dumps_items sep (t # ts) = dumps_string t @ sep @ dumps_items sep ts"

definition dumps_strings :: "string list \<Rightarrow> string" where
  "dumps_strings ts = ''['' @ dumps_items '', '' ts"

text \<open>The text determines the strings, whatever follows it.\<close>

lemma hex_digit_inj: "hex_digit m = hex_digit n \<Longrightarrow> m mod 16 = n mod 16"
proof -
  assume a: "hex_digit m = hex_digit n"
  have "distinct ''0123456789abcdef''" by simp
  then show ?thesis
    using a nth_eq_iff_index_eq [of "''0123456789abcdef''" "m mod 16" "n mod 16"] by (simp add: hex_digit_def)
qed

lemma hex_pair_inj:
  assumes "hex_digit (of_char x div 16) = hex_digit (of_char y div 16)" "hex_digit (of_char x) = hex_digit (of_char y)"
  shows "x = y"
proof -
  have l: "of_char ch div 16 < (16 :: nat)" for ch :: char
  proof -
    have "of_char ch < (256 :: nat)" by (cases ch) (simp add: of_char_def split: if_splits)
    then show ?thesis by (intro less_mult_imp_div_less) simp
  qed
  have "of_char x div 16 mod 16 = (of_char y div 16 mod 16 :: nat)" "of_char x mod 16 = (of_char y mod 16 :: nat)"
    using assms hex_digit_inj by blast+
  then have "of_char x div 16 = (of_char y div 16 :: nat)" using l by simp
  then have "of_char x = (of_char y :: nat)"
    using \<open>of_char x mod 16 = (of_char y mod 16 :: nat)\<close> by (metis div_mult_mod_eq)
  then show ?thesis by simp
qed

text \<open>No escape starts another, and none starts with a quote.\<close>

lemma escape_char_unique: "escape_char x @ u = escape_char y @ v \<Longrightarrow> x = y \<and> u = v"
  unfolding escape_char_def by (auto split: if_splits dest: hex_pair_inj)

lemma escape_char_quote: "escape_char x \<noteq> [] \<and> hd (escape_char x) \<noteq> CHR 0x22"
  by (simp add: escape_char_def)

lemma dumps_string_unique: "dumps_string t @ u = dumps_string t' @ v \<Longrightarrow> t = t' \<and> u = v"
proof (induction t arbitrary: t')
  case Nil
  then show ?case
    using escape_char_quote by (cases t') (auto simp: dumps_string_def, metis append_Cons append_is_Nil_conv hd_append list.sel(1))
next
  case (Cons x xs)
  then show ?case
  proof (cases t')
    case Nil
    then show ?thesis using Cons.prems escape_char_quote [of x]
      by (auto simp: dumps_string_def) (metis append_Cons append_is_Nil_conv hd_append list.sel(1))
  next
    case (Cons y ys)
    have e: "escape_char x @ (concat (map escape_char xs) @ CHR 0x22 # u) =
        escape_char y @ (concat (map escape_char ys) @ CHR 0x22 # v)"
      using Cons.prems Cons by (simp add: dumps_string_def)
    from escape_char_unique [OF this] have "x = y"
      "dumps_string xs @ u = dumps_string ys @ v" by (simp_all add: dumps_string_def)
    then show ?thesis using Cons.IH [of ys] Cons by simp
  qed
qed

lemma dumps_items_unique:
  assumes "sep = CHR '','' # s"
  shows "dumps_items sep ts @ u = dumps_items sep ts' @ v \<Longrightarrow> ts = ts' \<and> u = v"
proof (induction ts arbitrary: ts' rule: induct_list012)
  case 1
  then show ?case by (cases ts' rule: remdups_adj.cases) (auto simp: dumps_string_def)
next
  case (2 t)
  show ?case
  proof (cases ts' rule: remdups_adj.cases)
    case (2 t')
    then show ?thesis using "2.prems" dumps_string_unique [of t "'']'' @ u" t' "'']'' @ v"] by simp
  next
    case (3 t' z zs)
    then show ?thesis
      using "2.prems" dumps_string_unique [of t "'']'' @ u" t' "sep @ dumps_items sep (z # zs) @ v"] assms by simp
  qed (use "2.prems" in \<open>simp add: dumps_string_def\<close>)
next
  case (3 t y ys)
  show ?case
  proof (cases ts' rule: remdups_adj.cases)
    case (2 t')
    then show ?thesis
      using "3.prems" dumps_string_unique [of t "sep @ dumps_items sep (y # ys) @ u" t' "'']'' @ v"] assms by simp
  next
    case (3 t' z zs)
    then have "t = t' \<and> sep @ dumps_items sep (y # ys) @ u = sep @ dumps_items sep (z # zs) @ v"
      using "3.prems" dumps_string_unique [of t "sep @ dumps_items sep (y # ys) @ u" t' "sep @ dumps_items sep (z # zs) @ v"]
      by simp
    then show ?thesis using "3.IH"(2) [of "z # zs"] 3 by simp
  qed (use "3.prems" in \<open>simp add: dumps_string_def\<close>)
qed

lemma dumps_strings_inj: "dumps_strings ts = dumps_strings ts' \<Longrightarrow> ts = ts'"
  using dumps_items_unique [of "'', ''" "'' ''" ts "[]" ts' "[]"] by (simp add: dumps_strings_def)

lemma str_of_nat_digits: "list_all is_digit (str_of_nat n) \<and> str_of_nat n \<noteq> []"
proof (induction n rule: str_of_nat.induct)
  case (1 n)
  have "is_digit (char_of (48 + k))" if "k < 10" for k :: nat using that by (simp add: is_digit_def of_char_of)
  then show ?case using 1 by (simp add: str_of_nat.simps [of n])
qed

end
