(* ===== verification/Relay_Stream.thy ===== *)
theory Relay_Stream
  imports Fallow_Prelude
begin

text \<open>
  The bounded response stream of a relayed request (\<open>_ResponseStream\<close> of \<open>site_relay/broker.py\<close>).
  Each operation is the critical section its condition variable guards: a writer that finds the
  buffer full, or a reader that finds it empty, is blocked and tries again later, so the operations
  of several tasks are an arbitrary sequence. Bytes are strings; the clock is an argument.
\<close>

definition MAX_RESPONSE_CHUNK_BYTES :: int where
  "MAX_RESPONSE_CHUNK_BYTES = 32 * 1024"

definition MAX_RESPONSE_BUFFER_BYTES :: int where
  "MAX_RESPONSE_BUFFER_BYTES = 256 * 1024"

record response_stream =
  st_max_bytes :: int
  st_chunks :: "string list"
  st_buffered :: int
  st_terminal :: "string option"
  st_first_byte :: bool

definition ResponseStream :: "int \<Rightarrow> response_stream" where
  "ResponseStream max_bytes =
     \<lparr>st_max_bytes = max max_bytes MAX_RESPONSE_CHUNK_BYTES, st_chunks = [], st_buffered = 0,
      st_terminal = None, st_first_byte = False\<rparr>"

datatype write_result = Accepted | DeadlinePassed | WriteBlocked | StreamEnded string

definition stream_full :: "string \<Rightarrow> response_stream \<Rightarrow> bool" where
  "stream_full chunk s \<longleftrightarrow>
     st_terminal s = None \<and> st_chunks s \<noteq> [] \<and> st_max_bytes s < st_buffered s + int (length chunk)"

text \<open>One pass of \<open>write\<close>: the test of its loop, then the append.\<close>

definition stream_write :: "instant \<Rightarrow> instant \<Rightarrow> string \<Rightarrow> response_stream \<Rightarrow> write_result \<times> response_stream" where
  "stream_write now deadline chunk s =
     (if stream_full chunk s then (if deadline - now \<le> 0 then DeadlinePassed else WriteBlocked, s)
      else
        (case st_terminal s of
           Some t \<Rightarrow> (StreamEnded t, s)
         | None \<Rightarrow>
             if deadline \<le> now then (DeadlinePassed, s)
             else (Accepted, s\<lparr>st_chunks := st_chunks s @ [chunk],
                               st_buffered := st_buffered s + int (length chunk),
                               st_first_byte := True\<rparr>)))"

datatype read_result = GotChunk string | ReadEnded string | ReadBlocked

definition stream_read :: "response_stream \<Rightarrow> read_result \<times> response_stream" where
  "stream_read s =
     (case st_chunks s of
        c # cs \<Rightarrow> (GotChunk c, s\<lparr>st_chunks := cs, st_buffered := st_buffered s - int (length c)\<rparr>)
      | [] \<Rightarrow>
          (case st_terminal s of None \<Rightarrow> (ReadBlocked, s) | Some t \<Rightarrow> (ReadEnded t, s)))"

definition stream_close :: "string \<Rightarrow> response_stream \<Rightarrow> response_stream" where
  "stream_close terminal s = (if st_terminal s \<noteq> None then s else s\<lparr>st_terminal := Some terminal\<rparr>)"

section \<open>Runs of a stream\<close>

datatype stream_op = OpWrite instant instant string | OpRead | OpClose string

datatype stream_event = Wrote string | NotWritten | Read read_result | Closed

fun stream_do :: "stream_op \<Rightarrow> response_stream \<Rightarrow> stream_event \<times> response_stream" where
  "stream_do (OpWrite now deadline chunk) s =
     (case stream_write now deadline chunk s of
        (Accepted, s') \<Rightarrow> (Wrote chunk, s') | (_, s') \<Rightarrow> (NotWritten, s'))"
| "stream_do OpRead s = (let (r, s') = stream_read s in (Read r, s'))"
| "stream_do (OpClose t) s = (Closed, stream_close t s)"

fun stream_run :: "stream_op list \<Rightarrow> response_stream \<Rightarrow> stream_event list \<times> response_stream" where
  "stream_run [] s = ([], s)"
| "stream_run (op # ops) s =
     (let (ev, s1) = stream_do op s; (evs, s2) = stream_run ops s1 in (ev # evs, s2))"

fun written :: "stream_event list \<Rightarrow> string list" where
  "written [] = []"
| "written (Wrote c # evs) = c # written evs"
| "written (_ # evs) = written evs"

fun received :: "stream_event list \<Rightarrow> string list" where
  "received [] = []"
| "received (Read (GotChunk c) # evs) = c # received evs"
| "received (_ # evs) = received evs"

definition op_ok :: "stream_op \<Rightarrow> bool" where
  "op_ok op \<longleftrightarrow>
     (case op of OpWrite _ _ c \<Rightarrow> c \<noteq> [] \<and> int (length c) \<le> MAX_RESPONSE_CHUNK_BYTES | _ \<Rightarrow> True)"

definition stream_inv :: "response_stream \<Rightarrow> bool" where
  "stream_inv s \<longleftrightarrow>
     st_buffered s = sum_list (map (\<lambda>c. int (length c)) (st_chunks s)) \<and>
     st_buffered s \<le> st_max_bytes s \<and> MAX_RESPONSE_CHUNK_BYTES \<le> st_max_bytes s \<and>
     (st_chunks s \<noteq> [] \<longrightarrow> st_first_byte s)"

lemma ResponseStream_inv [simp]: "stream_inv (ResponseStream n)"
  by (simp add: stream_inv_def ResponseStream_def MAX_RESPONSE_CHUNK_BYTES_def)

lemma ResponseStream_terminal [simp]: "st_terminal (ResponseStream n) = None"
  by (simp add: ResponseStream_def)

lemma stream_write_inv:
  assumes "stream_inv s" "int (length c) \<le> MAX_RESPONSE_CHUNK_BYTES"
  shows "stream_inv (snd (stream_write now d c s))"
  using assms by (auto simp: stream_write_def stream_inv_def stream_full_def split: option.split)

lemma stream_read_inv: "stream_inv s \<Longrightarrow> stream_inv (snd (stream_read s))"
  by (auto simp: stream_read_def stream_inv_def split: list.split option.split)

lemma stream_close_inv [simp]: "stream_inv s \<Longrightarrow> stream_inv (stream_close t s)"
  by (auto simp: stream_close_def stream_inv_def)

lemma stream_do_inv:
  assumes "stream_inv s" "op_ok op"
  shows "stream_inv (snd (stream_do op s))"
proof (cases op)
  case (OpWrite now d c)
  then show ?thesis
    using stream_write_inv [OF assms(1), of c now d] assms(2)
    by (auto simp: op_ok_def split: prod.split write_result.split)
next
  case OpRead
  then show ?thesis using stream_read_inv [OF assms(1)] by (auto split: prod.split)
qed (use assms in simp)

text \<open>What one operation adds to the history.\<close>

lemma stream_do_fifo:
  assumes "stream_do op s = (ev, s1)"
  shows "st_chunks s @ written [ev] = received [ev] @ st_chunks s1"
proof (cases op)
  case (OpWrite now d c)
  then show ?thesis
    using assms by (auto simp: stream_write_def split: prod.splits write_result.splits if_splits option.splits)
next
  case OpRead
  then show ?thesis
    using assms by (auto simp: stream_read_def split: prod.splits list.splits option.splits)
next
  case (OpClose t)
  then show ?thesis using assms by (auto simp: stream_close_def)
qed

lemma stream_do_terminal:
  assumes "stream_do op s = (ev, s1)"
  shows "st_terminal s1 = (case st_terminal s of Some t \<Rightarrow> Some t
     | None \<Rightarrow> (case op of OpClose t \<Rightarrow> Some t | _ \<Rightarrow> None))"
    and "st_terminal s \<noteq> None \<Longrightarrow> written [ev] = []"
    and "ev = Read (ReadEnded t) \<Longrightarrow> st_chunks s1 = [] \<and> st_terminal s1 = Some t"
  using assms
  by (cases op; auto simp: stream_write_def stream_full_def stream_read_def stream_close_def Let_def
      split: prod.splits write_result.splits if_splits option.splits list.splits)+

lemma written_Cons: "written (ev # evs) = written [ev] @ written evs"
  by (cases ev) simp_all

lemma received_Cons: "received (ev # evs) = received [ev] @ received evs"
proof (cases ev)
  case (Read r)
  then show ?thesis by (cases r) simp_all
qed simp_all

lemma stream_run_fifo:
  "stream_run ops s = (evs, s1) \<Longrightarrow> st_chunks s @ written evs = received evs @ st_chunks s1"
proof (induction ops arbitrary: s evs)
  case (Cons op ops)
  obtain ev s2 where e: "stream_do op s = (ev, s2)" by (cases "stream_do op s")
  obtain evs' s3 where r: "stream_run ops s2 = (evs', s3)" by (cases "stream_run ops s2")
  have evs: "evs = ev # evs'" "s3 = s1" using Cons.prems e r by simp_all
  have "st_chunks s @ written evs = (st_chunks s @ written [ev]) @ written evs'"
    unfolding evs(1) written_Cons [of ev evs'] by simp
  also have "\<dots> = received [ev] @ (st_chunks s2 @ written evs')"
    using stream_do_fifo [OF e] by simp
  also have "\<dots> = received [ev] @ received evs' @ st_chunks s1"
    using Cons.IH [OF r [unfolded evs(2)]] by simp
  finally show ?case unfolding evs(1) received_Cons [of ev evs'] by simp
qed simp

lemma stream_run_inv:
  "stream_inv s \<Longrightarrow> list_all op_ok ops \<Longrightarrow> stream_inv (snd (stream_run ops s))"
proof (induction ops arbitrary: s)
  case (Cons op ops)
  obtain ev s2 where e: "stream_do op s = (ev, s2)" by (cases "stream_do op s")
  have "stream_inv s2" using stream_do_inv [of s op] Cons.prems e by simp
  then show ?case using Cons e by (simp split: prod.split) (metis snd_conv)
qed simp

lemma stream_run_append:
  "stream_run (ops @ ops') s =
     (let (evs, s1) = stream_run ops s; (evs', s2) = stream_run ops' s1 in (evs @ evs', s2))"
  by (induction ops arbitrary: s) (auto split: prod.splits)

lemma stream_run_ended:
  assumes "st_terminal s = Some t" "stream_run ops s = (evs, s1)"
  shows "st_terminal s1 = Some t \<and> written evs = []"
  using assms
proof (induction ops arbitrary: s evs)
  case (Cons op ops)
  obtain ev s2 where e: "stream_do op s = (ev, s2)" by (cases "stream_do op s")
  obtain evs' where r: "stream_run ops s2 = (evs', s1)" "evs = ev # evs'"
    using Cons.prems(2) e by (auto split: prod.splits)
  have t2: "st_terminal s2 = Some t" using stream_do_terminal(1) [OF e] Cons.prems(1) by simp
  show ?case
    using Cons.IH [OF t2 r(1)] stream_do_terminal(2) [OF e] Cons.prems(1) r(2) written_Cons [of ev evs'] by simp
qed simp

lemma stream_run_max: "stream_run ops s = (evs, s1) \<Longrightarrow> st_max_bytes s1 = st_max_bytes s"
proof (induction ops arbitrary: s evs)
  case (Cons op ops)
  obtain ev s2 where e: "stream_do op s = (ev, s2)" by (cases "stream_do op s")
  have "st_max_bytes s2 = st_max_bytes s"
    using e by (cases op) (auto simp: stream_write_def stream_read_def stream_close_def
        split: prod.splits write_result.splits if_splits option.splits list.splits)
  then show ?case using Cons e by (auto split: prod.splits)
qed simp

lemma received_append: "received (evs @ evs') = received evs @ received evs'"
proof (induction evs)
  case (Cons ev evs)
  then show ?case using received_Cons [of ev "evs @ evs'"] received_Cons [of ev evs] by simp
qed simp

text \<open>After the close the buffer only shrinks, and the terminal is read from an empty buffer.\<close>

lemma ended_read_drains:
  assumes "st_terminal s = Some t" "stream_run ops s = (evs, s1)" "Read (ReadEnded t') \<in> set evs"
  shows "t' = t \<and> st_chunks s1 = []"
  using assms
proof (induction ops arbitrary: s evs)
  case (Cons op ops)
  obtain ev s2 where e: "stream_do op s = (ev, s2)" by (cases "stream_do op s")
  obtain evs' where r: "stream_run ops s2 = (evs', s1)" "evs = ev # evs'"
    using Cons.prems(2) e by (auto split: prod.splits)
  have t2: "st_terminal s2 = Some t" using stream_do_terminal(1) [OF e] Cons.prems(1) by simp
  show ?case
  proof (cases "ev = Read (ReadEnded t')")
    case True
    have "st_chunks s2 = []" "t' = t" using stream_do_terminal(3) [OF e True] t2 by simp_all
    moreover have "written evs' = []" using stream_run_ended [OF t2 r(1)] by simp
    ultimately show ?thesis using stream_run_fifo [OF r(1)] by simp
  next
    case False
    then show ?thesis using Cons.IH [OF t2 r(1)] Cons.prems(3) r(2) by auto
  qed
qed simp

section \<open>Order, bound and ending\<close>

text \<open>C37: The response stream is a bounded queue. Over any interleaving of writes, reads and closes
  the reader gets exactly the accepted chunks, in order, from the first: what it has read and what is
  still buffered make up what was accepted. At most the buffer limit is buffered. Once a close has
  taken effect no write is accepted, later closes change nothing, and a reader sees that first
  terminal only after every accepted chunk.\<close>

theorem relay_stream_bounded_fifo:
  assumes "list_all op_ok ops" and "stream_run ops (ResponseStream n) = (evs, s)"
  shows "written evs = received evs @ st_chunks s \<and>
    sum_list (map (\<lambda>c. int (length c)) (st_chunks s)) \<le> max n MAX_RESPONSE_CHUNK_BYTES \<and>
    (\<forall>t ops' evs' s'. st_terminal s = Some t \<and> stream_run ops' s = (evs', s') \<longrightarrow>
       written evs' = [] \<and>
       (\<forall>t'. Read (ReadEnded t') \<in> set evs' \<longrightarrow> t' = t \<and> received (evs @ evs') = written evs))"
proof -
  have f: "written evs = received evs @ st_chunks s"
    using stream_run_fifo [OF assms(2)] by (simp add: ResponseStream_def)
  have m: "st_max_bytes s = max n MAX_RESPONSE_CHUNK_BYTES"
    using stream_run_max [OF assms(2)] by (simp add: ResponseStream_def)
  have "stream_inv s" using stream_run_inv [OF ResponseStream_inv assms(1), of n] assms(2) by simp
  then have b: "sum_list (map (\<lambda>c. int (length c)) (st_chunks s)) \<le> max n MAX_RESPONSE_CHUNK_BYTES"
    using m by (simp add: stream_inv_def)
  have "written evs' = [] \<and>
      (\<forall>t'. Read (ReadEnded t') \<in> set evs' \<longrightarrow> t' = t \<and> received (evs @ evs') = written evs)"
    if h: "st_terminal s = Some t" "stream_run ops' s = (evs', s')" for t ops' evs' s'
  proof -
    have w: "written evs' = []" using stream_run_ended [OF h] by simp
    have "t' = t \<and> received (evs @ evs') = written evs" if "Read (ReadEnded t') \<in> set evs'" for t'
    proof -
      have "t' = t" "st_chunks s' = []" using ended_read_drains [OF h that] by simp_all
      then show ?thesis
        using stream_run_fifo [OF h(2)] w f by (simp add: received_append)
    qed
    with w show ?thesis by blast
  qed
  with f b show ?thesis by blast
qed

theorem relay_stream_bounded_fifo_witness:
  "let (evs, s) = stream_run [OpWrite 0 9 ''ab'', OpWrite 0 9 ''c'', OpRead, OpClose ''eof''] (ResponseStream 5)
   in written evs = [''ab'', ''c''] \<and> received evs = [''ab''] \<and> st_chunks s = [''c''] \<and>
      sum_list (map (\<lambda>c. int (length c)) (st_chunks s)) \<le> max 5 MAX_RESPONSE_CHUNK_BYTES"
proof -
  let ?ops = "[OpWrite 0 9 ''ab'', OpWrite 0 9 ''c'', OpRead, OpClose ''eof'']"
  have ok: "list_all op_ok ?ops" by (simp add: op_ok_def MAX_RESPONSE_CHUNK_BYTES_def)
  obtain evs s where r: "stream_run ?ops (ResponseStream 5) = (evs, s)" by fastforce
  have "written evs = [''ab'', ''c'']" "received evs = [''ab'']"
    using r by (auto simp: stream_write_def stream_full_def stream_read_def stream_close_def ResponseStream_def
        MAX_RESPONSE_CHUNK_BYTES_def)
  then show ?thesis using relay_stream_bounded_fifo [OF ok r] r by simp
qed

end
