(* ===== verification/Relay_Broker.thy ===== *)
theory Relay_Broker
  imports Relay_Stream Fallow_Protocol
begin

text \<open>
  The rendezvous between gateway requests and site agents (\<open>RelayBroker\<close> of \<open>site_relay/broker.py\<close>).
  Work objects outlive their entry in the registry of live claims, so they are kept in a heap by
  claim id and the registry holds ids; a call of \<open>claim\<close> is an entry of the list of calls, with the
  state of its future and whether the call is still suspended. Each operation is the section the
  broker lock guards; the streams it must close afterwards are returned and closed by a later step,
  as are the appends of \<open>write\<close>, because another task may run in between. The uuid of a claim and
  the clock are arguments.
\<close>

section \<open>Data\<close>

definition MAX_REQUEST_BYTES :: int where
  "MAX_REQUEST_BYTES = 2 * 1024 * 1024"

definition ALLOWED_PATHS :: "string list" where
  "ALLOWED_PATHS = [''/v1/chat/completions'', ''/v1/embeddings'']"

definition FAIL_CODES :: "string list" where
  "FAIL_CODES = [''became_active'', ''reclaimed'', ''connect_failed'', ''timeout'', ''cancelled'', ''upstream_error'']"

definition DEADLINE_EXPIRED :: string where
  "DEADLINE_EXPIRED = ''deadline_expired''"

definition TERMINAL_HISTORY :: int where
  "TERMINAL_HISTORY = 4096"

definition LAST_CLAIM_HISTORY :: int where
  "LAST_CLAIM_HISTORY = 1024"

datatype relay_state = RS_CLAIMED | RS_RESPONDING | RS_FINISHED | RS_FAILED | RS_INVALID

definition terminal_state :: "relay_state \<Rightarrow> bool" where
  "terminal_state s \<longleftrightarrow> s \<in> {RS_FINISHED, RS_FAILED, RS_INVALID}"

datatype terminal_class = TC_DUPLICATE | TC_GONE

datatype relay_code = RC_DUPLICATE | RC_GONE | RC_UNKNOWN | RC_CONFLICT

datatype relay_error = RelayRequestTooLarge | RelayStateError string "relay_code option"

record relay_request =
  rl_method :: string
  rl_path :: string
  rl_content_type :: string
  rl_body :: string

record work =
  wk_agent_id :: ident
  wk_replica_port :: int
  wk_request :: relay_request
  wk_deadline :: instant
  wk_generation :: "int option"
  wk_claim_id :: string
  wk_state :: relay_state
  wk_status :: int
  wk_content_type :: string
  wk_reason :: "string option"
  wk_started :: bool
  wk_stream :: response_stream

record claim_outcome =
  co_outcome :: relay_state
  co_code :: "string option"

record relay_claim =
  cl_claim_id :: string
  cl_agent_id :: ident
  cl_presence_generation :: int
  cl_replica_port :: int
  cl_request :: relay_request
  cl_deadline :: instant

datatype fut_state = FutPending | FutCancelled | FutResult string

datatype claim_pc = Awaiting | Returned | Abandoned

record claim_call =
  cc_agent_id :: ident
  cc_generation :: int
  cc_fut :: fut_state
  cc_pc :: claim_pc

record broker =
  br_waiters :: "(ident, (nat \<times> int) list) odict"
  br_calls :: "claim_call list"
  br_heap :: "string \<Rightarrow> work option"
  br_works :: "string list"
  br_max_buffer :: int
  br_generation :: "(ident, int) odict"
  br_terminal_class :: "(string, terminal_class) odict"
  br_last_claim :: "(ident, claim_outcome) odict"

definition RelayBroker :: "int \<Rightarrow> broker" where
  "RelayBroker max_buffer =
     \<lparr>br_waiters = [], br_calls = [], br_heap = (\<lambda>_. None), br_works = [], br_max_buffer = max_buffer,
      br_generation = [], br_terminal_class = [], br_last_claim = []\<rparr>"

section \<open>Terminating a claim\<close>

definition set_work :: "work \<Rightarrow> broker \<Rightarrow> broker" where
  "set_work w b = b\<lparr>br_heap := (br_heap b)(wk_claim_id w \<mapsto> w)\<rparr>"

definition record_terminal :: "string \<Rightarrow> relay_state \<Rightarrow> broker \<Rightarrow> broker" where
  "record_terminal cid s b =
     b\<lparr>br_terminal_class := evict_oldest TERMINAL_HISTORY (od_move_to_end cid
         (AList.update cid (if s = RS_FINISHED then TC_DUPLICATE else TC_GONE) (br_terminal_class b)))\<rparr>"

definition record_last_claim :: "ident \<Rightarrow> relay_state \<Rightarrow> string option \<Rightarrow> broker \<Rightarrow> broker" where
  "record_last_claim aid s reason b =
     b\<lparr>br_last_claim := evict_oldest LAST_CLAIM_HISTORY (od_move_to_end aid
         (AList.update aid \<lparr>co_outcome = s, co_code = reason\<rparr> (br_last_claim b)))\<rparr>"

text \<open>\<open>True\<close>: the caller has the stream to close.\<close>

definition terminate :: "work \<Rightarrow> relay_state \<Rightarrow> string option \<Rightarrow> broker \<Rightarrow> bool \<times> broker" where
  "terminate w s reason b =
     (if terminal_state (wk_state w) then (False, b)
      else
        (True,
         record_last_claim (wk_agent_id w) s reason
           (record_terminal (wk_claim_id w) s
             ((set_work (w\<lparr>wk_state := s, wk_reason := reason, wk_started := True\<rparr>) b)
               \<lparr>br_works := removeAll (wk_claim_id w) (br_works b)\<rparr>))))"

type_synonym closes = "(string \<times> string) list"

definition terminate_closing ::
  "work \<Rightarrow> relay_state \<Rightarrow> string option \<Rightarrow> string \<Rightarrow> broker \<Rightarrow> broker \<times> closes" where
  "terminate_closing w s reason close_with b =
     (let (owed, b') = terminate w s reason b in (b', if owed then [(wk_claim_id w, close_with)] else []))"

section \<open>Claims and offers\<close>

definition fence_of :: "broker \<Rightarrow> ident \<Rightarrow> int \<Rightarrow> int" where
  "fence_of b aid d = (case map_of (br_generation b) aid of None \<Rightarrow> d | Some g \<Rightarrow> g)"

definition slots_of :: "broker \<Rightarrow> ident \<Rightarrow> (nat \<times> int) list" where
  "slots_of b aid = (case map_of (br_waiters b) aid of None \<Rightarrow> [] | Some xs \<Rightarrow> xs)"

definition fut_done :: "broker \<Rightarrow> nat \<Rightarrow> bool" where
  "fut_done b i \<longleftrightarrow> cc_fut (br_calls b ! i) \<noteq> FutPending"

definition set_fut :: "nat \<Rightarrow> fut_state \<Rightarrow> broker \<Rightarrow> broker" where
  "set_fut i f b = b\<lparr>br_calls := (br_calls b)[i := (br_calls b ! i)\<lparr>cc_fut := f\<rparr>]\<rparr>"

definition relay_request_ok :: "relay_request \<Rightarrow> bool" where
  "relay_request_ok rq \<longleftrightarrow>
     rl_method rq = ''POST'' \<and> rl_path rq \<in> set ALLOWED_PATHS \<and> rl_content_type rq = ''application/json''"

definition offer ::
  "ident \<Rightarrow> int \<Rightarrow> relay_request \<Rightarrow> instant \<Rightarrow> string \<Rightarrow> broker \<Rightarrow> (relay_error + work) \<times> broker" where
  "offer aid port rq deadline cid b =
     (if MAX_REQUEST_BYTES < int (length (rl_body rq)) then (Inl RelayRequestTooLarge, b)
      else if \<not> relay_request_ok rq then (Inl (RelayStateError ''invalid request'' None), b)
      else
        (case dropWhile (\<lambda>(i, g). fut_done b i) (slots_of b aid) of
           [] \<Rightarrow>
             (Inl (RelayStateError ''no claimant'' None),
              if map_of (br_waiters b) aid = None then b
              else b\<lparr>br_waiters := AList.update aid [] (br_waiters b)\<rparr>)
         | (i, generation) # slots \<Rightarrow>
             let b1 = b\<lparr>br_waiters := AList.update aid slots (br_waiters b)\<rparr>
             in if generation < fence_of b aid generation
                then (Inl (RelayStateError ''stale claimant'' None), set_fut i FutCancelled b1)
                else
                  let w = \<lparr>wk_agent_id = aid, wk_replica_port = port, wk_request = rq, wk_deadline = deadline,
                           wk_generation = Some generation, wk_claim_id = cid, wk_state = RS_CLAIMED,
                           wk_status = 200, wk_content_type = ''application/json'', wk_reason = None,
                           wk_started = False, wk_stream = ResponseStream (br_max_buffer b)\<rparr>
                  in (Inr w, set_fut i (FutResult cid)
                               ((set_work w b1)\<lparr>br_works := br_works b @ [cid]\<rparr>))))"

text \<open>\<open>claim\<close> up to its wait.\<close>

definition claim_begin :: "ident \<Rightarrow> int \<Rightarrow> broker \<Rightarrow> (relay_error + nat) \<times> broker" where
  "claim_begin aid generation b =
     (let fence = fence_of b aid 0
      in if generation < fence then (Inl (RelayStateError ''stale generation'' None), b)
         else
           (Inr (length (br_calls b)),
            b\<lparr>br_generation := AList.update aid (max fence generation) (br_generation b),
              br_waiters := AList.update aid (slots_of b aid @ [(length (br_calls b), generation)]) (br_waiters b),
              br_calls := br_calls b @ [\<lparr>cc_agent_id = aid, cc_generation = generation, cc_fut = FutPending,
                                         cc_pc = Awaiting\<rparr>]\<rparr>))"

definition set_pc :: "nat \<Rightarrow> claim_pc \<Rightarrow> broker \<Rightarrow> broker" where
  "set_pc i pc b = b\<lparr>br_calls := (br_calls b)[i := (br_calls b ! i)\<lparr>cc_pc := pc\<rparr>]\<rparr>"

text \<open>The wait returns with the future's result.\<close>

definition claim_resume :: "nat \<Rightarrow> broker \<Rightarrow> relay_claim option \<times> broker" where
  "claim_resume i b =
     (case cc_fut (br_calls b ! i) of
        FutResult cid \<Rightarrow>
          (map_option (\<lambda>w. \<lparr>cl_claim_id = wk_claim_id w, cl_agent_id = cc_agent_id (br_calls b ! i),
               cl_presence_generation = cc_generation (br_calls b ! i), cl_replica_port = wk_replica_port w,
               cl_request = wk_request w, cl_deadline = wk_deadline w\<rparr>) (br_heap b cid),
           set_pc i Returned b)
      | _ \<Rightarrow> (None, b))"

text \<open>The wait timed out or was cancelled: \<open>_abandon_waiter\<close>.\<close>

definition abandon_waiter :: "nat \<Rightarrow> broker \<Rightarrow> broker \<times> closes" where
  "abandon_waiter i b =
     (let c = br_calls b ! i; aid = cc_agent_id c;
          b1 = set_pc i Abandoned
                 (b\<lparr>br_waiters := AList.update aid (filter (\<lambda>(f, g). f \<noteq> i) (slots_of b aid)) (br_waiters b)\<rparr>)
      in case cc_fut c of
           FutResult cid \<Rightarrow>
             (case br_heap b cid of
                None \<Rightarrow> (b1, [])
              | Some w \<Rightarrow> terminate_closing w RS_FAILED (Some ''cancelled'') ''cancelled'' b1)
         | FutPending \<Rightarrow> (set_fut i FutCancelled b1, [])
         | FutCancelled \<Rightarrow> (b1, []))"

section \<open>Uploads\<close>

definition check :: "ident \<Rightarrow> string \<Rightarrow> int \<Rightarrow> broker \<Rightarrow> relay_error + work" where
  "check aid cid generation b =
     (case if cid \<in> set (br_works b) then br_heap b cid else None of
        None \<Rightarrow>
          (case map_of (br_terminal_class b) cid of
             Some TC_DUPLICATE \<Rightarrow> Inl (RelayStateError ''claim already completed'' (Some RC_DUPLICATE))
           | Some TC_GONE \<Rightarrow> Inl (RelayStateError ''claim gone'' (Some RC_GONE))
           | None \<Rightarrow> Inl (RelayStateError ''unknown claim'' (Some RC_UNKNOWN)))
      | Some w \<Rightarrow>
          if wk_agent_id w \<noteq> aid then Inl (RelayStateError ''wrong owner'' (Some RC_CONFLICT))
          else if wk_generation w \<noteq> Some generation
          then Inl (RelayStateError ''stale generation'' (Some RC_UNKNOWN))
          else Inr w)"

definition expired_error :: relay_error where
  "expired_error = RelayStateError ''deadline expired'' (Some RC_GONE)"

text \<open>
  The prologue every upload shares: \<open>_check\<close>, then \<open>_expire_if_late\<close>; past the deadline the claim is
  terminated and the call ends in \<open>_expired\<close>.
\<close>

definition upload ::
  "instant \<Rightarrow> ident \<Rightarrow> string \<Rightarrow> int \<Rightarrow> broker \<Rightarrow> (work \<Rightarrow> (relay_error + 'a) \<times> broker \<times> closes) \<Rightarrow>
   (relay_error + 'a) \<times> broker \<times> closes" where
  "upload now aid cid generation b k =
     (case check aid cid generation b of
        Inl e \<Rightarrow> (Inl e, b, [])
      | Inr w \<Rightarrow>
          (case if wk_deadline w \<le> now
                then terminate_closing w RS_FAILED (Some DEADLINE_EXPIRED) DEADLINE_EXPIRED b else (b, []) of
             (b', cl # cls) \<Rightarrow> (Inl expired_error, b', cl # cls)
           | (b', []) \<Rightarrow> k w))"

definition start_response ::
  "instant \<Rightarrow> ident \<Rightarrow> string \<Rightarrow> int \<Rightarrow> int \<Rightarrow> string \<Rightarrow> broker \<Rightarrow> (relay_error + unit) \<times> broker \<times> closes" where
  "start_response now aid cid generation status ct b =
     upload now aid cid generation b (\<lambda>w.
       if wk_state w \<noteq> RS_CLAIMED then (Inl (RelayStateError ''response already started'' None), b, [])
       else (Inr (),
             set_work (w\<lparr>wk_status := status, wk_content_type := ct, wk_state := RS_RESPONDING,
                         wk_started := True\<rparr>) b, []))"

text \<open>The locked section of \<open>write\<close>; \<open>True\<close> when the call goes on to append to the stream.\<close>

definition write_begin ::
  "instant \<Rightarrow> ident \<Rightarrow> string \<Rightarrow> int \<Rightarrow> string \<Rightarrow> broker \<Rightarrow> (relay_error + bool) \<times> broker \<times> closes" where
  "write_begin now aid cid generation chunk b =
     (if MAX_RESPONSE_CHUNK_BYTES < int (length chunk)
      then (Inl (RelayStateError ''chunk too large'' None), b, [])
      else upload now aid cid generation b (\<lambda>w.
        if wk_state w \<noteq> RS_RESPONDING then (Inl (RelayStateError ''response not started'' None), b, [])
        else (Inr (chunk \<noteq> []), b, [])))"

definition on_stream :: "string \<Rightarrow> (response_stream \<Rightarrow> response_stream) \<Rightarrow> broker \<Rightarrow> broker" where
  "on_stream cid f b =
     (case br_heap b cid of None \<Rightarrow> b | Some w \<Rightarrow> set_work (w\<lparr>wk_stream := f (wk_stream w)\<rparr>) b)"

definition deadline_terminate :: "string \<Rightarrow> broker \<Rightarrow> broker \<times> closes" where
  "deadline_terminate cid b =
     (case if cid \<in> set (br_works b) then br_heap b cid else None of
        None \<Rightarrow> (b, [])
      | Some w \<Rightarrow> terminate_closing w RS_FAILED (Some DEADLINE_EXPIRED) DEADLINE_EXPIRED b)"

definition finish ::
  "instant \<Rightarrow> ident \<Rightarrow> string \<Rightarrow> int \<Rightarrow> broker \<Rightarrow> (relay_error + unit) \<times> broker \<times> closes" where
  "finish now aid cid generation b =
     upload now aid cid generation b (\<lambda>w.
       if wk_state w \<noteq> RS_RESPONDING then (Inl (RelayStateError ''response not started'' None), b, [])
       else (Inr (), terminate_closing w RS_FINISHED None ''eof'' b))"

definition fail ::
  "instant \<Rightarrow> ident \<Rightarrow> string \<Rightarrow> int \<Rightarrow> string \<Rightarrow> broker \<Rightarrow> (relay_error + unit) \<times> broker \<times> closes" where
  "fail now aid cid generation code b =
     (if code \<notin> set FAIL_CODES then (Inl (RelayStateError ''invalid failure'' None), b, [])
      else upload now aid cid generation b (\<lambda>w.
        (Inr (), terminate_closing w RS_FAILED (Some code) code b)))"

section \<open>Fencing and reading\<close>

definition has_pending :: "ident \<Rightarrow> broker \<Rightarrow> bool" where
  "has_pending aid b \<longleftrightarrow>
     list_ex (\<lambda>cid. case br_heap b cid of None \<Rightarrow> False | Some w \<Rightarrow> wk_agent_id w = aid) (br_works b) \<or>
     list_ex (\<lambda>(i, g). \<not> fut_done b i) (slots_of b aid)"

definition last_claim :: "ident \<Rightarrow> broker \<Rightarrow> claim_outcome option" where
  "last_claim aid b = map_of (br_last_claim b) aid"

definition older :: "int \<Rightarrow> int option \<Rightarrow> bool" where
  "older newer g \<longleftrightarrow> (case g of None \<Rightarrow> True | Some n \<Rightarrow> n < newer)"

text \<open>The loop over a copy of the live works.\<close>

fun terminate_each :: "ident \<Rightarrow> int \<Rightarrow> string \<Rightarrow> string list \<Rightarrow> broker \<Rightarrow> broker \<times> closes" where
  "terminate_each aid newer reason [] b = (b, [])"
| "terminate_each aid newer reason (cid # cids) b =
     (let (b1, cl1) =
            (case br_heap b cid of
               None \<Rightarrow> (b, [])
             | Some w \<Rightarrow>
                 if wk_agent_id w = aid \<and> older newer (wk_generation w)
                 then terminate_closing w RS_INVALID (Some reason) reason b else (b, []));
          (b2, cl2) = terminate_each aid newer reason cids b1
      in (b2, cl1 @ cl2))"

definition cancel_pending :: "nat list \<Rightarrow> broker \<Rightarrow> broker" where
  "cancel_pending is b =
     fold (\<lambda>i b. if fut_done b i then b else set_fut i FutCancelled b) is b"

definition invalidate_agent :: "ident \<Rightarrow> int \<Rightarrow> string \<Rightarrow> broker \<Rightarrow> broker \<times> closes" where
  "invalidate_agent aid newer reason b =
     (let b1 = b\<lparr>br_generation := AList.update aid (max (fence_of b aid 0) newer) (br_generation b)\<rparr>;
          (b2, cls) = terminate_each aid newer reason (br_works b1) b1;
          slots = slots_of b2 aid;
          kept = filter (\<lambda>(i, g). \<not> g < newer) slots;
          b3 = cancel_pending (map fst (filter (\<lambda>(i, g). g < newer) slots)) b2
      in (b3\<lparr>br_waiters := (if kept = [] then AList.delete aid (br_waiters b3)
                            else AList.update aid kept (AList.delete aid (br_waiters b3)))\<rparr>, cls))"

definition disconnect :: "string \<Rightarrow> broker \<Rightarrow> broker \<times> closes" where
  "disconnect cid b =
     (case br_heap b cid of
        None \<Rightarrow> (b, [])
      | Some w \<Rightarrow> terminate_closing w RS_INVALID (Some ''client_disconnect'') ''client_disconnect'' b)"

text \<open>The gateway's side of an exchange; \<open>None\<close> while it blocks.\<close>

definition wait_response :: "work \<Rightarrow> (relay_error + (int \<times> string)) option" where
  "wait_response w =
     (if \<not> wk_started w then None
      else if wk_state w \<in> {RS_FAILED, RS_INVALID} \<and> \<not> st_first_byte (wk_stream w)
      then Some (Inl (RelayStateError (case wk_reason w of None \<Rightarrow> ''relay failure'' | Some r \<Rightarrow>
                        if r = [] then ''relay failure'' else r) None))
      else Some (Inr (wk_status w, wk_content_type w)))"

datatype next_chunk = NextChunk string | StopIteration | NextRaised string

definition exchange_next :: "string \<Rightarrow> broker \<Rightarrow> next_chunk option \<times> broker" where
  "exchange_next cid b =
     (case br_heap b cid of
        None \<Rightarrow> (None, b)
      | Some w \<Rightarrow>
          (case stream_read (wk_stream w) of
             (GotChunk c, s) \<Rightarrow> (Some (NextChunk c), set_work (w\<lparr>wk_stream := s\<rparr>) b)
           | (ReadEnded t, s) \<Rightarrow> (Some (if t = ''eof'' then StopIteration else NextRaised t), b)
           | (ReadBlocked, s) \<Rightarrow> (None, b)))"

section \<open>The tasks of the relay\<close>

text \<open>
  What running tasks still owe: streams to close after the lock was released, chunks to append, and
  the terminations of claims whose append found the deadline passed.
\<close>

record relay_sys =
  ry_broker :: broker
  ry_closing :: closes
  ry_writing :: "(string \<times> string) list"
  ry_expiring :: "string list"

definition with_closes :: "relay_sys \<Rightarrow> broker \<times> closes \<Rightarrow> relay_sys" where
  "with_closes s r = s\<lparr>ry_broker := fst r, ry_closing := snd r @ ry_closing s\<rparr>"

inductive relay_step :: "relay_sys \<Rightarrow> relay_sys \<Rightarrow> bool" where
  st_offer: "br_heap (ry_broker s) cid = None \<Longrightarrow>
    relay_step s (s\<lparr>ry_broker := snd (offer aid port rq deadline cid (ry_broker s))\<rparr>)"
| st_claim: "relay_step s (s\<lparr>ry_broker := snd (claim_begin aid g (ry_broker s))\<rparr>)"
| st_resume: "i < length (br_calls (ry_broker s)) \<Longrightarrow> cc_pc (br_calls (ry_broker s) ! i) = Awaiting \<Longrightarrow>
    relay_step s (s\<lparr>ry_broker := snd (claim_resume i (ry_broker s))\<rparr>)"
| st_abandon: "i < length (br_calls (ry_broker s)) \<Longrightarrow> cc_pc (br_calls (ry_broker s) ! i) = Awaiting \<Longrightarrow>
    relay_step s (with_closes s (abandon_waiter i (ry_broker s)))"
| st_start: "relay_step s (with_closes s (snd (start_response now aid cid g status ct (ry_broker s))))"
| st_write: "write_begin now aid cid g chunk (ry_broker s) = (r, b, cls) \<Longrightarrow>
    relay_step s ((with_closes s (b, cls))
      \<lparr>ry_writing := (if r = Inr True then [(cid, chunk)] else []) @ ry_writing s\<rparr>)"
| st_append: "(cid, chunk) \<in> set (ry_writing s) \<Longrightarrow> br_heap (ry_broker s) cid = Some w \<Longrightarrow>
    stream_write now (wk_deadline w) chunk (wk_stream w) = (r, st) \<Longrightarrow> r \<noteq> WriteBlocked \<Longrightarrow>
    relay_step s (s\<lparr>ry_broker := set_work (w\<lparr>wk_stream := st\<rparr>) (ry_broker s),
      ry_writing := remove1 (cid, chunk) (ry_writing s),
      ry_expiring := (if r = DeadlinePassed then [cid] else []) @ ry_expiring s\<rparr>)"
| st_timeout: "(cid, chunk) \<in> set (ry_writing s) \<Longrightarrow>
    relay_step s (s\<lparr>ry_writing := remove1 (cid, chunk) (ry_writing s), ry_expiring := cid # ry_expiring s\<rparr>)"
| st_expire: "cid \<in> set (ry_expiring s) \<Longrightarrow>
    relay_step s ((with_closes s (deadline_terminate cid (ry_broker s)))\<lparr>ry_expiring := remove1 cid (ry_expiring s)\<rparr>)"
| st_finish: "relay_step s (with_closes s (snd (finish now aid cid g (ry_broker s))))"
| st_fail: "relay_step s (with_closes s (snd (fail now aid cid g code (ry_broker s))))"
| st_invalidate: "relay_step s (with_closes s (invalidate_agent aid newer reason (ry_broker s)))"
| st_disconnect: "relay_step s (with_closes s (disconnect cid (ry_broker s)))"
| st_read: "relay_step s (s\<lparr>ry_broker := snd (exchange_next cid (ry_broker s))\<rparr>)"
| st_close: "(cid, t) \<in> set (ry_closing s) \<Longrightarrow>
    relay_step s (s\<lparr>ry_broker := on_stream cid (stream_close t) (ry_broker s),
      ry_closing := remove1 (cid, t) (ry_closing s)\<rparr>)"

definition relay_init :: "relay_sys \<Rightarrow> bool" where
  "relay_init s \<longleftrightarrow> (\<exists>n. s = \<lparr>ry_broker = RelayBroker n, ry_closing = [], ry_writing = [], ry_expiring = []\<rparr>)"

abbreviation relay_reach :: "relay_sys \<Rightarrow> bool" where
  "relay_reach \<equiv> reach relay_init relay_step"

section \<open>Invariant\<close>

definition live_ok :: "broker \<Rightarrow> bool" where
  "live_ok b \<longleftrightarrow> distinct (br_works b) \<and>
     (\<forall>cid. cid \<in> set (br_works b) \<longleftrightarrow> (\<exists>w. br_heap b cid = Some w \<and> \<not> terminal_state (wk_state w)))"

text \<open>A work object was handed to one call of \<open>claim\<close>, of its agent and its generation.\<close>

definition granted :: "broker \<Rightarrow> nat \<Rightarrow> string \<Rightarrow> bool" where
  "granted b i cid \<longleftrightarrow> i < length (br_calls b) \<and> cc_fut (br_calls b ! i) = FutResult cid"

definition works_ok :: "broker \<Rightarrow> bool" where
  "works_ok b \<longleftrightarrow> (\<forall>cid w. br_heap b cid = Some w \<longrightarrow>
     wk_claim_id w = cid \<and> stream_inv (wk_stream w) \<and> (wk_state w \<noteq> RS_CLAIMED \<longrightarrow> wk_started w) \<and>
     (\<exists>i. granted b i cid \<and> cc_agent_id (br_calls b ! i) = wk_agent_id w \<and>
          wk_generation w = Some (cc_generation (br_calls b ! i))))"

definition calls_ok :: "broker \<Rightarrow> bool" where
  "calls_ok b \<longleftrightarrow> (\<forall>i cid. granted b i cid \<longrightarrow>
     (\<exists>w. br_heap b cid = Some w \<and>
        (cc_pc (br_calls b ! i) = Abandoned \<longrightarrow> terminal_state (wk_state w))) \<and>
     (\<forall>j. granted b j cid \<longrightarrow> j = i))"

definition pending_ok :: "broker \<Rightarrow> bool" where
  "pending_ok b \<longleftrightarrow> (\<forall>i < length (br_calls b). cc_fut (br_calls b ! i) = FutPending \<longrightarrow>
     cc_pc (br_calls b ! i) = Awaiting)"

definition waiters_ok :: "broker \<Rightarrow> bool" where
  "waiters_ok b \<longleftrightarrow> (\<forall>aid i g. (i, g) \<in> set (slots_of b aid) \<longrightarrow>
     i < length (br_calls b) \<and> cc_agent_id (br_calls b ! i) = aid \<and> cc_generation (br_calls b ! i) = g \<and>
     (\<exists>f. map_of (br_generation b) aid = Some f \<and> g \<le> f))"

definition history_ok :: "broker \<Rightarrow> bool" where
  "history_ok b \<longleftrightarrow>
     od_wf (br_terminal_class b) \<and> int (length (br_terminal_class b)) \<le> TERMINAL_HISTORY \<and>
     int (length (br_last_claim b)) \<le> LAST_CLAIM_HISTORY \<and>
     (\<forall>cid c. map_of (br_terminal_class b) cid = Some c \<longrightarrow>
        (\<exists>w. br_heap b cid = Some w \<and> terminal_state (wk_state w) \<and>
             (c = TC_DUPLICATE \<longleftrightarrow> wk_state w = RS_FINISHED)))"

text \<open>An ended claim's stream is closed, or a task still owes the close.\<close>

definition streams_ok :: "closes \<Rightarrow> broker \<Rightarrow> bool" where
  "streams_ok cls b \<longleftrightarrow>
     (\<forall>cid w. br_heap b cid = Some w \<longrightarrow>
        (if terminal_state (wk_state w) then st_terminal (wk_stream w) \<noteq> None \<or> cid \<in> fst ` set cls
         else st_terminal (wk_stream w) = None)) \<and>
     (\<forall>cid \<in> fst ` set cls. \<exists>w. br_heap b cid = Some w \<and> terminal_state (wk_state w))"

definition writes_ok :: "(string \<times> string) list \<Rightarrow> bool" where
  "writes_ok ws \<longleftrightarrow> (\<forall>(cid, chunk) \<in> set ws. int (length chunk) \<le> MAX_RESPONSE_CHUNK_BYTES)"

definition broker_inv :: "closes \<Rightarrow> broker \<Rightarrow> bool" where
  "broker_inv cls b \<longleftrightarrow>
     live_ok b \<and> works_ok b \<and> calls_ok b \<and> waiters_ok b \<and> history_ok b \<and> streams_ok cls b \<and> pending_ok b"

definition relay_inv :: "relay_sys \<Rightarrow> bool" where
  "relay_inv s \<longleftrightarrow> broker_inv (ry_closing s) (ry_broker s) \<and> writes_ok (ry_writing s)"

end
