(* ===== verification/Relay_Props.thy ===== *)
theory Relay_Props
  imports Relay_Broker
begin

text \<open>
  The relay's invariant and its refinement of a ledger of claims: every interleaving of gateway
  requests, agent claims, uploads, presence fences and disconnects keeps each claim with the one
  call it was granted to, ends each claim once, and never leaves an ended claim's reader waiting.
\<close>

section \<open>Each operation keeps the invariant\<close>

lemma broker_invD:
  assumes "broker_inv cls b"
  shows "live_ok b" "works_ok b" "calls_ok b" "waiters_ok b" "history_ok b" "streams_ok cls b" "pending_ok b"
  using assms by (simp_all add: broker_inv_def)

lemma broker_inv_work:
  assumes "broker_inv cls b" "br_heap b cid = Some w"
  shows "wk_claim_id w = cid" "stream_inv (wk_stream w)" "wk_state w \<noteq> RS_CLAIMED \<Longrightarrow> wk_started w"
  using broker_invD(2) [OF assms(1)] assms(2) by (auto simp: works_ok_def)

lemma RelayBroker_inv: "broker_inv [] (RelayBroker n)"
  by (simp add: broker_inv_def RelayBroker_def live_ok_def works_ok_def calls_ok_def granted_def
      waiters_ok_def slots_of_def history_ok_def streams_ok_def pending_ok_def TERMINAL_HISTORY_def LAST_CLAIM_HISTORY_def)

lemma set_work_sels [simp]:
  "br_calls (set_work w b) = br_calls b" "br_works (set_work w b) = br_works b"
  "br_waiters (set_work w b) = br_waiters b" "br_generation (set_work w b) = br_generation b"
  "br_heap (set_work w b) = (br_heap b)(wk_claim_id w \<mapsto> w)"
  by (simp_all add: set_work_def)

lemma calls_okD:
  assumes "calls_ok b" "granted b i cid"
  shows "\<exists>w. br_heap b cid = Some w \<and> (cc_pc (br_calls b ! i) = Abandoned \<longrightarrow> terminal_state (wk_state w))"
    and "granted b j cid \<Longrightarrow> j = i"
  using assms by (simp_all add: calls_ok_def)

lemma calls_okI:
  assumes "\<And>i cid. granted b i cid \<Longrightarrow>
      \<exists>w. br_heap b cid = Some w \<and> (cc_pc (br_calls b ! i) = Abandoned \<longrightarrow> terminal_state (wk_state w))"
    and "\<And>i j cid. granted b i cid \<Longrightarrow> granted b j cid \<Longrightarrow> j = i"
  shows "calls_ok b"
  using assms unfolding calls_ok_def by blast

lemma granted_cong: "br_calls b' = br_calls b \<Longrightarrow> granted b' = granted b"
  by (simp add: granted_def fun_eq_iff)

lemma slots_cong: "br_waiters b' = br_waiters b \<Longrightarrow> slots_of b' = slots_of b"
  by (simp add: slots_of_def fun_eq_iff)

lemma terminate_frame:
  assumes "terminate_closing w st r t b = (b', cls')"
  shows "br_calls b' = br_calls b" "br_waiters b' = br_waiters b" "br_generation b' = br_generation b"
    "br_max_buffer b' = br_max_buffer b"
  using assms
  by (auto simp: terminate_closing_def terminate_def record_last_claim_def record_terminal_def set_work_def
      Let_def split: if_splits)

lemma terminate_ended:
  assumes "terminal_state (wk_state w)"
  shows "terminate_closing w st r t b = (b, [])"
  using assms by (simp add: terminate_closing_def terminate_def)

lemma terminate_live:
  assumes "\<not> terminal_state (wk_state w)" "terminate_closing w st r t b = (b', cls')"
  shows "br_heap b' = (br_heap b)(wk_claim_id w \<mapsto> w\<lparr>wk_state := st, wk_reason := r, wk_started := True\<rparr>)"
    "br_works b' = removeAll (wk_claim_id w) (br_works b)"
    "br_terminal_class b' = evict_oldest TERMINAL_HISTORY (od_move_to_end (wk_claim_id w)
       (AList.update (wk_claim_id w) (if st = RS_FINISHED then TC_DUPLICATE else TC_GONE) (br_terminal_class b)))"
    "br_last_claim b' = evict_oldest LAST_CLAIM_HISTORY (od_move_to_end (wk_agent_id w)
       (AList.update (wk_agent_id w) \<lparr>co_outcome = st, co_code = r\<rparr> (br_last_claim b)))"
    "cls' = [(wk_claim_id w, t)]"
  using assms
  by (auto simp: terminate_closing_def terminate_def record_last_claim_def record_terminal_def set_work_def)

lemma terminate_inv:
  assumes inv: "broker_inv cls b" and w: "br_heap b cid = Some w" and ts: "terminal_state st"
    and t: "terminate_closing w st r t b = (b', cls')"
  shows "broker_inv (cls @ cls') b'"
proof (cases "terminal_state (wk_state w)")
  case True
  then show ?thesis using inv t by (simp add: terminate_ended)
next
  case False
  note [simp] = broker_inv_work(1) [OF inv w] ts
  note f = terminate_frame [OF t] and l = terminate_live [OF False t]
  note d = broker_invD [OF inv]
  have "live_ok b'" using d(1) l(1,2) unfolding live_ok_def by (auto simp: distinct_removeAll)
  moreover have "works_ok b'"
    using d(2) w l(1) granted_cong [OF f(1)] f(1) unfolding works_ok_def by (auto split: if_splits)
  moreover have "calls_ok b'"
    using d(3) w l(1) granted_cong [OF f(1)] f(1) unfolding calls_ok_def by fastforce
  moreover have "waiters_ok b'"
    using d(4) f slots_cong [OF f(2)] unfolding waiters_ok_def by simp
  moreover have "history_ok b'"
  proof -
    let ?tc = "od_move_to_end cid (AList.update cid (if st = RS_FINISHED then TC_DUPLICATE else TC_GONE) (br_terminal_class b))"
    have wf: "od_wf ?tc" using d(5) by (simp add: history_ok_def)
    have "\<exists>v. br_heap b' k = Some v \<and> terminal_state (wk_state v) \<and> (c = TC_DUPLICATE \<longleftrightarrow> wk_state v = RS_FINISHED)"
      if h: "map_of (br_terminal_class b') k = Some c" for k c
    proof -
      have "map_of ?tc k = Some c" using map_of_evict [OF wf] h l(3) by simp
      then show ?thesis using d(5) l(1) unfolding history_ok_def by (auto simp: update_conv' split: if_splits)
    qed
    then have "\<forall>k c. map_of (br_terminal_class b') k = Some c \<longrightarrow>
        (\<exists>v. br_heap b' k = Some v \<and> terminal_state (wk_state v) \<and> (c = TC_DUPLICATE \<longleftrightarrow> wk_state v = RS_FINISHED))"
      by blast
    moreover have "0 \<le> TERMINAL_HISTORY" "0 \<le> LAST_CLAIM_HISTORY"
      by (simp_all add: TERMINAL_HISTORY_def LAST_CLAIM_HISTORY_def)
    ultimately show ?thesis
      using wf l(3,4) unfolding history_ok_def by (simp add: evict_oldest_length)
  qed
  moreover have "streams_ok (cls @ cls') b'"
    using d(6) l(1,5) False unfolding streams_ok_def by (auto split: if_splits)
  moreover have "pending_ok b'" using d(7) f(1) by (simp add: pending_ok_def)
  ultimately show ?thesis by (simp add: broker_inv_def)
qed

text \<open>Replacing a work object by one of the same claim, agent and generation.\<close>

lemma set_work_inv:
  assumes inv: "broker_inv cls b" and w: "br_heap b cid = Some w"
    and same: "wk_claim_id v = wk_claim_id w" "wk_agent_id v = wk_agent_id w" "wk_generation v = wk_generation w"
    and st: "terminal_state (wk_state v) \<longleftrightarrow> terminal_state (wk_state w)"
      "wk_state v = RS_FINISHED \<longleftrightarrow> wk_state w = RS_FINISHED" "wk_state v \<noteq> RS_CLAIMED \<longrightarrow> wk_started v"
    and s: "stream_inv (wk_stream v)"
      "st_terminal (wk_stream w) \<noteq> None \<longrightarrow> st_terminal (wk_stream v) \<noteq> None"
      "\<not> terminal_state (wk_state w) \<longrightarrow> st_terminal (wk_stream v) = None"
  shows "broker_inv cls (set_work v b)"
proof -
  note [simp] = broker_inv_work(1) [OF inv w] same st
  note d = broker_invD [OF inv]
  let ?b = "set_work v b"
  have h: "br_heap ?b = (br_heap b)(cid \<mapsto> v)" by (simp add: set_work_def)
  have g: "granted ?b = granted b" "br_calls ?b = br_calls b" "br_works ?b = br_works b"
    "br_terminal_class ?b = br_terminal_class b" "br_last_claim ?b = br_last_claim b"
    by (simp_all add: set_work_def granted_def fun_eq_iff)
  have "live_ok ?b" using d(1) w unfolding live_ok_def h g by auto
  moreover have "works_ok ?b"
    using d(2) w s(1) st(3) unfolding works_ok_def h g by (auto split: if_splits)
  moreover have "calls_ok ?b"
  proof -
    have "\<exists>u. br_heap ?b k = Some u \<and> (cc_pc (br_calls b ! i) = Abandoned \<longrightarrow> terminal_state (wk_state u))"
      if ik: "granted b i k" for i k
    proof -
      obtain u where "br_heap b k = Some u" "cc_pc (br_calls b ! i) = Abandoned \<longrightarrow> terminal_state (wk_state u)"
        using calls_okD(1) [OF d(3) ik] by blast
      then show ?thesis using w unfolding h by (cases "k = cid") simp_all
    qed
    then show ?thesis using calls_okD(2) [OF d(3)] unfolding g(1,2) by (intro calls_okI) (simp_all only: g(1,2))
  qed
  moreover have "waiters_ok ?b" using d(4) unfolding waiters_ok_def slots_of_def by (simp add: set_work_def)
  moreover have "history_ok ?b"
  proof -
    have "\<exists>u. br_heap ?b k = Some u \<and> terminal_state (wk_state u) \<and> (c = TC_DUPLICATE \<longleftrightarrow> wk_state u = RS_FINISHED)"
      if kc: "map_of (br_terminal_class b) k = Some c" for k c
    proof -
      obtain u where "br_heap b k = Some u" "terminal_state (wk_state u)" "c = TC_DUPLICATE \<longleftrightarrow> wk_state u = RS_FINISHED"
        using d(5) kc unfolding history_ok_def by blast
      then show ?thesis using w unfolding h by (cases "k = cid") simp_all
    qed
    then show ?thesis using d(5) unfolding history_ok_def g by blast
  qed
  moreover have "streams_ok cls ?b"
    using d(6) w s(2,3) unfolding streams_ok_def h by (auto split: if_splits)
  moreover have "pending_ok ?b" using d(7) g(2) by (simp add: pending_ok_def)
  ultimately show ?thesis by (simp add: broker_inv_def)
qed

lemma set_stream_inv:
  assumes inv: "broker_inv cls b" and w: "br_heap b cid = Some w"
    and "stream_inv st" "st_terminal st = st_terminal (wk_stream w)"
  shows "broker_inv cls (set_work (w\<lparr>wk_stream := st\<rparr>) b)"
proof (rule set_work_inv [OF inv w])
  show "\<not> terminal_state (wk_state w) \<longrightarrow> st_terminal (wk_stream (w\<lparr>wk_stream := st\<rparr>)) = None"
    using broker_invD(6) [OF inv] w assms(4) unfolding streams_ok_def by (auto split: if_splits)
qed (use assms broker_inv_work(3) [OF inv w] in simp_all)

lemma on_stream_close_inv:
  assumes inv: "broker_inv cls b" and c: "(cid, t) \<in> set cls"
  shows "broker_inv (remove1 (cid, t) cls) (on_stream cid (stream_close t) b)"
proof -
  obtain w where w: "br_heap b cid = Some w" "terminal_state (wk_state w)"
    using broker_invD(6) [OF inv] c unfolding streams_ok_def by force
  let ?v = "w\<lparr>wk_stream := stream_close t (wk_stream w)\<rparr>"
  have closed: "st_terminal (wk_stream ?v) \<noteq> None" by (simp add: stream_close_def)
  have "broker_inv cls (set_work ?v b)"
    by (rule set_work_inv [OF inv w(1)]) (use w broker_inv_work [OF inv w(1)] in \<open>auto simp: stream_close_def stream_inv_def\<close>)
  moreover have "on_stream cid (stream_close t) b = set_work ?v b" using w by (simp add: on_stream_def)
  moreover have "streams_ok (remove1 (cid, t) cls) (set_work ?v b)"
    if s: "streams_ok cls (set_work ?v b)"
  proof -
    have hv: "br_heap (set_work ?v b) cid = Some ?v"
      using broker_inv_work(1) [OF inv w(1)] by (simp add: set_work_def)
    have fst_in: "k \<in> fst ` set (remove1 (cid, t) cls)" if k: "k \<in> fst ` set cls" "k \<noteq> cid" for k
    proof -
      obtain u where "(k, u) \<in> set cls" using k(1) by force
      with k(2) have "(k, u) \<in> set (remove1 (cid, t) cls)" by (simp add: in_set_remove1)
      then show ?thesis by force
    qed
    have "st_terminal (wk_stream u) \<noteq> None \<or> k \<in> fst ` set (remove1 (cid, t) cls)"
      if u: "br_heap (set_work ?v b) k = Some u" "terminal_state (wk_state u)" for k u
    proof (cases "k = cid")
      case True
      then show ?thesis using u(1) hv closed by simp
    next
      case False
      have "st_terminal (wk_stream u) \<noteq> None \<or> k \<in> fst ` set cls"
        using s u unfolding streams_ok_def by presburger
      then show ?thesis using fst_in False by blast
    qed
    moreover have "fst ` set (remove1 (cid, t) cls) \<subseteq> fst ` set cls"
      by (rule image_mono) (rule set_remove1_subset)
    ultimately show ?thesis using s unfolding streams_ok_def by (meson subsetD)
  qed
  ultimately show ?thesis by (simp add: broker_inv_def)
qed

lemma start_inv:
  assumes inv: "broker_inv cls b" and w: "br_heap b cid = Some w" and "wk_state w = RS_CLAIMED"
  shows "broker_inv cls (set_work (w\<lparr>wk_status := status, wk_content_type := ct, wk_state := RS_RESPONDING,
            wk_started := True\<rparr>) b)"
proof (rule set_work_inv [OF inv w])
  show "\<not> terminal_state (wk_state w) \<longrightarrow> st_terminal (wk_stream (w\<lparr>wk_status := status,
      wk_content_type := ct, wk_state := RS_RESPONDING, wk_started := True\<rparr>)) = None"
    using broker_invD(6) [OF inv] w unfolding streams_ok_def by (auto split: if_splits)
qed (use assms broker_inv_work [OF inv w] in \<open>simp_all add: terminal_state_def\<close>)

text \<open>Changes of the waiting lists, the fences and the calls only.\<close>

lemma calls_frame_inv:
  assumes inv: "broker_inv cls b"
    and same: "br_heap b' = br_heap b" "br_works b' = br_works b" "br_terminal_class b' = br_terminal_class b"
      "br_last_claim b' = br_last_claim b"
    and len: "length (br_calls b) \<le> length (br_calls b')"
    and keep: "\<And>i. i < length (br_calls b) \<Longrightarrow>
      cc_agent_id (br_calls b' ! i) = cc_agent_id (br_calls b ! i) \<and>
      cc_generation (br_calls b' ! i) = cc_generation (br_calls b ! i)"
    and g: "\<And>i cid. granted b' i cid \<longleftrightarrow> granted b i cid"
    and ab: "\<And>i cid w. granted b i cid \<Longrightarrow> br_heap b cid = Some w \<Longrightarrow> cc_pc (br_calls b' ! i) = Abandoned \<Longrightarrow>
      cc_pc (br_calls b ! i) = Abandoned \<or> terminal_state (wk_state w)"
    and wt: "waiters_ok b'" and pend: "pending_ok b'"
  shows "broker_inv cls b'"
proof -
  note d = broker_invD [OF inv]
  have "live_ok b'" using d(1) unfolding live_ok_def same .
  moreover have "history_ok b'" using d(5) unfolding history_ok_def same .
  moreover have "streams_ok cls b'" using d(6) unfolding streams_ok_def same .
  moreover have "works_ok b'"
    unfolding works_ok_def same g
  proof (intro allI impI)
    fix cid w
    assume w: "br_heap b cid = Some w"
    then obtain i where i: "granted b i cid" "cc_agent_id (br_calls b ! i) = wk_agent_id w"
        "wk_generation w = Some (cc_generation (br_calls b ! i))"
      using d(2) unfolding works_ok_def by blast
    have "cc_agent_id (br_calls b' ! i) = wk_agent_id w \<and> wk_generation w = Some (cc_generation (br_calls b' ! i))"
      using i keep [of i] by (simp add: granted_def)
    with i(1) show "wk_claim_id w = cid \<and> stream_inv (wk_stream w) \<and> (wk_state w \<noteq> RS_CLAIMED \<longrightarrow> wk_started w) \<and>
        (\<exists>i. granted b i cid \<and> cc_agent_id (br_calls b' ! i) = wk_agent_id w \<and>
          wk_generation w = Some (cc_generation (br_calls b' ! i)))"
      using broker_inv_work [OF inv w] by blast
  qed
  moreover have "calls_ok b'"
    unfolding calls_ok_def same g
  proof (intro allI impI conjI)
    fix i cid
    assume i: "granted b i cid"
    then obtain w where "br_heap b cid = Some w" "cc_pc (br_calls b ! i) = Abandoned \<longrightarrow> terminal_state (wk_state w)"
      using d(3) unfolding calls_ok_def by blast
    then show "\<exists>w. br_heap b cid = Some w \<and> (cc_pc (br_calls b' ! i) = Abandoned \<longrightarrow> terminal_state (wk_state w))"
      using ab [OF i] by blast
    show "j = i" if "granted b j cid" for j
      using d(3) i that unfolding calls_ok_def by blast
  qed
  ultimately show ?thesis using wt pend by (simp add: broker_inv_def)
qed

lemma fence_of_present: "map_of (br_generation b) aid = Some f \<Longrightarrow> fence_of b aid d = f"
  by (simp add: fence_of_def)

lemma waiters_okD:
  assumes "waiters_ok b" "(i, g) \<in> set (slots_of b aid)"
  shows "i < length (br_calls b)" "cc_agent_id (br_calls b ! i) = aid" "cc_generation (br_calls b ! i) = g"
    and "\<exists>f. map_of (br_generation b) aid = Some f \<and> g \<le> f"
  using assms unfolding waiters_ok_def by blast+

lemma slots_of_update [simp]:
  "slots_of (b\<lparr>br_waiters := AList.update aid xs (br_waiters b)\<rparr>) k = (if k = aid then xs else slots_of b k)"
  by (simp add: slots_of_def update_conv')

text \<open>Fewer waiters, or a future settled without a result.\<close>

lemma fewer_waiters_inv:
  assumes inv: "broker_inv cls b" and sub: "set xs \<subseteq> set (slots_of b aid)"
  shows "broker_inv cls (b\<lparr>br_waiters := AList.update aid xs (br_waiters b)\<rparr>)"
proof (rule calls_frame_inv [OF inv])
  show "waiters_ok (b\<lparr>br_waiters := AList.update aid xs (br_waiters b)\<rparr>)"
    using broker_invD(4) [OF inv] sub unfolding waiters_ok_def by auto
qed (use broker_invD(7) [OF inv] in \<open>simp_all add: granted_def pending_ok_def\<close>)

lemma set_fut_sels [simp]:
  "br_heap (set_fut i f b) = br_heap b" "br_works (set_fut i f b) = br_works b"
  "br_terminal_class (set_fut i f b) = br_terminal_class b" "br_last_claim (set_fut i f b) = br_last_claim b"
  "br_generation (set_fut i f b) = br_generation b" "br_waiters (set_fut i f b) = br_waiters b"
  "slots_of (set_fut i f b) = slots_of b" "length (br_calls (set_fut i f b)) = length (br_calls b)"
  by (simp_all add: set_fut_def slots_of_def fun_eq_iff)

lemma set_fut_nth:
  "i < length (br_calls b) \<Longrightarrow> br_calls (set_fut i f b) ! j =
     (if j = i then (br_calls b ! i)\<lparr>cc_fut := f\<rparr> else br_calls b ! j)"
  by (simp add: set_fut_def)

lemma cancel_inv:
  assumes inv: "broker_inv cls b" and i: "i < length (br_calls b)" and p: "cc_fut (br_calls b ! i) = FutPending"
  shows "broker_inv cls (set_fut i FutCancelled b)"
proof (rule calls_frame_inv [OF inv])
  show "waiters_ok (set_fut i FutCancelled b)"
    using broker_invD(4) [OF inv] i unfolding waiters_ok_def by (auto simp: set_fut_nth)
  show "granted (set_fut i FutCancelled b) j cid \<longleftrightarrow> granted b j cid" for j cid
    using p i by (auto simp: granted_def set_fut_nth)
  show "pending_ok (set_fut i FutCancelled b)"
    using broker_invD(7) [OF inv] i by (auto simp: pending_ok_def set_fut_nth)
qed (use i in \<open>auto simp: set_fut_nth split: if_splits\<close>)

lemma set_pc_sels [simp]:
  "br_heap (set_pc i f b) = br_heap b" "br_works (set_pc i f b) = br_works b"
  "br_terminal_class (set_pc i f b) = br_terminal_class b" "br_last_claim (set_pc i f b) = br_last_claim b"
  "br_generation (set_pc i f b) = br_generation b" "br_waiters (set_pc i f b) = br_waiters b"
  "slots_of (set_pc i f b) = slots_of b" "length (br_calls (set_pc i f b)) = length (br_calls b)"
  by (simp_all add: set_pc_def slots_of_def fun_eq_iff)

lemma set_pc_nth:
  "i < length (br_calls b) \<Longrightarrow> br_calls (set_pc i f b) ! j =
     (if j = i then (br_calls b ! i)\<lparr>cc_pc := f\<rparr> else br_calls b ! j)"
  by (simp add: set_pc_def)

lemma set_pc_inv:
  assumes inv: "broker_inv cls b" and i: "i < length (br_calls b)"
    and np: "cc_fut (br_calls b ! i) \<noteq> FutPending"
    and ab: "\<And>cid w. pc = Abandoned \<Longrightarrow> cc_fut (br_calls b ! i) = FutResult cid \<Longrightarrow> br_heap b cid = Some w \<Longrightarrow>
      terminal_state (wk_state w)"
  shows "broker_inv cls (set_pc i pc b)"
proof (rule calls_frame_inv [OF inv])
  show "waiters_ok (set_pc i pc b)"
    using broker_invD(4) [OF inv] i unfolding waiters_ok_def by (auto simp: set_pc_nth)
  show "granted (set_pc i pc b) j cid \<longleftrightarrow> granted b j cid" for j cid
    using i by (auto simp: granted_def set_pc_nth)
  show "cc_pc (br_calls b ! j) = Abandoned \<or> terminal_state (wk_state w)"
    if "granted b j cid" "br_heap b cid = Some w" "cc_pc (br_calls (set_pc i pc b) ! j) = Abandoned" for j cid w
    using that i ab [of cid w] by (auto simp: granted_def set_pc_nth split: if_splits)
  show "pending_ok (set_pc i pc b)"
    using broker_invD(7) [OF inv] i np by (auto simp: pending_ok_def set_pc_nth)
qed (use i in \<open>simp_all add: set_pc_nth\<close>)

lemma raise_fence_inv:
  assumes inv: "broker_inv cls b"
  shows "broker_inv cls (b\<lparr>br_generation := AList.update aid (max (fence_of b aid 0) n) (br_generation b)\<rparr>)"
    (is "broker_inv cls ?b")
proof (rule calls_frame_inv [OF inv])
  have s: "slots_of ?b = slots_of b" by (simp add: slots_of_def fun_eq_iff)
  have "\<exists>f. map_of (br_generation ?b) k = Some f \<and> g \<le> f" if kg: "(i, g) \<in> set (slots_of b k)" for i g k
  proof -
    obtain f where f: "map_of (br_generation b) k = Some f" "g \<le> f"
      using waiters_okD(4) [OF broker_invD(4) [OF inv] kg] by blast
    show ?thesis
    proof (cases "k = aid")
      case True
      then show ?thesis using f by (auto simp: update_conv' fence_of_def)
    next
      case False
      then show ?thesis using f by (simp add: update_conv')
    qed
  qed
  then show "waiters_ok ?b"
    using waiters_okD(1-3) [OF broker_invD(4) [OF inv]] unfolding waiters_ok_def s by simp
qed (use broker_invD(7) [OF inv] in \<open>simp_all add: granted_def pending_ok_def\<close>)

lemma resume_inv:
  assumes "broker_inv cls b" "i < length (br_calls b)"
  shows "broker_inv cls (snd (claim_resume i b))"
  using set_pc_inv [OF assms, of Returned] assms(1) by (auto simp: claim_resume_def split: fut_state.split)

lemma claim_begin_inv:
  assumes inv: "broker_inv cls b"
  shows "broker_inv cls (snd (claim_begin aid g b))"
proof (cases "g < fence_of b aid 0")
  case True
  then show ?thesis using inv by (simp add: claim_begin_def)
next
  case False
  let ?n = "length (br_calls b)"
  let ?b = "b\<lparr>br_generation := AList.update aid (max (fence_of b aid 0) g) (br_generation b)\<rparr>"
  let ?c = "snd (claim_begin aid g b)"
  have i1: "broker_inv cls ?b" by (rule raise_fence_inv [OF inv])
  have c: "?c = ?b\<lparr>br_waiters := AList.update aid (slots_of b aid @ [(?n, g)]) (br_waiters b),
      br_calls := br_calls b @ [\<lparr>cc_agent_id = aid, cc_generation = g, cc_fut = FutPending, cc_pc = Awaiting\<rparr>]\<rparr>"
    using False by (simp add: claim_begin_def Let_def)
  have sl: "slots_of ?c k = (if k = aid then slots_of b aid @ [(?n, g)] else slots_of b k)" for k
    unfolding c by (simp add: slots_of_def update_conv')
  have sb: "slots_of ?b k = slots_of b k" for k by (simp add: slots_of_def)
  show ?thesis
  proof (rule calls_frame_inv [OF i1])
    show "waiters_ok ?c"
      unfolding waiters_ok_def
    proof (intro allI impI)
      fix k i h
      assume kh: "(i, h) \<in> set (slots_of ?c k)"
      show "i < length (br_calls ?c) \<and> cc_agent_id (br_calls ?c ! i) = k \<and> cc_generation (br_calls ?c ! i) = h \<and>
          (\<exists>f. map_of (br_generation ?c) k = Some f \<and> h \<le> f)"
      proof (cases "k = aid \<and> i = ?n \<and> h = g")
        case True
        then show ?thesis unfolding c by (simp add: update_conv')
      next
        case False
        then have "(i, h) \<in> set (slots_of ?b k)" using kh unfolding sl sb by (auto split: if_splits)
        from waiters_okD [OF broker_invD(4) [OF i1] this] show ?thesis unfolding c by (simp add: nth_append)
      qed
    qed
    show "pending_ok ?c"
      using broker_invD(7) [OF inv] by (auto simp: c pending_ok_def nth_append less_Suc_eq)
  qed (auto simp: c granted_def nth_append less_Suc_eq split: if_splits)
qed

text \<open>A work object is created and handed to a pending call.\<close>

lemma grant_inv:
  assumes inv: "broker_inv cls b" and fresh: "br_heap b cid = None"
    and i: "i < length (br_calls b)" "cc_fut (br_calls b ! i) = FutPending"
    and w: "wk_claim_id w = cid" "wk_agent_id w = cc_agent_id (br_calls b ! i)"
      "wk_generation w = Some (cc_generation (br_calls b ! i))" "wk_state w = RS_CLAIMED"
      "stream_inv (wk_stream w)" "st_terminal (wk_stream w) = None"
  shows "broker_inv cls (set_fut i (FutResult cid) ((set_work w b)\<lparr>br_works := br_works b @ [cid]\<rparr>))"
    (is "broker_inv cls ?b")
proof -
  note [simp] = w(1)
  note d = broker_invD [OF inv]
  have calls: "br_calls ?b ! j = (if j = i then (br_calls b ! i)\<lparr>cc_fut := FutResult cid\<rparr> else br_calls b ! j)"
    "length (br_calls ?b) = length (br_calls b)" for j
    using i(1) by (simp_all add: set_fut_def set_work_def)
  have heap: "br_heap ?b = (br_heap b)(cid \<mapsto> w)" and works: "br_works ?b = br_works b @ [cid]"
    using w(1) by (simp_all add: set_work_def)
  have rest: "br_terminal_class ?b = br_terminal_class b" "br_last_claim ?b = br_last_claim b"
    "br_generation ?b = br_generation b" "slots_of ?b = slots_of b"
    by (simp_all add: set_work_def slots_of_def fun_eq_iff)
  have g: "granted ?b j k \<longleftrightarrow> (if j = i then k = cid else granted b j k)" for j k
    using i by (auto simp: granted_def calls)
  have ng: "\<not> granted b j cid" for j using calls_okD(1) [OF d(3), of j cid] fresh by auto
  have ngi: "\<not> granted b i k" for k using i(2) by (simp add: granted_def)
  have live: "live_ok ?b"
    using d(1) fresh w(4) unfolding live_ok_def heap works by (auto simp: terminal_state_def)
  have wok: "works_ok ?b"
    unfolding works_ok_def
  proof (intro allI impI)
    fix k u
    assume u: "br_heap ?b k = Some u"
    show "wk_claim_id u = k \<and> stream_inv (wk_stream u) \<and> (wk_state u \<noteq> RS_CLAIMED \<longrightarrow> wk_started u) \<and>
        (\<exists>j. granted ?b j k \<and> cc_agent_id (br_calls ?b ! j) = wk_agent_id u \<and>
          wk_generation u = Some (cc_generation (br_calls ?b ! j)))"
    proof (cases "k = cid")
      case True
      then show ?thesis using u w heap g [of i cid] calls(1) [of i] by auto
    next
      case False
      then have u': "br_heap b k = Some u" using u heap by simp
      then obtain j where j: "granted b j k" "cc_agent_id (br_calls b ! j) = wk_agent_id u"
          "wk_generation u = Some (cc_generation (br_calls b ! j))"
        using d(2) unfolding works_ok_def by blast
      then have "j \<noteq> i" using ngi by blast
      then have "granted ?b j k \<and> br_calls ?b ! j = br_calls b ! j" using j(1) g calls(1) by simp
      then show ?thesis using broker_inv_work [OF inv u'] j by metis
    qed
  qed
  have cok: "calls_ok ?b"
  proof (rule calls_okI)
    fix j k
    assume jk: "granted ?b j k"
    show "\<exists>u. br_heap ?b k = Some u \<and> (cc_pc (br_calls ?b ! j) = Abandoned \<longrightarrow> terminal_state (wk_state u))"
    proof (cases "j = i")
      case True
      have "cc_pc (br_calls b ! i) = Awaiting" using d(7) i by (simp add: pending_ok_def)
      then show ?thesis using True jk g heap calls(1) by simp
    next
      case False
      then have "granted b j k" "k \<noteq> cid" using jk g ng by auto
      then show ?thesis using calls_okD(1) [OF d(3)] heap calls(1) False by simp
    qed
  next
    fix j j' k
    assume "granted ?b j k" "granted ?b j' k"
    then show "j' = j" using g ng calls_okD(2) [OF d(3)] by (metis (full_types))
  qed
  have "waiters_ok ?b" using d(4) unfolding waiters_ok_def rest calls by simp
  moreover have "history_ok ?b"
    using d(5) fresh unfolding history_ok_def heap rest by (metis fun_upd_other option.distinct(1))
  moreover have "streams_ok cls ?b"
    using d(6) fresh w(4,6) unfolding streams_ok_def heap by (auto simp: terminal_state_def split: if_splits)
  moreover have "pending_ok ?b" using d(7) i by (auto simp: pending_ok_def calls)
  ultimately show ?thesis using live wok cok by (simp add: broker_inv_def)
qed

lemma offer_inv:
  assumes inv: "broker_inv cls b" and fresh: "br_heap b cid = None"
  shows "broker_inv cls (snd (offer aid port rq deadline cid b))"
proof (cases "dropWhile (\<lambda>(i, g). fut_done b i) (slots_of b aid)")
  case Nil
  then show ?thesis using inv fewer_waiters_inv [OF inv, of "[]" aid] by (auto simp: offer_def simp del: dropWhile_eq_Nil_conv)
next
  case (Cons x slots)
  obtain i g where x: "x = (i, g)" by (cases x)
  have mem: "set ((i, g) # slots) \<subseteq> set (slots_of b aid)"
    using set_dropWhileD [of _ "\<lambda>(i, g). fut_done b i" "slots_of b aid"] unfolding Cons x by blast
  have pend: "cc_fut (br_calls b ! i) = FutPending"
    using hd_dropWhile [of "\<lambda>(i, g). fut_done b i" "slots_of b aid"] unfolding Cons x by (simp add: fut_done_def)
  have slot: "(i, g) \<in> set (slots_of b aid)" using mem by simp
  note wt = waiters_okD [OF broker_invD(4) [OF inv] slot]
  let ?b1 = "b\<lparr>br_waiters := AList.update aid slots (br_waiters b)\<rparr>"
  have i1: "broker_inv cls ?b1" using fewer_waiters_inv [OF inv] mem by simp
  show ?thesis
  proof (cases "MAX_REQUEST_BYTES < int (length (rl_body rq)) \<or> \<not> relay_request_ok rq")
    case True
    then show ?thesis using inv by (auto simp: offer_def)
  next
    case False
    let ?w = "\<lparr>wk_agent_id = aid, wk_replica_port = port, wk_request = rq, wk_deadline = deadline,
        wk_generation = Some g, wk_claim_id = cid, wk_state = RS_CLAIMED, wk_status = 200,
        wk_content_type = ''application/json'', wk_reason = None, wk_started = False,
        wk_stream = ResponseStream (br_max_buffer b)\<rparr>"
    have "broker_inv cls (set_fut i FutCancelled ?b1)" using cancel_inv [OF i1] wt pend by simp
    moreover have "broker_inv cls (set_fut i (FutResult cid) ((set_work ?w ?b1)\<lparr>br_works := br_works b @ [cid]\<rparr>))"
      using grant_inv [OF i1, of cid i ?w] fresh wt pend by simp
    ultimately show ?thesis using False Cons x by (simp add: offer_def Let_def)
  qed
qed

lemma terminate_set_pc:
  "terminate_closing w st r t (set_pc i pc b) =
     (set_pc i pc (fst (terminate_closing w st r t b)), snd (terminate_closing w st r t b))"
  by (simp add: terminate_closing_def terminate_def record_last_claim_def record_terminal_def set_work_def
      set_pc_def)

lemma abandon_inv:
  assumes inv: "broker_inv cls b" and i: "i < length (br_calls b)"
  shows "broker_inv (cls @ snd (abandon_waiter i b)) (fst (abandon_waiter i b))"
proof -
  let ?aid = "cc_agent_id (br_calls b ! i)"
  let ?b0 = "b\<lparr>br_waiters := AList.update ?aid (filter (\<lambda>(f, g). f \<noteq> i) (slots_of b ?aid)) (br_waiters b)\<rparr>"
  have i0: "broker_inv cls ?b0" by (rule fewer_waiters_inv [OF inv]) auto
  show ?thesis
  proof (cases "cc_fut (br_calls b ! i)")
    case FutPending
    have "set_fut i FutCancelled (set_pc i Abandoned ?b0) = set_pc i Abandoned (set_fut i FutCancelled ?b0)"
      using i by (cases "br_calls b ! i") (simp add: set_fut_def set_pc_def)
    moreover have "broker_inv cls (set_pc i Abandoned (set_fut i FutCancelled ?b0))"
      by (rule set_pc_inv) (use cancel_inv [OF i0] i FutPending in \<open>simp_all add: set_fut_nth\<close>)
    ultimately show ?thesis using FutPending by (simp add: abandon_waiter_def Let_def)
  next
    case FutCancelled
    have "broker_inv cls (set_pc i Abandoned ?b0)"
      by (rule set_pc_inv [OF i0]) (use i FutCancelled in simp_all)
    then show ?thesis using FutCancelled by (simp add: abandon_waiter_def Let_def)
  next
    case (FutResult cid)
    obtain w where w: "br_heap b cid = Some w"
      using calls_okD(1) [OF broker_invD(3) [OF inv], of i cid] i FutResult by (auto simp: granted_def)
    obtain b' cls' where t: "terminate_closing w RS_FAILED (Some ''cancelled'') ''cancelled'' ?b0 = (b', cls')"
      by fastforce
    have i1: "broker_inv (cls @ cls') b'"
      by (rule terminate_inv [OF i0 _ _ t]) (use w in \<open>simp_all add: terminal_state_def\<close>)
    have calls: "br_calls b' = br_calls b" using terminate_frame(1) [OF t] by simp
    have "\<exists>v. br_heap b' cid = Some v \<and> terminal_state (wk_state v)"
      using w t terminate_ended [of w] terminate_live(1) [OF _ t] broker_inv_work(1) [OF inv w]
      by (cases "terminal_state (wk_state w)") (auto simp: terminal_state_def)
    then have "broker_inv (cls @ cls') (set_pc i Abandoned b')"
      by (intro set_pc_inv [OF i1]) (use i FutResult calls in auto)
    moreover have "abandon_waiter i b = (set_pc i Abandoned b', cls')"
      using FutResult w t by (simp add: abandon_waiter_def Let_def terminate_set_pc)
    ultimately show ?thesis by simp
  qed
qed

lemma check_live:
  assumes "check aid cid g b = Inr w"
  shows "cid \<in> set (br_works b)" "br_heap b cid = Some w" "wk_agent_id w = aid" "wk_generation w = Some g"
  using assms by (auto simp: check_def split: option.splits if_splits terminal_class.splits)

text \<open>An upload either leaves the broker as it is, terminates the claim it names, or runs its body.\<close>

lemma upload_cases:
  assumes "upload now aid cid g b k = (r, b', cls')"
  obtains "b' = b" "cls' = []" "\<exists>e. r = Inl e"
  | w where "check aid cid g b = Inr w" "wk_deadline w \<le> now" "r = Inl expired_error"
      "terminate_closing w RS_FAILED (Some DEADLINE_EXPIRED) DEADLINE_EXPIRED b = (b', cls')"
  | w where "check aid cid g b = Inr w" "k w = (r, b', cls')"
proof (cases "check aid cid g b")
  case (Inl e)
  then show thesis using assms that(1) by (auto simp: upload_def)
next
  case (Inr w)
  show thesis
  proof (cases "wk_deadline w \<le> now")
    case True
    obtain b1 cls1 where t: "terminate_closing w RS_FAILED (Some DEADLINE_EXPIRED) DEADLINE_EXPIRED b = (b1, cls1)"
      by fastforce
    show thesis
      using assms that(2,3) [of w] Inr True t by (cases cls1) (simp_all add: upload_def)
  next
    case False
    then show thesis using assms that(3) [of w] Inr by (simp add: upload_def)
  qed
qed

lemma upload_inv:
  assumes inv: "broker_inv cls b" and u: "upload now aid cid g b k = (r, b', cls')"
    and k: "\<And>w. check aid cid g b = Inr w \<Longrightarrow> k w = (r, b', cls') \<Longrightarrow> broker_inv (cls @ cls') b'"
  shows "broker_inv (cls @ cls') b'"
  using u
proof (cases rule: upload_cases)
  case 1
  then show ?thesis using inv by simp
next
  case (2 w)
  show ?thesis
    by (rule terminate_inv [OF inv check_live(2) [OF 2(1)] _ 2(4)]) (simp add: terminal_state_def)
next
  case (3 w)
  then show ?thesis by (rule k)
qed

lemma terminate_each_inv:
  "broker_inv cls b \<Longrightarrow> terminate_each aid newer reason cids b = (b', cls') \<Longrightarrow> broker_inv (cls @ cls') b'"
proof (induction cids arbitrary: b cls b' cls')
  case (Cons cid cids)
  obtain b1 cl1 where one:
    "(case br_heap b cid of None \<Rightarrow> (b, [])
      | Some w \<Rightarrow> if wk_agent_id w = aid \<and> older newer (wk_generation w)
                 then terminate_closing w RS_INVALID (Some reason) reason b else (b, [])) = (b1, cl1)"
    by fastforce
  obtain b2 cl2 where rest: "terminate_each aid newer reason cids b1 = (b2, cl2)" by fastforce
  have "broker_inv (cls @ cl1) b1"
    using one Cons.prems(1) terminate_inv [OF Cons.prems(1), where st = RS_INVALID]
    by (auto simp: terminal_state_def split: option.splits if_splits)
  from Cons.IH [OF this rest] show ?case using Cons.prems(2) one rest by simp
qed simp

lemma cancel_pending_inv:
  "broker_inv cls b \<Longrightarrow> \<forall>i \<in> set is. i < length (br_calls b) \<Longrightarrow> broker_inv cls (cancel_pending is b)"
proof (induction "is" arbitrary: b)
  case (Cons i "is")
  let ?b = "if fut_done b i then b else set_fut i FutCancelled b"
  have "broker_inv cls ?b" using cancel_inv [OF Cons.prems(1)] Cons.prems by (simp add: fut_done_def)
  moreover have "\<forall>j \<in> set is. j < length (br_calls ?b)" using Cons.prems(2) by simp
  ultimately have "broker_inv cls (cancel_pending is ?b)" by (rule Cons.IH)
  then show ?case by (simp add: cancel_pending_def)
qed (simp add: cancel_pending_def)

lemma cancel_pending_sels [simp]:
  "br_waiters (cancel_pending is b) = br_waiters b" "br_heap (cancel_pending is b) = br_heap b"
  "br_works (cancel_pending is b) = br_works b" "br_generation (cancel_pending is b) = br_generation b"
proof -
  have "br_waiters (cancel_pending is b) = br_waiters b \<and> br_heap (cancel_pending is b) = br_heap b \<and>
      br_works (cancel_pending is b) = br_works b \<and> br_generation (cancel_pending is b) = br_generation b"
    by (induction "is" arbitrary: b) (simp_all add: cancel_pending_def)
  then show "br_waiters (cancel_pending is b) = br_waiters b" "br_heap (cancel_pending is b) = br_heap b"
    "br_works (cancel_pending is b) = br_works b" "br_generation (cancel_pending is b) = br_generation b"
    by simp_all
qed

lemma delete_waiters_inv:
  assumes inv: "broker_inv cls b"
  shows "broker_inv cls (b\<lparr>br_waiters := AList.delete aid (br_waiters b)\<rparr>)"
proof (rule calls_frame_inv [OF inv])
  have "slots_of (b\<lparr>br_waiters := AList.delete aid (br_waiters b)\<rparr>) k = (if k = aid then [] else slots_of b k)" for k
    by (simp add: slots_of_def map_of_delete_other)
  then show "waiters_ok (b\<lparr>br_waiters := AList.delete aid (br_waiters b)\<rparr>)"
    using broker_invD(4) [OF inv] unfolding waiters_ok_def by auto
qed (use broker_invD(7) [OF inv] in \<open>simp_all add: granted_def pending_ok_def\<close>)

lemma kept_waiters_inv:
  assumes inv: "broker_inv cls b" and sub: "set xs \<subseteq> set (slots_of b aid)"
  shows "broker_inv cls (b\<lparr>br_waiters := (if xs = [] then AList.delete aid (br_waiters b)
            else AList.update aid xs (AList.delete aid (br_waiters b)))\<rparr>)"
proof (cases "xs = []")
  case True
  then show ?thesis using delete_waiters_inv [OF inv] by simp
next
  case False
  let ?b = "b\<lparr>br_waiters := AList.update aid xs (AList.delete aid (br_waiters b))\<rparr>"
  have "slots_of ?b k = (if k = aid then xs else slots_of b k)" for k
    by (simp add: slots_of_def map_of_delete_other update_conv')
  then have "waiters_ok ?b" using broker_invD(4) [OF inv] sub unfolding waiters_ok_def by auto
  then have "broker_inv cls ?b"
    by (intro calls_frame_inv [OF inv]) (use broker_invD(7) [OF inv] in \<open>simp_all add: granted_def pending_ok_def\<close>)
  then show ?thesis using False by simp
qed

lemma invalidate_inv:
  assumes inv: "broker_inv cls b"
  shows "broker_inv (cls @ snd (invalidate_agent aid newer reason b)) (fst (invalidate_agent aid newer reason b))"
proof -
  let ?b1 = "b\<lparr>br_generation := AList.update aid (max (fence_of b aid 0) newer) (br_generation b)\<rparr>"
  obtain b2 cls2 where t: "terminate_each aid newer reason (br_works ?b1) ?b1 = (b2, cls2)" by fastforce
  let ?slots = "slots_of b2 aid"
  let ?old = "map fst (filter (\<lambda>(i, g). g < newer) ?slots)"
  have i2: "broker_inv (cls @ cls2) b2" by (rule terminate_each_inv [OF raise_fence_inv [OF inv] t])
  have "\<forall>i \<in> set ?old. i < length (br_calls b2)"
    using waiters_okD(1) [OF broker_invD(4) [OF i2]] by auto
  from cancel_pending_inv [OF i2 this] have i3: "broker_inv (cls @ cls2) (cancel_pending ?old b2)" .
  have "set (filter (\<lambda>(i, g). \<not> g < newer) ?slots) \<subseteq> set (slots_of (cancel_pending ?old b2) aid)"
    by (auto simp: slots_of_def)
  from kept_waiters_inv [OF i3 this] show ?thesis using t by (simp add: invalidate_agent_def Let_def)
qed

section \<open>The invariant of the relay\<close>

lemma broker_inv_swap: "broker_inv (cls @ cls') b \<longleftrightarrow> broker_inv (cls' @ cls) b"
  unfolding broker_inv_def streams_ok_def set_append Un_commute [of "set cls"] ..

lemma with_closes_inv:
  assumes "writes_ok (ry_writing s)" "broker_inv (ry_closing s @ snd r) (fst r)"
  shows "relay_inv (with_closes s r)"
  using assms by (simp add: relay_inv_def with_closes_def broker_inv_swap [of "snd r"])

lemma terminate_closing_sys:
  assumes "broker_inv cls b" "br_heap b cid = Some w" "terminal_state st"
  shows "broker_inv (cls @ snd (terminate_closing w st r t b)) (fst (terminate_closing w st r t b))"
  using terminate_inv [OF assms] by (metis prod.collapse)

lemma upload_sys:
  assumes inv: "broker_inv cls b"
    and k: "\<And>w. check aid cid g b = Inr w \<Longrightarrow> broker_inv (cls @ snd (snd (k w))) (fst (snd (k w)))"
  shows "broker_inv (cls @ snd (snd (upload now aid cid g b k))) (fst (snd (upload now aid cid g b k)))"
proof -
  obtain r b' cls' where u: "upload now aid cid g b k = (r, b', cls')" by (metis surj_pair)
  have "broker_inv (cls @ cls') b'"
    by (rule upload_inv [OF inv u]) (use k in fastforce)
  then show ?thesis using u by simp
qed

lemma write_begin_sys:
  assumes inv: "broker_inv cls b"
  shows "broker_inv (cls @ snd (snd (write_begin now aid cid g chunk b))) (fst (snd (write_begin now aid cid g chunk b)))"
proof (cases "MAX_RESPONSE_CHUNK_BYTES < int (length chunk)")
  case False
  then show ?thesis unfolding write_begin_def by (simp only: if_False) (rule upload_sys [OF inv], simp add: inv)
qed (simp add: write_begin_def inv)

lemma relay_step_inv:
  assumes inv: "relay_inv s" and st: "relay_step s t"
  shows "relay_inv t"
proof -
  have b: "broker_inv (ry_closing s) (ry_broker s)" and w: "writes_ok (ry_writing s)"
    using inv by (simp_all add: relay_inv_def)
  note wc = with_closes_inv [OF w]
  from st show ?thesis
  proof cases
    case (st_offer cid aid port rq deadline)
    then show ?thesis using offer_inv [OF b] w by (simp add: relay_inv_def)
  next
    case (st_claim aid g)
    then show ?thesis using claim_begin_inv [OF b] w by (simp add: relay_inv_def)
  next
    case (st_resume i)
    then show ?thesis using resume_inv [OF b] w by (simp add: relay_inv_def)
  next
    case (st_abandon i)
    then show ?thesis using wc [OF abandon_inv [OF b]] by simp
  next
    case (st_start now aid cid g status ct)
    show ?thesis
      unfolding st_start start_response_def
      by (intro wc upload_sys [OF b]) (auto dest!: check_live(2) intro: start_inv [OF b] simp: b)
  next
    case (st_write now aid cid g chunk r b' cls')
    have "broker_inv (ry_closing s @ cls') b'"
      using write_begin_sys [OF b, of now aid cid g chunk] st_write(2) by simp
    moreover have "int (length chunk) \<le> MAX_RESPONSE_CHUNK_BYTES" if "r = Inr True"
      using st_write(2) that by (auto simp: write_begin_def split: if_splits)
    ultimately show ?thesis
      unfolding st_write(1) using w
      by (auto simp: relay_inv_def with_closes_def writes_ok_def broker_inv_swap [of cls'])
  next
    case (st_append cid chunk u now r str)
    have c: "int (length chunk) \<le> MAX_RESPONSE_CHUNK_BYTES" using w st_append(2) by (auto simp: writes_ok_def)
    have "stream_inv str"
      using stream_write_inv [OF broker_inv_work(2) [OF b st_append(3)] c, of now "wk_deadline u"] st_append(4) by simp
    moreover have "st_terminal str = st_terminal (wk_stream u)"
      using st_append(4) by (auto simp: stream_write_def split: if_splits option.splits)
    ultimately have "broker_inv (ry_closing s) (set_work (u\<lparr>wk_stream := str\<rparr>) (ry_broker s))"
      by (rule set_stream_inv [OF b st_append(3)])
    moreover have "writes_ok (remove1 (cid, chunk) (ry_writing s))"
      using w set_remove1_subset [of "(cid, chunk)" "ry_writing s"] unfolding writes_ok_def by blast
    ultimately show ?thesis unfolding st_append(1) by (simp add: relay_inv_def)
  next
    case (st_timeout cid chunk)
    have "writes_ok (remove1 (cid, chunk) (ry_writing s))"
      using w set_remove1_subset [of "(cid, chunk)" "ry_writing s"] unfolding writes_ok_def by blast
    then show ?thesis unfolding st_timeout using b by (simp add: relay_inv_def)
  next
    case (st_expire cid)
    have "broker_inv (ry_closing s @ snd (deadline_terminate cid (ry_broker s))) (fst (deadline_terminate cid (ry_broker s)))"
      using b terminate_closing_sys [OF b] by (auto simp: deadline_terminate_def terminal_state_def split: option.split)
    then show ?thesis
      unfolding st_expire using w
      by (simp add: relay_inv_def with_closes_def broker_inv_swap [of "snd (deadline_terminate cid (ry_broker s))"])
  next
    case (st_finish now aid cid g)
    show ?thesis
      unfolding st_finish finish_def
      by (intro wc upload_sys [OF b])
        (auto dest!: check_live(2) intro: terminate_closing_sys [OF b] simp: b terminal_state_def)
  next
    case (st_fail now aid cid g code)
    have "broker_inv (ry_closing s @ snd (snd (fail now aid cid g code (ry_broker s))))
        (fst (snd (fail now aid cid g code (ry_broker s))))"
      using b upload_sys [OF b, of aid cid g "\<lambda>w. (Inr (), terminate_closing w RS_FAILED (Some code) code (ry_broker s))" now]
        terminate_closing_sys [OF b check_live(2), of aid cid g]
      by (simp add: fail_def terminal_state_def)
    then show ?thesis unfolding st_fail by (rule wc)
  next
    case (st_invalidate aid newer reason)
    then show ?thesis using wc [OF invalidate_inv [OF b]] by simp
  next
    case (st_disconnect cid)
    have "broker_inv (ry_closing s @ snd (disconnect cid (ry_broker s))) (fst (disconnect cid (ry_broker s)))"
      using b terminate_closing_sys [OF b] by (auto simp: disconnect_def terminal_state_def split: option.split)
    then show ?thesis unfolding st_disconnect by (rule wc)
  next
    case (st_read cid)
    have "broker_inv (ry_closing s) (snd (exchange_next cid (ry_broker s)))"
    proof (cases "br_heap (ry_broker s) cid")
      case (Some u)
      have "stream_inv (snd (stream_read (wk_stream u)))"
        by (rule stream_read_inv [OF broker_inv_work(2) [OF b Some]])
      moreover have "st_terminal (snd (stream_read (wk_stream u))) = st_terminal (wk_stream u)"
        by (simp add: stream_read_def split: list.split option.split)
      ultimately have "broker_inv (ry_closing s)
          (set_work (u\<lparr>wk_stream := snd (stream_read (wk_stream u))\<rparr>) (ry_broker s))"
        by (rule set_stream_inv [OF b Some])
      then show ?thesis using Some b by (auto simp: exchange_next_def split: prod.split read_result.split)
    qed (simp add: exchange_next_def b)
    then show ?thesis unfolding st_read using w by (simp add: relay_inv_def)
  next
    case (st_close cid c)
    then show ?thesis using on_stream_close_inv [OF b] w by (simp add: relay_inv_def)
  qed
qed

interpretation relay: inv_system relay_init relay_step relay_inv
proof
  show "relay_init s \<Longrightarrow> relay_inv s" for s
    by (auto simp: relay_init_def relay_inv_def RelayBroker_inv writes_ok_def)
qed (rule relay_step_inv)

section \<open>The ledger of claims\<close>

text \<open>
  What the relay promises: a claim is opened once, for an agent at a generation its fence admits, and
  closed once; a fence closes every older open claim of its agent and never falls.
\<close>

datatype claim_entry = ClaimOpen ident int | ClaimClosed ident int relay_state

record ledger =
  lg_claims :: "string \<Rightarrow> claim_entry option"
  lg_fence :: "ident \<Rightarrow> int"

fun fence_entry :: "ident \<Rightarrow> int \<Rightarrow> claim_entry \<Rightarrow> claim_entry" where
  "fence_entry aid n (ClaimOpen a g) = (if a = aid \<and> g < n then ClaimClosed a g RS_INVALID else ClaimOpen a g)"
| "fence_entry aid n (ClaimClosed a g v) = ClaimClosed a g v"

inductive ledger_step :: "ledger \<Rightarrow> ledger \<Rightarrow> bool" where
  open_claim: "lg_claims l cid = None \<Longrightarrow> lg_fence l aid \<le> g \<Longrightarrow>
    ledger_step l (l\<lparr>lg_claims := (lg_claims l)(cid \<mapsto> ClaimOpen aid g)\<rparr>)"
| close_claim: "lg_claims l cid = Some (ClaimOpen aid g) \<Longrightarrow> terminal_state v \<Longrightarrow>
    ledger_step l (l\<lparr>lg_claims := (lg_claims l)(cid \<mapsto> ClaimClosed aid g v)\<rparr>)"
| raise_fence: "lg_fence l aid \<le> n \<Longrightarrow> ledger_step l (l\<lparr>lg_fence := (lg_fence l)(aid := n)\<rparr>)"
| fence_agent: "ledger_step l \<lparr>lg_claims = (\<lambda>cid. map_option (fence_entry aid n) (lg_claims l cid)),
    lg_fence = (lg_fence l)(aid := max (lg_fence l aid) n)\<rparr>"

definition entry_of :: "work \<Rightarrow> claim_entry" where
  "entry_of w =
     (let g = (case wk_generation w of None \<Rightarrow> 0 | Some n \<Rightarrow> n)
      in if terminal_state (wk_state w) then ClaimClosed (wk_agent_id w) g (wk_state w) else ClaimOpen (wk_agent_id w) g)"

definition ledger_of :: "broker \<Rightarrow> ledger" where
  "ledger_of b = \<lparr>lg_claims = (\<lambda>cid. map_option entry_of (br_heap b cid)), lg_fence = (\<lambda>aid. fence_of b aid 0)\<rparr>"

text \<open>Laws of the ledger.\<close>

lemma closed_stays:
  "ledger_step\<^sup>*\<^sup>* l l' \<Longrightarrow> lg_claims l cid = Some (ClaimClosed a g v) \<Longrightarrow> lg_claims l' cid = Some (ClaimClosed a g v)"
proof (induction rule: rtranclp_induct)
  case (step l' l'')
  then have "lg_claims l' cid = Some (ClaimClosed a g v)" by simp
  with step(2) show ?case by cases auto
qed simp

definition fenced :: "ident \<Rightarrow> int \<Rightarrow> ledger \<Rightarrow> bool" where
  "fenced aid n l \<longleftrightarrow> n \<le> lg_fence l aid \<and> (\<forall>cid g. lg_claims l cid = Some (ClaimOpen aid g) \<longrightarrow> n \<le> g)"

lemma fence_entry_Open:
  "fence_entry aid n e = ClaimOpen a g \<longleftrightarrow> e = ClaimOpen a g \<and> \<not> (a = aid \<and> g < n)"
  by (cases e) auto

lemma fenced_step: "ledger_step l l' \<Longrightarrow> fenced aid n l \<Longrightarrow> fenced aid n l'"
  by (induction rule: ledger_step.induct) (auto simp: fenced_def fence_entry_Open)

lemma fenced_stays: "ledger_step\<^sup>*\<^sup>* l l' \<Longrightarrow> fenced aid n l \<Longrightarrow> fenced aid n l'"
  by (induction rule: rtranclp_induct) (auto intro: fenced_step)

lemma fence_agent_fences:
  "fenced aid n \<lparr>lg_claims = (\<lambda>cid. map_option (fence_entry aid n) (lg_claims l cid)),
     lg_fence = (lg_fence l)(aid := max (lg_fence l aid) n)\<rparr>"
  by (auto simp: fenced_def fence_entry_Open)

section \<open>The broker implements the ledger\<close>

lemma ledger_of_cong:
  assumes "\<And>cid. map_option entry_of (br_heap b' cid) = map_option entry_of (br_heap b cid)"
    "br_generation b' = br_generation b"
  shows "ledger_of b' = ledger_of b"
  using assms by (simp add: ledger_of_def fence_of_def)

lemma ledger_of_set_work:
  assumes "br_heap b (wk_claim_id v) = Some w" "entry_of v = entry_of w"
  shows "ledger_of (set_work v b) = ledger_of b"
  using assms by (intro ledger_of_cong) simp_all

lemma ledger_of_set_stream:
  assumes "broker_inv cls b" "br_heap b cid = Some u"
  shows "ledger_of (set_work (u\<lparr>wk_stream := v\<rparr>) b) = ledger_of b"
  using assms(2) broker_inv_work(1) [OF assms] by (intro ledger_of_set_work [of b _ u]) (simp_all add: entry_of_def Let_def)

lemma terminate_ledger:
  assumes inv: "broker_inv cls b" and w: "br_heap b cid = Some w" and ts: "terminal_state st"
  shows "ledger_step\<^sup>=\<^sup>= (ledger_of b) (ledger_of (fst (terminate_closing w st r t b)))"
proof (cases "terminal_state (wk_state w)")
  case True
  then show ?thesis by (simp add: terminate_ended)
next
  case False
  obtain b' cls' where t: "terminate_closing w st r t b = (b', cls')" by fastforce
  let ?g = "case wk_generation w of None \<Rightarrow> 0 | Some n \<Rightarrow> n"
  have "br_heap b' = (br_heap b)(cid \<mapsto> w\<lparr>wk_state := st, wk_reason := r, wk_started := True\<rparr>)"
    using terminate_live(1) [OF False t] broker_inv_work(1) [OF inv w] by simp
  then have "ledger_of b' = (ledger_of b)\<lparr>lg_claims := (lg_claims (ledger_of b))(cid \<mapsto> ClaimClosed (wk_agent_id w) ?g st)\<rparr>"
    using terminate_frame(3) [OF t] ts by (auto simp: ledger_of_def entry_of_def Let_def fence_of_def fun_eq_iff)
  moreover have "lg_claims (ledger_of b) cid = Some (ClaimOpen (wk_agent_id w) ?g)"
    using w False by (simp add: ledger_of_def entry_of_def Let_def)
  ultimately show ?thesis using close_claim [of "ledger_of b" cid _ _ st] ts t by auto
qed

lemma upload_ledger:
  assumes inv: "broker_inv cls b"
    and k: "\<And>w. check aid cid g b = Inr w \<Longrightarrow> ledger_step\<^sup>=\<^sup>= (ledger_of b) (ledger_of (fst (snd (k w))))"
  shows "ledger_step\<^sup>=\<^sup>= (ledger_of b) (ledger_of (fst (snd (upload now aid cid g b k))))"
proof -
  obtain r b' cls' where u: "upload now aid cid g b k = (r, b', cls')" by (metis surj_pair)
  then have "ledger_step\<^sup>=\<^sup>= (ledger_of b) (ledger_of b')"
  proof (cases rule: upload_cases)
    case 1
    then show ?thesis by simp
  next
    case (2 w)
    then show ?thesis
      using terminate_ledger [OF inv check_live(2) [OF 2(1)], of RS_FAILED "Some DEADLINE_EXPIRED" DEADLINE_EXPIRED]
      by (simp add: terminal_state_def)
  next
    case (3 w)
    then show ?thesis using k [OF 3(1)] by simp
  qed
  then show ?thesis using u by simp
qed

lemma fence_entry_idem [simp]: "fence_entry aid n (fence_entry aid n e) = fence_entry aid n e"
  by (cases e) auto

lemma terminate_each_entries:
  "broker_inv cls b \<Longrightarrow> terminate_each aid n reason cids b = (b', cls') \<Longrightarrow>
     br_generation b' = br_generation b \<and>
     map_option entry_of (br_heap b' k) =
       (if k \<in> set cids then map_option (fence_entry aid n) (map_option entry_of (br_heap b k))
        else map_option entry_of (br_heap b k))"
proof (induction cids arbitrary: b cls b' cls')
  case (Cons cid cids)
  let ?one = "case br_heap b cid of None \<Rightarrow> (b, [])
      | Some w \<Rightarrow> if wk_agent_id w = aid \<and> older n (wk_generation w)
                 then terminate_closing w RS_INVALID (Some reason) reason b else (b, [])"
  obtain b1 cl1 where one: "?one = (b1, cl1)" by fastforce
  obtain b2 cl2 where rest: "terminate_each aid n reason cids b1 = (b2, cl2)" by fastforce
  have b': "b' = b2" using Cons.prems(2) one rest by simp
  have inv1: "broker_inv (cls @ cl1) b1"
    using one Cons.prems(1) terminate_inv [OF Cons.prems(1), where st = RS_INVALID]
    by (auto simp: terminal_state_def split: option.splits if_splits)
  have gen1: "br_generation b1 = br_generation b"
    using one terminate_frame(3) by (fastforce split: option.splits if_splits)
  have ent1: "map_option entry_of (br_heap b1 j) =
      (if j = cid then map_option (fence_entry aid n) (map_option entry_of (br_heap b j))
       else map_option entry_of (br_heap b j))" for j
  proof (cases "br_heap b cid")
    case None
    then show ?thesis using one by auto
  next
    case (Some w)
    note wk = broker_inv_work(1) [OF Cons.prems(1) Some]
    obtain g where g: "wk_generation w = Some g"
      using broker_invD(2) [OF Cons.prems(1)] Some unfolding works_ok_def by blast
    show ?thesis
    proof (cases "wk_agent_id w = aid \<and> g < n \<and> \<not> terminal_state (wk_state w)")
      case True
      then have t: "terminate_closing w RS_INVALID (Some reason) reason b = (b1, cl1)"
        using one Some g by (simp add: older_def)
      have "br_heap b1 = (br_heap b)(cid \<mapsto> w\<lparr>wk_state := RS_INVALID, wk_reason := Some reason, wk_started := True\<rparr>)"
        using terminate_live(1) [OF _ t] True wk by simp
      then show ?thesis using Some True g by (simp add: entry_of_def Let_def terminal_state_def)
    next
      case False
      then have "b1 = b" using one Some g by (auto simp: older_def terminate_ended split: if_splits)
      moreover have "fence_entry aid n (entry_of w) = entry_of w" using False g by (auto simp: entry_of_def Let_def)
      ultimately show ?thesis using Some by simp
    qed
  qed
  have idem: "map_option (fence_entry aid n) (map_option (fence_entry aid n) x) = map_option (fence_entry aid n) x" for x
    by (cases x) simp_all
  show ?case
    using Cons.IH [OF inv1 rest] gen1 unfolding b' ent1 [of k]
    by (cases "k = cid"; cases "k \<in> set cids") (simp_all add: idem del: option.map_comp)
qed simp

lemma invalidate_ledger:
  assumes inv: "broker_inv cls b"
  shows "ledger_of (fst (invalidate_agent aid n reason b)) =
    \<lparr>lg_claims = (\<lambda>cid. map_option (fence_entry aid n) (lg_claims (ledger_of b) cid)),
     lg_fence = (lg_fence (ledger_of b))(aid := max (lg_fence (ledger_of b) aid) n)\<rparr>"
proof -
  let ?b1 = "b\<lparr>br_generation := AList.update aid (max (fence_of b aid 0) n) (br_generation b)\<rparr>"
  obtain b2 cls2 where t: "terminate_each aid n reason (br_works ?b1) ?b1 = (b2, cls2)" by fastforce
  note e = terminate_each_entries [OF raise_fence_inv [OF inv] t]
  have ents: "map_option entry_of (br_heap b2 k) = map_option (fence_entry aid n) (map_option entry_of (br_heap b k))" for k
  proof (cases "k \<in> set (br_works b)")
    case True
    then show ?thesis using e [of k] by simp
  next
    case False
    have "map_option (fence_entry aid n) (map_option entry_of (br_heap b k)) = map_option entry_of (br_heap b k)"
      using False broker_invD(1) [OF inv] unfolding live_ok_def
      by (cases "br_heap b k") (auto simp: entry_of_def Let_def)
    then show ?thesis using e [of k] False by simp
  qed
  have gen: "fence_of b3 k 0 = ((\<lambda>k. fence_of b k 0)(aid := max (fence_of b aid 0) n)) k"
    if "br_generation b3 = br_generation b2" for b3 k
    using that e by (simp add: fence_of_def update_conv')
  have heap: "br_heap (fst (invalidate_agent aid n reason b)) = br_heap b2"
    "br_generation (fst (invalidate_agent aid n reason b)) = br_generation b2"
    using t by (simp_all add: invalidate_agent_def Let_def)
  show ?thesis unfolding ledger_of_def heap(1) using ents gen [OF heap(2)] by (simp add: fun_eq_iff)
qed

lemma offer_ledger:
  assumes inv: "broker_inv cls b" and fresh: "br_heap b cid = None"
  shows "ledger_step\<^sup>=\<^sup>= (ledger_of b) (ledger_of (snd (offer aid port rq deadline cid b)))"
proof -
  obtain r b' where o: "offer aid port rq deadline cid b = (r, b')" by fastforce
  show ?thesis
  proof (cases r)
    case (Inl e)
    have "br_heap b' = br_heap b \<and> br_generation b' = br_generation b"
      using o Inl by (auto simp: offer_def Let_def split: if_splits list.splits)
    then have "ledger_of b' = ledger_of b" by (intro ledger_of_cong) simp_all
    then show ?thesis using o by simp
  next
    case (Inr w)
    from o Inr obtain i g slots where d: "dropWhile (\<lambda>(i, g). fut_done b i) (slots_of b aid) = (i, g) # slots"
        and g: "\<not> g < fence_of b aid g"
        and b': "br_heap b' = (br_heap b)(cid \<mapsto> w)" "br_generation b' = br_generation b"
        and w: "wk_agent_id w = aid" "wk_generation w = Some g" "wk_state w = RS_CLAIMED"
      by (auto simp: offer_def Let_def split: if_splits list.splits)
    have "(i, g) \<in> set (slots_of b aid)"
      using d by (metis list.set_intros(1) set_dropWhileD)
    then obtain f where "map_of (br_generation b) aid = Some f"
      using waiters_okD(4) [OF broker_invD(4) [OF inv]] by blast
    then have "lg_fence (ledger_of b) aid \<le> g" using g by (simp add: ledger_of_def fence_of_def)
    moreover have "lg_claims (ledger_of b) cid = None" using fresh by (simp add: ledger_of_def)
    moreover have "ledger_of b' = (ledger_of b)\<lparr>lg_claims := (lg_claims (ledger_of b))(cid \<mapsto> ClaimOpen aid g)\<rparr>"
      using b' w by (auto simp: ledger_of_def entry_of_def terminal_state_def fence_of_def fun_eq_iff)
    ultimately have "ledger_step (ledger_of b) (ledger_of b')" by (simp add: open_claim)
    then show ?thesis using o by simp
  qed
qed

lemma claim_begin_ledger: "ledger_step\<^sup>=\<^sup>= (ledger_of b) (ledger_of (snd (claim_begin aid g b)))"
proof (cases "g < fence_of b aid 0")
  case True
  then show ?thesis by (simp add: claim_begin_def)
next
  case False
  have "ledger_of (snd (claim_begin aid g b)) =
      (ledger_of b)\<lparr>lg_fence := (lg_fence (ledger_of b))(aid := max (fence_of b aid 0) g)\<rparr>"
    using False by (auto simp: claim_begin_def Let_def ledger_of_def fence_of_def update_conv' fun_eq_iff)
  then show ?thesis using raise_fence [of "ledger_of b" aid "max (fence_of b aid 0) g"] by (simp add: ledger_of_def)
qed

lemma relay_step_ledger:
  assumes inv: "relay_inv s" and st: "relay_step s t"
  shows "ledger_step\<^sup>=\<^sup>= (ledger_of (ry_broker s)) (ledger_of (ry_broker t))"
proof -
  have b: "broker_inv (ry_closing s) (ry_broker s)" using inv by (simp add: relay_inv_def)
  note tl = terminate_ledger [OF b]
  from st show ?thesis
  proof cases
    case (st_offer cid aid port rq deadline)
    then show ?thesis using offer_ledger [OF b] by simp
  next
    case (st_claim aid g)
    then show ?thesis using claim_begin_ledger by simp
  next
    case (st_resume i)
    have "ledger_of (snd (claim_resume i (ry_broker s))) = ledger_of (ry_broker s)"
      by (rule ledger_of_cong) (simp_all add: claim_resume_def split: fut_state.split)
    then show ?thesis unfolding st_resume by simp
  next
    case (st_abandon i)
    let ?aid = "cc_agent_id (br_calls (ry_broker s) ! i)"
    let ?b0 = "(ry_broker s)\<lparr>br_waiters := AList.update ?aid
        (filter (\<lambda>(f, g). f \<noteq> i) (slots_of (ry_broker s) ?aid)) (br_waiters (ry_broker s))\<rparr>"
    have b0: "broker_inv (ry_closing s) ?b0" by (rule fewer_waiters_inv [OF b]) auto
    have same: "ledger_of ?b0 = ledger_of (ry_broker s)" "ledger_of (set_pc i pc c) = ledger_of c" for pc c
      by (rule ledger_of_cong; simp)+
    have "ledger_step\<^sup>=\<^sup>= (ledger_of (ry_broker s)) (ledger_of (fst (abandon_waiter i (ry_broker s))))"
    proof (cases "cc_fut (br_calls (ry_broker s) ! i)")
      case (FutResult cid)
      show ?thesis
        using FutResult terminate_ledger [OF b0, of cid] same
        by (auto simp: abandon_waiter_def Let_def terminate_set_pc terminal_state_def split: option.split)
    next
      case FutPending
      have "ledger_of (set_fut i FutCancelled c) = ledger_of c" for c by (rule ledger_of_cong) simp_all
      then show ?thesis using FutPending same by (simp add: abandon_waiter_def Let_def)
    qed (use same in \<open>simp add: abandon_waiter_def Let_def\<close>)
    then show ?thesis unfolding st_abandon by (simp add: with_closes_def)
  next
    case (st_start now aid cid g status ct)
    have "ledger_of (set_work (w\<lparr>wk_status := status, wk_content_type := ct, wk_state := RS_RESPONDING,
        wk_started := True\<rparr>) (ry_broker s)) = ledger_of (ry_broker s)"
      if "check aid cid g (ry_broker s) = Inr w" "wk_state w = RS_CLAIMED" for w
      using that broker_inv_work(1) [OF b check_live(2) [OF that(1)]] check_live(2) [OF that(1)]
      by (intro ledger_of_set_work) (auto simp: entry_of_def terminal_state_def)
    then have "ledger_step\<^sup>=\<^sup>= (ledger_of (ry_broker s))
        (ledger_of (fst (snd (start_response now aid cid g status ct (ry_broker s)))))"
      unfolding start_response_def by (intro upload_ledger [OF b]) auto
    then show ?thesis unfolding st_start by (simp add: with_closes_def)
  next
    case (st_write now aid cid g chunk r b' cls')
    have "ledger_step\<^sup>=\<^sup>= (ledger_of (ry_broker s))
        (ledger_of (fst (snd (write_begin now aid cid g chunk (ry_broker s)))))"
    proof (cases "MAX_RESPONSE_CHUNK_BYTES < int (length chunk)")
      case False
      then show ?thesis unfolding write_begin_def by (simp only: if_False) (rule upload_ledger [OF b], simp)
    qed (simp add: write_begin_def)
    then show ?thesis unfolding st_write(1) using st_write(2) by (simp add: with_closes_def)
  next
    case (st_append cid chunk u now r str)
    then show ?thesis using ledger_of_set_stream [OF b st_append(3)] by simp
  next
    case (st_timeout cid chunk)
    then show ?thesis by simp
  next
    case (st_expire cid)
    have "ledger_step\<^sup>=\<^sup>= (ledger_of (ry_broker s)) (ledger_of (fst (deadline_terminate cid (ry_broker s))))"
      using tl [of cid] by (auto simp: deadline_terminate_def terminal_state_def split: option.split)
    then show ?thesis unfolding st_expire by (simp add: with_closes_def)
  next
    case (st_finish now aid cid g)
    have "ledger_step\<^sup>=\<^sup>= (ledger_of (ry_broker s)) (ledger_of (fst (snd (finish now aid cid g (ry_broker s)))))"
      unfolding finish_def
    proof (rule upload_ledger [OF b])
      fix w
      assume "check aid cid g (ry_broker s) = Inr w"
      from tl [OF check_live(2) [OF this], of RS_FINISHED None "''eof''"]
      show "ledger_step\<^sup>=\<^sup>= (ledger_of (ry_broker s)) (ledger_of (fst (snd
          (if wk_state w \<noteq> RS_RESPONDING then (Inl (RelayStateError ''response not started'' None), ry_broker s, [])
           else (Inr (), terminate_closing w RS_FINISHED None ''eof'' (ry_broker s))))))"
        by (auto simp: terminal_state_def)
    qed
    then show ?thesis unfolding st_finish by (simp add: with_closes_def)
  next
    case (st_fail now aid cid g code)
    have "ledger_step\<^sup>=\<^sup>= (ledger_of (ry_broker s)) (ledger_of (fst (snd (fail now aid cid g code (ry_broker s)))))"
    proof (cases "code \<notin> set FAIL_CODES")
      case False
      have "ledger_step\<^sup>=\<^sup>= (ledger_of (ry_broker s)) (ledger_of (fst (snd
          (Inr (), terminate_closing w RS_FAILED (Some code) code (ry_broker s)))))"
        if "check aid cid g (ry_broker s) = Inr w" for w
        using tl [OF check_live(2) [OF that], of RS_FAILED "Some code" code] by (simp add: terminal_state_def)
      then show ?thesis using False unfolding fail_def by (simp only: if_False) (rule upload_ledger [OF b])
    qed (simp add: fail_def)
    then show ?thesis unfolding st_fail by (simp add: with_closes_def)
  next
    case (st_invalidate aid n reason)
    then show ?thesis
      using invalidate_ledger [OF b, of aid n reason] fence_agent [of "ledger_of (ry_broker s)" aid n]
      by (simp add: with_closes_def)
  next
    case (st_disconnect cid)
    have "ledger_step\<^sup>=\<^sup>= (ledger_of (ry_broker s)) (ledger_of (fst (disconnect cid (ry_broker s))))"
      using tl [of cid] by (auto simp: disconnect_def terminal_state_def split: option.split)
    then show ?thesis unfolding st_disconnect by (simp add: with_closes_def)
  next
    case (st_read cid)
    have "ledger_of (snd (exchange_next cid (ry_broker s))) = ledger_of (ry_broker s)"
    proof (cases "br_heap (ry_broker s) cid")
      case (Some u)
      then show ?thesis using ledger_of_set_stream [OF b Some] by (auto simp: exchange_next_def split: prod.split read_result.split)
    qed (simp add: exchange_next_def)
    then show ?thesis unfolding st_read by simp
  next
    case (st_close cid c)
    have "ledger_of (on_stream cid (stream_close c) (ry_broker s)) = ledger_of (ry_broker s)"
    proof (cases "br_heap (ry_broker s) cid")
      case (Some u)
      then show ?thesis using ledger_of_set_stream [OF b Some] by (simp add: on_stream_def)
    qed (simp add: on_stream_def)
    then show ?thesis unfolding st_close by simp
  qed
qed

interpretation relay_ledger: refinement relay_init relay_step relay_inv ledger_step "\<lambda>s. ledger_of (ry_broker s)"
  by unfold_locales (rule relay_step_ledger)

lemma fenced_live:
  assumes b: "broker_inv cls b" and f: "fenced aid n (ledger_of b)"
    and h: "cid \<in> set (br_works b)" "br_heap b cid = Some w" "wk_agent_id w = aid"
  shows "\<exists>g \<ge> n. wk_generation w = Some g"
proof -
  obtain g where g: "wk_generation w = Some g"
    using broker_invD(2) [OF b] h(2) unfolding works_ok_def by blast
  have "\<not> terminal_state (wk_state w)" using broker_invD(1) [OF b] h(1,2) unfolding live_ok_def by auto
  then have "lg_claims (ledger_of b) cid = Some (ClaimOpen aid g)"
    using h g by (simp add: ledger_of_def entry_of_def)
  then show ?thesis using f g by (auto simp: fenced_def)
qed

section \<open>A session of the relay\<close>

text \<open>One agent parks a claim call, the gateway offers it a request, the agent answers it: the states the
  witnesses below evaluate.\<close>

definition demo_request :: relay_request where
  "demo_request = \<lparr>rl_method = ''POST'', rl_path = ''/v1/chat/completions'', rl_content_type = ''application/json'',
     rl_body = ''{}''\<rparr>"

definition demo_idle :: relay_sys where
  "demo_idle = \<lparr>ry_broker = RelayBroker MAX_RESPONSE_BUFFER_BYTES, ry_closing = [], ry_writing = [], ry_expiring = []\<rparr>"

definition demo_waiting :: relay_sys where
  "demo_waiting = demo_idle\<lparr>ry_broker := snd (claim_begin ''a'' 1 (ry_broker demo_idle))\<rparr>"

definition demo_claimed :: relay_sys where
  "demo_claimed = demo_waiting\<lparr>ry_broker := snd (offer ''a'' 8080 demo_request 100 ''c'' (ry_broker demo_waiting))\<rparr>"

definition demo_responding :: relay_sys where
  "demo_responding = with_closes demo_claimed (snd (start_response 1 ''a'' ''c'' 1 200 ''text/plain'' (ry_broker demo_claimed)))"

definition demo_finished :: relay_sys where
  "demo_finished = with_closes demo_responding (snd (finish 2 ''a'' ''c'' 1 (ry_broker demo_responding)))"

lemma demo_idle_reach: "relay_reach demo_idle"
  by (intro reach_init) (auto simp: relay_init_def demo_idle_def)

lemma demo_waiting_reach: "relay_reach demo_waiting"
  unfolding demo_waiting_def by (rule reach_step [OF demo_idle_reach st_claim])

lemma demo_waiting_heap: "br_heap (ry_broker demo_waiting) c = None"
  by (simp add: demo_waiting_def demo_idle_def claim_begin_def RelayBroker_def fence_of_def Let_def)

lemma demo_claimed_reach: "relay_reach demo_claimed"
  unfolding demo_claimed_def by (rule reach_step [OF demo_waiting_reach st_offer]) (rule demo_waiting_heap)

lemma demo_responding_reach: "relay_reach demo_responding"
  unfolding demo_responding_def by (rule reach_step [OF demo_claimed_reach st_start])

lemma demo_finished_reach: "relay_reach demo_finished"
  unfolding demo_finished_def by (rule reach_step [OF demo_responding_reach st_finish])

definition demo_fenced :: relay_sys where
  "demo_fenced = with_closes demo_claimed (invalidate_agent ''a'' 2 ''offline'' (ry_broker demo_claimed))"

lemma demo_claimed_live: "br_works (ry_broker demo_claimed) = [''c'']"
  by code_simp

lemma demo_claimed_heap: "\<exists>w. br_heap (ry_broker demo_claimed) ''c'' = Some w"
proof -
  have "map_option wk_state (br_heap (ry_broker demo_claimed) ''c'') = Some RS_CLAIMED" by code_simp
  then show ?thesis by auto
qed

lemma demo_finished_heap: "\<exists>w. br_heap (ry_broker demo_finished) ''c'' = Some w \<and> wk_state w = RS_FINISHED"
proof -
  have "map_option wk_state (br_heap (ry_broker demo_finished) ''c'') = Some RS_FINISHED" by code_simp
  then show ?thesis by auto
qed

lemma demo_finished_entry:
  "lg_claims (ledger_of (ry_broker demo_finished)) ''c'' = Some (ClaimClosed ''a'' 1 RS_FINISHED)"
  by code_simp

lemma demo_finished_class: "map_of (br_terminal_class (ry_broker demo_finished)) ''c'' = Some TC_DUPLICATE"
  by code_simp

section \<open>Properties of the relay\<close>

text \<open>C7: The relay broker refines the ledger of claims. Under the abstraction that keeps of each work
  object its agent, its generation and how it ended, every step of the running relay (an offer, a
  claim, an abandoned wait, an upload, an expiry, a fence, a disconnect, a read, a close, in any
  interleaving) opens a fresh claim the fence admits, closes one open claim, raises a fence, fences an
  agent, or changes nothing; and along any run a closed claim keeps the outcome it closed with.\<close>

theorem relay_refines_ledger:
  assumes "relay_reach s"
  shows "(\<forall>t. relay_step s t \<longrightarrow> ledger_step\<^sup>=\<^sup>= (ledger_of (ry_broker s)) (ledger_of (ry_broker t))) \<and>
    (\<forall>t cid a g v. relay_step\<^sup>*\<^sup>* s t \<and> lg_claims (ledger_of (ry_broker s)) cid = Some (ClaimClosed a g v) \<longrightarrow>
       lg_claims (ledger_of (ry_broker t)) cid = Some (ClaimClosed a g v))"
  using relay_ledger.reach_step_abs [OF assms] relay_ledger.steps_abs [OF _ relay.reach_inv [OF assms]] closed_stays
  by blast

theorem relay_refines_ledger_witness:
  "ledger_step\<^sup>=\<^sup>= (ledger_of (ry_broker demo_idle)) (ledger_of (ry_broker demo_waiting)) \<and>
   lg_claims (ledger_of (ry_broker (with_closes demo_finished (invalidate_agent ''a'' 5 ''offline'' (ry_broker demo_finished)))))
     ''c'' = Some (ClaimClosed ''a'' 1 RS_FINISHED)"
  using relay_refines_ledger [OF demo_idle_reach] relay_refines_ledger [OF demo_finished_reach]
    st_claim [of demo_idle "''a''" 1, folded demo_waiting_def] demo_finished_entry
    r_into_rtranclp [of relay_step, OF st_invalidate [of demo_finished "''a''" 5 "''offline''"]]
  by blast

text \<open>C8: A presence fence is permanent. Once an agent's relay work has been invalidated with a
  generation, in every later state each live claim of that agent has that generation or a newer one,
  every upload that names an older generation is refused, and so is every claim call with one.\<close>

theorem relay_invalidation_permanent:
  assumes "relay_reach s" and "relay_step\<^sup>*\<^sup>* (with_closes s (invalidate_agent aid n reason (ry_broker s))) t"
  shows "(\<forall>cid \<in> set (br_works (ry_broker t)). \<forall>w. br_heap (ry_broker t) cid = Some w \<and> wk_agent_id w = aid \<longrightarrow>
      (\<exists>g \<ge> n. wk_generation w = Some g)) \<and>
    (\<forall>cid g. g < n \<longrightarrow> (\<exists>e. check aid cid g (ry_broker t) = Inl e) \<and>
       (\<exists>e. claim_begin aid g (ry_broker t) = (Inl e, ry_broker t)))"
proof -
  let ?s = "with_closes s (invalidate_agent aid n reason (ry_broker s))"
  have inv: "relay_inv s" by (rule relay.reach_inv [OF assms(1)])
  have inv': "relay_inv ?s" by (rule relay_step_inv [OF inv st_invalidate])
  have invt: "relay_inv t" by (rule relay.steps_inv [OF assms(2) inv'])
  have "fenced aid n (ledger_of (ry_broker ?s))"
    using inv by (simp add: relay_inv_def with_closes_def invalidate_ledger [where cls = "ry_closing s"] fence_agent_fences)
  then have f: "fenced aid n (ledger_of (ry_broker t))"
    by (rule fenced_stays [OF relay_ledger.steps_abs [OF assms(2) inv']])
  have b: "broker_inv (ry_closing t) (ry_broker t)" using invt by (simp add: relay_inv_def)
  note live = fenced_live [OF b f]
  have "\<exists>e. check aid cid g (ry_broker t) = Inl e" if "g < n" for cid g
  proof (cases "check aid cid g (ry_broker t)")
    case (Inr w)
    then show ?thesis using live [OF check_live(1-3) [OF Inr]] check_live(4) [OF Inr] that by auto
  qed simp
  moreover have "\<exists>e. claim_begin aid g (ry_broker t) = (Inl e, ry_broker t)" if "g < n" for g
    using f that by (simp add: fenced_def ledger_of_def claim_begin_def)
  ultimately show ?thesis using live by blast
qed

theorem relay_invalidation_permanent_witness:
  "br_works (ry_broker demo_claimed) = [''c''] \<and>
   (\<exists>e. check ''a'' ''c'' 1 (ry_broker demo_fenced) = Inl e) \<and>
   (\<exists>e. claim_begin ''a'' 1 (ry_broker demo_fenced) = (Inl e, ry_broker demo_fenced))"
  using relay_invalidation_permanent [OF demo_claimed_reach rtranclp.rtrancl_refl, of "''a''" 2 "''offline''",
      folded demo_fenced_def] demo_claimed_live
  by simp

text \<open>C22: In every reachable state of the relay each claim belongs to exactly one call of the claim
  endpoint, of its own agent and presence generation; work handed to a call that gave up has ended;
  when no task still owes a close, every ended claim has its response started and its stream closed,
  so neither the waiting gateway nor a reader hangs; and the two histories stay within their caps.\<close>

theorem relay_claims_sound:
  assumes "relay_reach s" and "b = ry_broker s"
  shows "(\<forall>cid w. br_heap b cid = Some w \<longrightarrow>
      (\<exists>!i. granted b i cid) \<and>
      (\<forall>i. granted b i cid \<longrightarrow> cc_agent_id (br_calls b ! i) = wk_agent_id w \<and>
         wk_generation w = Some (cc_generation (br_calls b ! i)) \<and>
         (cc_pc (br_calls b ! i) = Abandoned \<longrightarrow> terminal_state (wk_state w))) \<and>
      (terminal_state (wk_state w) \<and> ry_closing s = [] \<longrightarrow> wk_started w \<and> st_terminal (wk_stream w) \<noteq> None)) \<and>
    int (length (br_terminal_class b)) \<le> TERMINAL_HISTORY \<and> int (length (br_last_claim b)) \<le> LAST_CLAIM_HISTORY"
proof -
  have inv: "broker_inv (ry_closing s) b" using relay.reach_inv [OF assms(1)] assms(2) by (simp add: relay_inv_def)
  note d = broker_invD [OF inv]
  have "(\<exists>!i. granted b i cid) \<and>
      (\<forall>i. granted b i cid \<longrightarrow> cc_agent_id (br_calls b ! i) = wk_agent_id w \<and>
         wk_generation w = Some (cc_generation (br_calls b ! i)) \<and>
         (cc_pc (br_calls b ! i) = Abandoned \<longrightarrow> terminal_state (wk_state w))) \<and>
      (terminal_state (wk_state w) \<and> ry_closing s = [] \<longrightarrow> wk_started w \<and> st_terminal (wk_stream w) \<noteq> None)"
    if w: "br_heap b cid = Some w" for cid w
  proof -
    obtain i where i: "granted b i cid" "cc_agent_id (br_calls b ! i) = wk_agent_id w"
        "wk_generation w = Some (cc_generation (br_calls b ! i))"
      using d(2) w unfolding works_ok_def by blast
    have u: "j = i" if "granted b j cid" for j using calls_okD(2) [OF d(3) i(1) that] .
    have "cc_pc (br_calls b ! i) = Abandoned \<longrightarrow> terminal_state (wk_state w)"
      using calls_okD(1) [OF d(3) i(1)] w by simp
    moreover have "wk_started w \<and> st_terminal (wk_stream w) \<noteq> None"
      if "terminal_state (wk_state w)" "ry_closing s = []"
      using d(6) w that broker_inv_work(3) [OF inv w] unfolding streams_ok_def
      by (auto simp: terminal_state_def split: if_splits)
    ultimately show ?thesis using i u by blast
  qed
  moreover have "int (length (br_terminal_class b)) \<le> TERMINAL_HISTORY"
    "int (length (br_last_claim b)) \<le> LAST_CLAIM_HISTORY"
    using d(5) by (simp_all add: history_ok_def)
  ultimately show ?thesis by blast
qed

theorem relay_claims_sound_witness:
  "\<exists>w. br_heap (ry_broker demo_claimed) ''c'' = Some w \<and> (\<exists>!i. granted (ry_broker demo_claimed) i ''c'')"
  using relay_claims_sound [OF demo_claimed_reach refl] demo_claimed_heap by blast

text \<open>An ended claim refuses every upload and nothing changes: a completed one as a duplicate, any
  other as gone, and one whose record the bounded history has dropped as unknown.\<close>

theorem ended_claim_refuses_uploads:
  assumes "relay_reach s" and "br_heap (ry_broker s) cid = Some w" and "terminal_state (wk_state w)"
  shows "\<exists>msg code. code \<in> {if wk_state w = RS_FINISHED then RC_DUPLICATE else RC_GONE, RC_UNKNOWN} \<and>
    (code = RC_UNKNOWN \<longleftrightarrow> map_of (br_terminal_class (ry_broker s)) cid = None) \<and>
    start_response now aid cid g status ct (ry_broker s) = (Inl (RelayStateError msg (Some code)), ry_broker s, []) \<and>
    finish now aid cid g (ry_broker s) = (Inl (RelayStateError msg (Some code)), ry_broker s, []) \<and>
    (fcode \<in> set FAIL_CODES \<longrightarrow>
       fail now aid cid g fcode (ry_broker s) = (Inl (RelayStateError msg (Some code)), ry_broker s, [])) \<and>
    (int (length chunk) \<le> MAX_RESPONSE_CHUNK_BYTES \<longrightarrow>
       write_begin now aid cid g chunk (ry_broker s) = (Inl (RelayStateError msg (Some code)), ry_broker s, []))"
proof -
  let ?b = "ry_broker s"
  have inv: "broker_inv (ry_closing s) ?b" using relay.reach_inv [OF assms(1)] by (simp add: relay_inv_def)
  have dead: "cid \<notin> set (br_works ?b)" using broker_invD(1) [OF inv] assms(2,3) unfolding live_ok_def by auto
  have cls: "c = TC_DUPLICATE \<longleftrightarrow> wk_state w = RS_FINISHED" if "map_of (br_terminal_class ?b) cid = Some c" for c
    using broker_invD(5) [OF inv] that assms(2) unfolding history_ok_def by fastforce
  obtain msg code where chk: "check aid cid g ?b = Inl (RelayStateError msg (Some code))"
      and code: "code \<in> {if wk_state w = RS_FINISHED then RC_DUPLICATE else RC_GONE, RC_UNKNOWN}"
        "code = RC_UNKNOWN \<longleftrightarrow> map_of (br_terminal_class ?b) cid = None"
  proof (cases "map_of (br_terminal_class ?b) cid")
    case None
    then show thesis using dead that [of "''unknown claim''" RC_UNKNOWN] by (simp add: check_def)
  next
    case (Some c)
    show thesis
    proof (cases c)
      case TC_DUPLICATE
      then show thesis
        using Some dead cls [OF Some] that [of "''claim already completed''" RC_DUPLICATE] by (simp add: check_def)
    next
      case TC_GONE
      then show thesis using Some dead cls [OF Some] that [of "''claim gone''" RC_GONE] by (simp add: check_def)
    qed
  qed
  have up: "upload now aid cid g ?b k = (Inl (RelayStateError msg (Some code)), ?b, [])" for k
    using chk by (simp add: upload_def)
  show ?thesis
    using code
    by (intro exI [of _ msg] exI [of _ code]) (simp add: up start_response_def finish_def fail_def write_begin_def)
qed

theorem ended_claim_refuses_uploads_witness:
  "\<exists>msg. finish 3 ''a'' ''c'' 1 (ry_broker demo_finished) =
     (Inl (RelayStateError msg (Some RC_DUPLICATE)), ry_broker demo_finished, [])"
proof -
  obtain w where w: "br_heap (ry_broker demo_finished) ''c'' = Some w" "wk_state w = RS_FINISHED"
    using demo_finished_heap by blast
  have t: "terminal_state (wk_state w)" using w by (simp add: terminal_state_def)
  show ?thesis
    using ended_claim_refuses_uploads [OF demo_finished_reach w(1) t, of 3 "''a''" 1 200 "[]" "[]" "[]"] w(2) demo_finished_class
    by auto
qed

end
