(* ===== verification/App_State.thy ===== *)
theory App_State
  imports Py_Text Queue_Props Registry_Props Relay_Props Sched_Policy
begin

text \<open>
  The coordinator application's shared state and the small collaborators the route handlers use:
  \<open>app/state.py\<close>, \<open>app/deps.py\<close>, \<open>httpauth.py\<close>, \<open>app/events.py\<close>, \<open>app/result_blobs.py\<close> and the
  part of \<open>app/config.py\<close> the handlers read. The stores are those of the queue, the registry and the
  relay theories. A handler takes the state and returns its reply with the state it leaves.
\<close>

section \<open>Replies\<close>

text \<open>
  The device-token failures differ by their detail, which agents compare; of other refusals only the
  status is kept. \<open>Unhandled\<close> is an exception no handler catches, which the server answers with 500.
\<close>

datatype http_error = MissingBearer | RevokedDeviceToken | InvalidDeviceToken | HTTPStatus int | Unhandled

fun status_of :: "http_error \<Rightarrow> int" where
  "status_of (HTTPStatus n) = n"
| "status_of Unhandled = 500"
| "status_of e = 401"

section \<open>Configuration and state\<close>

record app_config =
  cfg_registry :: registry_config
  cfg_queue :: queue_cfg
  cfg_site_enabled :: bool
  cfg_long_poll_max_s :: secs
  cfg_chunks_per_unit :: nat
  cfg_max_result_payload_bytes :: int
  cfg_churn_est_unit_duration_s :: secs
  cfg_auto_assign_on_enroll :: bool
  cfg_speculative_backup_enabled :: bool
  cfg_speculative_tail_max_units :: int
  cfg_speculative_survival_threshold :: real

text \<open>The constraints the configuration model declares on those fields.\<close>

definition app_config_ok :: "app_config \<Rightarrow> bool" where
  "app_config_ok c \<longleftrightarrow>
     rc_admin_key (cfg_registry c) \<noteq> [] \<and> 0 < rc_suspect_after_s (cfg_registry c) \<and>
     0 < rc_offline_after_s (cfg_registry c) \<and> 0 < cfg_long_poll_max_s c \<and> 0 < cfg_chunks_per_unit c \<and>
     0 < cfg_max_result_payload_bytes c \<and> 0 < cfg_churn_est_unit_duration_s c \<and>
     0 < cfg_speculative_tail_max_units c \<and>
     0 \<le> cfg_speculative_survival_threshold c \<and> cfg_speculative_survival_threshold c \<le> 1"

text \<open>
  The relay, its route resolver and its failure flags exist exactly when site mode is enabled; the
  event and unit logs are the lines written so far; a directory maps file names to contents.
\<close>

type_synonym directory = "(string, string) odict"

record coordinator =
  app_registry :: registry_db
  app_queue :: queue_db
  app_relay :: relay_sys
  app_relay_flags :: "(string, unit) odict"
  app_overrides :: "(ident, agent_state) odict"
  app_events :: "agent_event list"
  app_units :: "unit_transition list"
  app_results :: directory
  app_unit_inputs :: directory
  app_churn :: "churn_model option"

section \<open>Authentication\<close>

definition httpauth_bearer :: "string option \<Rightarrow> string option" where
  "httpauth_bearer authorization =
     (case authorization of
        None \<Rightarrow> None
      | Some a \<Rightarrow>
          if a = [] then None
          else
            let scheme = takeWhile (\<lambda>c. c \<noteq> CHR '' '') a; token = tl (dropWhile (\<lambda>c. c \<noteq> CHR '' '') a)
            in if py_lower scheme \<noteq> ''bearer'' \<or> py_strip token = [] then None else Some (py_strip token))"

definition httpauth_agent :: "(string \<Rightarrow> string) \<Rightarrow> registry_db \<Rightarrow> string option \<Rightarrow> http_error + ident" where
  "httpauth_agent sha db authorization =
     (case httpauth_bearer authorization of
        None \<Rightarrow> Inl MissingBearer
      | Some token \<Rightarrow>
          (case authenticate_agent sha token db of
             Inl e \<Rightarrow> Inl RevokedDeviceToken
           | Inr None \<Rightarrow> Inl InvalidDeviceToken
           | Inr (Some aid) \<Rightarrow> Inr aid))"

definition authenticate_admin ::
  "(string \<Rightarrow> string) \<Rightarrow> registry_config \<Rightarrow> registry_db \<Rightarrow> string option \<Rightarrow> http_error + api_key_info" where
  "authenticate_admin sha cfg db authorization =
     (case httpauth_bearer authorization of
        None \<Rightarrow> Inl (HTTPStatus 401)
      | Some token \<Rightarrow>
          (case authenticate_api_key sha cfg token db of
             None \<Rightarrow> Inl (HTTPStatus 401)
           | Some info \<Rightarrow> if ak_is_admin info then Inr info else Inl (HTTPStatus 403)))"

definition authorize_self :: "(string \<Rightarrow> string) \<Rightarrow> registry_db \<Rightarrow> ident \<Rightarrow> string option \<Rightarrow> http_error option" where
  "authorize_self sha db aid authorization =
     (case httpauth_agent sha db authorization of
        Inl e \<Rightarrow> Some e
      | Inr caller \<Rightarrow> if caller \<noteq> aid then Some (HTTPStatus 403) else None)"

section \<open>Event overrides\<close>

definition apply_override :: "agent_event \<Rightarrow> (ident, agent_state) odict \<Rightarrow> (ident, agent_state) odict" where
  "apply_override ev states =
     (if ae_kind ev = USER_RETURNED then AList.update (ae_agent_id ev) ACTIVE states
      else if ae_kind ev = USER_IDLE then AList.update (ae_agent_id ev) IDLE states
      else states)"

definition state_for :: "(ident, agent_state) odict \<Rightarrow> ident \<Rightarrow> agent_state option" where
  "state_for states aid = map_of states aid"

section \<open>Relay failure flags\<close>

definition FLAGS_MAXLEN :: int where
  "FLAGS_MAXLEN = 4096"

definition mark_flag :: "string \<Rightarrow> (string, unit) odict \<Rightarrow> (string, unit) odict" where
  "mark_flag cid ids = evict_oldest FLAGS_MAXLEN (od_move_to_end cid (AList.update cid () ids))"

definition take_flag :: "string \<Rightarrow> (string, unit) odict \<Rightarrow> bool \<times> (string, unit) odict" where
  "take_flag cid ids = (map_of ids cid \<noteq> None, AList.delete cid ids)"

section \<open>Result blobs\<close>

definition CHUNK_SIZE :: nat where
  "CHUNK_SIZE = 1024 * 1024"

text \<open>Writing chunks to the temporary file until the limit is crossed.\<close>

fun write_chunks :: "int \<Rightarrow> int \<Rightarrow> string list \<Rightarrow> string \<Rightarrow> string option" where
  "write_chunks limit got [] out = Some out"
| "write_chunks limit got (c # cs) out =
     (if limit < got + int (length c) then None
      else write_chunks limit (got + int (length c)) cs (out @ c))"

text \<open>
  \<open>put\<close> streams into a temporary file and renames it to the digest of its content; \<open>None\<close> is
  \<open>ResultPayloadTooLarge\<close>. The temporary file is gone on every path.
\<close>

definition put_blob ::
  "(string \<Rightarrow> string) \<Rightarrow> int \<Rightarrow> string \<Rightarrow> string list \<Rightarrow> directory \<Rightarrow> string option \<times> directory" where
  "put_blob sha limit tmp incoming dir =
     (case write_chunks limit 0 (concat (map (slices CHUNK_SIZE) incoming)) [] of
        None \<Rightarrow> (None, AList.delete tmp (AList.update tmp [] dir))
      | Some content \<Rightarrow>
          let dir1 = AList.update tmp content dir; digest = sha content
          in (Some digest,
              if map_of dir1 digest \<noteq> None then AList.delete tmp dir1
              else AList.update digest content (AList.delete tmp dir1)))"

section \<open>Site routes and snapshots\<close>

text \<open>The resolver of \<open>app/factory.py\<close>: the persisted generation of a live site-relay agent.\<close>

definition resolve_site_route :: "app_config \<Rightarrow> coordinator \<Rightarrow> ident \<Rightarrow> int option" where
  "resolve_site_route c s aid =
     (if \<not> cfg_site_enabled c then None
      else case site_route (app_registry s) aid of
             None \<Rightarrow> None
           | Some (t, g) \<Rightarrow> if t \<noteq> SITE_RELAY then None else Some g)"

definition agent_snapshot_for :: "app_config \<Rightarrow> instant \<Rightarrow> coordinator \<Rightarrow> ident \<Rightarrow> agent_snapshot option" where
  "agent_snapshot_for c now s aid =
     (case find (\<lambda>x. as_agent_id x = aid) (snapshots (cfg_registry c) now (app_registry s)) of
        None \<Rightarrow> None
      | Some snap \<Rightarrow>
          (case state_for (app_overrides s) aid of
             None \<Rightarrow> Some snap
           | Some st \<Rightarrow> Some (if st \<noteq> as_state snap then snap\<lparr>as_state := st\<rparr> else snap)))"

section \<open>Lemmas\<close>

lemma write_chunks_Some:
  "write_chunks limit r cs w = Some out \<Longrightarrow>
     out = w @ concat cs \<and> (cs \<noteq> [] \<longrightarrow> r + int (length (concat cs)) \<le> limit)"
proof (induction limit r cs w rule: write_chunks.induct)
  case (2 limit r c cs w)
  then show ?case by (cases cs) (auto split: if_splits)
qed auto

lemma write_chunks_None:
  "r \<le> limit \<Longrightarrow> write_chunks limit r cs w = None \<longleftrightarrow> limit < r + int (length (concat cs))"
proof (induction limit r cs w rule: write_chunks.induct)
  case (2 limit r c cs w)
  show ?case
  proof (cases "limit < r + int (length c)")
    case False
    then show ?thesis using "2.IH" by (simp add: add.assoc)
  qed (use 2 in simp)
qed auto

text \<open>A stored payload is the uploaded bytes under their digest, and the directory keeps the rest.\<close>

lemma put_blob_spec:
  assumes "put_blob sha limit tmp incoming dir = (r, dir')" and "map_of dir tmp = None" and "0 \<le> limit"
    and "sha (concat incoming) \<noteq> tmp"
  shows "r = (if limit < int (length (concat incoming)) then None else Some (sha (concat incoming)))"
    and "map_of dir' =
      (if r = None \<or> map_of dir (sha (concat incoming)) \<noteq> None then map_of dir
       else (map_of dir)(sha (concat incoming) \<mapsto> concat incoming))"
proof -
  have all: "concat (concat (map (slices CHUNK_SIZE) incoming)) = concat incoming"
    by (simp add: concat_map_slices CHUNK_SIZE_def)
  have del: "map_of (AList.delete tmp (AList.update tmp x dir)) = map_of dir" for x
    using assms(2) by (auto simp: AList.delete_conv' AList.update_conv' fun_eq_iff)
  note w = assms(1) [unfolded put_blob_def]
  show r: "r = (if limit < int (length (concat incoming)) then None else Some (sha (concat incoming)))"
  proof (cases "write_chunks limit 0 (concat (map (slices CHUNK_SIZE) incoming)) []")
    case None
    then have "limit < int (length (concat incoming))"
      using write_chunks_None [OF assms(3), of "concat (map (slices CHUNK_SIZE) incoming)" "[]"] by (simp add: all)
    then show ?thesis using w None by simp
  next
    case (Some content)
    then have "\<not> limit < int (length (concat incoming))"
      using write_chunks_None [OF assms(3), of "concat (map (slices CHUNK_SIZE) incoming)" "[]"] by (simp add: all)
    then show ?thesis using w Some write_chunks_Some [OF Some] by (auto simp: all Let_def)
  qed
  show "map_of dir' =
      (if r = None \<or> map_of dir (sha (concat incoming)) \<noteq> None then map_of dir
       else (map_of dir)(sha (concat incoming) \<mapsto> concat incoming))"
  proof (cases "write_chunks limit 0 (concat (map (slices CHUNK_SIZE) incoming)) []")
    case None
    then show ?thesis using w del by auto
  next
    case (Some content)
    then have c: "content = concat incoming" using write_chunks_Some [OF Some] by (simp add: all)
    have "map_of (AList.update tmp content dir) (sha content) = map_of dir (sha content)"
      using assms(4) c by (simp add: AList.update_conv')
    then show ?thesis using w Some c del by (auto simp: Let_def AList.update_conv' split: if_splits)
  qed
qed

lemma authorize_self_None:
  "authorize_self sha db aid hdr = None \<longleftrightarrow>
     (\<exists>token r. httpauth_bearer hdr = Some token \<and>
        row_of a_device_token_hash (sha token) (registry_agents db) = Some r \<and>
        a_revoked_at r = None \<and> a_agent_id r = aid)"
  by (auto simp: authorize_self_def httpauth_agent_def authenticate_agent_def split: option.splits sum.splits if_splits)

section \<open>A small coordinator\<close>

text \<open>One enrolled site agent and a small queue: what the witnesses evaluate.\<close>

definition demo_cfg :: app_config where
  "demo_cfg = \<lparr>cfg_registry = rcfg0, cfg_queue = cfg0, cfg_site_enabled = True,
     cfg_long_poll_max_s = 25, cfg_chunks_per_unit = 32, cfg_max_result_payload_bytes = 100,
     cfg_churn_est_unit_duration_s = 60, cfg_auto_assign_on_enroll = False, cfg_speculative_backup_enabled = False,
     cfg_speculative_tail_max_units = 2, cfg_speculative_survival_threshold = 1 / 2\<rparr>"

definition demo_app :: "registry_db \<Rightarrow> queue_db \<Rightarrow> coordinator" where
  "demo_app db q = \<lparr>app_registry = db, app_queue = q, app_relay = demo_idle, app_relay_flags = [],
     app_overrides = [], app_events = [], app_units = [], app_results = [], app_unit_inputs = [], app_churn = None\<rparr>"

end
