(* ===== verification/App_Agent.thy ===== *)
theory App_Agent
  imports App_State
begin

text \<open>
  The agent-facing routes of \<open>app/agent_routes.py\<close>: registration, heartbeat, events, the long poll for
  work, result and payload uploads, and the relay routes of site mode. Each handler is a function of the
  coordinator state; the instants its calls read from the clock are arguments. A handler that waits is
  given in segments, with what other tasks do meanwhile as an argument.
\<close>

section \<open>Registration\<close>

definition auto_assign_on_enroll :: "ident \<Rightarrow> device_caps \<Rightarrow> registry_db \<Rightarrow> registry_db" where
  "auto_assign_on_enroll aid caps db =
     (if desired_models db aid \<noteq> [] then db
      else case select_model_for_agent (capacity_snapshot aid caps) (list_models db) of
             None \<Rightarrow> db
           | Some chosen \<Rightarrow> set_assignments aid [mm_model_id chosen] db)"

definition register_handler ::
  "(string \<Rightarrow> string) \<Rightarrow> app_config \<Rightarrow> instant \<Rightarrow> ident \<Rightarrow> string \<Rightarrow> register_request \<Rightarrow> string option \<Rightarrow>
   coordinator \<Rightarrow> (http_error + register_response) \<times> coordinator" where
  "register_handler sha c now uuid dtok rq client s =
     (let host = (case client of None \<Rightarrow> ''unknown'' | Some h \<Rightarrow> h)
      in case register_agent sha (cfg_registry c) now uuid dtok rq host (app_registry s) of
           (db, Inl (ProtocolMismatchError _ _)) \<Rightarrow> (Inl (HTTPStatus 409), s\<lparr>app_registry := db\<rparr>)
         | (db, Inl EnrollmentTokenError) \<Rightarrow> (Inl (HTTPStatus 401), s\<lparr>app_registry := db\<rparr>)
         | (db, Inl _) \<Rightarrow> (Inl Unhandled, s\<lparr>app_registry := db\<rparr>)
         | (db, Inr response) \<Rightarrow>
             (Inr response,
              s\<lparr>app_registry :=
                  if cfg_auto_assign_on_enroll c
                  then auto_assign_on_enroll (rr_agent_id response) (rq_caps rq) db else db\<rparr>))"

section \<open>Presence and heartbeats\<close>

definition close_streams :: "closes \<Rightarrow> relay_sys \<Rightarrow> relay_sys" where
  "close_streams cls r = r\<lparr>ry_broker := fold (\<lambda>(cid, t). on_stream cid (stream_close t)) cls (ry_broker r)\<rparr>"

text \<open>\<open>invalidate_agent\<close> to its end: the fence under the lock, then every stream closed.\<close>

definition relay_invalidate :: "ident \<Rightarrow> int \<Rightarrow> string \<Rightarrow> relay_sys \<Rightarrow> relay_sys" where
  "relay_invalidate aid generation reason r =
     (case invalidate_agent aid generation reason (ry_broker r) of
        (b, cls) \<Rightarrow> close_streams cls (r\<lparr>ry_broker := b\<rparr>))"

definition presence_kind :: "event_kind \<Rightarrow> string" where
  "presence_kind k = (if k = USER_RETURNED then ''user_returned'' else ''user_idle'')"

definition fence_site_presence ::
  "app_config \<Rightarrow> instant \<Rightarrow> ident \<Rightarrow> agent_event \<Rightarrow> coordinator \<Rightarrow> (http_error + bool) \<times> coordinator" where
  "fence_site_presence c now aid ev s =
     (if resolve_site_route c s aid = None then (Inr False, s)
      else case Option.bind (map_of (ae_detail ev) ''sequence'') py_int of
             None \<Rightarrow> (Inr False, s)
           | Some sq \<Rightarrow>
               (case apply_presence_event now aid (presence_kind (ae_kind ev)) sq (app_registry s) of
                  (db, Inl e) \<Rightarrow> (Inl Unhandled, s\<lparr>app_registry := db\<rparr>)
                | (db, Inr generation) \<Rightarrow>
                    (Inr True,
                     s\<lparr>app_registry := db,
                       app_relay := relay_invalidate aid generation (presence_kind (ae_kind ev)) (app_relay s)\<rparr>)))"

text \<open>The event is logged and overlaid before its presence is applied.\<close>

definition events_handler ::
  "(string \<Rightarrow> string) \<Rightarrow> app_config \<Rightarrow> instant \<Rightarrow> ident \<Rightarrow> string option \<Rightarrow> agent_event \<Rightarrow>
   coordinator \<Rightarrow> (http_error + unit) \<times> coordinator" where
  "events_handler sha c now aid hdr ev s =
     (case authorize_self sha (app_registry s) aid hdr of
        Some e \<Rightarrow> (Inl e, s)
      | None \<Rightarrow>
          let s1 = s\<lparr>app_events := app_events s @ [ev], app_overrides := apply_override ev (app_overrides s)\<rparr>
          in if ae_kind ev \<notin> {USER_RETURNED, USER_IDLE} then (Inr (), s1)
             else
               (case fence_site_presence c now aid ev s1 of
                  (Inl e, s2) \<Rightarrow> (Inl e, s2)
                | (Inr True, s2) \<Rightarrow> (Inr (), s2)
                | (Inr False, s2) \<Rightarrow>
                    (case set_agent_state now aid (if ae_kind ev = USER_RETURNED then ACTIVE else IDLE)
                            (app_registry s2) of
                       (db, Inl e) \<Rightarrow> (Inl Unhandled, s2\<lparr>app_registry := db\<rparr>)
                     | (db, Inr _) \<Rightarrow> (Inr (), s2\<lparr>app_registry := db\<rparr>))))"

definition fence_site_heartbeat ::
  "app_config \<Rightarrow> instant \<Rightarrow> ident \<Rightarrow> coordinator \<Rightarrow> (http_error + unit) \<times> coordinator" where
  "fence_site_heartbeat c now aid s =
     (if resolve_site_route c s aid = None then (Inr (), s)
      else case agent_snapshot_for c now s aid of
             None \<Rightarrow> (Inr (), s)
           | Some snap \<Rightarrow>
               if as_state snap = IDLE \<and> \<not> as_serving_paused snap then (Inr (), s)
               else if \<not> has_pending aid (ry_broker (app_relay s)) then (Inr (), s)
               else (case bump_presence_generation aid (app_registry s) of
                       (db, Inl e) \<Rightarrow> (Inl Unhandled, s\<lparr>app_registry := db\<rparr>)
                     | (db, Inr generation) \<Rightarrow>
                         (Inr (), s\<lparr>app_registry := db,
                           app_relay := relay_invalidate aid generation ''heartbeat_paused'' (app_relay s)\<rparr>)))"

definition heartbeat_handler ::
  "(string \<Rightarrow> string) \<Rightarrow> app_config \<Rightarrow> instant \<Rightarrow> instant \<Rightarrow> ident \<Rightarrow> string option \<Rightarrow> heartbeat \<Rightarrow>
   coordinator \<Rightarrow> (http_error + heartbeat_response) \<times> coordinator" where
  "heartbeat_handler sha c now now' aid hdr hb s =
     (case authorize_self sha (app_registry s) aid hdr of
        Some e \<Rightarrow> (Inl e, s)
      | None \<Rightarrow>
          (case record_heartbeat now aid hb (app_registry s) of
             (db, Inl e) \<Rightarrow> (Inl (HTTPStatus 404), s\<lparr>app_registry := db\<rparr>)
           | (db, Inr _) \<Rightarrow>
               (case fence_site_heartbeat c now' aid (s\<lparr>app_registry := db\<rparr>) of
                  (Inl e, s1) \<Rightarrow> (Inl e, s1)
                | (Inr _, s1) \<Rightarrow>
                    (Inr \<lparr>hr_desired_models = desired_models (app_registry s1) aid,
                          hr_revoked_lease_ids = [], hr_config = None\<rparr>, s1))))"

section \<open>Leasing work\<close>

text \<open>
  The clock readings of one round of the poll, and what other tasks do to the application at each of its
  awaits: before \<open>lease_next\<close>, \<open>backup_candidates\<close>, the holders' \<open>snapshots\<close> and \<open>lease_backup\<close>, and between
  two rounds.
\<close>

record poll_round =
  pl_snapshot_at :: instant
  pl_lease_at :: instant
  pl_holders_at :: instant
  pl_hour :: int
  pl_backup_at :: instant
  pl_check_at :: instant
  pl_to_lease :: "coordinator \<Rightarrow> coordinator"
  pl_to_candidates :: "coordinator \<Rightarrow> coordinator"
  pl_to_holders :: "coordinator \<Rightarrow> coordinator"
  pl_to_backup :: "coordinator \<Rightarrow> coordinator"
  pl_meanwhile :: "coordinator \<Rightarrow> coordinator"

definition try_backup_lease ::
  "app_config \<Rightarrow> poll_round \<Rightarrow> ident \<Rightarrow> ident list \<Rightarrow> coordinator \<Rightarrow> work_unit_lease option \<times> coordinator" where
  "try_backup_lease c pl aid leasable s =
     (case if cfg_speculative_backup_enabled c then app_churn s else None of
        None \<Rightarrow> (None, s)
      | Some churn \<Rightarrow>
          let s1 = pl_to_candidates pl s;
              candidates = backup_candidates (app_queue s1) aid leasable (cfg_speculative_tail_max_units c)
          in if candidates = [] then (None, s1)
             else
               let s2 = pl_to_holders pl s1;
                   holders = fold (\<lambda>snap d. AList.update (as_agent_id snap) snap d)
                     (snapshots (cfg_registry c) (pl_holders_at pl) (app_registry s2)) [];
                   tail = map (\<lambda>x. \<lparr>tu_work_unit_id = bc_work_unit_id x, tu_holder_agent_id = bc_holder_agent_id x,
                                    tu_est_duration_s = bc_est_duration_s x\<rparr>) candidates
               in case choose_backup_unit tail holders churn (pl_hour pl)
                         (cfg_speculative_survival_threshold c) (cfg_churn_est_unit_duration_s c) of
                    None \<Rightarrow> (None, s2)
                  | Some uid \<Rightarrow>
                      let s3 = pl_to_backup pl s2
                      in case lease_backup (cfg_queue c) (pl_backup_at pl) (app_queue s3) aid uid of
                           (q, lease) \<Rightarrow> (lease, s3\<lparr>app_queue := q\<rparr>))"

definition ready_models :: "agent_snapshot \<Rightarrow> ident list" where
  "ready_models snap = map rs_model_id (filter (\<lambda>r. rs_state r = READY) (as_replicas snap))"

definition try_lease ::
  "app_config \<Rightarrow> poll_round \<Rightarrow> ident \<Rightarrow> coordinator \<Rightarrow> work_unit_lease option \<times> coordinator" where
  "try_lease c pl aid s =
     (case agent_snapshot_for c (pl_snapshot_at pl) s aid of
        None \<Rightarrow> (None, s)
      | Some snap \<Rightarrow>
          let leasable = select_for_poll snap (ready_models snap)
          in if leasable = [] then (None, s)
             else
               let s1 = pl_to_lease pl s
               in case lease_next (cfg_queue c) (pl_lease_at pl) (app_queue s1) aid leasable of
                    (q, Some lease, ts) \<Rightarrow> (Some lease, s1\<lparr>app_queue := q, app_units := app_units s1 @ ts\<rparr>)
                  | (q, None, ts) \<Rightarrow>
                      try_backup_lease c pl aid leasable (s1\<lparr>app_queue := q, app_units := app_units s1 @ ts\<rparr>))"

text \<open>The loop; \<open>None\<close> while it is still polling when the given rounds are over.\<close>

fun long_poll ::
  "app_config \<Rightarrow> instant \<Rightarrow> ident \<Rightarrow> poll_round list \<Rightarrow> coordinator \<Rightarrow> work_unit_lease option option \<times> coordinator" where
  "long_poll c deadline aid [] s = (None, s)"
| "long_poll c deadline aid (pl # pls) s =
     (case try_lease c pl aid s of
        (Some lease, s1) \<Rightarrow> (Some (Some lease), s1)
      | (None, s1) \<Rightarrow>
          if deadline \<le> pl_check_at pl then (Some None, s1)
          else long_poll c deadline aid pls (pl_meanwhile pl s1))"

definition work_handler ::
  "(string \<Rightarrow> string) \<Rightarrow> app_config \<Rightarrow> instant \<Rightarrow> ident \<Rightarrow> string option \<Rightarrow> secs \<Rightarrow> poll_round list \<Rightarrow>
   coordinator \<Rightarrow> (http_error + work_unit_lease option) option \<times> coordinator" where
  "work_handler sha c now aid hdr timeout pls s =
     (case authorize_self sha (app_registry s) aid hdr of
        Some e \<Rightarrow> (Some (Inl e), s)
      | None \<Rightarrow>
          (case long_poll c (now + min (max timeout 0) (cfg_long_poll_max_s c)) aid pls s of
             (r, s1) \<Rightarrow> (map_option Inr r, s1)))"

section \<open>Results\<close>

text \<open>The attempt header is validated before the handler runs.\<close>

definition result_handler ::
  "(string \<Rightarrow> string) \<Rightarrow> instant \<Rightarrow> ident \<Rightarrow> ident \<Rightarrow> string option \<Rightarrow> int \<Rightarrow> work_result \<Rightarrow>
   coordinator \<Rightarrow> (http_error + unit) \<times> coordinator" where
  "result_handler sha now aid uid hdr attempt res s =
     (if attempt < 1 then (Inl (HTTPStatus 422), s)
      else case authorize_self sha (app_registry s) aid hdr of
             Some e \<Rightarrow> (Inl e, s)
           | None \<Rightarrow>
               if uid \<noteq> wr_work_unit_id res then (Inl (HTTPStatus 409), s)
               else (case complete_unit now (app_queue s) aid attempt res of
                       (q, accepted, ts) \<Rightarrow>
                         (if accepted then Inr () else Inl (HTTPStatus 409),
                          s\<lparr>app_queue := q, app_units := app_units s @ ts\<rparr>)))"

text \<open>The body is read after the lease was checked; other tasks run while it arrives.\<close>

definition payload_handler ::
  "(string \<Rightarrow> string) \<Rightarrow> app_config \<Rightarrow> instant \<Rightarrow> ident \<Rightarrow> ident \<Rightarrow> string option \<Rightarrow> int \<Rightarrow> string \<Rightarrow> string list \<Rightarrow>
   (coordinator \<Rightarrow> coordinator) \<Rightarrow> coordinator \<Rightarrow> (http_error + string) \<times> coordinator" where
  "payload_handler sha c now aid uid hdr attempt tmp incoming meanwhile s =
     (if attempt < 1 then (Inl (HTTPStatus 422), s)
      else case authorize_self sha (app_registry s) aid hdr of
             Some e \<Rightarrow> (Inl e, s)
           | None \<Rightarrow>
               if result_upload_attempt (app_queue s) aid uid \<noteq> Some attempt then (Inl (HTTPStatus 409), s)
               else
                 let s1 = meanwhile s
                 in case put_blob sha (cfg_max_result_payload_bytes c) tmp incoming (app_results s1) of
                      (None, dir) \<Rightarrow> (Inl (HTTPStatus 413), s1\<lparr>app_results := dir\<rparr>)
                    | (Some digest, dir) \<Rightarrow>
                        (case bind_result_payload now (app_queue s1) aid uid attempt digest digest of
                           (q, accepted) \<Rightarrow>
                             (if accepted then Inr digest else Inl (HTTPStatus 409),
                              s1\<lparr>app_results := dir, app_queue := q\<rparr>)))"

definition unit_input_handler ::
  "(string \<Rightarrow> string) \<Rightarrow> ident \<Rightarrow> string option \<Rightarrow> coordinator \<Rightarrow> http_error + string" where
  "unit_input_handler sha uid hdr s =
     (case httpauth_agent sha (app_registry s) hdr of
        Inl e \<Rightarrow> Inl e
      | Inr _ \<Rightarrow> (case map_of (app_unit_inputs s) uid of None \<Rightarrow> Inl (HTTPStatus 404) | Some bytes \<Rightarrow> Inr bytes))"

section \<open>Relay routes\<close>

definition MAX_CLAIM_WAIT_S :: secs where
  "MAX_CLAIM_WAIT_S = 25"

definition DEADLINE_MS_MAX :: int where
  "DEADLINE_MS_MAX = 300000"

text \<open>The claim route up to its wait: a 204 (\<open>None\<close>) when the broker fences it, else the parked call.\<close>

definition inference_claim_begin ::
  "(string \<Rightarrow> string) \<Rightarrow> app_config \<Rightarrow> ident \<Rightarrow> string option \<Rightarrow> coordinator \<Rightarrow>
   (http_error + nat option) \<times> coordinator" where
  "inference_claim_begin sha c aid hdr s =
     (case authorize_self sha (app_registry s) aid hdr of
        Some e \<Rightarrow> (Inl e, s)
      | None \<Rightarrow>
          (case resolve_site_route c s aid of
             None \<Rightarrow> (Inl (HTTPStatus 404), s)
           | Some g \<Rightarrow>
               (case claim_begin aid g (ry_broker (app_relay s)) of
                  (Inl e, b) \<Rightarrow> (Inr None, s\<lparr>app_relay := (app_relay s)\<lparr>ry_broker := b\<rparr>\<rparr>)
                | (Inr i, b) \<Rightarrow> (Inr (Some i), s\<lparr>app_relay := (app_relay s)\<lparr>ry_broker := b\<rparr>\<rparr>))))"

definition claim_wait_s :: "secs \<Rightarrow> secs" where
  "claim_wait_s timeout = min (max timeout 0) MAX_CLAIM_WAIT_S"

fun b64_char :: "nat \<Rightarrow> char" where
  "b64_char n = ''ABCDEFGHIJKLMNOPQRSTUVWXYZabcdefghijklmnopqrstuvwxyz0123456789+/'' ! n"

fun b64encode :: "string \<Rightarrow> string" where
  "b64encode [] = []"
| "b64encode [x] =
     (let n = of_char x * 16 in [b64_char (n div 64), b64_char (n mod 64), CHR ''='', CHR ''=''])"
| "b64encode [x, y] =
     (let n = (of_char x * 256 + of_char y) * 4
      in [b64_char (n div 4096), b64_char (n div 64 mod 64), b64_char (n mod 64), CHR ''=''])"
| "b64encode (x # y # z # rest) =
     (let n = (of_char x * 256 + of_char y) * 256 + of_char z
      in [b64_char (n div 262144), b64_char (n div 4096 mod 64), b64_char (n div 64 mod 64), b64_char (n mod 64)]
         @ b64encode rest)"

record claim_payload =
  cp_version :: int
  cp_claim_id :: string
  cp_presence_generation :: int
  cp_replica_port :: int
  cp_method :: string
  cp_path :: string
  cp_content_type :: string
  cp_body_b64 :: string
  cp_deadline_ms :: int

definition claim_payload_of :: "instant \<Rightarrow> relay_claim \<Rightarrow> claim_payload" where
  "claim_payload_of now cl =
     \<lparr>cp_version = 1, cp_claim_id = cl_claim_id cl, cp_presence_generation = cl_presence_generation cl,
      cp_replica_port = cl_replica_port cl, cp_method = rl_method (cl_request cl),
      cp_path = rl_path (cl_request cl), cp_content_type = rl_content_type (cl_request cl),
      cp_body_b64 = b64encode (rl_body (cl_request cl)),
      cp_deadline_ms = max 1 (min DEADLINE_MS_MAX (py_round ((cl_deadline cl - now) * 1000)))\<rparr>"

definition split_response :: "string \<Rightarrow> string list" where
  "split_response chunk =
     (if int (length chunk) \<le> MAX_RESPONSE_CHUNK_BYTES then if chunk \<noteq> [] then [chunk] else []
      else slices (nat MAX_RESPONSE_CHUNK_BYTES) chunk)"

fun relay_error_status :: "relay_error \<Rightarrow> int" where
  "relay_error_status (RelayStateError _ (Some RC_GONE)) = 410"
| "relay_error_status (RelayStateError _ (Some RC_UNKNOWN)) = 404"
| "relay_error_status _ = 409"

definition relay_do ::
  "(broker \<Rightarrow> (relay_error + 'a) \<times> broker \<times> closes) \<Rightarrow> coordinator \<Rightarrow> (relay_error + 'a) \<times> coordinator" where
  "relay_do f s =
     (case f (ry_broker (app_relay s)) of
        (r, b, cls) \<Rightarrow> (r, s\<lparr>app_relay := close_streams cls ((app_relay s)\<lparr>ry_broker := b\<rparr>)\<rparr>))"

definition inference_failure_handler ::
  "(string \<Rightarrow> string) \<Rightarrow> instant \<Rightarrow> ident \<Rightarrow> string \<Rightarrow> string option \<Rightarrow> int \<Rightarrow> string \<Rightarrow> bool \<Rightarrow>
   coordinator \<Rightarrow> (http_error + unit) \<times> coordinator" where
  "inference_failure_handler sha now aid cid hdr generation code retryable s =
     (if generation < 0 then (Inl (HTTPStatus 422), s)
      else case authorize_self sha (app_registry s) aid hdr of
             Some e \<Rightarrow> (Inl e, s)
           | None \<Rightarrow>
               let s1 = (if \<not> retryable then s\<lparr>app_relay_flags := mark_flag cid (app_relay_flags s)\<rparr> else s)
               in case relay_do (Relay_Broker.fail now aid cid generation code) s1 of
                    (Inl e, s2) \<Rightarrow> (Inl (HTTPStatus (relay_error_status e)), s2)
                  | (Inr _, s2) \<Rightarrow> (Inr (), s2))"

end
