(* ===== verification/App_Chunker.thy ===== *)
theory App_Chunker
  imports App_State
begin

text \<open>
  Splitting a submitted job into content-addressed work units (\<open>app/chunker.py\<close>). The file system the
  coordinator reads is an argument: what a path names, files with their bytes. So are the text decoder,
  the JSON decoder and the string form of a JSON value that is not a string. Text is a list of 8-bit
  characters; JSON text written by the coordinator is modelled in full.
\<close>

section \<open>Reading payloads\<close>

text \<open>The files of a directory are given by name; other entries of it are not read.\<close>

datatype path_entry = NoPath | FileAt string | DirAt "(string \<times> string) list"

datatype chunk_error = ChunkError | UnicodeDecodeError

record readers =
  rd_path :: "string \<Rightarrow> path_entry"
  rd_decode :: "string \<Rightarrow> string option"
  rd_loads :: "string \<Rightarrow> json option"
  rd_str :: "json \<Rightarrow> string"

definition is_line_end :: "char \<Rightarrow> bool" where
  "is_line_end ch \<longleftrightarrow> of_char ch \<in> {10..13 :: nat} \<union> {28..30} \<union> {133}"

text \<open>\<open>splitlines\<close>: a carriage return and a line feed end one line together.\<close>

fun splitlines_acc :: "string \<Rightarrow> string \<Rightarrow> string list" where
  "splitlines_acc acc [] = (if acc = [] then [] else [rev acc])"
| "splitlines_acc acc (ch # cs) =
     (if is_line_end ch
      then rev acc # splitlines_acc [] (if ch = CHR 0x0D \<and> cs \<noteq> [] \<and> hd cs = CHR 0x0A then tl cs else cs)
      else splitlines_acc (ch # acc) cs)"

definition splitlines :: "string \<Rightarrow> string list" where
  "splitlines str = splitlines_acc [] str"

text \<open>A path's last component with its suffix: the part from the last dot that is neither its first nor
  its last character.\<close>

definition path_name :: "string \<Rightarrow> string" where
  "path_name p = rev (takeWhile (\<lambda>ch. ch \<noteq> CHR ''/'') (dropWhile (\<lambda>ch. ch = CHR ''/'') (rev p)))"

definition path_suffix :: "string \<Rightarrow> string" where
  "path_suffix p =
     (let name = path_name p; ext = rev (takeWhile (\<lambda>ch. ch \<noteq> CHR ''.'') (rev name))
      in if ext = [] \<or> length name \<le> length ext + 1 then [] else CHR ''.'' # ext)"

definition line_text :: "readers \<Rightarrow> string \<Rightarrow> string option" where
  "line_text rd line =
     (case rd_loads rd line of
        Some (JObj obj) \<Rightarrow>
          (case map_of obj ''text'' of
             None \<Rightarrow> None | Some (JStr t) \<Rightarrow> Some t | Some v \<Rightarrow> Some (rd_str rd v))
      | _ \<Rightarrow> None)"

fun read_lines :: "readers \<Rightarrow> string list \<Rightarrow> chunk_error + string list" where
  "read_lines rd [] = Inr []"
| "read_lines rd (line # lines) =
     (if py_strip line = [] then read_lines rd lines
      else case line_text rd (py_strip line) of
             None \<Rightarrow> Inl ChunkError
           | Some t \<Rightarrow> (case read_lines rd lines of Inl e \<Rightarrow> Inl e | Inr ts \<Rightarrow> Inr (t # ts)))"

definition read_jsonl_texts :: "readers \<Rightarrow> string \<Rightarrow> chunk_error + string list" where
  "read_jsonl_texts rd bytes =
     (case rd_decode rd bytes of
        None \<Rightarrow> Inl UnicodeDecodeError | Some text \<Rightarrow> read_lines rd (splitlines text))"

fun decode_all :: "readers \<Rightarrow> string list \<Rightarrow> chunk_error + string list" where
  "decode_all rd [] = Inr []"
| "decode_all rd (b # bs) =
     (case rd_decode rd b of
        None \<Rightarrow> Inl UnicodeDecodeError
      | Some t \<Rightarrow> (case decode_all rd bs of Inl e \<Rightarrow> Inl e | Inr ts \<Rightarrow> Inr (t # ts)))"

definition sorted_files :: "(string \<times> string) list \<Rightarrow> string list" where
  "sorted_files files = map snd (sort_key fst files)"

definition load_embed_texts :: "readers \<Rightarrow> string \<Rightarrow> chunk_error + string list" where
  "load_embed_texts rd payload =
     (case rd_path rd payload of
        FileAt bytes \<Rightarrow> if path_suffix payload \<noteq> ''.jsonl'' then Inl ChunkError else read_jsonl_texts rd bytes
      | DirAt files \<Rightarrow> decode_all rd (sorted_files files)
      | NoPath \<Rightarrow> Inl ChunkError)"

section \<open>Writing unit inputs\<close>

definition CHUNKER_VERSION :: string where
  "CHUNKER_VERSION = ''1''"

definition store_unit ::
  "(string \<Rightarrow> string) \<Rightarrow> ident \<Rightarrow> string \<Rightarrow> int \<Rightarrow> directory \<Rightarrow> work_unit_spec \<times> directory" where
  "store_unit sha model_id blob idx dir =
     (let input_hash = sha blob
      in (\<lparr>us_work_unit_id = sha (model_id @ CHUNKER_VERSION @ input_hash), us_idx = idx,
           us_input_ref = input_hash, us_est_duration_s = None\<rparr>,
          if map_of dir input_hash \<noteq> None then dir else AList.update input_hash blob dir))"

fun store_units ::
  "(string \<Rightarrow> string) \<Rightarrow> ident \<Rightarrow> string list \<Rightarrow> int \<Rightarrow> directory \<Rightarrow> work_unit_spec list \<times> directory" where
  "store_units sha model_id [] idx dir = ([], dir)"
| "store_units sha model_id (blob # blobs) idx dir =
     (let (u, dir1) = store_unit sha model_id blob idx dir;
          (us, dir2) = store_units sha model_id blobs (idx + 1) dir1
      in (u # us, dir2))"

section \<open>Chunking\<close>

definition chunk_embed ::
  "(string \<Rightarrow> string) \<Rightarrow> readers \<Rightarrow> job_submit \<Rightarrow> nat \<Rightarrow> directory \<Rightarrow>
   (chunk_error + work_unit_spec list) \<times> directory" where
  "chunk_embed sha rd job chunks_per_unit dir =
     (case load_embed_texts rd (js_payload_ref job) of
        Inl e \<Rightarrow> (Inl e, dir)
      | Inr texts \<Rightarrow>
          if texts = [] then (Inl ChunkError, dir)
          else (case store_units sha (js_model_id job) (map dumps_strings (slices chunks_per_unit texts)) 0 dir of
                  (us, dir') \<Rightarrow> (Inr us, dir')))"

definition chunk_transcribe ::
  "(string \<Rightarrow> string) \<Rightarrow> readers \<Rightarrow> job_submit \<Rightarrow> directory \<Rightarrow> (chunk_error + work_unit_spec list) \<times> directory" where
  "chunk_transcribe sha rd job dir =
     (case rd_path rd (js_payload_ref job) of
        DirAt files \<Rightarrow>
          if files = [] then (Inl ChunkError, dir)
          else (case store_units sha (js_model_id job) (sorted_files files) 0 dir of (us, dir') \<Rightarrow> (Inr us, dir'))
      | _ \<Rightarrow> (Inl ChunkError, dir))"

definition chunk_job ::
  "(string \<Rightarrow> string) \<Rightarrow> readers \<Rightarrow> job_submit \<Rightarrow> nat \<Rightarrow> directory \<Rightarrow>
   (chunk_error + work_unit_spec list) \<times> directory" where
  "chunk_job sha rd job chunks_per_unit dir =
     (case js_kind job of
        EMBED \<Rightarrow> chunk_embed sha rd job chunks_per_unit dir
      | TRANSCRIBE \<Rightarrow> chunk_transcribe sha rd job dir
      | CHAT \<Rightarrow> (Inl ChunkError, dir))"

section \<open>Unit identity\<close>

lemma store_units_specs:
  "store_units sha model_id blobs idx dir = (us, dir') \<Longrightarrow>
     map us_work_unit_id us = map (\<lambda>b. sha (model_id @ CHUNKER_VERSION @ sha b)) blobs \<and>
     map us_input_ref us = map sha blobs \<and> map us_idx us = map (\<lambda>i. idx + int i) [0..<length blobs]"
proof (induction sha model_id blobs idx dir arbitrary: us dir' rule: store_units.induct)
  case (2 sha model_id blob blobs idx dir)
  obtain u dir1 where u: "store_unit sha model_id blob idx dir = (u, dir1)" by fastforce
  obtain us' dir2 where us': "store_units sha model_id blobs (idx + 1) dir1 = (us', dir2)" by fastforce
  have e: "us = u # us'" using "2.prems" u us' by simp
  have "map (\<lambda>i. idx + int i) [0..<Suc (length blobs)] = idx # map (\<lambda>i. idx + 1 + int i) [0..<length blobs]"
    by (simp add: upt_conv_Cons map_Suc_upt [symmetric] del: upt_Suc)
  then show ?case
    using "2.IH" [OF u [symmetric] refl us'] u e by (auto simp: store_unit_def Let_def)
qed simp

text \<open>Every input is on disk under its digest afterwards, and nothing on disk changes.\<close>

lemma store_units_dir:
  "store_units sha model_id blobs idx dir = (us, dir') \<Longrightarrow>
     (\<forall>b \<in> set blobs. map_of dir' (sha b) \<noteq> None) \<and>
     (\<forall>k v. map_of dir k = Some v \<longrightarrow> map_of dir' k = Some v) \<and>
     (\<forall>k v. map_of dir' k = Some v \<longrightarrow> map_of dir k = Some v \<or> v \<in> set blobs \<and> k = sha v)"
proof (induction sha model_id blobs idx dir arbitrary: us dir' rule: store_units.induct)
  case (2 sha model_id blob blobs idx dir)
  obtain u dir1 where u: "store_unit sha model_id blob idx dir = (u, dir1)" by fastforce
  obtain us' dir2 where us': "store_units sha model_id blobs (idx + 1) dir1 = (us', dir2)" by fastforce
  have d: "dir' = dir2" using "2.prems" u us' by simp
  have d1: "map_of dir1 = (if map_of dir (sha blob) \<noteq> None then map_of dir else (map_of dir)(sha blob \<mapsto> blob))"
    using u by (auto simp: store_unit_def Let_def AList.update_conv')
  note ih = "2.IH" [OF u [symmetric] refl us']
  have "map_of dir1 (sha blob) \<noteq> None" using d1 by simp
  then have a: "map_of dir2 (sha blob) \<noteq> None" using ih by (cases "map_of dir1 (sha blob)") auto
  have b: "map_of dir1 k = Some v" if "map_of dir k = Some v" for k v using d1 that by auto
  have c: "map_of dir k = Some v \<or> v = blob \<and> k = sha blob" if "map_of dir1 k = Some v" for k v
    using d1 that by (auto split: if_splits)
  show ?case
    unfolding d
  proof (intro conjI allI impI ballI)
    fix k v assume "map_of dir2 k = Some v"
    then have "map_of dir1 k = Some v \<or> v \<in> set blobs \<and> k = sha v" using ih by blast
    then show "map_of dir k = Some v \<or> v \<in> set (blob # blobs) \<and> k = sha v" using c by auto
  qed (use ih a b in auto)
qed simp

text \<open>What a job is split into: the blobs, in order; the directory plays no part in it.\<close>

definition unit_blobs :: "readers \<Rightarrow> job_submit \<Rightarrow> nat \<Rightarrow> (chunk_error + string list)" where
  "unit_blobs rd job n =
     (case js_kind job of
        EMBED \<Rightarrow>
          (case load_embed_texts rd (js_payload_ref job) of
             Inl e \<Rightarrow> Inl e
           | Inr texts \<Rightarrow> if texts = [] then Inl ChunkError else Inr (map dumps_strings (slices n texts)))
      | TRANSCRIBE \<Rightarrow>
          (case rd_path rd (js_payload_ref job) of
             DirAt files \<Rightarrow> if files = [] then Inl ChunkError else Inr (sorted_files files)
           | _ \<Rightarrow> Inl ChunkError)
      | CHAT \<Rightarrow> Inl ChunkError)"

lemma chunk_job_blobs:
  "chunk_job sha rd job n dir =
     (case unit_blobs rd job n of
        Inl e \<Rightarrow> (Inl e, dir)
      | Inr blobs \<Rightarrow> (Inr (fst (store_units sha (js_model_id job) blobs 0 dir)),
                    snd (store_units sha (js_model_id job) blobs 0 dir)))"
  by (simp add: chunk_job_def unit_blobs_def chunk_embed_def chunk_transcribe_def prod.case_eq_if
      split: worker_kind.split sum.split path_entry.split)

lemma chunk_job_units:
  assumes "chunk_job sha rd job n dir = (Inr us, dir')"
  obtains blobs where "unit_blobs rd job n = Inr blobs" "store_units sha (js_model_id job) blobs 0 dir = (us, dir')"
  using assms by (auto simp: chunk_job_blobs split: sum.splits)

lemma store_units_fst: "fst (store_units sha m blobs idx dir) = fst (store_units sha m blobs idx dir')"
  by (induction blobs arbitrary: idx dir dir') (simp_all add: store_unit_def Let_def prod.case_eq_if)

lemma unit_spec:
  assumes "store_units sha m blobs 0 dir = (us, dir')" "u \<in> set us" "\<And>x. length (sha x) = 64"
  shows "us_work_unit_id u = sha (m @ CHUNKER_VERSION @ us_input_ref u)" "length (us_input_ref u) = 64"
proof -
  obtain i where i: "i < length us" "u = us ! i" using assms(2) by (auto simp: in_set_conv_nth)
  note sp = store_units_specs [OF assms(1)]
  have "length us = length blobs" using sp by (metis length_map)
  then have "us_work_unit_id u = sha (m @ CHUNKER_VERSION @ sha (blobs ! i))" "us_input_ref u = sha (blobs ! i)"
    using sp i by (metis nth_map)+
  then show "us_work_unit_id u = sha (m @ CHUNKER_VERSION @ us_input_ref u)" "length (us_input_ref u) = 64"
    using assms(3) by simp_all
qed

lemma embed_blobs:
  assumes "unit_blobs rd job n = Inr blobs" "js_kind job = EMBED"
  obtains texts where "load_embed_texts rd (js_payload_ref job) = Inr texts" "blobs = map dumps_strings (slices n texts)"
  using assms by (auto simp: unit_blobs_def split: sum.splits if_splits)

text \<open>C13: Work units are content-addressed. Splitting the same payload again gives the same units whatever
  inputs are already on disk, every unit's input is on disk under its digest, and a directory whose files
  are named by their digests stays one. Two units of any two jobs have the same id exactly when the jobs
  name the same model and the units the same input, as long as the digest does not collide on the two
  strings the ids are derived from. For an embedding job the inputs are the JSON arrays of groups of at
  most \<open>chunks_per_unit\<close> texts that cover the corpus in order, and equal arrays are equal groups.\<close>

theorem chunks_content_addressed:
  assumes "chunk_job sha rd job n dir = (Inr us, dir1)" and "0 < n" and "\<And>x. length (sha x) = 64"
  shows "(\<forall>dir2. fst (chunk_job sha rd job n dir2) = Inr us) \<and>
    (\<forall>u \<in> set us. map_of dir1 (us_input_ref u) \<noteq> None) \<and>
    ((\<forall>k v. map_of dir k = Some v \<longrightarrow> sha v = k) \<longrightarrow> (\<forall>k v. map_of dir1 k = Some v \<longrightarrow> sha v = k)) \<and>
    (\<forall>rd' job' n' dir' us' dir2. chunk_job sha rd' job' n' dir' = (Inr us', dir2) \<longrightarrow>
       (\<forall>u \<in> set us. \<forall>u' \<in> set us'.
          inj_on sha {js_model_id job @ CHUNKER_VERSION @ us_input_ref u, js_model_id job' @ CHUNKER_VERSION @ us_input_ref u'} \<longrightarrow>
          (us_work_unit_id u = us_work_unit_id u' \<longleftrightarrow>
             js_model_id job = js_model_id job' \<and> us_input_ref u = us_input_ref u'))) \<and>
    (js_kind job = EMBED \<longrightarrow> (\<exists>groups. load_embed_texts rd (js_payload_ref job) = Inr (concat groups) \<and>
       (\<forall>g \<in> set groups. g \<noteq> [] \<and> length g \<le> n) \<and>
       map us_input_ref us = map (\<lambda>g. sha (dumps_strings g)) groups \<and> inj dumps_strings))"
proof -
  obtain blobs where b: "unit_blobs rd job n = Inr blobs" "store_units sha (js_model_id job) blobs 0 dir = (us, dir1)"
    using chunk_job_units [OF assms(1)] .
  note specs = store_units_specs [OF b(2)]
  have a: "fst (chunk_job sha rd job n dir2) = Inr us" for dir2
    using b store_units_fst [of sha "js_model_id job" blobs 0 dir2 dir] by (simp add: chunk_job_blobs)
  have b1: "map_of dir1 (us_input_ref u) \<noteq> None" if "u \<in> set us" for u
  proof -
    have "us_input_ref u \<in> set (map us_input_ref us)" using that by simp
    then show ?thesis using store_units_dir [OF b(2)] specs by auto
  qed
  have b2: "sha v = k" if "\<forall>k v. map_of dir k = Some v \<longrightarrow> sha v = k" "map_of dir1 k = Some v" for k v
    using store_units_dir [OF b(2)] that by blast
  have c: "us_work_unit_id u = us_work_unit_id u' \<longleftrightarrow> js_model_id job = js_model_id job' \<and> us_input_ref u = us_input_ref u'"
    if h: "chunk_job sha rd' job' n' dir' = (Inr us', dir2)" "u \<in> set us" "u' \<in> set us'"
      "inj_on sha {js_model_id job @ CHUNKER_VERSION @ us_input_ref u, js_model_id job' @ CHUNKER_VERSION @ us_input_ref u'}"
    for rd' job' n' dir' us' dir2 u u'
  proof -
    obtain blobs' where b': "store_units sha (js_model_id job') blobs' 0 dir' = (us', dir2)"
      using chunk_job_units [OF h(1)] by blast
    note sp = unit_spec [OF b(2) h(2) assms(3)] unit_spec [OF b' h(3) assms(3)]
    have "us_work_unit_id u = us_work_unit_id u' \<longleftrightarrow>
        js_model_id job @ CHUNKER_VERSION @ us_input_ref u = js_model_id job' @ CHUNKER_VERSION @ us_input_ref u'"
      unfolding sp(1,3) by (rule inj_on_eq_iff [OF h(4)]) simp_all
    also have "\<dots> \<longleftrightarrow> js_model_id job = js_model_id job' \<and> us_input_ref u = us_input_ref u'"
      using sp(2,4) by auto
    finally show ?thesis .
  qed
  have d: "\<exists>groups. load_embed_texts rd (js_payload_ref job) = Inr (concat groups) \<and>
      (\<forall>g \<in> set groups. g \<noteq> [] \<and> length g \<le> n) \<and>
      map us_input_ref us = map (\<lambda>g. sha (dumps_strings g)) groups \<and> inj dumps_strings" if k: "js_kind job = EMBED"
  proof -
    obtain texts where t: "load_embed_texts rd (js_payload_ref job) = Inr texts" "blobs = map dumps_strings (slices n texts)"
      using embed_blobs [OF b(1) k] .
    have "inj dumps_strings" using dumps_strings_inj by (auto intro: injI)
    then show ?thesis
      using t specs assms(2) slices_nonempty [of _ n texts]
      by (intro exI [of _ "slices n texts"]) (auto simp: comp_def concat_slices)
  qed
  show ?thesis by (intro conjI allI ballI impI; (rule a | erule b1 | (erule (1) b2) | (rule c; assumption) | erule d))
qed

definition demo_readers :: readers where
  "demo_readers = \<lparr>rd_path = (\<lambda>p. DirAt [(''b'', ''beta''), (''a'', ''alpha'')]), rd_decode = Some,
     rd_loads = (\<lambda>_. None), rd_str = (\<lambda>_. [])\<rparr>"

definition demo_job :: job_submit where
  "demo_job = \<lparr>js_kind = EMBED, js_model_id = ''m'', js_payload_ref = ''/corpus'', js_params = [], js_priority = 0\<rparr>"

definition demo_sha :: "string \<Rightarrow> string" where
  "demo_sha x = take 64 (x @ replicate 64 CHR ''0'')"

lemma length_demo_sha: "length (demo_sha x) = 64"
  by (simp add: demo_sha_def)

theorem chunks_content_addressed_witness:
  "fst (chunk_job demo_sha demo_readers demo_job 1 []) =
     fst (chunk_job demo_sha demo_readers demo_job 1 (snd (chunk_job demo_sha demo_readers demo_job 1 []))) \<and>
   length (fst (store_units demo_sha ''m'' [dumps_strings [''alpha''], dumps_strings [''beta'']] 0 [])) = 2"
proof -
  obtain us dir1 where us: "chunk_job demo_sha demo_readers demo_job 1 [] = (Inr us, dir1)"
    by (simp add: chunk_job_blobs unit_blobs_def demo_job_def load_embed_texts_def demo_readers_def sorted_files_def
        split: sum.split)
  show ?thesis
    using chunks_content_addressed [OF us] us length_demo_sha by (simp add: prod.case_eq_if)
qed

end
