(* ===== verification/App_Admin.thy ===== *)
theory App_Admin
  imports App_Agent App_Chunker
begin

text \<open>
  The operator routes of \<open>app/admin_routes.py\<close> and the maintenance loops of \<open>app/background.py\<close> and
  \<open>scheduler/dispatch.py\<close>, one pass each. Every route first checks the admin key.
\<close>

definition with_admin ::
  "(string \<Rightarrow> string) \<Rightarrow> app_config \<Rightarrow> string option \<Rightarrow> coordinator \<Rightarrow>
   (coordinator \<Rightarrow> (http_error + 'a) \<times> coordinator) \<Rightarrow> (http_error + 'a) \<times> coordinator" where
  "with_admin sha c hdr s k =
     (case authenticate_admin sha (cfg_registry c) (app_registry s) hdr of Inl e \<Rightarrow> (Inl e, s) | Inr _ \<Rightarrow> k s)"

section \<open>Enrollment, keys and listings\<close>

definition create_enrollment_token_handler ::
  "(string \<Rightarrow> string) \<Rightarrow> app_config \<Rightarrow> instant \<Rightarrow> string \<Rightarrow> string option \<Rightarrow>
   coordinator \<Rightarrow> (http_error + string) \<times> coordinator" where
  "create_enrollment_token_handler sha c now token hdr s =
     with_admin sha c hdr s (\<lambda>s.
       case create_enrollment_token sha now token ''legacy'' (app_registry s) of
         (db, Inl e) \<Rightarrow> (Inl Unhandled, s\<lparr>app_registry := db\<rparr>)
       | (db, Inr t) \<Rightarrow> (Inr t, s\<lparr>app_registry := db\<rparr>))"

definition list_enrollment_tokens_handler ::
  "(string \<Rightarrow> string) \<Rightarrow> app_config \<Rightarrow> string option \<Rightarrow> coordinator \<Rightarrow>
   (http_error + enrollment_token_info list) \<times> coordinator" where
  "list_enrollment_tokens_handler sha c hdr s =
     with_admin sha c hdr s (\<lambda>s. (Inr (list_enrollment_tokens (app_registry s)), s))"

definition revoke_enrollment_token_handler ::
  "(string \<Rightarrow> string) \<Rightarrow> app_config \<Rightarrow> instant \<Rightarrow> string \<Rightarrow> string option \<Rightarrow>
   coordinator \<Rightarrow> (http_error + unit) \<times> coordinator" where
  "revoke_enrollment_token_handler sha c now tid hdr s =
     with_admin sha c hdr s (\<lambda>s.
       case revoke_enrollment_token now tid (app_registry s) of
         (db, Inl EnrollmentTokenError) \<Rightarrow> (Inl (HTTPStatus 404), s\<lparr>app_registry := db\<rparr>)
       | (db, Inl _) \<Rightarrow> (Inl Unhandled, s\<lparr>app_registry := db\<rparr>)
       | (db, Inr voided) \<Rightarrow>
           (if voided then Inr () else Inl (HTTPStatus 404), s\<lparr>app_registry := db\<rparr>))"

definition create_api_key_handler ::
  "(string \<Rightarrow> string) \<Rightarrow> app_config \<Rightarrow> instant \<Rightarrow> string \<Rightarrow> string option \<Rightarrow> string \<Rightarrow> ident list option \<Rightarrow>
   int option \<Rightarrow> int option \<Rightarrow> coordinator \<Rightarrow> (http_error + string) \<times> coordinator" where
  "create_api_key_handler sha c now key hdr name allow rpm daily s =
     (if \<not> validate_quota_limit rpm \<or> \<not> validate_quota_limit daily then (Inl (HTTPStatus 422), s)
      else with_admin sha c hdr s (\<lambda>s.
        case create_api_key sha now key name allow rpm daily (app_registry s) of
          (db, Inl e) \<Rightarrow> (Inl Unhandled, s\<lparr>app_registry := db\<rparr>)
        | (db, Inr k) \<Rightarrow> (Inr k, s\<lparr>app_registry := db\<rparr>)))"

definition list_agents_handler ::
  "(string \<Rightarrow> string) \<Rightarrow> app_config \<Rightarrow> instant \<Rightarrow> string option \<Rightarrow> coordinator \<Rightarrow>
   (http_error + agent_snapshot list) \<times> coordinator" where
  "list_agents_handler sha c now hdr s =
     with_admin sha c hdr s (\<lambda>s. (Inr (snapshots (cfg_registry c) now (app_registry s)), s))"

definition list_revoked_agents_handler ::
  "(string \<Rightarrow> string) \<Rightarrow> app_config \<Rightarrow> string option \<Rightarrow> coordinator \<Rightarrow>
   (http_error + revoked_agent_info list) \<times> coordinator" where
  "list_revoked_agents_handler sha c hdr s =
     with_admin sha c hdr s (\<lambda>s. (Inr (list_revoked_agents (app_registry s)), s))"

definition list_models_handler ::
  "(string \<Rightarrow> string) \<Rightarrow> app_config \<Rightarrow> string option \<Rightarrow> coordinator \<Rightarrow>
   (http_error + model_manifest list) \<times> coordinator" where
  "list_models_handler sha c hdr s =
     with_admin sha c hdr s (\<lambda>s. (Inr (list_models (app_registry s)), s))"

text \<open>\<open>is_file\<close> is the coordinator's file system.\<close>

definition register_model_handler ::
  "(string \<Rightarrow> string) \<Rightarrow> app_config \<Rightarrow> (string \<Rightarrow> bool) \<Rightarrow> instant \<Rightarrow> string option \<Rightarrow> model_manifest \<Rightarrow> string \<Rightarrow>
   coordinator \<Rightarrow> (http_error + unit) \<times> coordinator" where
  "register_model_handler sha c is_file now hdr manifest blob_path s =
     with_admin sha c hdr s (\<lambda>s.
       if \<not> is_file blob_path then (Inl (HTTPStatus 422), s)
       else (Inr (), s\<lparr>app_registry := put_model now manifest blob_path True (app_registry s)\<rparr>))"

section \<open>Revocation\<close>

definition is_relay_agent :: "app_config \<Rightarrow> coordinator \<Rightarrow> ident \<Rightarrow> bool" where
  "is_relay_agent c s aid \<longleftrightarrow> cfg_site_enabled c \<and> agent_transport (app_registry s) aid = Some SITE_RELAY"

definition evict_from_relay :: "ident \<Rightarrow> string \<Rightarrow> coordinator \<Rightarrow> (http_error + unit) \<times> coordinator" where
  "evict_from_relay aid reason s =
     (case bump_presence_generation aid (app_registry s) of
        (db, Inl e) \<Rightarrow> (Inl Unhandled, s\<lparr>app_registry := db\<rparr>)
      | (db, Inr g) \<Rightarrow>
          (Inr (), s\<lparr>app_registry := db, app_relay := relay_invalidate aid g reason (app_relay s)\<rparr>))"

definition revoke_agent_handler ::
  "(string \<Rightarrow> string) \<Rightarrow> app_config \<Rightarrow> instant \<Rightarrow> ident \<Rightarrow> string option \<Rightarrow>
   coordinator \<Rightarrow> (http_error + unit) \<times> coordinator" where
  "revoke_agent_handler sha c now aid hdr s =
     with_admin sha c hdr s (\<lambda>s.
       let relayed = is_relay_agent c s aid
       in case revoke_agent now aid (app_registry s) of
            (db, Inl e) \<Rightarrow> (Inl (HTTPStatus 404), s\<lparr>app_registry := db\<rparr>)
          | (db, Inr _) \<Rightarrow>
              let s1 = s\<lparr>app_registry := set_assignments aid [] db\<rparr>
              in if relayed then evict_from_relay aid ''revoked'' s1 else (Inr (), s1))"

section \<open>Assignments\<close>

definition snapshot_for :: "app_config \<Rightarrow> instant \<Rightarrow> coordinator \<Rightarrow> ident \<Rightarrow> agent_snapshot option" where
  "snapshot_for c now s aid = find (\<lambda>x. as_agent_id x = aid) (snapshots (cfg_registry c) now (app_registry s))"

definition agent_fit_handler ::
  "(string \<Rightarrow> string) \<Rightarrow> app_config \<Rightarrow> instant \<Rightarrow> ident \<Rightarrow> ident \<Rightarrow> string option \<Rightarrow>
   coordinator \<Rightarrow> (http_error + fit_report) \<times> coordinator" where
  "agent_fit_handler sha c now aid mid hdr s =
     with_admin sha c hdr s (\<lambda>s.
       case get_manifest (app_registry s) mid of
         None \<Rightarrow> (Inl (HTTPStatus 404), s)
       | Some manifest \<Rightarrow>
           (case snapshot_for c now s aid of
              None \<Rightarrow> (Inl (HTTPStatus 404), s)
            | Some agent \<Rightarrow> (Inr (model_fit manifest agent), s)))"

text \<open>The first target, in order of id, whose live snapshot cannot hold the model; the dictionary of
  snapshots keeps the last one of an agent.\<close>

definition snapshots_by_agent :: "app_config \<Rightarrow> instant \<Rightarrow> coordinator \<Rightarrow> (ident, agent_snapshot) odict" where
  "snapshots_by_agent c now s =
     fold (\<lambda>x d. AList.update (as_agent_id x) x d) (snapshots (cfg_registry c) now (app_registry s)) []"

definition rejects_target :: "app_config \<Rightarrow> instant \<Rightarrow> ident \<Rightarrow> model_manifest \<Rightarrow> coordinator \<Rightarrow> ident \<Rightarrow> bool" where
  "rejects_target c now mid manifest s aid \<longleftrightarrow>
     (case map_of (snapshots_by_agent c now s) aid of
        None \<Rightarrow> False
      | Some agent \<Rightarrow> mid \<notin> set (desired_models (app_registry s) aid) \<and> \<not> fr_fits (model_fit manifest agent))"

definition reject_unfit_assignment :: "app_config \<Rightarrow> instant \<Rightarrow> ident \<Rightarrow> ident list \<Rightarrow> coordinator \<Rightarrow> bool" where
  "reject_unfit_assignment c now mid aids s =
     (case get_manifest (app_registry s) mid of
        None \<Rightarrow> False
      | Some manifest \<Rightarrow> list_ex (rejects_target c now mid manifest s) (sort (remdups aids)))"

definition updated_models :: "ident \<Rightarrow> ident list \<Rightarrow> ident \<Rightarrow> ident list \<Rightarrow> ident list" where
  "updated_models mid targets aid current =
     (if aid \<in> set targets then sort (remdups (mid # current)) else sort (remdups (filter (\<lambda>m. m \<noteq> mid) current)))"

fun replace_loop :: "ident \<Rightarrow> ident list \<Rightarrow> ident list \<Rightarrow> registry_db \<Rightarrow> registry_db" where
  "replace_loop mid targets [] db = db"
| "replace_loop mid targets (aid # aids) db =
     (let current = desired_models db aid; updated = updated_models mid targets aid current
      in replace_loop mid targets aids
           (if set updated \<noteq> set current then set_assignments aid updated db else db))"

text \<open>The agents the loop visits; Python's set decides the order, so it is an argument.\<close>

definition affected_agents :: "app_config \<Rightarrow> instant \<Rightarrow> ident list \<Rightarrow> coordinator \<Rightarrow> ident set" where
  "affected_agents c now aids s =
     set (map as_agent_id (snapshots (cfg_registry c) now (app_registry s))) \<union>
     set (list_offline (cfg_registry c) now (app_registry s)) \<union> set aids"

definition set_assignments_handler ::
  "(string \<Rightarrow> string) \<Rightarrow> app_config \<Rightarrow> instant \<Rightarrow> ident list \<Rightarrow> string option \<Rightarrow> ident \<Rightarrow> ident list \<Rightarrow>
   coordinator \<Rightarrow> (http_error + unit) \<times> coordinator" where
  "set_assignments_handler sha c now order hdr mid aids s =
     with_admin sha c hdr s (\<lambda>s.
       if reject_unfit_assignment c now mid aids s then (Inl (HTTPStatus 409), s)
       else (Inr (), s\<lparr>app_registry := replace_loop mid aids order (app_registry s)\<rparr>))"

datatype skip_reason = AlreadyAssigned "ident list" | Unfit fit_report | RevokedDuringSweep

record fit_sweep =
  fa_assigned :: "ident list"
  fa_kept :: "ident list"
  fa_skipped :: "(ident \<times> skip_reason) list"
  fa_offline :: "ident list"

text \<open>One agent of the sweep; \<open>meanwhile\<close> is what other requests did to the registry since the last.\<close>

definition sweep_agent ::
  "ident \<Rightarrow> model_manifest \<Rightarrow> (registry_db \<Rightarrow> registry_db) \<Rightarrow> agent_snapshot \<Rightarrow> registry_db \<times> fit_sweep \<Rightarrow>
   registry_db \<times> fit_sweep" where
  "sweep_agent mid manifest meanwhile agent st =
     (let aid = as_agent_id agent; db = meanwhile (fst st); out = snd st; desired = desired_models db aid
      in if mid \<in> set desired then (db, out\<lparr>fa_kept := fa_kept out @ [aid]\<rparr>)
         else if desired \<noteq> [] then (db, out\<lparr>fa_skipped := fa_skipped out @ [(aid, AlreadyAssigned (sort desired))]\<rparr>)
         else
           let report = model_fit manifest agent
           in if \<not> fr_fits report then (db, out\<lparr>fa_skipped := fa_skipped out @ [(aid, Unfit report)]\<rparr>)
              else
                let db1 = set_assignments aid [mid] db
                in if mid \<in> set (desired_models db1 aid) then (db1, out\<lparr>fa_assigned := fa_assigned out @ [aid]\<rparr>)
                   else (db1, out\<lparr>fa_skipped := fa_skipped out @ [(aid, RevokedDuringSweep)]\<rparr>))"

definition fit_assignments_handler ::
  "(string \<Rightarrow> string) \<Rightarrow> app_config \<Rightarrow> instant \<Rightarrow> (registry_db \<Rightarrow> registry_db) \<Rightarrow> string option \<Rightarrow> ident \<Rightarrow>
   coordinator \<Rightarrow> (http_error + fit_sweep) \<times> coordinator" where
  "fit_assignments_handler sha c now meanwhile hdr mid s =
     with_admin sha c hdr s (\<lambda>s.
       case get_manifest (app_registry s) mid of
         None \<Rightarrow> (Inl (HTTPStatus 404), s)
       | Some manifest \<Rightarrow>
           let agents = sort_key as_agent_id (snapshots (cfg_registry c) now (app_registry s));
               (db, out) = fold (sweep_agent mid manifest meanwhile) agents
                 (app_registry s, \<lparr>fa_assigned = [], fa_kept = [], fa_skipped = [], fa_offline = []\<rparr>);
               revoked = map rai_agent_id (list_revoked_agents db)
           in (Inr (out\<lparr>fa_offline := sort (remdups (filter (\<lambda>a. a \<notin> set revoked)
                       (list_offline (cfg_registry c) now db)))\<rparr>),
               s\<lparr>app_registry := db\<rparr>))"

section \<open>Jobs\<close>

definition submit_job_handler ::
  "(string \<Rightarrow> string) \<Rightarrow> app_config \<Rightarrow> readers \<Rightarrow> instant \<Rightarrow> ident \<Rightarrow> string option \<Rightarrow> job_submit \<Rightarrow>
   coordinator \<Rightarrow> (http_error + job_status_view) \<times> coordinator" where
  "submit_job_handler sha c rd now job_id hdr job s =
     with_admin sha c hdr s (\<lambda>s.
       case chunk_job sha rd job (cfg_chunks_per_unit c) (app_unit_inputs s) of
         (Inl ChunkError, dir) \<Rightarrow> (Inl (HTTPStatus 422), s\<lparr>app_unit_inputs := dir\<rparr>)
       | (Inl UnicodeDecodeError, dir) \<Rightarrow> (Inl Unhandled, s\<lparr>app_unit_inputs := dir\<rparr>)
       | (Inr units, dir) \<Rightarrow>
           (case submit_job now job_id (app_queue s) job units False of
              (q, Inl e) \<Rightarrow> (Inl Unhandled, s\<lparr>app_unit_inputs := dir, app_queue := q\<rparr>)
            | (q, Inr jid) \<Rightarrow>
                (case job_status q jid of
                   None \<Rightarrow> (Inl (HTTPStatus 500), s\<lparr>app_unit_inputs := dir, app_queue := q\<rparr>)
                 | Some status \<Rightarrow> (Inr status, s\<lparr>app_unit_inputs := dir, app_queue := q\<rparr>))))"

definition job_status_handler ::
  "(string \<Rightarrow> string) \<Rightarrow> app_config \<Rightarrow> ident \<Rightarrow> string option \<Rightarrow> coordinator \<Rightarrow>
   (http_error + job_status_view) \<times> coordinator" where
  "job_status_handler sha c job_id hdr s =
     with_admin sha c hdr s (\<lambda>s.
       case job_status (app_queue s) job_id of None \<Rightarrow> (Inl (HTTPStatus 404), s) | Some v \<Rightarrow> (Inr v, s))"

definition is_sha256 :: "string \<Rightarrow> bool" where
  "is_sha256 v \<longleftrightarrow> length v = 64 \<and> list_all is_hex_digit v"

definition work_unit_payload_handler ::
  "(string \<Rightarrow> string) \<Rightarrow> app_config \<Rightarrow> ident \<Rightarrow> string option \<Rightarrow> coordinator \<Rightarrow> (http_error + string) \<times> coordinator" where
  "work_unit_payload_handler sha c uid hdr s =
     with_admin sha c hdr s (\<lambda>s.
       case completed_result_ref (app_queue s) uid of
         None \<Rightarrow> (Inl (HTTPStatus 404), s)
       | Some ref \<Rightarrow>
           if \<not> is_sha256 ref then (Inl (HTTPStatus 404), s)
           else (case map_of (app_results s) ref of None \<Rightarrow> (Inl (HTTPStatus 404), s) | Some bytes \<Rightarrow> (Inr bytes, s)))"

section \<open>Maintenance\<close>

definition invalidate_offline_relay :: "app_config \<Rightarrow> ident \<Rightarrow> coordinator \<Rightarrow> (http_error + unit) \<times> coordinator" where
  "invalidate_offline_relay c aid s =
     (if resolve_site_route c s aid = None then (Inr (), s)
      else if \<not> has_pending aid (ry_broker (app_relay s)) then (Inr (), s)
      else evict_from_relay aid ''offline'' s)"

text \<open>One sweep of the eviction loop; an exception ends the sweep and is swallowed.\<close>

fun evict_offline :: "app_config \<Rightarrow> instant \<Rightarrow> ident list \<Rightarrow> coordinator \<Rightarrow> coordinator" where
  "evict_offline c now [] s = s"
| "evict_offline c now (aid # aids) s =
     (case requeue_agent (cfg_queue c) now (app_queue s) aid of
        (q, n, ts) \<Rightarrow>
          (case invalidate_offline_relay c aid (s\<lparr>app_queue := q, app_units := app_units s @ ts\<rparr>) of
             (Inl e, s1) \<Rightarrow> s1
           | (Inr _, s1) \<Rightarrow> evict_offline c now aids s1))"

definition offline_eviction_sweep :: "app_config \<Rightarrow> instant \<Rightarrow> instant \<Rightarrow> coordinator \<Rightarrow> coordinator" where
  "offline_eviction_sweep c now now' s = evict_offline c now' (list_offline (cfg_registry c) now (app_registry s)) s"

text \<open>The dispatch loop's tick.\<close>

record dispatch_stats =
  ds_at :: instant
  ds_requeued :: nat

definition dispatch_tick :: "app_config \<Rightarrow> instant \<Rightarrow> instant \<Rightarrow> coordinator \<Rightarrow> dispatch_stats \<times> coordinator" where
  "dispatch_tick c now now' s =
     (case requeue_expired (cfg_queue c) now' (app_queue s) of
        (q, n, ts) \<Rightarrow> (\<lparr>ds_at = now, ds_requeued = n\<rparr>, s\<lparr>app_queue := q, app_units := app_units s @ ts\<rparr>))"

end
