(* ===== verification/App_Fence.thy ===== *)
theory App_Fence
  imports App_Admin Registry_Conn
begin

text \<open>
  The presence fence across the registry and the relay. A presence generation lives twice: on the agent's
  registry row and in memory as the broker's fence. Handlers read one, await, and write the other, so
  their segments interleave; and the registry's methods await between their statement, its commit and
  the re-read on one shared connection. The step relation below runs those segments in any order, with
  what a suspended handler remembers kept as a task, and a restart that loses everything in memory and
  everything uncommitted. The rollback of a rejected registration, which throws away whatever the other
  tasks have not committed, is a step of its own, so that the theorems can say where it matters.
\<close>

section \<open>Interleaved handlers\<close>

text \<open>
  The registry in \<open>sy_state\<close> is what statements on the connection see, \<open>sy_committed\<close> what is durable.
  \<open>sy_writing\<close>: methods that have executed the \<open>UPDATE\<close> of a generation, and whether they have committed
  it; they have yet to read the generation back. \<open>sy_claiming\<close>: claim handlers that have read the route
  and not yet called the broker, with the generation they read. \<open>sy_fencing\<close>: handlers (presence event,
  heartbeat, eviction, revocation) that have a generation and have yet to raise the broker's fence.
\<close>

record app_sys =
  sy_state :: coordinator
  sy_committed :: registry_db
  sy_writing :: "(ident \<times> string \<times> bool) list"
  sy_claiming :: "(ident \<times> int) list"
  sy_fencing :: "(ident \<times> int \<times> string) list"

abbreviation sy_registry :: "app_sys \<Rightarrow> registry_db" where
  "sy_registry y \<equiv> app_registry (sy_state y)"

abbreviation sy_broker :: "app_sys \<Rightarrow> broker" where
  "sy_broker y \<equiv> ry_broker (app_relay (sy_state y))"

definition set_registry :: "registry_db \<Rightarrow> app_sys \<Rightarrow> app_sys" where
  "set_registry db y = y\<lparr>sy_state := (sy_state y)\<lparr>app_registry := db\<rparr>\<rparr>"

definition set_relay :: "relay_sys \<Rightarrow> app_sys \<Rightarrow> app_sys" where
  "set_relay r y = y\<lparr>sy_state := (sy_state y)\<lparr>app_relay := r\<rparr>\<rparr>"

definition call_ids :: "broker \<Rightarrow> (ident \<times> int) list" where
  "call_ids b = map (\<lambda>k. (cc_agent_id k, cc_generation k)) (br_calls b)"

text \<open>
  The data statements of the registry: those of a method taken together, or, where a method has several,
  one of them (the token of \<open>register_agent\<close>, its \<open>INSERT\<close>, one \<open>INSERT\<close> of \<open>set_assignments\<close>; the
  \<open>DELETE\<close> of the latter is \<open>set_assignments\<close> with no models). The write lock is left out, which only adds
  interleavings.
\<close>

inductive registry_statement :: "(string \<Rightarrow> string) \<Rightarrow> registry_config \<Rightarrow> registry_db \<Rightarrow> registry_db \<Rightarrow> bool"
  for sha cfg where
  sm_method: "registry_step sha cfg db db' \<Longrightarrow> registry_statement sha cfg db db'"
| sm_consume: "registry_statement sha cfg db (consume_token sha now tok db)"
| sm_insert: "\<not> has_key a_agent_id uuid (registry_agents db) \<Longrightarrow> \<not> has_key a_device_token_hash (sha dtok) (registry_agents db) \<Longrightarrow>
    registry_statement sha cfg db
      (db\<lparr>registry_agents := registry_agents db @ [INSERT_AGENT uuid caps host (sha dtok) now mode]\<rparr>)"
| sm_assign: "registry_statement sha cfg db
    (db\<lparr>registry_assignments := if agent_revoked db aid then registry_assignments db
                               else insert_ignore id (mid, aid) (registry_assignments db)\<rparr>)"

text \<open>The segments of a write of the generation: execute, commit, read back, raise the fence.\<close>

definition presence_executed :: "instant \<Rightarrow> ident \<Rightarrow> string \<Rightarrow> int \<Rightarrow> app_sys \<Rightarrow> app_sys" where
  "presence_executed now aid kind sq y =
     (set_registry (fst (apply_presence_event now aid kind sq (sy_registry y))) y)
       \<lparr>sy_writing := (aid, kind, False) # sy_writing y\<rparr>"

definition bump_executed :: "ident \<Rightarrow> string \<Rightarrow> app_sys \<Rightarrow> app_sys" where
  "bump_executed aid reason y =
     (set_registry (fst (bump_presence_generation aid (sy_registry y))) y)
       \<lparr>sy_writing := (aid, reason, False) # sy_writing y\<rparr>"

definition write_committed :: "ident \<Rightarrow> string \<Rightarrow> app_sys \<Rightarrow> app_sys" where
  "write_committed aid reason y =
     y\<lparr>sy_committed := sy_registry y,
       sy_writing := (aid, reason, True) # remove1 (aid, reason, False) (sy_writing y)\<rparr>"

definition generation_read :: "ident \<Rightarrow> int \<Rightarrow> string \<Rightarrow> app_sys \<Rightarrow> app_sys" where
  "generation_read aid g reason y =
     y\<lparr>sy_writing := remove1 (aid, reason, True) (sy_writing y), sy_fencing := (aid, g, reason) # sy_fencing y\<rparr>"

definition fence_raised :: "ident \<Rightarrow> int \<Rightarrow> string \<Rightarrow> app_sys \<Rightarrow> app_sys" where
  "fence_raised aid g reason y =
     (set_relay (with_closes (app_relay (sy_state y)) (invalidate_agent aid g reason (sy_broker y))) y)
       \<lparr>sy_fencing := remove1 (aid, g, reason) (sy_fencing y)\<rparr>"

definition claim_called :: "ident \<Rightarrow> int \<Rightarrow> app_sys \<Rightarrow> app_sys" where
  "claim_called aid g y =
     (set_relay ((app_relay (sy_state y))\<lparr>ry_broker := snd (claim_begin aid g (sy_broker y))\<rparr>) y)
       \<lparr>sy_claiming := remove1 (aid, g) (sy_claiming y)\<rparr>"

text \<open>\<open>register_agent\<close> refuses the token, or its \<open>INSERT\<close> fails.\<close>

definition rolled_back :: "app_sys \<Rightarrow> app_sys" where
  "rolled_back y = set_registry (sy_committed y) y"

text \<open>
  Any statement of the registry and any step of the relay may happen between two segments, the relay's
  claims and fences only as segments of their handlers (\<open>ap_claim\<close>, \<open>ap_fence\<close>); \<open>relay_ops_frame\<close> below
  shows that the steps \<open>ap_relay\<close> leaves out are exactly those.
\<close>

inductive app_step :: "(string \<Rightarrow> string) \<Rightarrow> app_config \<Rightarrow> app_sys \<Rightarrow> app_sys \<Rightarrow> bool"
  for sha :: "string \<Rightarrow> string" and c :: app_config where
  ap_registry: "registry_statement sha (cfg_registry c) (sy_registry y) db \<Longrightarrow> app_step sha c y (set_registry db y)"
| ap_commit: "app_step sha c y (y\<lparr>sy_committed := sy_registry y\<rparr>)"
| ap_route: "resolve_site_route c (sy_state y) aid = Some g \<Longrightarrow>
    app_step sha c y (y\<lparr>sy_claiming := (aid, g) # sy_claiming y\<rparr>)"
| ap_claim: "(aid, g) \<in> set (sy_claiming y) \<Longrightarrow> app_step sha c y (claim_called aid g y)"
| ap_presence: "snd (apply_presence_event now aid kind sq (sy_registry y)) \<noteq> Inl RegistryValueError \<Longrightarrow>
    app_step sha c y (presence_executed now aid kind sq y)"
| ap_bump: "app_step sha c y (bump_executed aid reason y)"
| ap_written: "(aid, reason, False) \<in> set (sy_writing y) \<Longrightarrow> app_step sha c y (write_committed aid reason y)"
| ap_read: "(aid, reason, True) \<in> set (sy_writing y) \<Longrightarrow> presence_generation_of (sy_registry y) aid = Inr g \<Longrightarrow>
    app_step sha c y (generation_read aid g reason y)"
| ap_fence: "(aid, g, reason) \<in> set (sy_fencing y) \<Longrightarrow> app_step sha c y (fence_raised aid g reason y)"
| ap_relay: "relay_step (app_relay (sy_state y)) r \<Longrightarrow>
    br_generation (ry_broker r) = br_generation (sy_broker y) \<Longrightarrow> call_ids (ry_broker r) = call_ids (sy_broker y) \<Longrightarrow>
    app_step sha c y (set_relay r y)"
| ap_other: "app_registry s = sy_registry y \<Longrightarrow> app_relay s = app_relay (sy_state y) \<Longrightarrow>
    app_step sha c y (y\<lparr>sy_state := s\<rparr>)"
| ap_restart: "relay_init r \<Longrightarrow>
    app_step sha c y ((set_relay r (set_registry (sy_committed y) y))\<lparr>sy_writing := [], sy_claiming := [], sy_fencing := []\<rparr>)"

text \<open>
  Every task interleaving, rollbacks included; and those in which no rollback comes while a generation
  written by another task is uncommitted.
\<close>

definition conn_step :: "(string \<Rightarrow> string) \<Rightarrow> app_config \<Rightarrow> app_sys \<Rightarrow> app_sys \<Rightarrow> bool" where
  "conn_step sha c y z \<longleftrightarrow> app_step sha c y z \<or> z = rolled_back y"

definition generations_durable :: "app_sys \<Rightarrow> bool" where
  "generations_durable y \<longleftrightarrow> (\<forall>aid r. agent_of (sy_registry y) aid = Some r \<longrightarrow>
     (\<exists>r'. agent_of (sy_committed y) aid = Some r' \<and> a_presence_generation r' = a_presence_generation r))"

definition clean_step :: "(string \<Rightarrow> string) \<Rightarrow> app_config \<Rightarrow> app_sys \<Rightarrow> app_sys \<Rightarrow> bool" where
  "clean_step sha c y z \<longleftrightarrow> app_step sha c y z \<or> generations_durable y \<and> z = rolled_back y"

definition app_init :: "app_sys \<Rightarrow> bool" where
  "app_init y \<longleftrightarrow> sy_registry y = empty_registry \<and> sy_committed y = empty_registry \<and>
     relay_init (app_relay (sy_state y)) \<and> sy_writing y = [] \<and> sy_claiming y = [] \<and> sy_fencing y = []"

abbreviation clean_reach :: "(string \<Rightarrow> string) \<Rightarrow> app_config \<Rightarrow> app_sys \<Rightarrow> bool" where
  "clean_reach sha c \<equiv> reach app_init (clean_step sha c)"

section \<open>What the relay's other operations leave alone\<close>

definition same_fences :: "broker \<Rightarrow> broker \<Rightarrow> bool" where
  "same_fences b b' \<longleftrightarrow> br_generation b' = br_generation b \<and> call_ids b' = call_ids b"

named_theorems frame

lemma map_update_same: "(i < length xs \<Longrightarrow> f x = f (xs ! i)) \<Longrightarrow> map f (xs[i := x]) = map f xs"
  by (cases "i < length xs") (auto intro!: nth_equalityI simp: nth_list_update)

lemma call_ids_fields [frame]:
  "call_ids (b\<lparr>br_waiters := ws\<rparr>) = call_ids b"
  "call_ids (b\<lparr>br_heap := h\<rparr>) = call_ids b"
  "call_ids (b\<lparr>br_works := cs\<rparr>) = call_ids b"
  "call_ids (b\<lparr>br_generation := gs\<rparr>) = call_ids b"
  "call_ids (b\<lparr>br_terminal_class := ts\<rparr>) = call_ids b"
  "call_ids (b\<lparr>br_last_claim := ls\<rparr>) = call_ids b"
  by (simp_all add: call_ids_def)

lemma set_work_frame [frame]:
  "br_generation (set_work w b) = br_generation b" "call_ids (set_work w b) = call_ids b"
  by (simp_all add: set_work_def frame)

lemma set_fut_frame [frame]:
  "br_generation (set_fut i f b) = br_generation b" "call_ids (set_fut i f b) = call_ids b"
  by (simp_all add: set_fut_def call_ids_def map_update_same)

lemma set_pc_frame [frame]:
  "br_generation (set_pc i p b) = br_generation b" "call_ids (set_pc i p b) = call_ids b"
  by (simp_all add: set_pc_def call_ids_def map_update_same)

lemma terminate_keeps_fences [frame]:
  "br_generation (snd (terminate w st r b)) = br_generation b" "call_ids (snd (terminate w st r b)) = call_ids b"
  by (simp_all add: terminate_def record_terminal_def record_last_claim_def frame)

lemma terminate_closing_frame [frame]:
  "br_generation (fst (terminate_closing w st r t b)) = br_generation b"
  "call_ids (fst (terminate_closing w st r t b)) = call_ids b"
  by (simp_all add: terminate_closing_def frame prod.case_eq_if)

lemma offer_frame: "same_fences b (snd (offer aid port rq deadline cid b))"
  by (simp add: same_fences_def offer_def Let_def frame split: list.split)

lemma claim_resume_frame: "same_fences b (snd (claim_resume i b))"
  by (simp add: same_fences_def claim_resume_def frame split: fut_state.split)

lemma abandon_frame: "same_fences b (fst (abandon_waiter i b))"
  by (simp add: same_fences_def abandon_waiter_def Let_def frame split: fut_state.split option.split)

lemma same_fences_terminate [frame]:
  "same_fences b b" "same_fences b (set_work w b)" "same_fences b (fst (terminate_closing w st r t b))"
  by (simp_all add: same_fences_def frame)

lemma upload_frame:
  assumes "\<And>w. same_fences b (fst (snd (k w)))"
  shows "same_fences b (fst (snd (upload now aid cid g b k)))"
proof (cases "check aid cid g b")
  case (Inr w)
  have "same_fences b (fst (terminate_closing w RS_FAILED (Some DEADLINE_EXPIRED) DEADLINE_EXPIRED b))"
    by (simp add: frame)
  then show ?thesis
    using assms [of w] Inr by (auto simp: upload_def same_fences_def split: prod.split list.split)
qed (simp add: upload_def same_fences_def)

lemma uploads_frame:
  "same_fences b (fst (snd (start_response now aid cid g status ct b)))"
  "same_fences b (fst (snd (write_begin now aid cid g chunk b)))"
  "same_fences b (fst (snd (finish now aid cid g b)))"
  "same_fences b (fst (snd (Relay_Broker.fail now aid cid g code b)))"
  by (auto simp: start_response_def write_begin_def finish_def fail_def frame intro!: upload_frame)

lemma relay_ops_frame:
  "same_fences b (fst (disconnect cid b))"
  "same_fences b (fst (deadline_terminate cid b))"
  "same_fences b (snd (exchange_next cid b))"
  "same_fences b (on_stream cid f b)"
  by (auto simp: same_fences_def disconnect_def deadline_terminate_def exchange_next_def on_stream_def frame
      split: option.split prod.split read_result.split)

lemmas relay_ops_same_fences =
  offer_frame claim_resume_frame abandon_frame uploads_frame relay_ops_frame

lemma terminate_each_frame [frame]:
  "br_generation (fst (terminate_each aid n reason cids b)) = br_generation b"
  "call_ids (fst (terminate_each aid n reason cids b)) = call_ids b"
  by (induction cids arbitrary: b) (simp_all add: frame Let_def prod.case_eq_if split: option.split)

lemma cancel_pending_frame [frame]:
  "br_generation (cancel_pending is b) = br_generation b" "call_ids (cancel_pending is b) = call_ids b"
proof -
  have "br_generation (cancel_pending is b) = br_generation b \<and> call_ids (cancel_pending is b) = call_ids b"
    unfolding cancel_pending_def by (induction "is" arbitrary: b) (simp_all add: frame)
  then show "br_generation (cancel_pending is b) = br_generation b" "call_ids (cancel_pending is b) = call_ids b"
    by simp_all
qed

lemma invalidate_frame:
  "br_generation (fst (invalidate_agent aid n reason b)) = AList.update aid (max (fence_of b aid 0) n) (br_generation b)"
  "call_ids (fst (invalidate_agent aid n reason b)) = call_ids b"
  by (simp_all add: invalidate_agent_def Let_def frame prod.case_eq_if)

section \<open>Generations in memory never run ahead of the registry\<close>

definition covered :: "registry_db \<Rightarrow> ident \<times> int \<Rightarrow> bool" where
  "covered db x \<longleftrightarrow> (\<exists>r. agent_of db (fst x) = Some r \<and> snd x \<le> a_presence_generation r)"

definition broker_generations :: "broker \<Rightarrow> (ident \<times> int) set" where
  "broker_generations b = set (call_ids b) \<union> {(aid, g). map_of (br_generation b) aid = Some g}"

definition known_generations :: "app_sys \<Rightarrow> (ident \<times> int) set" where
  "known_generations y = set (sy_claiming y) \<union> (\<lambda>(aid, g, reason). (aid, g)) ` set (sy_fencing y) \<union>
     broker_generations (sy_broker y)"

definition app_inv :: "app_sys \<Rightarrow> bool" where
  "app_inv y \<longleftrightarrow> registry_inv (sy_registry y) \<and> registry_inv (sy_committed y) \<and> relay_inv (app_relay (sy_state y)) \<and>
     (\<forall>x \<in> known_generations y. covered (sy_registry y) x)"

lemmas segment_defs = presence_executed_def bump_executed_def write_committed_def generation_read_def fence_raised_def
  claim_called_def rolled_back_def set_registry_def set_relay_def

lemma statement_ok:
  assumes "registry_inv db" "registry_statement sha cfg db db'"
  shows "registry_inv db'" "registry_evolves db db'"
proof -
  have "registry_inv db' \<and> registry_evolves db db'"
    using assms(2)
  proof cases
    case sm_method
    then show ?thesis using registry_step_inv [OF assms(1)] registry_step_evolves by auto
  next
    case (sm_consume now tok)
    have "registry_inv db'"
      unfolding sm_consume consume_token_def using assms(1) by (rule registry_inv_tokens) (auto simp: token_row_ok_def)
    moreover have "registry_evolves db db'"
      unfolding sm_consume consume_token_def by (rule registry_evolves_tokens) (simp add: token_evolves_def)
    ultimately show ?thesis ..
  next
    case (sm_insert uuid dtok caps host now mode)
    then show ?thesis
      using assms(1) by (simp add: registry_inv_def keyed_append INSERT_AGENT_def agent_row_ok_def registry_evolves_def
          rows_evolve_append rows_evolve_refl agent_evolves_def token_evolves_def)
  next
    case (sm_assign aid mid)
    have "registry_evolves db db'" by (rule registry_evolves_same) (simp_all add: sm_assign)
    then show ?thesis using assms(1) by (simp add: sm_assign registry_inv_def)
  qed
  then show "registry_inv db'" "registry_evolves db db'" by simp_all
qed

text \<open>A step leaves every generation in place or takes it up; only a restart takes them back, and forgets
  everything that was compared with them.\<close>

definition generations_kept :: "registry_db \<Rightarrow> registry_db \<Rightarrow> bool" where
  "generations_kept db db' \<longleftrightarrow> (\<forall>aid r. agent_of db aid = Some r \<longrightarrow>
     (\<exists>r'. agent_of db' aid = Some r' \<and> a_presence_generation r \<le> a_presence_generation r'))"

definition forgotten :: "app_sys \<Rightarrow> bool" where
  "forgotten y \<longleftrightarrow> sy_claiming y = [] \<and> sy_fencing y = [] \<and> broker_generations (sy_broker y) = {}"

lemma generations_kept_refl [simp]: "generations_kept db db"
  by (simp add: generations_kept_def)

lemma evolves_generations: "registry_evolves db db' \<Longrightarrow> registry_inv db' \<Longrightarrow> generations_kept db db'"
  unfolding generations_kept_def agent_evolves_def
proof (intro allI impI)
  fix aid r
  assume ev: "registry_evolves db db'" "registry_inv db'" "agent_of db aid = Some r"
  obtain r' where "agent_of db' aid = Some r'" "agent_evolves r r'" by (rule registry_evolves_agent [OF ev])
  then show "\<exists>r'. agent_of db' aid = Some r' \<and> a_presence_generation r \<le> a_presence_generation r'"
    by (auto simp: agent_evolves_def)
qed

lemma covered_mono: "generations_kept db db' \<Longrightarrow> covered db x \<Longrightarrow> covered db' x"
  by (force simp: generations_kept_def covered_def)

lemma read_covered: "presence_generation_of db aid = Inr g \<Longrightarrow> covered db (aid, g)"
  by (auto simp: presence_generation_of_def covered_def split: option.splits)

lemma resolve_covered:
  assumes "registry_inv (app_registry s)" "resolve_site_route c s aid = Some g"
  shows "\<exists>r. agent_of (app_registry s) aid = Some r \<and> a_presence_generation r = g \<and> a_revoked_at r = None"
proof -
  obtain r where r: "find (\<lambda>r. a_agent_id r = aid \<and> a_revoked_at r = None) (registry_agents (app_registry s)) = Some r"
      "a_presence_generation r = g"
    using assms(2) by (auto simp: resolve_site_route_def site_route_def split: if_splits option.splits)
  then have "r \<in> set (registry_agents (app_registry s))" "a_agent_id r = aid" "a_revoked_at r = None"
    by (auto simp: find_Some_iff)
  then show ?thesis using r(2) assms(1) by (auto simp: row_of_eq registry_inv_def)
qed

lemma claim_begin_known:
  "broker_generations (snd (claim_begin aid g b)) \<subseteq> broker_generations b \<union> {(aid, g), (aid, 0)}"
  by (auto simp: broker_generations_def claim_begin_def call_ids_def fence_of_def AList.update_conv' Let_def max_def
      split: if_splits option.splits)

lemma invalidate_known:
  "broker_generations (fst (invalidate_agent aid g reason b)) \<subseteq> broker_generations b \<union> {(aid, g), (aid, 0)}"
  by (auto simp: broker_generations_def invalidate_frame fence_of_def AList.update_conv' max_def
      split: if_splits option.splits)

lemma restart_known: "relay_init r \<Longrightarrow> broker_generations (ry_broker r) = {}"
  by (auto simp: broker_generations_def relay_init_def RelayBroker_def call_ids_def)

lemma covered_zero: "registry_inv db \<Longrightarrow> covered db (aid, g) \<Longrightarrow> covered db (aid, 0)"
  by (auto simp: covered_def registry_inv_def agent_row_ok_def list_all_iff dest: row_of_SomeD)

lemma app_step_registry:
  assumes "app_inv y" "app_step sha c y z"
  shows "registry_inv (sy_registry z) \<and> registry_inv (sy_committed z) \<and>
    (registry_evolves (sy_registry y) (sy_registry z) \<or> sy_registry z = sy_committed y \<and> forgotten z) \<and>
    (sy_committed z = sy_committed y \<or> sy_committed z = sy_registry y)"
proof -
  have i: "registry_inv (sy_registry y)" "registry_inv (sy_committed y)" using assms(1) by (simp_all add: app_inv_def)
  have ev: "registry_evolves (sy_registry y) (sy_registry y)" by (rule registry_evolves_same) simp_all
  have "sy_registry z = sy_registry y \<or> registry_statement sha (cfg_registry c) (sy_registry y) (sy_registry z) \<or>
      sy_registry z = sy_committed y \<and> forgotten z"
    using assms(2) by cases (simp_all add: segment_defs forgotten_def restart_known sm_method rs_presence rs_bump)
  moreover have "sy_committed z = sy_committed y \<or> sy_committed z = sy_registry y"
    using assms(2) by cases (simp_all add: segment_defs)
  ultimately show ?thesis using i ev statement_ok [OF i(1)] by metis
qed

lemma app_step_known:
  assumes "app_inv y" "app_step sha c y z" "x \<in> known_generations z"
  shows "x \<in> known_generations y \<or> covered (sy_registry y) x"
  using assms(2)
proof cases
  case (ap_route aid g)
  then have "covered (sy_registry y) (aid, g)"
    using assms(1) resolve_covered [of "sy_state y" c aid g] by (auto simp: app_inv_def covered_def)
  then show ?thesis using assms(3) ap_route by (auto simp: known_generations_def)
next
  case (ap_claim aid g)
  have k: "covered (sy_registry y) (aid, g)" using assms(1) ap_claim(2) by (auto simp: app_inv_def known_generations_def)
  have "covered (sy_registry y) (aid, 0)" using covered_zero [OF _ k] assms(1) by (simp add: app_inv_def)
  then show ?thesis
    using assms(3) k claim_begin_known [of aid g "sy_broker y"] set_remove1_subset [of "(aid, g)" "sy_claiming y"]
    unfolding ap_claim by (auto simp: known_generations_def claim_called_def set_relay_def)
next
  case (ap_read aid reason g)
  then show ?thesis
    using assms(3) read_covered [OF ap_read(3)] by (auto simp: known_generations_def generation_read_def)
next
  case (ap_fence aid g reason)
  have k: "covered (sy_registry y) (aid, g)" using assms(1) ap_fence(2) by (force simp: app_inv_def known_generations_def)
  have "covered (sy_registry y) (aid, 0)" using covered_zero [OF _ k] assms(1) by (simp add: app_inv_def)
  then show ?thesis
    using assms(3) k invalidate_known [of aid g reason "sy_broker y"]
      image_mono [OF set_remove1_subset [of "(aid, g, reason)" "sy_fencing y"], of "\<lambda>(aid, g, reason). (aid, g)"]
    unfolding ap_fence known_generations_def fence_raised_def
    by (auto simp: set_relay_def with_closes_def simp del: image_subset_iff)
qed (use assms(3) restart_known in \<open>auto simp: known_generations_def broker_generations_def segment_defs\<close>)

lemma app_step_relay:
  assumes "app_step sha c y z"
  shows "relay_init (app_relay (sy_state z)) \<and> sy_claiming z = [] \<or>
    relay_step\<^sup>=\<^sup>= (app_relay (sy_state y)) (app_relay (sy_state z))"
  using assms by cases (auto simp: segment_defs intro: st_claim st_invalidate)

lemma rolled_back_same [simp]:
  "app_relay (sy_state (rolled_back y)) = app_relay (sy_state y)" "sy_registry (rolled_back y) = sy_committed y"
  "sy_committed (rolled_back y) = sy_committed y" "sy_claiming (rolled_back y) = sy_claiming y"
  "sy_fencing (rolled_back y) = sy_fencing y" "sy_writing (rolled_back y) = sy_writing y"
  "known_generations (rolled_back y) = known_generations y"
  by (simp_all add: rolled_back_def set_registry_def known_generations_def)

text \<open>What a clean step does, in one place.\<close>

lemma clean_step_facts:
  assumes "app_inv y" "clean_step sha c y z"
  shows "registry_inv (sy_registry z)" "registry_inv (sy_committed z)"
    "generations_kept (sy_registry y) (sy_registry z) \<or> forgotten z"
    "x \<in> known_generations z \<Longrightarrow> x \<in> known_generations y \<or> covered (sy_registry y) x"
    "relay_init (app_relay (sy_state z)) \<and> sy_claiming z = [] \<or>
      relay_step\<^sup>=\<^sup>= (app_relay (sy_state y)) (app_relay (sy_state z))"
proof -
  consider "app_step sha c y z" | "generations_durable y" "z = rolled_back y" using assms(2) by (auto simp: clean_step_def)
  then have "registry_inv (sy_registry z) \<and> registry_inv (sy_committed z) \<and>
      (generations_kept (sy_registry y) (sy_registry z) \<or> forgotten z) \<and>
      (x \<in> known_generations z \<longrightarrow> x \<in> known_generations y \<or> covered (sy_registry y) x) \<and>
      (relay_init (app_relay (sy_state z)) \<and> sy_claiming z = [] \<or>
       relay_step\<^sup>=\<^sup>= (app_relay (sy_state y)) (app_relay (sy_state z)))"
  proof cases
    case 1
    then show ?thesis
      using app_step_registry [OF assms(1) 1] app_step_known [OF assms(1) 1] app_step_relay [OF 1] evolves_generations by blast
  next
    case 2
    then have "generations_kept (sy_registry y) (sy_committed y)"
      by (fastforce simp: generations_durable_def generations_kept_def)
    then show ?thesis using assms(1) 2 by (auto simp: app_inv_def)
  qed
  then show "registry_inv (sy_registry z)" "registry_inv (sy_committed z)"
    "generations_kept (sy_registry y) (sy_registry z) \<or> forgotten z"
    "x \<in> known_generations z \<Longrightarrow> x \<in> known_generations y \<or> covered (sy_registry y) x"
    "relay_init (app_relay (sy_state z)) \<and> sy_claiming z = [] \<or>
      relay_step\<^sup>=\<^sup>= (app_relay (sy_state y)) (app_relay (sy_state z))" by blast+
qed

lemma clean_step_inv:
  assumes "app_inv y" "clean_step sha c y z"
  shows "app_inv z"
proof -
  note f = clean_step_facts [OF assms]
  have "relay_inv (app_relay (sy_state z))"
    using f(5) relay.init_inv relay_step_inv assms(1) by (auto simp: app_inv_def)
  moreover have "covered (sy_registry z) x" if "x \<in> known_generations z" for x
  proof (cases "forgotten z")
    case False
    then have "covered (sy_registry y) x" using f(4) [OF that] assms(1) by (auto simp: app_inv_def)
    then show ?thesis using f(3) False covered_mono by blast
  qed (use that in \<open>simp add: forgotten_def known_generations_def\<close>)
  ultimately show ?thesis using f(1,2) by (simp add: app_inv_def)
qed

interpretation app: inv_system app_init "clean_step sha c" app_inv
proof
  fix y assume "app_init y"
  then show "app_inv y"
    using registry_inv_empty relay.init_inv
    by (auto simp: app_init_def app_inv_def known_generations_def restart_known)
qed (rule clean_step_inv)

section \<open>A revoked agent is out of the relay\<close>

text \<open>The agent is revoked, durably.\<close>

definition revoked_row :: "registry_db \<Rightarrow> ident \<Rightarrow> bool" where
  "revoked_row db aid \<longleftrightarrow> (\<exists>r. agent_of db aid = Some r \<and> a_revoked_at r \<noteq> None)"

definition revoked_durably :: "ident \<Rightarrow> app_sys \<Rightarrow> bool" where
  "revoked_durably aid y \<longleftrightarrow> revoked_row (sy_registry y) aid \<and> revoked_row (sy_committed y) aid"

text \<open>The generations its claims can carry.\<close>

definition claimed :: "ident \<Rightarrow> app_sys \<Rightarrow> int set" where
  "claimed aid y = {n. (aid, n) \<in> set (sy_claiming y) \<union> set (call_ids (sy_broker y))}"

definition outrun :: "ident \<Rightarrow> int \<Rightarrow> app_sys \<Rightarrow> bool" where
  "outrun aid g y \<longleftrightarrow> revoked_durably aid y \<and> (\<forall>n \<in> claimed aid y. n < g)"

text \<open>They are below the generation of the row.\<close>

definition row_outruns :: "ident \<Rightarrow> app_sys \<Rightarrow> bool" where
  "row_outruns aid y \<longleftrightarrow> revoked_durably aid y \<and>
     (\<forall>n \<in> claimed aid y. \<exists>r. agent_of (sy_registry y) aid = Some r \<and> n < a_presence_generation r)"

text \<open>It is behind the fence, or the fence was lost with everything it protected from.\<close>

definition shut_out :: "ident \<Rightarrow> int \<Rightarrow> app_sys \<Rightarrow> bool" where
  "shut_out aid g y \<longleftrightarrow> outrun aid g y \<and> (fenced aid g (ledger_of (sy_broker y)) \<or> claimed aid y = {})"

lemma revoked_evolves: "registry_evolves db db' \<Longrightarrow> registry_inv db' \<Longrightarrow> revoked_row db aid \<Longrightarrow> revoked_row db' aid"
  unfolding revoked_row_def by (erule exE, erule conjE, rule registry_evolves_agent) (auto simp: agent_evolves_def)

lemma revoked_stays:
  assumes "app_inv y" "clean_step sha c y z" "revoked_durably aid y"
  shows "revoked_durably aid z"
proof (cases "z = rolled_back y")
  case False
  then have st: "app_step sha c y z" using assms(2) by (simp add: clean_step_def)
  show ?thesis
    using app_step_registry [OF assms(1) st] assms(3) revoked_evolves unfolding revoked_durably_def by metis
qed (use assms(3) in \<open>simp add: revoked_durably_def\<close>)

lemma claims_shrink:
  assumes "app_inv y" "clean_step sha c y z" "revoked_durably aid y"
  shows "claimed aid z \<subseteq> claimed aid y"
proof (cases "z = rolled_back y")
  case False
  then have st: "app_step sha c y z" using assms(2) by (simp add: clean_step_def)
  from st show ?thesis
  proof cases
    case (ap_route aid' g)
    then have "aid' \<noteq> aid"
      using assms(1,3) resolve_covered [of "sy_state y" c aid' g] by (auto simp: app_inv_def revoked_durably_def revoked_row_def)
    then show ?thesis using ap_route by (auto simp: claimed_def)
  next
    case (ap_claim aid' g)
    then show ?thesis
      using set_remove1_subset [of "(aid', g)" "sy_claiming y"]
      by (auto simp: claimed_def claim_called_def set_relay_def claim_begin_def call_ids_def Let_def split: if_splits)
  next
    case (ap_fence aid' g reason)
    then show ?thesis by (auto simp: claimed_def fence_raised_def set_relay_def with_closes_def invalidate_frame)
  next
    case (ap_restart r)
    then show ?thesis by (auto simp: claimed_def set_relay_def relay_init_def RelayBroker_def call_ids_def)
  qed (auto simp: claimed_def segment_defs)
qed (simp add: claimed_def)

lemma outrun_step: "app_inv y \<Longrightarrow> clean_step sha c y z \<Longrightarrow> outrun aid g y \<Longrightarrow> outrun aid g z"
  unfolding outrun_def using revoked_stays claims_shrink by blast

lemma forgotten_claimed: "forgotten y \<Longrightarrow> claimed aid y = {}"
  by (auto simp: forgotten_def claimed_def broker_generations_def)

lemma row_outruns_step:
  assumes "app_inv y" "clean_step sha c y z" "row_outruns aid y"
  shows "row_outruns aid z"
proof -
  have "\<exists>r. agent_of (sy_registry z) aid = Some r \<and> n < a_presence_generation r" if "n \<in> claimed aid z" for n
  proof -
    have "n \<in> claimed aid y" using claims_shrink [OF assms(1,2)] assms(3) that by (auto simp: row_outruns_def)
    moreover have "generations_kept (sy_registry y) (sy_registry z)"
      using clean_step_facts(3) [OF assms(1,2)] forgotten_claimed [of z aid] that by auto
    ultimately show ?thesis using assms(3) unfolding row_outruns_def generations_kept_def by (meson less_le_trans)
  qed
  then show ?thesis using revoked_stays [OF assms(1,2)] assms(3) by (auto simp: row_outruns_def)
qed

lemma shut_out_step:
  assumes "app_inv y" "clean_step sha c y z" "shut_out aid g y"
  shows "shut_out aid g z"
proof -
  have o: "outrun aid g z" using outrun_step [OF assms(1,2)] assms(3) by (simp add: shut_out_def)
  have rv: "revoked_durably aid y" using assms(3) by (simp add: shut_out_def outrun_def)
  consider "claimed aid y = {}" | "fenced aid g (ledger_of (sy_broker y))" using assms(3) by (auto simp: shut_out_def)
  then show ?thesis
  proof cases
    case 1
    then show ?thesis using o claims_shrink [OF assms(1,2) rv] by (auto simp: shut_out_def)
  next
    case 2
    from clean_step_facts(5) [OF assms(1,2)] show ?thesis
    proof
      assume "relay_init (app_relay (sy_state z)) \<and> sy_claiming z = []"
      then have "claimed aid z = {}" by (auto simp: claimed_def relay_init_def RelayBroker_def call_ids_def)
      then show ?thesis using o by (simp add: shut_out_def)
    next
      assume "relay_step\<^sup>=\<^sup>= (app_relay (sy_state y)) (app_relay (sy_state z))"
      then have "ledger_step\<^sup>*\<^sup>* (ledger_of (sy_broker y)) (ledger_of (sy_broker z))"
        using relay_step_ledger [of "app_relay (sy_state y)" "app_relay (sy_state z)"] assms(1)
        by (auto simp: app_inv_def)
      then show ?thesis using o fenced_stays [OF _ 2] by (auto simp: shut_out_def)
    qed
  qed
qed

lemma bump_row:
  assumes "agent_of db aid = Some r"
  shows "agent_of (fst (bump_presence_generation aid db)) aid = Some (r\<lparr>a_presence_generation := a_presence_generation r + 1\<rparr>)"
  using row_of_SomeD [OF assms] assms
  by (auto simp: bump_presence_generation_def update_agent_def row_of_update_where)

lemma bump_reads: "bump_presence_generation aid db = (db', Inr g) \<Longrightarrow> presence_generation_of db' aid = Inr g"
  by (auto simp: bump_presence_generation_def split: prod.splits sum.splits)

lemma shut_out_live:
  assumes "app_inv y" "shut_out aid g y" "cid \<in> set (br_works (sy_broker y))" "br_heap (sy_broker y) cid = Some w"
  shows "wk_agent_id w \<noteq> aid"
proof
  assume a: "wk_agent_id w = aid"
  have b: "broker_inv (ry_closing (app_relay (sy_state y))) (sy_broker y)"
    using assms(1) by (simp add: app_inv_def relay_inv_def)
  obtain i n where i: "granted (sy_broker y) i cid" "cc_agent_id (br_calls (sy_broker y) ! i) = aid"
      "cc_generation (br_calls (sy_broker y) ! i) = n" "wk_generation w = Some n"
    using broker_invD(2) [OF b] assms(4) a unfolding works_ok_def by blast
  have "i < length (br_calls (sy_broker y))" using i(1) by (simp add: granted_def)
  then have "n \<in> claimed aid y" using i(2,3) by (force simp: call_ids_def claimed_def)
  then show False
    using assms(2) fenced_live [OF b _ assms(3,4) a, of g] i(4) by (auto simp: shut_out_def outrun_def)
qed

lemma shut_out_offer:
  assumes "app_inv y" "shut_out aid g y"
  shows "\<exists>e. fst (offer aid port rq deadline cid (sy_broker y)) = Inl e"
proof (cases "dropWhile (\<lambda>(i, g). fut_done (sy_broker y) i) (slots_of (sy_broker y) aid)")
  case Nil
  then show ?thesis unfolding offer_def Nil by simp
next
  case (Cons slot slots)
  obtain i n where s: "slot = (i, n)" by fastforce
  have "(i, n) \<in> set (slots_of (sy_broker y) aid)"
    using Cons s by (metis list.set_intros(1) set_dropWhileD)
  moreover have b: "broker_inv (ry_closing (app_relay (sy_state y))) (sy_broker y)"
    using assms(1) by (simp add: app_inv_def relay_inv_def)
  ultimately have w: "i < length (br_calls (sy_broker y))" "cc_agent_id (br_calls (sy_broker y) ! i) = aid"
      "cc_generation (br_calls (sy_broker y) ! i) = n" "\<exists>f. map_of (br_generation (sy_broker y)) aid = Some f"
    using broker_invD(4) [OF b] unfolding waiters_ok_def by blast+
  then have "n \<in> claimed aid y" by (force simp: call_ids_def claimed_def)
  then have "n < g" "fenced aid g (ledger_of (sy_broker y))" using assms(2) by (auto simp: shut_out_def outrun_def)
  then have "n < fence_of (sy_broker y) aid n" using w(4) by (auto simp: fenced_def ledger_of_def fence_of_def)
  then show ?thesis using Cons s by (auto simp: offer_def)
qed

lemma bump_outruns:
  assumes "app_inv y" "revoked_durably aid y"
  shows "row_outruns aid (bump_executed aid reason y)"
proof -
  obtain r where r: "agent_of (sy_registry y) aid = Some r" using assms(2) by (auto simp: revoked_durably_def revoked_row_def)
  have "n \<le> a_presence_generation r" if "n \<in> claimed aid y" for n
    using assms(1) r that
    by (force simp: app_inv_def known_generations_def broker_generations_def covered_def claimed_def)
  moreover have "claimed aid (bump_executed aid reason y) = claimed aid y" by (simp add: claimed_def segment_defs)
  moreover have "revoked_durably aid (bump_executed aid reason y)"
    using revoked_stays [OF assms(1) _ assms(2)] ap_bump by (auto simp: clean_step_def)
  ultimately show ?thesis
    using bump_row [OF r] by (force simp: row_outruns_def bump_executed_def set_registry_def)
qed

lemma read_outruns:
  assumes "row_outruns aid y" "presence_generation_of (sy_registry y) aid = Inr g"
  shows "outrun aid g (generation_read aid g reason y)"
  using assms
  by (auto simp: row_outruns_def outrun_def presence_generation_of_def generation_read_def claimed_def revoked_durably_def
      split: option.splits)

text \<open>Revocation: the row is revoked, the bump runs, and the generation it reads back is fenced.\<close>

lemma revocation_shuts_out:
  assumes "clean_reach sha c y0" and "revoked_durably aid y0"
    and "(clean_step sha c)\<^sup>*\<^sup>* (bump_executed aid reason y0) y1"
    and "(aid, reason, True) \<in> set (sy_writing y1)" and "presence_generation_of (sy_registry y1) aid = Inr g"
    and "(clean_step sha c)\<^sup>*\<^sup>* (generation_read aid g reason y1) y2"
    and "(aid, g, reason) \<in> set (sy_fencing y2)"
    and "(clean_step sha c)\<^sup>*\<^sup>* (fence_raised aid g reason y2) y"
  shows "app_inv y" "shut_out aid g y"
proof -
  have i0: "app_inv y0" by (rule app.reach_inv [OF assms(1)])
  have ib: "app_inv (bump_executed aid reason y0)"
    using clean_step_inv [OF i0] ap_bump by (auto simp: clean_step_def)
  have i1: "app_inv y1" and o1: "row_outruns aid y1"
    using app.steps_inv [OF assms(3) ib] app.steps_stable [where P = "row_outruns aid", OF assms(3) ib bump_outruns [OF i0 assms(2)]]
      row_outruns_step by blast+
  have ir: "app_inv (generation_read aid g reason y1)"
    using clean_step_inv [OF i1] ap_read [OF assms(4,5)] by (auto simp: clean_step_def)
  have i2: "app_inv y2" and o2: "outrun aid g y2"
    using app.steps_inv [OF assms(6) ir]
      app.steps_stable [where P = "outrun aid g", OF assms(6) ir read_outruns [OF o1 assms(5)]] outrun_step by blast+
  let ?z = "fence_raised aid g reason y2"
  have sz: "clean_step sha c y2 ?z" using ap_fence [OF assms(7)] by (simp add: clean_step_def)
  have "sy_broker ?z = fst (invalidate_agent aid g reason (sy_broker y2))"
    by (simp add: fence_raised_def set_relay_def with_closes_def)
  moreover have "broker_inv (ry_closing (app_relay (sy_state y2))) (sy_broker y2)"
    using i2 by (simp add: app_inv_def relay_inv_def)
  ultimately have "fenced aid g (ledger_of (sy_broker ?z))" by (simp add: invalidate_ledger fence_agent_fences)
  then have z: "app_inv ?z" "shut_out aid g ?z"
    using clean_step_inv [OF i2 sz] outrun_step [OF i2 sz o2] by (simp_all add: shut_out_def)
  show "app_inv y" "shut_out aid g y"
    using app.steps_inv [OF assms(8) z(1)] app.steps_stable [where P = "shut_out aid g", OF assms(8) z] shut_out_step by blast+
qed

section \<open>What a rollback does to the fence\<close>

lemma site_route_row:
  assumes "registry_inv db" "agent_of db aid = Some r" "a_revoked_at r = None"
  shows "site_route db aid = Some (a_transport r, a_presence_generation r)"
proof -
  have "find (\<lambda>r. a_agent_id r = aid \<and> a_revoked_at r = None) (registry_agents db) \<noteq> None"
    using row_of_SomeD [OF assms(2)] assms(3) by (auto simp: find_None_iff)
  then obtain x where x: "find (\<lambda>r. a_agent_id r = aid \<and> a_revoked_at r = None) (registry_agents db) = Some x" by blast
  then have "x \<in> set (registry_agents db)" "a_agent_id x = aid" by (auto simp: find_Some_iff)
  then have "agent_of db aid = Some x" using assms(1) by (auto simp: row_of_eq registry_inv_def)
  then show ?thesis using assms(2) x by (simp add: site_route_def)
qed

lemma resolve_row:
  assumes "registry_inv (app_registry s)" "resolve_site_route c s aid = Some g"
  obtains r where "agent_of (app_registry s) aid = Some r" "a_presence_generation r = g" "a_revoked_at r = None"
    "a_transport r = SITE_RELAY" "cfg_site_enabled c"
proof -
  obtain r where r: "agent_of (app_registry s) aid = Some r" "a_presence_generation r = g" "a_revoked_at r = None"
    using resolve_covered [OF assms] by blast
  then have "a_transport r = SITE_RELAY" "cfg_site_enabled c"
    using assms(2) site_route_row [OF assms(1) r(1,3)] by (auto simp: resolve_site_route_def split: if_splits)
  with r show thesis by (rule that)
qed

lemma conn_app: "app_step sha c y z \<Longrightarrow> conn_step sha c y z"
  by (simp add: conn_step_def)

lemma conn_rollback: "conn_step sha c y (rolled_back y)"
  by (simp add: conn_step_def)

text \<open>A generation is executed, read by a claim, and rolled back before it is committed.\<close>

lemma rollback_run:
  assumes inv: "app_inv y" and quiet: "sy_committed y = sy_registry y" and route: "resolve_site_route c (sy_state y) aid = Some g"
  obtains z where "(conn_step sha c)\<^sup>*\<^sup>* y z" "sy_registry z = sy_registry y" "sy_committed z = sy_registry y"
    "sy_writing z = sy_writing y" "sy_claiming z = sy_claiming y" "sy_fencing z = sy_fencing y"
    "fence_of (sy_broker z) aid 0 = g + 1"
proof -
  obtain r where r: "agent_of (sy_registry y) aid = Some r" "a_presence_generation r = g" "a_revoked_at r = None"
      "a_transport r = SITE_RELAY" "cfg_site_enabled c"
    using resolve_row [OF _ route] inv by (auto simp: app_inv_def)
  let ?w = "''offline''"
  let ?a = "bump_executed aid ?w y"
  let ?b = "?a\<lparr>sy_claiming := (aid, g + 1) # sy_claiming ?a\<rparr>"
  let ?c = "claim_called aid (g + 1) (rolled_back ?b)"
  let ?d = "write_committed aid ?w ?c"
  let ?e = "generation_read aid g ?w ?d"
  let ?z = "fence_raised aid g ?w ?e"
  have fence: "fence_of (sy_broker y) aid 0 \<le> g"
  proof -
    have "f \<le> g" if "map_of (br_generation (sy_broker y)) aid = Some f" for f
      using inv r that by (force simp: app_inv_def known_generations_def broker_generations_def covered_def)
    moreover have "0 \<le> g"
      using inv r by (auto simp: app_inv_def registry_inv_def agent_row_ok_def list_all_iff dest: row_of_SomeD)
    ultimately show ?thesis by (auto simp: fence_of_def split: option.split)
  qed
  have "registry_inv (sy_registry ?a)"
    using clean_step_inv [OF inv, of sha c ?a] ap_bump by (auto simp: clean_step_def app_inv_def)
  moreover have "sy_registry ?a = fst (bump_presence_generation aid (sy_registry y))"
    by (simp add: bump_executed_def set_registry_def)
  ultimately have "site_route (sy_registry ?a) aid = Some (SITE_RELAY, g + 1)"
    using site_route_row [of "sy_registry ?a" aid] bump_row [OF r(1)] r by simp
  then have "resolve_site_route c (sy_state ?a) aid = Some (g + 1)" using r(5) by (simp add: resolve_site_route_def)
  then have s2: "app_step sha c ?a ?b" by (rule ap_route)
  have s3: "app_step sha c (rolled_back ?b) ?c" by (rule ap_claim) (simp add: rolled_back_def set_registry_def)
  have s4: "app_step sha c ?c ?d"
    by (rule ap_written) (simp add: claim_called_def rolled_back_def set_relay_def set_registry_def bump_executed_def)
  have reg: "sy_registry ?c = sy_registry y"
    by (simp add: claim_called_def rolled_back_def set_relay_def set_registry_def bump_executed_def quiet)
  have s5: "app_step sha c ?d ?e"
    by (rule ap_read) (simp_all add: write_committed_def reg presence_generation_of_def r)
  have s6: "app_step sha c ?e ?z" by (rule ap_fence) (simp add: generation_read_def)
  have "(conn_step sha c)\<^sup>*\<^sup>* y ?z"
    using ap_bump [of sha c y aid ?w] conn_rollback [of sha c ?b] s2 s3 s4 s5 s6
    by (meson conn_app converse_rtranclp_into_rtranclp rtranclp.rtrancl_refl)
  moreover have "sy_broker ?c = snd (claim_begin aid (g + 1) (sy_broker y))"
    by (simp add: claim_called_def rolled_back_def set_relay_def set_registry_def bump_executed_def)
  then have "fence_of (sy_broker ?c) aid 0 = g + 1"
    using fence by (simp add: claim_begin_def fence_of_def [of "b\<lparr>br_calls := k\<rparr>" for b k] AList.update_conv')
  then have "fence_of (sy_broker ?z) aid 0 = g + 1"
    by (simp add: fence_raised_def generation_read_def write_committed_def set_relay_def with_closes_def invalidate_frame
        fence_of_def AList.update_conv')
  moreover have "sy_registry ?z = sy_registry y" "sy_committed ?z = sy_registry y" "sy_writing ?z = sy_writing y"
      "sy_claiming ?z = sy_claiming y" "sy_fencing ?z = sy_fencing y"
    using reg
    by (simp_all add: fence_raised_def generation_read_def write_committed_def claim_called_def rolled_back_def
        set_relay_def set_registry_def bump_executed_def)
  ultimately show thesis by (intro that [of ?z])
qed

section \<open>Handlers are runs of the interleaving\<close>

lemma close_streams_steps:
  "(app_step sha c)\<^sup>*\<^sup>* (set_relay (r\<lparr>ry_broker := b, ry_closing := cls @ old\<rparr>) y)
     (set_relay (close_streams cls (r\<lparr>ry_broker := b, ry_closing := old\<rparr>)) y)"
proof (induction cls arbitrary: b)
  case (Cons x cls)
  obtain cid t where x: "x = (cid, t)" by fastforce
  let ?r = "r\<lparr>ry_broker := b, ry_closing := (x # cls) @ old\<rparr>"
  let ?r' = "r\<lparr>ry_broker := on_stream cid (stream_close t) b, ry_closing := cls @ old\<rparr>"
  have "relay_step ?r ?r'"
    using st_close [of cid t ?r] x by simp
  then have "app_step sha c (set_relay ?r y) (set_relay ?r' y)"
    using ap_relay [of "set_relay ?r y" ?r' sha c] relay_ops_frame(4) [of b cid "stream_close t"]
    by (simp add: set_relay_def same_fences_def)
  then show ?case
    using Cons.IH [of "on_stream cid (stream_close t) b"] x by (auto simp: close_streams_def)
qed (cases r, simp add: close_streams_def)

lemma relay_invalidate_steps:
  "(app_step sha c)\<^sup>*\<^sup>*
     (set_relay (with_closes (app_relay (sy_state y)) (invalidate_agent aid g reason (sy_broker y))) z)
     (set_relay (relay_invalidate aid g reason (app_relay (sy_state y))) z)"
proof -
  obtain b cls where i: "invalidate_agent aid g reason (sy_broker y) = (b, cls)" by fastforce
  let ?r = "app_relay (sy_state y)"
  have "with_closes ?r (b, cls) = ?r\<lparr>ry_broker := b, ry_closing := cls @ ry_closing ?r\<rparr>"
    by (simp add: with_closes_def)
  moreover have "relay_invalidate aid g reason ?r = close_streams cls (?r\<lparr>ry_broker := b, ry_closing := ry_closing ?r\<rparr>)"
    using i by (simp add: relay_invalidate_def)
  ultimately show ?thesis
    using close_streams_steps [where r = ?r and b = b and cls = cls and old = "ry_closing ?r" and y = z] i by simp
qed

lemma evict_steps:
  assumes "evict_from_relay aid reason (sy_state y) = (Inr (), s')"
  obtains db g where "bump_presence_generation aid (sy_registry y) = (db, Inr g)"
    "y\<lparr>sy_state := s'\<rparr> = set_relay (relay_invalidate aid g reason (app_relay (sy_state y))) (set_registry db y)"
proof -
  obtain db g where b: "bump_presence_generation aid (sy_registry y) = (db, Inr g)"
    using assms by (auto simp: evict_from_relay_def split: prod.splits sum.splits)
  then have "y\<lparr>sy_state := s'\<rparr> = set_relay (relay_invalidate aid g reason (app_relay (sy_state y))) (set_registry db y)"
    using assms by (auto simp: evict_from_relay_def set_relay_def set_registry_def)
  then show thesis using b that by blast
qed

lemma app_runs_clean: "(app_step sha c)\<^sup>*\<^sup>* y z \<Longrightarrow> (clean_step sha c)\<^sup>*\<^sup>* y z"
  by (erule rtranclp_mono [THEN predicate2D, rotated]) (auto simp: clean_step_def)

lemma revoke_agent_row:
  assumes "revoke_agent now aid db = (db', Inr ())"
  obtains r where "agent_of db' aid = Some r" "a_revoked_at r \<noteq> None"
proof -
  have "length (filter (\<lambda>r. a_agent_id r = aid) (registry_agents db)) = 1"
    using assms by (simp add: revoke_agent_def Let_def split: if_splits)
  then have "filter (\<lambda>r. a_agent_id r = aid) (registry_agents db) \<noteq> []" by auto
  then obtain r0 where r0: "agent_of db aid = Some r0"
    by (cases "agent_of db aid") (auto simp: row_of_None has_key_def filter_empty_conv)
  then have "agent_of db' aid = Some (r0\<lparr>a_revoked_at := (case a_revoked_at r0 of None \<Rightarrow> Some now | Some t \<Rightarrow> Some t)\<rparr>)"
    using assms row_of_SomeD [OF r0] by (auto simp: revoke_agent_def Let_def row_of_update_where split: if_splits)
  then show thesis using that by (auto split: option.splits)
qed

text \<open>The revocation handler is such a run, with nothing between its segments.\<close>

lemma revoke_handler_shuts_out:
  assumes "clean_reach sha c y" and "is_relay_agent c (sy_state y) aid"
    and "revoke_agent_handler sha c now aid hdr (sy_state y) = (Inr (), s')"
    and "(clean_step sha c)\<^sup>*\<^sup>* (y\<lparr>sy_state := s', sy_committed := app_registry s'\<rparr>) z"
  shows "\<exists>g. shut_out aid g z"
proof -
  obtain db1 where rv: "revoke_agent now aid (sy_registry y) = (db1, Inr ())"
      and ev: "evict_from_relay aid ''revoked'' ((sy_state y)\<lparr>app_registry := set_assignments aid [] db1\<rparr>) = (Inr (), s')"
    using assms(2,3) by (auto simp: revoke_agent_handler_def with_admin_def Let_def split: sum.splits prod.splits if_splits)
  let ?a = "set_registry (set_assignments aid [] db1) (set_registry db1 y)"
  let ?y = "?a\<lparr>sy_committed := sy_registry ?a\<rparr>"
  let ?w = "write_committed aid ''revoked'' (bump_executed aid ''revoked'' ?y)"
  have step1: "clean_step sha c y (set_registry db1 y)"
    using ap_registry [OF sm_method [OF rs_revoke_agent [of _ _ "sy_registry y" now aid]]] rv by (simp add: clean_step_def)
  have step2: "clean_step sha c (set_registry db1 y) ?a"
    using ap_registry [where y = "set_registry db1 y", OF sm_method [OF rs_assign]] by (simp add: clean_step_def set_registry_def)
  have yr: "clean_reach sha c ?y"
    by (rule reach_step [OF reach_step [OF reach_step [OF assms(1) step1] step2]]) (simp add: clean_step_def ap_commit)
  have st: "sy_state ?y = (sy_state y)\<lparr>app_registry := set_assignments aid [] db1\<rparr>" by (simp add: set_registry_def)
  obtain r where "agent_of db1 aid = Some r" "a_revoked_at r \<noteq> None" by (rule revoke_agent_row [OF rv])
  then have rd: "revoked_durably aid ?y"
    by (simp add: revoked_durably_def revoked_row_def set_registry_def set_assignments_def)
  obtain db g where b: "bump_presence_generation aid (sy_registry ?y) = (db, Inr g)"
      and s': "?y\<lparr>sy_state := s'\<rparr> = set_relay (relay_invalidate aid g ''revoked'' (app_relay (sy_state ?y))) (set_registry db ?y)"
    using evict_steps [of aid "''revoked''" ?y s'] ev st by metis
  have read: "presence_generation_of (sy_registry ?w) aid = Inr g"
    using bump_reads [OF b] b by (simp add: write_committed_def bump_executed_def set_registry_def)
  have "app_step sha c (bump_executed aid ''revoked'' ?y) ?w" by (rule ap_written) (simp add: bump_executed_def)
  then have w: "(clean_step sha c)\<^sup>*\<^sup>* (bump_executed aid ''revoked'' ?y) ?w"
    by (intro r_into_rtranclp) (simp add: clean_step_def)
  let ?f = "fence_raised aid g ''revoked'' (generation_read aid g ''revoked'' ?w)"
  have f: "?f = set_relay (with_closes (app_relay (sy_state ?y)) (invalidate_agent aid g ''revoked'' (sy_broker ?y)))
      ((set_registry db ?y)\<lparr>sy_committed := db\<rparr>)"
    using b by (simp add: segment_defs)
  have y': "y\<lparr>sy_state := s', sy_committed := app_registry s'\<rparr> =
      set_relay (relay_invalidate aid g ''revoked'' (app_relay (sy_state ?y))) ((set_registry db ?y)\<lparr>sy_committed := db\<rparr>)"
    using arg_cong [OF s', of sy_state] by (simp add: set_registry_def set_relay_def)
  have "(clean_step sha c)\<^sup>*\<^sup>* ?f (y\<lparr>sy_state := s', sy_committed := app_registry s'\<rparr>)"
    unfolding f y' by (rule app_runs_clean [OF relay_invalidate_steps])
  then have run: "(clean_step sha c)\<^sup>*\<^sup>* ?f z" using assms(4) by (rule rtranclp_trans)
  show ?thesis
    using revocation_shuts_out(2) [OF yr rd w _ read rtranclp.rtrancl_refl _ run]
    by (auto simp: write_committed_def generation_read_def)
qed

section \<open>Properties\<close>

text \<open>C10: The registry's presence generation never lags the relay's in-memory fence, however the
  statements, commits and reads of handlers, operators and background tasks interleave and however often
  the coordinator restarts, as long as no rejected registration rolls back a generation another task has
  yet to commit. So an agent that polls with the generation its registry row carries is never refused as
  stale; and whenever no generation is waiting for its commit, the durable row covers the fence too.\<close>

theorem durable_generation_covers_fence:
  assumes "clean_reach sha c y" and "agent_of (sy_registry y) aid = Some r"
  shows "fence_of (sy_broker y) aid 0 \<le> a_presence_generation r \<and>
    (\<exists>b. claim_begin aid (a_presence_generation r) (sy_broker y) = (Inr (length (br_calls (sy_broker y))), b)) \<and>
    (generations_durable y \<longrightarrow> (\<exists>r'. agent_of (sy_committed y) aid = Some r' \<and> fence_of (sy_broker y) aid 0 \<le> a_presence_generation r'))"
proof -
  have i: "app_inv y" by (rule app.reach_inv [OF assms(1)])
  have "0 \<le> a_presence_generation r"
    using i assms(2) by (auto simp: app_inv_def registry_inv_def agent_row_ok_def list_all_iff dest: row_of_SomeD)
  moreover have "g \<le> a_presence_generation r" if "map_of (br_generation (sy_broker y)) aid = Some g" for g
    using i assms(2) that by (force simp: app_inv_def known_generations_def broker_generations_def covered_def)
  ultimately have "fence_of (sy_broker y) aid 0 \<le> a_presence_generation r"
    by (auto simp: fence_of_def split: option.split)
  moreover from this have "\<exists>r'. agent_of (sy_committed y) aid = Some r' \<and> fence_of (sy_broker y) aid 0 \<le> a_presence_generation r'"
    if "generations_durable y" using that assms(2) unfolding generations_durable_def by metis
  ultimately show ?thesis by (simp add: claim_begin_def Let_def)
qed

text \<open>C9: Revocation ends relay service for good. Once the agent's revocation is committed, its generation
  is bumped, committed and read back, and the broker is fenced with what was read, then in every later
  state no live claim is the agent's and every request offered to it is refused. Any other task may run
  between those segments, claim handlers that read the old generation before the revocation included,
  and it survives restarts, which forget the fence; what is excluded is a rejected registration that
  rolls back a generation another task has yet to commit.\<close>

theorem revoked_agent_never_relays:
  assumes "clean_reach sha c y0" and "revoked_durably aid y0"
    and "(clean_step sha c)\<^sup>*\<^sup>* (bump_executed aid reason y0) y1"
    and "(aid, reason, True) \<in> set (sy_writing y1)" and "presence_generation_of (sy_registry y1) aid = Inr g"
    and "(clean_step sha c)\<^sup>*\<^sup>* (generation_read aid g reason y1) y2"
    and "(aid, g, reason) \<in> set (sy_fencing y2)"
    and "(clean_step sha c)\<^sup>*\<^sup>* (fence_raised aid g reason y2) y"
  shows "(\<forall>cid \<in> set (br_works (sy_broker y)). \<forall>w. br_heap (sy_broker y) cid = Some w \<longrightarrow> wk_agent_id w \<noteq> aid) \<and>
    (\<forall>port rq deadline cid. \<exists>e. fst (offer aid port rq deadline cid (sy_broker y)) = Inl e)"
  using revocation_shuts_out [OF assms] shut_out_live shut_out_offer by blast

text \<open>C34: The durable fence can lag the broker. Neither \<open>bump_presence_generation\<close> nor
  \<open>apply_presence_event\<close> takes the write lock, so a rejected registration can roll their \<open>UPDATE\<close> back
  before they commit it. From any reachable state with nothing uncommitted in which an agent has a relay
  route, some interleaving ends with the same registry and no task left over, but with the broker's fence
  above the generation of the row: a claim at the generation the registry gives the agent is refused as
  stale.\<close>

theorem rollback_strands_agent:
  assumes "clean_reach sha c y" and "sy_committed y = sy_registry y" and "resolve_site_route c (sy_state y) aid = Some g"
  shows "\<exists>z. (conn_step sha c)\<^sup>*\<^sup>* y z \<and> sy_registry z = sy_registry y \<and> sy_committed z = sy_registry y \<and>
    sy_writing z = sy_writing y \<and> sy_claiming z = sy_claiming y \<and> sy_fencing z = sy_fencing y \<and>
    g < fence_of (sy_broker z) aid 0 \<and>
    fst (claim_begin aid g (sy_broker z)) = Inl (RelayStateError ''stale generation'' None)"
proof -
  obtain z where z: "(conn_step sha c)\<^sup>*\<^sup>* y z" "sy_registry z = sy_registry y" "sy_committed z = sy_registry y"
      "sy_writing z = sy_writing y" "sy_claiming z = sy_claiming y" "sy_fencing z = sy_fencing y"
      "fence_of (sy_broker z) aid 0 = g + 1"
    by (rule rollback_run [OF app.reach_inv [OF assms(1)] assms(2,3)])
  then have "fst (claim_begin aid g (sy_broker z)) = Inl (RelayStateError ''stale generation'' None)"
    by (simp add: claim_begin_def)
  then show ?thesis using z by force
qed

section \<open>Instances\<close>

definition demo_sys :: "registry_db \<Rightarrow> app_sys" where
  "demo_sys db = \<lparr>sy_state = demo_app db empty_db, sy_committed = db, sy_writing = [], sy_claiming = [], sy_fencing = []\<rparr>"

lemma demo_sys_reach: "registry_reach sha (cfg_registry c) db \<Longrightarrow> clean_reach sha c (demo_sys db)"
proof (induction rule: reach.induct)
  case (reach_init db)
  then show ?case
    by (intro reach.reach_init) (auto simp: app_init_def demo_sys_def demo_app_def demo_idle_def relay_init_def)
next
  case (reach_step db db')
  let ?a = "set_registry db' (demo_sys db)"
  have "app_step sha c (demo_sys db) ?a"
    using reach_step(2) by (intro ap_registry sm_method) (simp add: demo_sys_def demo_app_def)
  moreover have "?a\<lparr>sy_committed := sy_registry ?a\<rparr> = demo_sys db'" by (simp add: set_registry_def demo_sys_def demo_app_def)
  then have "app_step sha c ?a (demo_sys db')" using ap_commit [of sha c ?a] by simp
  ultimately show ?case
    using reach.reach_step [OF reach.reach_step [OF reach_step(3), of ?a]] by (simp add: clean_step_def)
qed

lemma demo_sys_fields: "sy_registry (demo_sys db) = db" "sy_committed (demo_sys db) = db"
  by (simp_all add: demo_sys_def demo_app_def)

definition demo_written :: app_sys where
  "demo_written = write_committed ''A'' ''user_returned'' (presence_executed 3 ''A'' ''user_returned'' 1 (demo_sys rdb1))"

definition demo_fence_raised :: app_sys where
  "demo_fence_raised = fence_raised ''A'' 1 ''user_returned'' (generation_read ''A'' 1 ''user_returned'' demo_written)"

lemma demo_presence:
  "apply_presence_event 3 ''A'' ''user_returned'' 1 rdb1 = (fst (apply_presence_event 3 ''A'' ''user_returned'' 1 rdb1), Inr 1)"
  "presence_generation_of (fst (apply_presence_event 3 ''A'' ''user_returned'' 1 rdb1)) ''A'' = Inr 1"
  by (simp_all add: rdb1_eq apply_presence_event_def presence_generation_of_def INSERT_AGENT_def update_where_def row_of_def Let_def)

lemma demo_fence_raised_reach: "clean_reach id demo_cfg demo_fence_raised"
proof -
  let ?e = "presence_executed 3 ''A'' ''user_returned'' 1 (demo_sys rdb1)"
  let ?r = "generation_read ''A'' 1 ''user_returned'' demo_written"
  have "clean_reach id demo_cfg (demo_sys rdb1)" by (rule demo_sys_reach) (simp add: demo_cfg_def rdb1_reach)
  moreover have "app_step id demo_cfg (demo_sys rdb1) ?e"
    by (rule ap_presence) (use demo_presence(1) in \<open>metis demo_sys_fields(1) snd_conv sum.distinct(1)\<close>)
  moreover have "app_step id demo_cfg ?e demo_written"
    unfolding demo_written_def by (rule ap_written) (simp add: presence_executed_def)
  moreover have "app_step id demo_cfg demo_written ?r"
    by (rule ap_read) (simp_all add: demo_written_def write_committed_def presence_executed_def set_registry_def
        demo_sys_fields demo_presence(2))
  moreover have "app_step id demo_cfg ?r demo_fence_raised"
    unfolding demo_fence_raised_def by (rule ap_fence) (simp add: generation_read_def)
  ultimately have "clean_reach id demo_cfg (demo_sys rdb1)" "clean_step id demo_cfg (demo_sys rdb1) ?e"
      "clean_step id demo_cfg ?e demo_written" "clean_step id demo_cfg demo_written ?r" "clean_step id demo_cfg ?r demo_fence_raised"
    by (simp_all only: clean_step_def simp_thms)
  then show ?thesis by (rule reach_step [OF reach_step [OF reach_step [OF reach_step]]])
qed

lemma demo_fence_raised_row:
  "\<exists>r. agent_of (sy_registry demo_fence_raised) ''A'' = Some r \<and> a_presence_generation r = 1"
  by (simp add: demo_fence_raised_def demo_written_def segment_defs demo_sys_def demo_app_def
      rdb1_eq apply_presence_event_def INSERT_AGENT_def update_where_def row_of_def Let_def)

theorem durable_generation_covers_fence_witness:
  "\<exists>r. agent_of (sy_registry demo_fence_raised) ''A'' = Some r \<and> fence_of (sy_broker demo_fence_raised) ''A'' 0 \<le> 1 \<and>
     (\<exists>b. claim_begin ''A'' 1 (sy_broker demo_fence_raised) = (Inr 0, b)) \<and>
     (\<exists>r'. agent_of (sy_committed demo_fence_raised) ''A'' = Some r' \<and>
        fence_of (sy_broker demo_fence_raised) ''A'' 0 \<le> a_presence_generation r')"
proof -
  obtain r where r: "agent_of (sy_registry demo_fence_raised) ''A'' = Some r" "a_presence_generation r = 1"
    using demo_fence_raised_row by blast
  have "br_calls (sy_broker demo_fence_raised) = []"
    by (simp add: demo_fence_raised_def demo_written_def segment_defs demo_sys_def demo_app_def
        demo_idle_def RelayBroker_def with_closes_def invalidate_agent_def slots_of_def cancel_pending_def)
  moreover have "generations_durable demo_fence_raised"
    by (simp add: generations_durable_def demo_fence_raised_def demo_written_def segment_defs)
  ultimately show ?thesis using durable_generation_covers_fence [OF demo_fence_raised_reach r(1)] r by auto
qed

definition demo_revoked :: registry_db where
  "demo_revoked = fst (revoke_agent 5 ''A'' rdb1)"

theorem revoked_agent_never_relays_witness:
  "\<exists>y db g. bump_presence_generation ''A'' demo_revoked = (db, Inr g) \<and>
     sy_broker y = fst (invalidate_agent ''A'' g ''revoked'' (sy_broker (demo_sys db))) \<and>
     (\<exists>e. fst (offer ''A'' 8080 demo_request 100 ''c'' (sy_broker y)) = Inl e)"
proof -
  let ?start = "demo_sys demo_revoked"
  let ?bumped = "bump_executed ''A'' ''revoked'' ?start"
  let ?w = "write_committed ''A'' ''revoked'' ?bumped"
  have r: "clean_reach id demo_cfg ?start"
    unfolding demo_revoked_def
    by (rule demo_sys_reach) (simp add: demo_cfg_def reach_step [OF rdb1_reach rs_revoke_agent])
  have row: "agent_of demo_revoked ''A'' = Some ((INSERT_AGENT ''A'' rcaps0 ''10.0.0.1'' ''dev'' 2 SITE)\<lparr>a_revoked_at := Some 5\<rparr>)"
    by (simp add: demo_revoked_def revoke_agent_def rdb1_eq INSERT_AGENT_def update_where_def row_of_def Let_def)
  then have d: "revoked_durably ''A'' ?start" by (simp add: revoked_durably_def revoked_row_def demo_sys_fields)
  obtain db g where b: "bump_presence_generation ''A'' demo_revoked = (db, Inr g)"
    by (simp add: demo_revoked_def revoke_agent_def rdb1_eq INSERT_AGENT_def update_where_def
        row_of_def Let_def bump_presence_generation_def update_agent_def presence_generation_of_def)
  have "app_step id demo_cfg ?bumped ?w" by (rule ap_written) (simp add: bump_executed_def)
  then have "clean_step id demo_cfg ?bumped ?w" by (simp add: clean_step_def)
  then have w: "(clean_step id demo_cfg)\<^sup>*\<^sup>* ?bumped ?w" by (rule r_into_rtranclp)
  have read: "presence_generation_of (sy_registry ?w) ''A'' = Inr g"
    using bump_reads [OF b] b by (simp add: write_committed_def bump_executed_def set_registry_def demo_sys_fields)
  let ?y = "fence_raised ''A'' g ''revoked'' (generation_read ''A'' g ''revoked'' ?w)"
  have "\<exists>e. fst (offer ''A'' 8080 demo_request 100 ''c'' (sy_broker ?y)) = Inl e"
    using revoked_agent_never_relays [OF r d w _ read rtranclp.rtrancl_refl _ rtranclp.rtrancl_refl]
    by (auto simp: write_committed_def generation_read_def)
  moreover have "sy_broker ?y = fst (invalidate_agent ''A'' g ''revoked'' (sy_broker (demo_sys db)))"
    by (simp add: segment_defs with_closes_def demo_sys_def demo_app_def)
  ultimately show ?thesis using b by blast
qed

theorem rollback_strands_agent_witness:
  "resolve_site_route demo_cfg (sy_state (demo_sys rdb1)) ''A'' = Some 0 \<and>
   (\<exists>z. (conn_step id demo_cfg)\<^sup>*\<^sup>* (demo_sys rdb1) z \<and> sy_registry z = rdb1 \<and> sy_committed z = rdb1 \<and> sy_fencing z = [] \<and>
     0 < fence_of (sy_broker z) ''A'' 0 \<and>
     fst (claim_begin ''A'' 0 (sy_broker z)) = Inl (RelayStateError ''stale generation'' None))"
proof -
  have "clean_reach id demo_cfg (demo_sys rdb1)" by (rule demo_sys_reach) (simp add: demo_cfg_def rdb1_reach)
  moreover have r: "resolve_site_route demo_cfg (sy_state (demo_sys rdb1)) ''A'' = Some 0"
    by (simp add: resolve_site_route_def demo_cfg_def demo_sys_fields site_route_def rdb1_eq INSERT_AGENT_def transport_for_mode_def)
  moreover have "sy_committed (demo_sys rdb1) = sy_registry (demo_sys rdb1)" by (simp add: demo_sys_fields)
  moreover have "sy_fencing (demo_sys rdb1) = []" by (simp add: demo_sys_def)
  ultimately show ?thesis
    using rollback_strands_agent [of id demo_cfg "demo_sys rdb1" "''A''" 0] demo_sys_fields by auto
qed

end
