(* ===== verification/App_Batch.thy ===== *)
theory App_Batch
  imports App_Admin
begin

text \<open>
  Batch work across the components: a poll that composes the registry, the scheduler's filter and the
  queue; and payload uploads that compose the result directory and the queue, with uploads of different
  agents interleaved at every await.
\<close>

section \<open>Leasing\<close>

lemma agent_snapshot_row:
  assumes "registry_inv (app_registry s)" "agent_snapshot_for c now s aid = Some snap"
  obtains r where "agent_of (app_registry s) aid = Some r" "a_revoked_at r = None"
    "\<not> rc_offline_after_s (cfg_registry c) < age_s now (a_last_seen r)"
    "snap = (snapshot_from_row r (rc_suspect_after_s (cfg_registry c) < age_s now (a_last_seen r)))
       \<lparr>as_state := (case state_for (app_overrides s) aid of None \<Rightarrow> a_state r | Some st \<Rightarrow> st)\<rparr>"
proof -
  obtain x where x: "find (\<lambda>x. as_agent_id x = aid) (snapshots (cfg_registry c) now (app_registry s)) = Some x"
    using assms(2) by (auto simp: agent_snapshot_for_def split: option.splits)
  then have xs: "x \<in> set (snapshots (cfg_registry c) now (app_registry s))" "as_agent_id x = aid"
    by (auto simp: find_Some_iff)
  then obtain r where r: "r \<in> set (registry_agents (app_registry s))" "a_revoked_at r = None"
      "\<not> rc_offline_after_s (cfg_registry c) < age_s now (a_last_seen r)"
      "x = snapshot_from_row r (rc_suspect_after_s (cfg_registry c) < age_s now (a_last_seen r))"
    by (auto simp: snapshots_def)
  have "a_agent_id r = aid" using xs(2) r(4) by (simp add: snapshot_from_row_def)
  then have "agent_of (app_registry s) aid = Some r" using r(1) assms(1) by (auto simp: row_of_eq registry_inv_def)
  moreover have "snap = x\<lparr>as_state := (case state_for (app_overrides s) aid of None \<Rightarrow> a_state r | Some st \<Rightarrow> st)\<rparr>"
    using assms(2) x r(4) by (auto simp: agent_snapshot_for_def snapshot_from_row_def split: option.splits if_splits)
  ultimately show thesis using that r by blast
qed

lemma try_lease_cases:
  assumes "try_lease c pl aid s = (Some lease, s')"
  obtains snap where "agent_snapshot_for c (pl_snapshot_at pl) s aid = Some snap" "agent_is_fit snap"
    "(\<exists>q ts. lease_next (cfg_queue c) (pl_lease_at pl) (app_queue (pl_to_lease pl s)) aid (ready_models snap) = (q, Some lease, ts) \<and>
        app_queue s' = q) \<or>
     (cfg_speculative_backup_enabled c \<and>
      (\<exists>q ts. lease_next (cfg_queue c) (pl_lease_at pl) (app_queue (pl_to_lease pl s)) aid (ready_models snap) = (q, None, ts) \<and>
        try_backup_lease c pl aid (ready_models snap)
          ((pl_to_lease pl s)\<lparr>app_queue := q, app_units := app_units (pl_to_lease pl s) @ ts\<rparr>) = (Some lease, s')))"
  using assms
  by (auto simp: try_lease_def select_for_poll_def try_backup_lease_def Let_def split: option.splits if_splits prod.splits)

lemma lease_next_none:
  "lease_next cfg now db agent models = (q, None, ts) \<Longrightarrow> keyed w_work_unit_id (work_units db) \<Longrightarrow> q = db \<and> ts = []"
  by (auto simp: lease_next_eq split: if_splits option.splits)

text \<open>Short of a submission, no method changes which job a unit is of or which model a job is for.\<close>

definition job_model :: "job_row \<Rightarrow> ident \<times> ident" where
  "job_model j = (j_job_id j, j_model_id j)"

lemma recompute_job_models:
  "map job_model (jobs (recompute_job_state jid db)) = map job_model (jobs db)"
  "map job_model (jobs (fold recompute_job_state jids db)) = map job_model (jobs db)"
proof -
  have *: "map job_model (jobs (recompute_job_state jid db)) = map job_model (jobs db)" for jid db
    by (simp add: recompute_job_state_def SET_JOB_STATE_def update_where_def job_model_def)
  then show "map job_model (jobs (recompute_job_state jid db)) = map job_model (jobs db)" .
  show "map job_model (jobs (fold recompute_job_state jids db)) = map job_model (jobs db)"
    by (induction jids arbitrary: db) (simp_all add: *)
qed

lemma fold_terminal_jobs:
  "jobs (fold (\<lambda>t. MARK_JOB_UNIT_TERMINAL (f t) (g t) st a b) ts db) = jobs db"
  by (induction ts arbitrary: db) (simp_all add: MARK_JOB_UNIT_TERMINAL_def)

lemma requeue_job_models: "map job_model (jobs (fst (requeue cfg sel now db))) = map job_model (jobs db)"
  by (simp add: requeue_def Let_def run_requeue_branch_def recompute_job_models fold_terminal_jobs)

lemma bind_jobs: "jobs (fst (bind_result_payload now db agent uid attempt digest ref)) = jobs db"
  by (simp add: bind_result_payload_def BIND_RESULT_PAYLOAD_def BIND_RESULT_PAYLOAD_BACKUP_def insert_binding_def Let_def
      case_prod_beta)

lemma list_all2_set_left: "list_all2 R xs ys \<Longrightarrow> x \<in> set xs \<Longrightarrow> \<exists>y \<in> set ys. R x y"
  by (induction rule: list_all2_induct) auto

lemma work_step_job_models:
  assumes "work_step cfg db db'" "queue_inv cfg db"
  shows "map job_model (jobs db') = map job_model (jobs db)"
  using assms(1)
proof (cases rule: work_step.cases)
  case (ws_lease now agent models)
  show ?thesis
    unfolding ws_lease lease_next_eq [OF queue_inv_units(1) [OF assms(2)]]
    by (auto simp: CLAIM_UNIT_def recompute_job_models split: option.split)
next
  case (ws_complete now agent attempt res)
  show ?thesis
  proof (cases rule: complete_unit_cases [of now db agent attempt res])
    case (finalizes w)
    then show ?thesis by (simp add: ws_complete finalize_unit_eq finalized_db_def sql_update_defs recompute_job_models)
  qed (simp add: ws_complete)
next
  case ws_reopen
  then show ?thesis using init_store_inv [OF assms(2)] by simp
qed (auto simp: extend_leases_def EXTEND_LEASES_def lease_backup_def INSERT_BACKUP_LEASE_def Let_def bind_jobs
    requeue_expired_def requeue_agent_def requeue_job_models mark_job_finalized_def case_prod_beta split: option.split)

definition unit_model :: "queue_db \<Rightarrow> ident \<Rightarrow> ident \<Rightarrow> bool" where
  "unit_model db uid mid \<longleftrightarrow> (\<exists>(w, j) \<in> set (units_join_jobs db). w_work_unit_id w = uid \<and> j_model_id j = mid)"

lemma unit_model_fun:
  assumes "queue_inv cfg db" "unit_model db uid m" "unit_model db uid m'"
  shows "m = m'"
proof -
  obtain w j w' j' where w: "(w, j) \<in> set (units_join_jobs db)" "w_work_unit_id w = uid" "j_model_id j = m"
      and w': "(w', j') \<in> set (units_join_jobs db)" "w_work_unit_id w' = uid" "j_model_id j' = m'"
    using assms(2,3) by (auto simp: unit_model_def)
  have "w = w'" using queue_inv_units(3) [OF assms(1), of w] queue_inv_units(3) [OF assms(1), of w'] w w'
    by (simp add: in_units_join_jobs)
  moreover have "keyed j_job_id (jobs db)" using assms(1) by (simp add: queue_inv_def db_ok_def keys_inv_def)
  ultimately show ?thesis using w w' by (auto simp: in_units_join_jobs dest: keyed_eq)
qed

lemma work_step_unit_model:
  assumes "work_step cfg db db'" "queue_inv cfg db" "unit_model db uid mid"
  shows "unit_model db' uid mid"
proof -
  obtain w j where w: "w \<in> set (work_units db)" "j \<in> set (jobs db)" "j_job_id j = w_job_id w" "w_work_unit_id w = uid"
      "j_model_id j = mid"
    using assms(3) by (auto simp: unit_model_def in_units_join_jobs)
  obtain w' where w': "w' \<in> set (work_units db')" "unit_evolves w w'"
    using list_all2_set_left [OF work_step_evolves [OF assms(1,2)] w(1)] by blast
  have "job_model j \<in> set (map job_model (jobs db'))" using work_step_job_models [OF assms(1,2)] w(2) by force
  then obtain j' where "j' \<in> set (jobs db')" "j_job_id j' = j_job_id j" "j_model_id j' = j_model_id j"
    by (auto simp: job_model_def)
  then show ?thesis using w w' by (force simp: unit_model_def in_units_join_jobs unit_evolves_def)
qed

lemma work_steps_unit_model:
  assumes "(work_step cfg)\<^sup>*\<^sup>* db db'" "queue_cfg_ok cfg" "queue_inv cfg db" "unit_model db uid mid"
  shows "queue_inv cfg db' \<and> unit_model db' uid mid"
  using assms(1)
  by (induction rule: rtranclp_induct) (use assms(2-4) work_step_inv work_step_unit_model in blast)+

lemma choose_backup_in:
  "choose_backup_unit units holders churn hour threshold est = Some uid \<Longrightarrow> uid \<in> tu_work_unit_id ` set units"
proof -
  assume a: "choose_backup_unit units holders churn hour threshold est = Some uid"
  let ?risk = "at_risk churn hour est threshold holders units"
  have "?risk \<noteq> []" "uid = snd (Min (set ?risk))"
    using a by (auto simp: choose_backup_unit_def choose_backup_loop_min Let_def split: if_splits)
  then have "\<exists>x. (x, uid) \<in> set ?risk" using Min_in [of "set ?risk"] by (metis List.finite_set prod.collapse set_empty)
  then show ?thesis by (force simp: at_risk_def split: option.splits if_splits)
qed

lemma backup_candidate_model:
  "x \<in> set (backup_candidates db agent models tail) \<Longrightarrow> \<exists>mid \<in> set models. unit_model db (bc_work_unit_id x) mid"
  by (fastforce simp: backup_candidates_def SELECT_BACKUP_CANDIDATES_def unit_model_def split: if_splits)

lemma backup_grant_facts:
  assumes "queue_inv cfg db" "lease_backup cfg now db agent uid = (q, Some lease)"
  shows "unit_model db uid (wl_model_id lease)" "wl_work_unit_id lease = uid" "work_units q = work_units db"
    "\<exists>w. unit_of db uid = Some w \<and> w_state w = LEASED \<and> w_lease_agent w \<noteq> Some agent"
proof -
  obtain w j where t: "SELECT_BACKUP_LEASE_TARGET db uid agent = Some (w, j)"
      "wl_model_id lease = j_model_id j" "wl_work_unit_id lease = uid"
    using assms(2) by (auto simp: lease_backup_def Let_def split: option.splits if_splits prod.splits)
  note d = SELECT_BACKUP_LEASE_TARGET_SomeD [OF t(1)]
  show "wl_work_unit_id lease = uid" by (rule t(3))
  show "unit_model db uid (wl_model_id lease)" using t d by (auto simp: unit_model_def in_units_join_jobs)
  show "work_units q = work_units db" using lease_backup_units [of cfg now db agent uid] assms(2) by simp
  show "\<exists>w. unit_of db uid = Some w \<and> w_state w = LEASED \<and> w_lease_agent w \<noteq> Some agent"
    using queue_inv_units(3) [OF assms(1), of w] d by auto
qed

lemma lease_agent:
  assumes "registry_inv (app_registry s)" "agent_snapshot_for c now s aid = Some snap" "agent_is_fit snap"
    "mid \<in> set (ready_models snap)"
  shows "\<exists>r. agent_of (app_registry s) aid = Some r \<and> a_revoked_at r = None \<and>
      \<not> rc_suspect_after_s (cfg_registry c) < age_s now (a_last_seen r) \<and> \<not> a_serving_paused r \<and>
      (case state_for (app_overrides s) aid of None \<Rightarrow> a_state r | Some st \<Rightarrow> st) = IDLE \<and>
      (\<exists>p \<in> set (a_replicas r). rs_model_id p = mid \<and> rs_state p = READY)"
proof -
  obtain r where r: "agent_of (app_registry s) aid = Some r" "a_revoked_at r = None"
    "snap = (snapshot_from_row r (rc_suspect_after_s (cfg_registry c) < age_s now (a_last_seen r)))
       \<lparr>as_state := (case state_for (app_overrides s) aid of None \<Rightarrow> a_state r | Some st \<Rightarrow> st)\<rparr>"
    using agent_snapshot_row [OF assms(1,2)] by blast
  then show ?thesis using assms(3,4) by (auto simp: agent_is_fit_def ready_models_def snapshot_from_row_def)
qed

text \<open>What other tasks do to the queue: anything, or anything but submitting jobs.\<close>

definition others_run :: "(queue_db \<Rightarrow> queue_db \<Rightarrow> bool) \<Rightarrow> (coordinator \<Rightarrow> coordinator) \<Rightarrow> bool" where
  "others_run stp f \<longleftrightarrow> (\<forall>x. stp\<^sup>*\<^sup>* (app_queue x) (app_queue (f x)))"

abbreviation at_backup :: "poll_round \<Rightarrow> coordinator \<Rightarrow> coordinator" where
  "at_backup pl s \<equiv> pl_to_backup pl (pl_to_holders pl (pl_to_candidates pl s))"

lemma backup_lease_facts:
  assumes "queue_cfg_ok (cfg_queue c)" "queue_inv (cfg_queue c) (app_queue (pl_to_candidates pl s))"
    and others: "others_run (work_step (cfg_queue c)) (pl_to_holders pl)" "others_run (work_step (cfg_queue c)) (pl_to_backup pl)"
    and "try_backup_lease c pl aid models s = (Some lease, s')"
  shows "wl_model_id lease \<in> set models" "work_units (app_queue s') = work_units (app_queue (at_backup pl s))"
    "\<exists>w. unit_of (app_queue (at_backup pl s)) (wl_work_unit_id lease) = Some w \<and> w_state w = LEASED \<and> w_lease_agent w \<noteq> Some aid"
proof -
  let ?db = "app_queue (pl_to_candidates pl s)" and ?db' = "app_queue (at_backup pl s)"
  let ?cs = "backup_candidates ?db aid models (cfg_speculative_tail_max_units c)"
  obtain uid q tail holders churn where u: "choose_backup_unit (map tail ?cs) holders churn (pl_hour pl)
        (cfg_speculative_survival_threshold c) (cfg_churn_est_unit_duration_s c) = Some uid"
      "\<And>x. tu_work_unit_id (tail x) = bc_work_unit_id x"
      "lease_backup (cfg_queue c) (pl_backup_at pl) ?db' aid uid = (q, Some lease)" "app_queue s' = q"
    using assms(5) by (auto simp: try_backup_lease_def Let_def split: option.splits if_splits prod.splits)
  obtain x where x: "x \<in> set ?cs" "uid = bc_work_unit_id x" using choose_backup_in [OF u(1)] u(2) by auto
  obtain mid where m: "mid \<in> set models" "unit_model ?db uid mid" using backup_candidate_model [OF x(1)] x(2) by blast
  have "(work_step (cfg_queue c))\<^sup>*\<^sup>* ?db ?db'"
    using others unfolding others_run_def by (meson rtranclp_trans)
  then have i: "queue_inv (cfg_queue c) ?db'" "unit_model ?db' uid mid"
    using work_steps_unit_model [OF _ assms(1,2) m(2)] by blast+
  note b = backup_grant_facts [OF i(1) u(3)]
  show "wl_model_id lease \<in> set models" using unit_model_fun [OF i(1) b(1) i(2)] m(1) by simp
  show "work_units (app_queue s') = work_units ?db'" using b(3) u(4) by simp
  show "\<exists>w. unit_of ?db' (wl_work_unit_id lease) = Some w \<and> w_state w = LEASED \<and> w_lease_agent w \<noteq> Some aid"
    using b(2,4) by auto
qed

lemma no_lease_no_work:
  assumes "queue_inv (cfg_queue c) (app_queue (pl_to_lease pl s))" "try_lease c pl aid s = (None, s')"
    "agent_snapshot_for c (pl_snapshot_at pl) s aid = Some snap" "agent_is_fit snap"
  shows "\<forall>(w, j) \<in> set (units_join_jobs (app_queue (pl_to_lease pl s))). w_state w = PENDING \<longrightarrow> j_model_id j \<notin> set (ready_models snap)"
proof (cases "ready_models snap = []")
  case False
  then have "fst (snd (lease_next (cfg_queue c) (pl_lease_at pl) (app_queue (pl_to_lease pl s)) aid (ready_models snap))) = None"
    using assms(2-4) by (auto simp: try_lease_def select_for_poll_def Let_def split: prod.splits option.splits)
  then have "SELECT_LEASE_CANDIDATE (app_queue (pl_to_lease pl s)) (ready_models snap) = None"
    using False by (auto simp: lease_next_eq [OF queue_inv_units(1) [OF assms(1)]] split: option.splits)
  then show ?thesis by (auto simp: SELECT_LEASE_CANDIDATE_def filter_empty_conv)
qed auto

text \<open>The two ways a unit is leased, and the queue each saw.\<close>

definition leased_now :: "app_config \<Rightarrow> poll_round \<Rightarrow> ident \<Rightarrow> coordinator \<Rightarrow> work_unit_lease \<Rightarrow> queue_db \<Rightarrow> bool" where
  "leased_now c pl aid s lease q \<longleftrightarrow>
     (\<exists>w. unit_of (app_queue (pl_to_lease pl s)) (wl_work_unit_id lease) = Some w \<and> w_state w = PENDING \<and>
        (\<exists>w'. unit_of q (wl_work_unit_id lease) = Some w' \<and>
            w_state w' = LEASED \<and> w_lease_agent w' = Some aid \<and> w_attempts w' = wl_attempt lease)) \<or>
     cfg_speculative_backup_enabled c \<and>
     (\<exists>w. unit_of (app_queue (at_backup pl (pl_to_lease pl s))) (wl_work_unit_id lease) = Some w \<and> w_state w = LEASED \<and>
        w_lease_agent w \<noteq> Some aid \<and> unit_of q (wl_work_unit_id lease) = Some w)"

lemma lease_next_now:
  assumes "queue_cfg_ok (cfg_queue c)" "queue_reach (cfg_queue c) (app_queue (pl_to_lease pl s))"
    "lease_next (cfg_queue c) (pl_lease_at pl) (app_queue (pl_to_lease pl s)) aid models = (q, Some lease, ts)"
  shows "wl_model_id lease \<in> set models \<and> leased_now c pl aid s lease q"
  using lease_next_facts [OF assms] queue_inv_units(3) [OF queue_reach_inv [OF assms(1,2)]]
  unfolding leased_now_def by (fastforce simp: in_units_join_jobs)

lemma queue_reach_steps: "(queue_step cfg)\<^sup>*\<^sup>* db db' \<Longrightarrow> queue_reach cfg db \<Longrightarrow> queue_reach cfg db'"
  by (induction rule: rtranclp_induct) (auto intro: reach_step)

lemma backup_now:
  assumes "queue_cfg_ok (cfg_queue c)" "queue_reach (cfg_queue c) (app_queue (pl_to_lease pl s))"
    and "others_run (queue_step (cfg_queue c)) (pl_to_candidates pl)"
    and "others_run (work_step (cfg_queue c)) (pl_to_holders pl)" "others_run (work_step (cfg_queue c)) (pl_to_backup pl)"
    and "lease_next (cfg_queue c) (pl_lease_at pl) (app_queue (pl_to_lease pl s)) aid models = (q, None, ts)"
    and "try_backup_lease c pl aid models
      ((pl_to_lease pl s)\<lparr>app_queue := q, app_units := app_units (pl_to_lease pl s) @ ts\<rparr>) = (Some lease, s')"
    and "cfg_speculative_backup_enabled c"
  shows "wl_model_id lease \<in> set models \<and> leased_now c pl aid s lease (app_queue s')"
proof -
  have "q = app_queue (pl_to_lease pl s)" "ts = []"
    using lease_next_none [OF assms(6) queue_inv_units(1) [OF queue_reach_inv [OF assms(1,2)]]] by simp_all
  then have b: "try_backup_lease c pl aid models (pl_to_lease pl s) = (Some lease, s')" using assms(7) by simp
  have "queue_inv (cfg_queue c) (app_queue (pl_to_candidates pl (pl_to_lease pl s)))"
    using queue_reach_inv [OF assms(1) queue_reach_steps [OF _ assms(2)]] assms(3) by (simp add: others_run_def)
  from backup_lease_facts [OF assms(1) this assms(4,5) b] show ?thesis using assms(8) by (auto simp: leased_now_def)
qed

text \<open>C12: A poll leases soundly and completely, whatever other tasks do at its awaits. A lease goes only to
  an agent with a live, unrevoked, unsuspected and unpaused row that its last presence event, or without
  one its last heartbeat, calls idle when the poll takes its snapshot, and for a model a replica on that
  row is ready to serve. When it is granted, the unit was pending and is leased to the agent now, or,
  with backups enabled, is another agent's and keeps its lease. And a fit agent is turned away only when
  no pending unit is of a model it has ready. The one thing other tasks are not to do is submit a job
  between the choice of a backup candidate and its lease.\<close>

theorem poll_leases_soundly:
  assumes "queue_cfg_ok (cfg_queue c)" and "queue_reach (cfg_queue c) (app_queue s)" and "registry_inv (app_registry s)"
    and "others_run (queue_step (cfg_queue c)) (pl_to_lease pl)" and "others_run (queue_step (cfg_queue c)) (pl_to_candidates pl)"
    and "others_run (work_step (cfg_queue c)) (pl_to_holders pl)" and "others_run (work_step (cfg_queue c)) (pl_to_backup pl)"
    and "try_lease c pl aid s = (out, s')"
  shows "(\<forall>lease. out = Some lease \<longrightarrow> (\<exists>r. agent_of (app_registry s) aid = Some r \<and> a_revoked_at r = None \<and>
      \<not> rc_suspect_after_s (cfg_registry c) < age_s (pl_snapshot_at pl) (a_last_seen r) \<and> \<not> a_serving_paused r \<and>
      (case state_for (app_overrides s) aid of None \<Rightarrow> a_state r | Some st \<Rightarrow> st) = IDLE \<and>
      (\<exists>p \<in> set (a_replicas r). rs_model_id p = wl_model_id lease \<and> rs_state p = READY)) \<and>
      leased_now c pl aid s lease (app_queue s')) \<and>
    (\<forall>snap. out = None \<and> agent_snapshot_for c (pl_snapshot_at pl) s aid = Some snap \<and> agent_is_fit snap \<longrightarrow>
      (\<forall>(w, j) \<in> set (units_join_jobs (app_queue (pl_to_lease pl s))).
         w_state w = PENDING \<longrightarrow> j_model_id j \<notin> set (ready_models snap)))"
proof -
  have r: "queue_reach (cfg_queue c) (app_queue (pl_to_lease pl s))"
    using queue_reach_steps [OF _ assms(2)] assms(4) by (simp add: others_run_def)
  show ?thesis
  proof (cases out)
    case None
    then show ?thesis using no_lease_no_work [OF queue_reach_inv [OF assms(1) r]] assms(8) by blast
  next
    case (Some lease)
    obtain snap where sn: "agent_snapshot_for c (pl_snapshot_at pl) s aid = Some snap" "agent_is_fit snap"
      and "wl_model_id lease \<in> set (ready_models snap) \<and> leased_now c pl aid s lease (app_queue s')"
      using try_lease_cases [of c pl aid s lease s'] assms(8) Some lease_next_now [OF assms(1) r]
        backup_now [OF assms(1) r assms(5-7)] by metis
    then show ?thesis using lease_agent [OF assms(3) sn] Some by simp
  qed
qed

definition demo_round :: poll_round where
  "demo_round = \<lparr>pl_snapshot_at = 7, pl_lease_at = 7, pl_holders_at = 7, pl_hour = 0, pl_backup_at = 7, pl_check_at = 7,
     pl_to_lease = (\<lambda>s. s\<lparr>app_queue := fst (requeue_expired cfg0 7 (app_queue s))\<rparr>), pl_to_candidates = id, pl_to_holders = id,
     pl_to_backup = id, pl_meanwhile = id\<rparr>"

definition demo_ready :: registry_db where
  "demo_ready = fst (record_heartbeat 6 ''A'' hb0 rdb1)"

lemma demo_ready_inv: "registry_inv demo_ready"
  unfolding demo_ready_def by (rule record_heartbeat_inv) (rule registry_sys.reach_inv [OF rdb1_reach])

theorem poll_leases_soundly_witness:
  "\<exists>lease s'. try_lease demo_cfg demo_round ''A'' (demo_app demo_ready db0) = (Some lease, s') \<and>
     wl_work_unit_id lease = ''a'' \<and>
     (\<exists>r. agent_of demo_ready ''A'' = Some r \<and> (\<exists>p \<in> set (a_replicas r). rs_model_id p = wl_model_id lease \<and> rs_state p = READY))"
proof -
  have "map_option wl_work_unit_id (fst (try_lease demo_cfg demo_round ''A'' (demo_app demo_ready db0))) = Some ''a''"
    by code_simp
  then obtain lease s' where l: "try_lease demo_cfg demo_round ''A'' (demo_app demo_ready db0) = (Some lease, s')"
      "wl_work_unit_id lease = ''a''"
    by (cases "try_lease demo_cfg demo_round ''A'' (demo_app demo_ready db0)") auto
  have "queue_cfg_ok (cfg_queue demo_cfg)" "queue_reach (cfg_queue demo_cfg) (app_queue (demo_app demo_ready db0))"
    "registry_inv (app_registry (demo_app demo_ready db0))" "app_registry (demo_app demo_ready db0) = demo_ready"
    using db0_reach demo_ready_inv by (simp_all add: demo_cfg_def demo_app_def)
  moreover have "others_run (queue_step (cfg_queue demo_cfg)) (pl_to_lease demo_round)"
    by (simp add: others_run_def demo_round_def demo_cfg_def r_into_rtranclp qs_work ws_expired)
  moreover have "others_run (queue_step (cfg_queue demo_cfg)) (pl_to_candidates demo_round)"
      "others_run (work_step (cfg_queue demo_cfg)) (pl_to_holders demo_round)"
      "others_run (work_step (cfg_queue demo_cfg)) (pl_to_backup demo_round)"
    by (simp_all add: others_run_def demo_round_def)
  ultimately show ?thesis using poll_leases_soundly [OF _ _ _ _ _ _ _ l(1)] l by auto
qed

section \<open>Payload uploads, interleaved\<close>

text \<open>An upload that has stored its payload and not yet bound it: agent, unit, attempt and digest.\<close>

record batch_sys =
  bt_state :: coordinator
  bt_uploads :: "(ident \<times> ident \<times> int \<times> string) list"

definition TMP_PREFIX :: string where
  "TMP_PREFIX = ''.result-''"

text \<open>
  Between the two segments of an upload any queue operation may run; those other than the binding of a
  payload add no binding (\<open>queue_ops_bindings\<close>), and bindings are written only by \<open>bt_bind\<close>. The
  temporary file has a name \<open>mkstemp\<close> finds unused.
\<close>

inductive batch_step :: "(string \<Rightarrow> string) \<Rightarrow> app_config \<Rightarrow> batch_sys \<Rightarrow> batch_sys \<Rightarrow> bool"
  for sha :: "string \<Rightarrow> string" and c :: app_config where
  bt_queue: "queue_step (cfg_queue c) (app_queue (bt_state y)) q \<Longrightarrow>
    set (result_payload_bindings q) \<subseteq> set (result_payload_bindings (app_queue (bt_state y))) \<Longrightarrow>
    batch_step sha c y (y\<lparr>bt_state := (bt_state y)\<lparr>app_queue := q\<rparr>\<rparr>)"
| bt_put: "put_blob sha (cfg_max_result_payload_bytes c) (TMP_PREFIX @ x) incoming (app_results (bt_state y)) = (Some digest, dir) \<Longrightarrow>
    map_of (app_results (bt_state y)) (TMP_PREFIX @ x) = None \<Longrightarrow>
    batch_step sha c y (y\<lparr>bt_state := (bt_state y)\<lparr>app_results := dir\<rparr>,
      bt_uploads := (aid, uid, attempt, digest) # bt_uploads y\<rparr>)"
| bt_too_large: "put_blob sha (cfg_max_result_payload_bytes c) (TMP_PREFIX @ x) incoming (app_results (bt_state y)) = (None, dir) \<Longrightarrow>
    map_of (app_results (bt_state y)) (TMP_PREFIX @ x) = None \<Longrightarrow>
    batch_step sha c y (y\<lparr>bt_state := (bt_state y)\<lparr>app_results := dir\<rparr>\<rparr>)"
| bt_bind: "(aid, uid, attempt, digest) \<in> set (bt_uploads y) \<Longrightarrow>
    batch_step sha c y (y\<lparr>bt_state := (bt_state y)\<lparr>app_queue :=
        fst (bind_result_payload now (app_queue (bt_state y)) aid uid attempt digest digest)\<rparr>,
      bt_uploads := remove1 (aid, uid, attempt, digest) (bt_uploads y)\<rparr>)"
| bt_other: "app_queue s = app_queue (bt_state y) \<Longrightarrow> app_results s = app_results (bt_state y) \<Longrightarrow>
    batch_step sha c y (y\<lparr>bt_state := s\<rparr>)"
| bt_restart: "batch_step sha c y (y\<lparr>bt_uploads := []\<rparr>)"

definition batch_init :: "batch_sys \<Rightarrow> bool" where
  "batch_init y \<longleftrightarrow> app_queue (bt_state y) = empty_db \<and> app_results (bt_state y) = [] \<and> bt_uploads y = []"

definition stored :: "(string \<Rightarrow> string) \<Rightarrow> int \<Rightarrow> directory \<Rightarrow> string \<Rightarrow> bool" where
  "stored sha limit dir ref \<longleftrightarrow> (\<exists>v. map_of dir ref = Some v \<and> sha v = ref \<and> int (length v) \<le> limit)"

definition batch_inv :: "(string \<Rightarrow> string) \<Rightarrow> app_config \<Rightarrow> batch_sys \<Rightarrow> bool" where
  "batch_inv sha c y \<longleftrightarrow>
     (\<forall>k v. map_of (app_results (bt_state y)) k = Some v \<longrightarrow> stored sha (cfg_max_result_payload_bytes c) (app_results (bt_state y)) k) \<and>
     (\<forall>u \<in> set (bt_uploads y). map_of (app_results (bt_state y)) (snd (snd (snd u))) \<noteq> None) \<and>
     (\<forall>b \<in> set (result_payload_bindings (app_queue (bt_state y))). map_of (app_results (bt_state y)) (b_result_ref b) \<noteq> None)"

lemma bind_bindings:
  "set (result_payload_bindings (fst (bind_result_payload now db aid uid attempt digest ref))) \<subseteq>
     insert \<lparr>b_work_unit_id = uid, b_agent_id = aid, b_attempt = attempt, b_digest = digest, b_result_ref = ref,
             b_accepted_at = now\<rparr> (set (result_payload_bindings db))"
  by (auto simp: bind_result_payload_def Let_def BIND_RESULT_PAYLOAD_def BIND_RESULT_PAYLOAD_BACKUP_def insert_binding_def
      split: if_splits)

text \<open>The queue's other operations bind nothing.\<close>

lemma mark_terminal_bindings [simp]:
  "result_payload_bindings (MARK_JOB_UNIT_TERMINAL jid uid st rs ref db) = result_payload_bindings db"
  by (simp add: MARK_JOB_UNIT_TERMINAL_def)

lemma fold_mark_terminal_bindings [simp]:
  "result_payload_bindings (fold (\<lambda>t. MARK_JOB_UNIT_TERMINAL (ut_job_id t) (ut_work_unit_id t) DEAD None None) ts db) =
     result_payload_bindings db"
  by (induction ts arbitrary: db) simp_all

lemma requeue_bindings [simp]: "result_payload_bindings (fst (requeue cfg sel now db)) = result_payload_bindings db"
  by (simp add: requeue_def run_requeue_branch_def Let_def)

lemma submit_unit_bindings:
  "set (result_payload_bindings (submit_unit now jid deduped u db)) \<subseteq> set (result_payload_bindings db)"
  by (auto simp: submit_unit_def Let_def INSERT_JOB_UNIT_MEMBERSHIP_def UPSERT_WORK_UNIT_def DELETE_BACKUP_LEASE_def
      DELETE_STALE_RESULT_def DELETE_INCOMPLETE_RESULT_BINDINGS_def SNAPSHOT_TERMINAL_OWNER_def
      split: if_splits option.splits)

lemma submit_units_bindings:
  "set (result_payload_bindings (fold (submit_unit now jid deduped) us db)) \<subseteq> set (result_payload_bindings db)"
proof (induction us arbitrary: db)
  case (Cons u us)
  from order_trans [OF Cons submit_unit_bindings] show ?case by simp
qed simp

lemma submit_job_bindings:
  "set (result_payload_bindings (fst (submit_job now jid db job us reuse))) \<subseteq> set (result_payload_bindings db)"
proof -
  have "set (result_payload_bindings (fst (submit_new_job now jid db job us'))) \<subseteq> set (result_payload_bindings db)" for us'
  proof (cases "has_key j_job_id jid (jobs db)")
    case False
    let ?db = "db\<lparr>jobs := jobs db @ [\<lparr>j_job_id = jid, j_kind = js_kind job, j_model_id = js_model_id job,
      j_payload_ref = js_payload_ref job, j_params_json = dump_params (js_params job),
      j_priority = js_priority job, j_state = JOB_PENDING, j_created_at = now\<rparr>]\<rparr>"
    show ?thesis
      using False submit_units_bindings [of now jid _ us' ?db]
      by (simp add: submit_new_job_def INSERT_JOB_def Let_def)
  qed (simp add: submit_new_job_def INSERT_JOB_def)
  then show ?thesis by (simp add: submit_job_def Let_def split: sum.split option.split)
qed

lemma queue_ops_bindings:
  "set (result_payload_bindings (fst (lease_next cfg now db agent models))) \<subseteq> set (result_payload_bindings db)"
  "set (result_payload_bindings (extend_leases cfg now db agent uids)) \<subseteq> set (result_payload_bindings db)"
  "set (result_payload_bindings (fst (lease_backup cfg now db agent uid))) \<subseteq> set (result_payload_bindings db)"
  "set (result_payload_bindings (fst (complete_unit now db agent attempt res))) \<subseteq> set (result_payload_bindings db)"
  "set (result_payload_bindings (fst (requeue_expired cfg now db))) \<subseteq> set (result_payload_bindings db)"
  "set (result_payload_bindings (fst (requeue_agent cfg now db agent))) \<subseteq> set (result_payload_bindings db)"
  "set (result_payload_bindings (fst (mark_job_finalized db jid n))) \<subseteq> set (result_payload_bindings db)"
  subgoal by (auto simp: lease_next_def Let_def CLAIM_UNIT_def split: option.splits if_splits)
  subgoal by (simp add: extend_leases_def EXTEND_LEASES_def)
  subgoal by (auto simp: lease_backup_def Let_def INSERT_BACKUP_LEASE_def split: option.splits if_splits)
  subgoal by (auto simp: complete_unit_def Let_def finalize_unit_def INSERT_RESULT_def MARK_UNIT_DONE_def
      split: option.splits if_splits)
  subgoal using requeue_bindings [of cfg "SELECTOR_EXPIRED now" now db] by (simp add: requeue_expired_def prod.case_eq_if)
  subgoal using requeue_bindings [of cfg "SELECTOR_BY_AGENT agent" now db] by (simp add: requeue_agent_def prod.case_eq_if)
  subgoal by (auto simp: mark_job_finalized_def split: option.splits if_splits)
  done

lemma put_blob_stored:
  assumes "put_blob sha limit (TMP_PREFIX @ x) incoming dir = (r, dir')" "map_of dir (TMP_PREFIX @ x) = None" "0 \<le> limit"
    "\<And>v. is_sha256 (sha v)"
    "\<forall>k v. map_of dir k = Some v \<longrightarrow> stored sha limit dir k"
  shows "map_of dir' k = Some v \<Longrightarrow> stored sha limit dir' k"
    and "map_of dir k \<noteq> None \<Longrightarrow> map_of dir' k \<noteq> None"
    and "r = Some digest \<Longrightarrow> map_of dir' digest \<noteq> None"
proof -
  have "sha (concat incoming) \<noteq> TMP_PREFIX @ x"
  proof
    assume a: "sha (concat incoming) = TMP_PREFIX @ x"
    have "list_all is_hex_digit (TMP_PREFIX @ x)" using assms(4) [of "concat incoming"] by (simp add: is_sha256_def a)
    then show False by (simp add: TMP_PREFIX_def is_hex_digit_def)
  qed
  note p = put_blob_spec [OF assms(1,2,3) this]
  show "stored sha limit dir' k" if "map_of dir' k = Some v"
    using that assms(5) p by (auto simp: stored_def fun_upd_apply split: if_splits)
  show "map_of dir' k \<noteq> None" if "map_of dir k \<noteq> None" using that p(2) by (auto split: if_splits)
  show "map_of dir' digest \<noteq> None" if "r = Some digest" using that p by (auto split: if_splits)
qed

lemma batch_invD:
  assumes "batch_inv sha c y"
  shows "map_of (app_results (bt_state y)) k = Some v \<Longrightarrow> stored sha (cfg_max_result_payload_bytes c) (app_results (bt_state y)) k"
    and "(aid, uid, attempt, digest) \<in> set (bt_uploads y) \<Longrightarrow> map_of (app_results (bt_state y)) digest \<noteq> None"
    and "b \<in> set (result_payload_bindings (app_queue (bt_state y))) \<Longrightarrow> map_of (app_results (bt_state y)) (b_result_ref b) \<noteq> None"
  using assms unfolding batch_inv_def by (blast, force, blast)

lemma batch_invI:
  assumes "\<And>k v. map_of (app_results (bt_state y)) k = Some v \<Longrightarrow>
      stored sha (cfg_max_result_payload_bytes c) (app_results (bt_state y)) k"
    and "\<And>aid uid attempt digest. (aid, uid, attempt, digest) \<in> set (bt_uploads y) \<Longrightarrow>
      map_of (app_results (bt_state y)) digest \<noteq> None"
    and "\<And>b. b \<in> set (result_payload_bindings (app_queue (bt_state y))) \<Longrightarrow>
      map_of (app_results (bt_state y)) (b_result_ref b) \<noteq> None"
  shows "batch_inv sha c y"
  unfolding batch_inv_def using assms by (metis prod.collapse)

lemma batch_step_inv:
  assumes "0 \<le> cfg_max_result_payload_bytes c" "\<And>v. is_sha256 (sha v)" "batch_inv sha c y" "batch_step sha c y z"
  shows "batch_inv sha c z"
  using assms(4)
proof cases
  case (bt_put x incoming digest dir aid uid attempt)
  have "\<forall>k v. map_of (app_results (bt_state y)) k = Some v \<longrightarrow>
      stored sha (cfg_max_result_payload_bytes c) (app_results (bt_state y)) k" using batch_invD(1) [OF assms(3)] by blast
  note p = put_blob_stored [OF bt_put(2,3) assms(1,2) this]
  show ?thesis unfolding bt_put by (rule batch_invI) (use p batch_invD(2,3) [OF assms(3)] in auto)
next
  case (bt_too_large x incoming dir)
  have "\<forall>k v. map_of (app_results (bt_state y)) k = Some v \<longrightarrow>
      stored sha (cfg_max_result_payload_bytes c) (app_results (bt_state y)) k" using batch_invD(1) [OF assms(3)] by blast
  note p = put_blob_stored [OF bt_too_large(2,3) assms(1,2) this]
  show ?thesis unfolding bt_too_large by (rule batch_invI) (use p batch_invD(2,3) [OF assms(3)] in auto)
next
  case (bt_bind aid uid attempt digest now)
  have d: "map_of (app_results (bt_state y)) digest \<noteq> None" by (rule batch_invD(2) [OF assms(3) bt_bind(2)])
  show ?thesis
    unfolding bt_bind
  proof (rule batch_invI)
    fix b
    let ?z = "y\<lparr>bt_state := (bt_state y)\<lparr>app_queue := fst (bind_result_payload now (app_queue (bt_state y)) aid uid attempt digest digest)\<rparr>,
        bt_uploads := remove1 (aid, uid, attempt, digest) (bt_uploads y)\<rparr>"
    assume "b \<in> set (result_payload_bindings (app_queue (bt_state ?z)))"
    then have "b_result_ref b = digest \<or> b \<in> set (result_payload_bindings (app_queue (bt_state y)))"
      using bind_bindings [of now "app_queue (bt_state y)" aid uid attempt digest digest] by auto
    then show "map_of (app_results (bt_state ?z)) (b_result_ref b) \<noteq> None" using d batch_invD(3) [OF assms(3)] by auto
  qed (use batch_invD(1,2) [OF assms(3)] in \<open>auto dest: subsetD [OF set_remove1_subset]\<close>)
qed (use assms(3) in \<open>auto simp: batch_inv_def\<close>)

interpretation batch: inv_system batch_init "batch_step sha c"
    "\<lambda>y. 0 \<le> cfg_max_result_payload_bytes c \<and> (\<forall>v. is_sha256 (sha v)) \<longrightarrow> batch_inv sha c y" for sha c
  by unfold_locales (simp add: batch_init_def batch_inv_def empty_db_def, blast intro: batch_step_inv)

text \<open>C11: What the queue reports as a completed unit's result is on disk. However uploads, completions,
  requeues and resubmissions interleave, the reference of a completed unit names a stored payload within
  the size limit whose digest is that reference, and the operator's download of the unit returns it.\<close>

theorem completed_payload_on_disk:
  assumes "reach batch_init (batch_step sha c) y" and "0 \<le> cfg_max_result_payload_bytes c" and "\<And>v. is_sha256 (sha v)"
    and "completed_result_ref (app_queue (bt_state y)) uid = Some ref"
  shows "\<exists>content. map_of (app_results (bt_state y)) ref = Some content \<and> sha content = ref \<and>
    int (length content) \<le> cfg_max_result_payload_bytes c \<and>
    (\<forall>hdr info. authenticate_admin sha (cfg_registry c) (app_registry (bt_state y)) hdr = Inr info \<longrightarrow>
       work_unit_payload_handler sha c uid hdr (bt_state y) = (Inr content, bt_state y))"
proof -
  have inv: "batch_inv sha c y" using batch.reach_inv [OF assms(1)] assms(2,3) by blast
  obtain b where "b \<in> set (result_payload_bindings (app_queue (bt_state y)))" "b_result_ref b = ref"
    using assms(4)
    by (auto simp: completed_result_ref_def SELECT_COMPLETED_RESULT_REF_def result_bound_def list_ex_iff
        split: option.splits if_splits)
  then obtain v where v: "map_of (app_results (bt_state y)) ref = Some v" using batch_invD(3) [OF inv] by blast
  then have "stored sha (cfg_max_result_payload_bytes c) (app_results (bt_state y)) ref" by (rule batch_invD(1) [OF inv])
  then have "sha v = ref" "int (length v) \<le> cfg_max_result_payload_bytes c" using v by (auto simp: stored_def)
  moreover have "is_sha256 ref" using assms(3) \<open>sha v = ref\<close> by metis
  ultimately show ?thesis
    using v assms(4) by (intro exI [of _ v]) (simp add: work_unit_payload_handler_def with_admin_def)
qed

definition demo_hex :: "string \<Rightarrow> string" where
  "demo_hex v = take 64 (filter is_hex_digit v @ replicate 64 CHR ''0'')"

lemma demo_hex_sha256: "is_sha256 (demo_hex v)"
  by (auto simp: is_sha256_def demo_hex_def list_all_iff is_hex_digit_def dest: in_set_takeD)

definition demo_batch :: "queue_db \<Rightarrow> directory \<Rightarrow> (ident \<times> ident \<times> int \<times> string) list \<Rightarrow> batch_sys" where
  "demo_batch q dir ups = \<lparr>bt_state = (demo_app rdb1 q)\<lparr>app_results := dir\<rparr>, bt_uploads = ups\<rparr>"

definition demo_result :: work_result where
  "demo_result = \<lparr>wr_work_unit_id = ''a'', wr_status = SUCCEEDED, wr_result_ref = Some (demo_hex ''cafe''), wr_error = None,
     wr_metrics = None\<rparr>"

definition demo_bound :: queue_db where
  "demo_bound = fst (bind_result_payload 20 db1 ''A'' ''a'' 1 (demo_hex ''cafe'') (demo_hex ''cafe''))"

definition demo_completed :: queue_db where
  "demo_completed = fst (complete_unit 21 demo_bound ''A'' 1 demo_result)"

lemma demo_queue_step:
  assumes "reach batch_init (batch_step demo_hex demo_cfg) (demo_batch q d us)" and "queue_step cfg0 q q'"
    and "set (result_payload_bindings q') \<subseteq> set (result_payload_bindings q)"
  shows "reach batch_init (batch_step demo_hex demo_cfg) (demo_batch q' d us)"
  using reach_step [OF assms(1) bt_queue [of demo_cfg "demo_batch q d us" q' demo_hex]] assms(2,3)
  by (simp add: demo_batch_def demo_app_def demo_cfg_def)

lemma demo_put: "put_blob demo_hex 100 (TMP_PREFIX @ ''1'') [''cafe''] [] = (Some (demo_hex ''cafe''), [(demo_hex ''cafe'', ''cafe'')])"
proof -
  have "slices CHUNK_SIZE ''cafe'' = [''cafe'']" by (simp add: slices.simps CHUNK_SIZE_def)
  moreover have "demo_hex ''cafe'' \<noteq> TMP_PREFIX @ ''1''" by code_simp
  ultimately show ?thesis by (simp add: put_blob_def Let_def)
qed

lemma demo_batch_reach:
  "reach batch_init (batch_step demo_hex demo_cfg) (demo_batch demo_completed [(demo_hex ''cafe'', ''cafe'')] [])"
proof -
  let ?dir = "[(demo_hex ''cafe'', ''cafe'')]"
  let ?u = "(''A'', ''a'', 1 :: int, demo_hex ''cafe'')"
  let ?R = "reach batch_init (batch_step demo_hex demo_cfg)"
  have "?R (demo_batch empty_db [] [])" by (intro reach_init) (simp add: batch_init_def demo_batch_def demo_app_def)
  then have "?R (demo_batch db0 [] [])"
    unfolding db0_def by (rule demo_queue_step [OF _ qs_submit submit_job_bindings])
  then have 1: "?R (demo_batch db1 [] [])"
    unfolding db1_def by (rule demo_queue_step [OF _ qs_work [OF ws_lease] queue_ops_bindings(1)])
  have "batch_step demo_hex demo_cfg (demo_batch db1 [] []) (demo_batch db1 ?dir [?u])"
    using bt_put [of demo_hex demo_cfg "''1''" "[''cafe'']" "demo_batch db1 [] []" "demo_hex ''cafe''" ?dir "''A''" "''a''" 1] demo_put
    by (simp add: demo_batch_def demo_app_def demo_cfg_def)
  then have 2: "?R (demo_batch db1 ?dir [?u])" by (rule reach_step [OF 1])
  have "batch_step demo_hex demo_cfg (demo_batch db1 ?dir [?u]) (demo_batch demo_bound ?dir [])"
    using bt_bind [of "''A''" "''a''" 1 "demo_hex ''cafe''" "demo_batch db1 ?dir [?u]" demo_hex demo_cfg 20]
    by (simp add: demo_batch_def demo_app_def demo_bound_def)
  then have "?R (demo_batch demo_bound ?dir [])" by (rule reach_step [OF 2])
  then show ?thesis
    unfolding demo_completed_def by (rule demo_queue_step [OF _ qs_work [OF ws_complete] queue_ops_bindings(4)])
qed

theorem completed_payload_on_disk_witness:
  "completed_result_ref demo_completed ''a'' = Some (demo_hex ''cafe'') \<and>
   (\<exists>content. map_of [(demo_hex ''cafe'', ''cafe'')] (demo_hex ''cafe'') = Some content \<and> demo_hex content = demo_hex ''cafe'')"
proof -
  have r: "completed_result_ref demo_completed ''a'' = Some (demo_hex ''cafe'')" by code_simp
  then show ?thesis
    using completed_payload_on_disk [OF demo_batch_reach _ demo_hex_sha256, of "''a''" "demo_hex ''cafe''"]
    by (simp add: demo_batch_def demo_app_def demo_cfg_def)
qed

end
