(* ===== verification/Mesh_Manifest.thy ===== *)
theory Mesh_Manifest
  imports Py_Text
begin

text \<open>
  The root of trust of model distribution (\<open>fallow_modelmesh\<close>: \<open>chunk.py\<close>, \<open>merkle.py\<close>,
  \<open>manifest.py\<close>, \<open>signing.py\<close>): a file split into chunks named by their digests, the Merkle root over
  the chunk list, the canonical text of a manifest and its HMAC. Bytes are 8-bit characters. The digest
  function (raw bytes to raw bytes) is a parameter; HMAC is built from it.
\<close>

unbundle bit_operations_syntax

section \<open>Hexadecimal\<close>

definition hexstr :: "string \<Rightarrow> string" where
  "hexstr bs = concat (map (\<lambda>b. [hex_digit (of_char b div 16), hex_digit (of_char b)]) bs)"

definition hex_value :: "char \<Rightarrow> nat option" where
  "hex_value c =
     (let n = of_char c
      in if n \<in> {48..57} then Some (n - 48)
         else if n \<in> {97..102} then Some (n - 87)
         else if n \<in> {65..70} then Some (n - 55)
         else None)"

definition is_ascii_space :: "char \<Rightarrow> bool" where
  "is_ascii_space c \<longleftrightarrow> of_char c \<in> {9..13 :: nat} \<or> c = CHR '' ''"

text \<open>\<open>bytes.fromhex\<close>: pairs of digits with white space allowed between them; \<open>None\<close> is \<open>ValueError\<close>.\<close>

fun fromhex :: "string \<Rightarrow> string option" where
  "fromhex [] = Some []"
| "fromhex [c] = (if is_ascii_space c then Some [] else None)"
| "fromhex (c # d # cs) =
     (if is_ascii_space c then fromhex (d # cs)
      else case (hex_value c, hex_value d) of
             (Some a, Some b) \<Rightarrow> map_option ((#) (char_of (16 * a + b))) (fromhex cs)
           | _ \<Rightarrow> None)"

section \<open>Chunks\<close>

definition DEFAULT_CHUNK_SIZE :: int where
  "DEFAULT_CHUNK_SIZE = 4 * 1024 * 1024"

definition chunk_hash :: "(string \<Rightarrow> string) \<Rightarrow> string \<Rightarrow> string" where
  "chunk_hash sha data = hexstr (sha data)"

text \<open>The chunks of a file; \<open>None\<close> is the \<open>ValueError\<close> of a size that is not positive.\<close>

definition iter_file_chunks :: "int \<Rightarrow> string \<Rightarrow> string list option" where
  "iter_file_chunks n content = (if n \<le> 0 then None else Some (slices (nat n) content))"

section \<open>Merkle root\<close>

definition merkle_leaf :: "(string \<Rightarrow> string) \<Rightarrow> string \<Rightarrow> string option" where
  "merkle_leaf sha hex_hash = map_option (\<lambda>b. sha (CHR 0x00 # b)) (fromhex hex_hash)"

definition merkle_node :: "(string \<Rightarrow> string) \<Rightarrow> string \<Rightarrow> string \<Rightarrow> string" where
  "merkle_node sha left right = sha (CHR 0x01 # left @ right)"

text \<open>One level to the next: neighbours are combined, an odd last element is promoted unchanged.\<close>

fun pair_up :: "('a \<Rightarrow> 'a \<Rightarrow> 'a) \<Rightarrow> 'a list \<Rightarrow> 'a list" where
  "pair_up f (x # y # zs) = f x y # pair_up f zs"
| "pair_up f xs = xs"

lemma length_pair_up: "length (pair_up f xs) = (length xs + 1) div 2"
  by (induction f xs rule: pair_up.induct) auto

function collapse :: "('a \<Rightarrow> 'a \<Rightarrow> 'a) \<Rightarrow> 'a list \<Rightarrow> 'a" where
  "collapse f xs = (if length xs \<le> 1 then hd xs else collapse f (pair_up f xs))"
  by pat_completeness auto
termination by (relation "measure (\<lambda>(f, xs). length xs)") (auto simp: length_pair_up)

declare collapse.simps [simp del]

definition merkle_root :: "(string \<Rightarrow> string) \<Rightarrow> string list \<Rightarrow> string option" where
  "merkle_root sha chunk_hashes =
     (if chunk_hashes = [] then Some (hexstr (sha [CHR 0x00]))
      else map_option (\<lambda>level. hexstr (collapse (merkle_node sha) level)) (those (map (merkle_leaf sha) chunk_hashes)))"

section \<open>Manifests\<close>

record manifest =
  mf_model_id :: string
  mf_total_size :: int
  mf_chunk_size :: int
  mf_whole_file_sha256 :: string
  mf_chunks :: "string list"
  mf_merkle_root :: string

text \<open>Compact JSON with sorted keys.\<close>

definition dumps_member :: "string \<Rightarrow> string \<Rightarrow> string" where
  "dumps_member k v = dumps_string k @ '':'' @ v"

definition canonical_bytes :: "manifest \<Rightarrow> string" where
  "canonical_bytes m =
     ''{'' @ dumps_member ''chunk_size'' (str_of_int (mf_chunk_size m))
     @ '','' @ dumps_member ''chunks'' (''['' @ dumps_items '','' (mf_chunks m))
     @ '','' @ dumps_member ''merkle_root'' (dumps_string (mf_merkle_root m))
     @ '','' @ dumps_member ''model_id'' (dumps_string (mf_model_id m))
     @ '','' @ dumps_member ''total_size'' (str_of_int (mf_total_size m))
     @ '','' @ dumps_member ''whole_file_sha256'' (dumps_string (mf_whole_file_sha256 m)) @ ''}''"

definition build_manifest :: "(string \<Rightarrow> string) \<Rightarrow> string \<Rightarrow> string \<Rightarrow> int \<Rightarrow> manifest option" where
  "build_manifest sha content model_id chunk_size =
     (case iter_file_chunks chunk_size content of
        None \<Rightarrow> None
      | Some chunks \<Rightarrow>
          let ordered = map (chunk_hash sha) chunks
          in map_option
               (\<lambda>root. \<lparr>mf_model_id = model_id, mf_total_size = sum_list (map (int \<circ> length) chunks),
                  mf_chunk_size = chunk_size, mf_whole_file_sha256 = hexstr (sha (concat chunks)),
                  mf_chunks = ordered, mf_merkle_root = root\<rparr>)
               (merkle_root sha ordered))"

section \<open>Signatures\<close>

text \<open>HMAC over a digest with 64-byte blocks.\<close>

definition xor_byte :: "nat \<Rightarrow> char \<Rightarrow> char" where
  "xor_byte pad c = char_of (pad XOR of_char c)"

definition hmac :: "(string \<Rightarrow> string) \<Rightarrow> string \<Rightarrow> string \<Rightarrow> string" where
  "hmac sha key msg =
     (let k = (if 64 < length key then sha key else key);
          block = k @ replicate (64 - length k) (CHR 0x00)
      in sha (map (xor_byte 0x5C) block @ sha (map (xor_byte 0x36) block @ msg)))"

definition sign_manifest :: "(string \<Rightarrow> string) \<Rightarrow> manifest \<Rightarrow> string \<Rightarrow> string" where
  "sign_manifest sha m key = hexstr (hmac sha key (canonical_bytes m))"

text \<open>\<open>compare_digest\<close> raises \<open>TypeError\<close> (\<open>None\<close>) on a text that is not ASCII.\<close>

definition verify_manifest :: "(string \<Rightarrow> string) \<Rightarrow> manifest \<Rightarrow> string \<Rightarrow> string \<Rightarrow> bool option" where
  "verify_manifest sha m signature key =
     (if \<exists>c \<in> set signature. 128 \<le> (of_char c :: nat) then None
      else Some (sign_manifest sha m key = signature))"

section \<open>Hexadecimal text determines the bytes\<close>

lemma hexstr_simps [simp]:
  "hexstr [] = []" "hexstr (b # bs) = hex_digit (of_char b div 16) # hex_digit (of_char b) # hexstr bs"
  by (simp_all add: hexstr_def)

lemma hexstr_inj: "hexstr xs = hexstr ys \<Longrightarrow> xs = ys"
proof (induction xs arbitrary: ys)
  case Nil
  then show ?case by (cases ys) simp_all
next
  case (Cons x xs)
  then show ?case by (cases ys) (auto dest: hex_pair_inj)
qed

lemma inj_hexstr: "inj hexstr"
  by (rule injI) (rule hexstr_inj)

lemma of_char_less: "of_char c < (256 :: nat)"
  by (cases c) (simp add: of_char_def split: if_splits)

lemma hex_value_digit: "hex_value (hex_digit n) = Some (n mod 16) \<and> \<not> is_ascii_space (hex_digit n)"
proof -
  have "n mod 16 \<in> set [0..<16]" by simp
  moreover have "list_all (\<lambda>k. hex_value (''0123456789abcdef'' ! k) = Some k \<and>
      \<not> is_ascii_space (''0123456789abcdef'' ! k)) [0..<16]" by code_simp
  ultimately show ?thesis by (simp add: list_all_iff hex_digit_def)
qed

lemma fromhex_hexstr [simp]: "fromhex (hexstr bs) = Some bs"
proof (induction bs)
  case (Cons b bs)
  have "of_char b div 16 < (16 :: nat)" using of_char_less [of b] by (intro less_mult_imp_div_less) simp
  then have "16 * (of_char b div 16 mod 16) + of_char b mod 16 = (of_char b :: nat)" by simp
  then have "char_of (16 * (of_char b div 16 mod 16) + of_char b mod (16 :: nat)) = b"
    by (simp only:) simp
  then show ?case using Cons by (simp add: hex_value_digit del: mod_less)
qed simp

section \<open>The Merkle root commits to the chunk list\<close>

text \<open>The tree a list of leaves is folded into, its root digest, and the strings hashed on the way.\<close>

datatype merkle_tree = MLeaf string | MNode merkle_tree merkle_tree

fun tree_digest :: "(string \<Rightarrow> string) \<Rightarrow> merkle_tree \<Rightarrow> string" where
  "tree_digest sha (MLeaf b) = sha (CHR 0x00 # b)"
| "tree_digest sha (MNode l r) = merkle_node sha (tree_digest sha l) (tree_digest sha r)"

fun tree_inputs :: "(string \<Rightarrow> string) \<Rightarrow> merkle_tree \<Rightarrow> string set" where
  "tree_inputs sha (MLeaf b) = {CHR 0x00 # b}"
| "tree_inputs sha (MNode l r) =
     insert (CHR 0x01 # tree_digest sha l @ tree_digest sha r) (tree_inputs sha l \<union> tree_inputs sha r)"

fun tree_leaves :: "merkle_tree \<Rightarrow> string list" where
  "tree_leaves (MLeaf b) = [b]"
| "tree_leaves (MNode l r) = tree_leaves l @ tree_leaves r"

lemma map_pair_up: "(\<And>x y. h (f x y) = g (h x) (h y)) \<Longrightarrow> map h (pair_up f xs) = pair_up g (map h xs)"
  by (induction f xs rule: pair_up.induct) auto

lemma collapse_map:
  assumes "\<And>x y. h (f x y) = g (h x) (h y)"
  shows "xs \<noteq> [] \<Longrightarrow> h (collapse f xs) = collapse g (map h xs)"
proof (induction xs rule: measure_induct_rule [of length])
  case (less xs)
  show ?case
  proof (cases "length xs \<le> 1")
    case True
    then show ?thesis using less(2) by (cases xs) (simp_all add: collapse.simps [of f] collapse.simps [of g])
  next
    case False
    then have "pair_up f xs \<noteq> []" "length (pair_up f xs) < length xs" using length_pair_up [of f xs] by auto
    from less(1) [OF this(2,1)] show ?thesis
      using False by (simp add: collapse.simps [of f xs] collapse.simps [of g "map h xs"] map_pair_up [of h f g, OF assms])
  qed
qed

lemma collapse_leaves: "ts \<noteq> [] \<Longrightarrow> tree_leaves (collapse MNode ts) = concat (map tree_leaves ts)"
proof -
  assume "ts \<noteq> []"
  then have "tree_leaves (collapse MNode ts) = collapse (@) (map tree_leaves ts)" by (intro collapse_map) simp_all
  moreover have "collapse (@) xss = concat xss" if "xss \<noteq> []" for xss :: "string list list"
    using that
  proof (induction xss rule: measure_induct_rule [of length])
    case (less xss)
    have c: "concat (pair_up (@) yss) = concat yss" for yss :: "string list list"
      by (induction "(@) :: string list \<Rightarrow> _" yss rule: pair_up.induct) auto
    show ?case
    proof (cases "length xss \<le> 1")
      case True
      then show ?thesis using less(2) by (cases xss) (simp_all add: collapse.simps)
    next
      case False
      then have "length (pair_up (@) xss) < length xss" "pair_up (@) xss \<noteq> []"
        using length_pair_up [of "(@)" xss] by auto
      from less(1) [OF this] show ?thesis using False by (simp add: collapse.simps [of _ xss] c)
    qed
  qed
  ultimately show ?thesis using \<open>ts \<noteq> []\<close> by simp
qed

fun root_input :: "(string \<Rightarrow> string) \<Rightarrow> merkle_tree \<Rightarrow> string" where
  "root_input sha (MLeaf b) = CHR 0x00 # b"
| "root_input sha (MNode l r) = CHR 0x01 # tree_digest sha l @ tree_digest sha r"

lemma tree_digest_input: "tree_digest sha t = sha (root_input sha t) \<and> root_input sha t \<in> tree_inputs sha t"
  by (cases t) (simp_all add: merkle_node_def)

lemma tree_digest_inj:
  assumes "\<And>x. length (sha x) = 32"
  shows "inj_on sha (tree_inputs sha t \<union> tree_inputs sha u) \<Longrightarrow> tree_digest sha t = tree_digest sha u \<Longrightarrow> t = u"
proof (induction t arbitrary: u)
  case (MLeaf b)
  have "root_input sha (MLeaf b) = root_input sha u"
    by (rule inj_onD [OF MLeaf(1)]) (use MLeaf(2) tree_digest_input in auto)
  then show ?case by (cases u) simp_all
next
  case (MNode l r)
  have e: "root_input sha (MNode l r) = root_input sha u"
    by (rule inj_onD [OF MNode.prems(1)]) (use MNode.prems(2) tree_digest_input in auto)
  then obtain l' r' where u: "u = MNode l' r'" by (cases u) simp_all
  have len: "length (tree_digest sha t) = 32" for t using tree_digest_input [of sha t] assms by simp
  have "tree_digest sha l = tree_digest sha l'" "tree_digest sha r = tree_digest sha r'"
    using e by (simp_all add: u len)
  moreover have "inj_on sha (tree_inputs sha l \<union> tree_inputs sha l')" "inj_on sha (tree_inputs sha r \<union> tree_inputs sha r')"
    by (rule inj_on_subset [OF MNode.prems(1)], auto simp: u)+
  ultimately show ?case using MNode.IH u by simp
qed

text \<open>The strings hashed for the root of a chunk list.\<close>

definition merkle_tree_of :: "string list \<Rightarrow> merkle_tree" where
  "merkle_tree_of chunk_hashes = collapse MNode (map (\<lambda>h. MLeaf (the (fromhex h))) chunk_hashes)"

definition merkle_inputs :: "(string \<Rightarrow> string) \<Rightarrow> string list \<Rightarrow> string set" where
  "merkle_inputs sha chunk_hashes =
     (if chunk_hashes = [] then {[CHR 0x00]} else tree_inputs sha (merkle_tree_of chunk_hashes))"

lemma those_leaves:
  "those (map (merkle_leaf sha) hs) =
     (if \<exists>h \<in> set hs. fromhex h = None then None else Some (map (\<lambda>h. sha (CHR 0x00 # the (fromhex h))) hs))"
  by (induction hs) (auto simp: merkle_leaf_def split: option.splits)

lemma merkle_root_tree:
  assumes "hs \<noteq> []" "merkle_root sha hs = Some r"
  shows "r = hexstr (tree_digest sha (merkle_tree_of hs))" "\<forall>h \<in> set hs. fromhex h \<noteq> None"
    "map fromhex hs = map Some (tree_leaves (merkle_tree_of hs))"
proof -
  show d: "\<forall>h \<in> set hs. fromhex h \<noteq> None" using assms by (auto simp: merkle_root_def those_leaves split: if_splits)
  have "tree_digest sha (merkle_tree_of hs) = collapse (merkle_node sha) (map (\<lambda>h. sha (CHR 0x00 # the (fromhex h))) hs)"
    unfolding merkle_tree_of_def using assms(1)
    by (subst collapse_map [where g = "merkle_node sha"]) (simp_all add: comp_def)
  then show "r = hexstr (tree_digest sha (merkle_tree_of hs))"
    using assms d by (simp add: merkle_root_def those_leaves)
  have "tree_leaves (merkle_tree_of hs) = concat (map tree_leaves (map (\<lambda>h. MLeaf (the (fromhex h))) hs))"
    unfolding merkle_tree_of_def using assms(1) by (intro collapse_leaves) simp
  also have "\<dots> = map (\<lambda>h. the (fromhex h)) hs" by (induction hs) simp_all
  finally show "map fromhex hs = map Some (tree_leaves (merkle_tree_of hs))" using d by (simp add: comp_def)
qed

lemma merkle_root_inj:
  assumes "\<And>x. length (sha x) = 32" and "merkle_root sha hs = Some r" and "merkle_root sha hs' = Some r"
    and "inj_on sha (merkle_inputs sha hs \<union> merkle_inputs sha hs')"
    and "\<forall>h \<in> set hs \<union> set hs'. fromhex h \<noteq> Some []"
  shows "map fromhex hs = map fromhex hs'"
proof -
  have empty: "ts = []" if "merkle_root sha [] = merkle_root sha ts"
    "inj_on sha (merkle_inputs sha [] \<union> merkle_inputs sha ts)" "\<forall>h \<in> set ts. fromhex h \<noteq> Some []" for ts
  proof (rule ccontr)
    assume n: "ts \<noteq> []"
    have "merkle_root sha ts = Some (hexstr (sha [CHR 0x00]))" using that(1) by (simp add: merkle_root_def [of sha "[]"])
    then obtain q where q: "merkle_root sha ts = Some q" "hexstr (sha [CHR 0x00]) = q" by simp
    note t = merkle_root_tree [OF n q(1)]
    have "sha [CHR 0x00] = sha (root_input sha (merkle_tree_of ts))"
      using q(2) t(1) tree_digest_input [of sha "merkle_tree_of ts"] hexstr_inj by metis
    then have e: "[CHR 0x00] = root_input sha (merkle_tree_of ts)"
      by (rule inj_onD [OF that(2)]) (use n tree_digest_input in \<open>auto simp: merkle_inputs_def\<close>)
    then have "merkle_tree_of ts = MLeaf []" by (cases "merkle_tree_of ts") simp_all
    then have "map fromhex ts = [Some []]" using t(3) by simp
    then show False using that(3) by auto
  qed
  show ?thesis
  proof (cases "hs = [] \<or> hs' = []")
    case True
    then show ?thesis using empty [of hs] empty [of hs'] assms(2-5) by (auto simp: Un_commute)
  next
    case False
    note t = merkle_root_tree [OF _ assms(2)] and t' = merkle_root_tree [OF _ assms(3)]
    have "tree_digest sha (merkle_tree_of hs) = tree_digest sha (merkle_tree_of hs')"
      using False t(1) t'(1) hexstr_inj by auto
    then have "merkle_tree_of hs = merkle_tree_of hs'"
      using assms(4) False by (intro tree_digest_inj [OF assms(1)]) (simp_all add: merkle_inputs_def)
    then show ?thesis using False t(3) t'(3) by simp
  qed
qed

section \<open>The signed text determines the manifest\<close>

lemma digits_value_snoc: "digits_value (ds @ [c]) = 10 * digits_value ds + (of_char c - 48)"
  by (simp add: digits_value_def)

lemma digits_value_str: "digits_value (str_of_nat n) = n"
proof (induction n rule: str_of_nat.induct)
  case (1 n)
  show ?case
  proof (cases "n < 10")
    case True
    then show ?thesis by (simp add: str_of_nat.simps [of n] digits_value_def)
  next
    case False
    then have "digits_value (str_of_nat n) = 10 * (n div 10) + n mod 10"
      using 1 by (simp add: str_of_nat.simps [of n] digits_value_snoc)
    then show ?thesis by simp
  qed
qed

lemma str_of_nat_unique:
  assumes "str_of_nat m @ c # u = str_of_nat n @ d # v" "\<not> is_digit c" "\<not> is_digit d"
  shows "m = n \<and> c # u = d # v"
proof -
  have t: "takeWhile is_digit (str_of_nat k @ e # w) = str_of_nat k" if "\<not> is_digit e" for k e w
    using str_of_nat_digits [of k] that by (simp add: takeWhile_append list_all_iff)
  have "str_of_nat m = str_of_nat n" using t [OF assms(2)] t [OF assms(3)] assms(1) by metis
  then show ?thesis using assms(1) digits_value_str by (metis same_append_eq)
qed

lemma str_of_int_unique:
  assumes "str_of_int i @ c # u = str_of_int j @ d # v" "\<not> is_digit c" "\<not> is_digit d"
  shows "i = j \<and> c # u = d # v"
proof -
  have h: "str_of_nat k @ w \<noteq> CHR ''-'' # z" for k w z
    using str_of_nat_digits [of k] by (cases "str_of_nat k") (auto simp: is_digit_def)
  consider "i < 0" "j < 0" | "\<not> i < 0" "\<not> j < 0" | "i < 0" "\<not> j < 0" | "\<not> i < 0" "j < 0" by blast
  then show ?thesis
  proof cases
    case 1
    then show ?thesis using assms str_of_nat_unique [of "nat (- i)" c u "nat (- j)" d v] by (auto simp: str_of_int_def)
  next
    case 2
    then show ?thesis using assms str_of_nat_unique [of "nat i" c u "nat j" d v] by (auto simp: str_of_int_def)
  next
    case 3
    then show ?thesis using assms(1) h [of "nat j" "d # v" "str_of_nat (nat (- i)) @ c # u"] by (simp add: str_of_int_def)
  next
    case 4
    then show ?thesis using assms(1) h [of "nat i" "c # u" "str_of_nat (nat (- j)) @ d # v"] by (simp add: str_of_int_def)
  qed
qed

lemma canonical_bytes_inj: "canonical_bytes m = canonical_bytes m' \<Longrightarrow> m = m'"
proof -
  assume a: "canonical_bytes m = canonical_bytes m'"
  let ?r5 = "\<lambda>m. dumps_string (mf_whole_file_sha256 m) @ ''}''"
  let ?r4 = "\<lambda>m. dumps_member ''whole_file_sha256'' (?r5 m)"
  let ?r3 = "\<lambda>m. dumps_member ''total_size'' (str_of_int (mf_total_size m) @ CHR '','' # ?r4 m)"
  let ?r2 = "\<lambda>m. dumps_member ''model_id'' (dumps_string (mf_model_id m) @ CHR '','' # ?r3 m)"
  let ?r1 = "\<lambda>m. dumps_member ''merkle_root'' (dumps_string (mf_merkle_root m) @ CHR '','' # ?r2 m)"
  let ?r0 = "\<lambda>m. dumps_member ''chunks'' (''['' @ dumps_items '','' (mf_chunks m) @ CHR '','' # ?r1 m)"
  have split: "canonical_bytes m = ''{'' @ dumps_member ''chunk_size'' (str_of_int (mf_chunk_size m) @ CHR '','' # ?r0 m)" for m
    by (simp add: canonical_bytes_def dumps_member_def)
  have nd: "\<not> is_digit CHR '',''" by (simp add: is_digit_def)
  have "str_of_int (mf_chunk_size m) @ CHR '','' # ?r0 m = str_of_int (mf_chunk_size m') @ CHR '','' # ?r0 m'"
    using a unfolding split by (simp add: dumps_member_def)
  from str_of_int_unique [OF this nd nd] have 0: "mf_chunk_size m = mf_chunk_size m'" "?r0 m = ?r0 m'" by blast+
  then have 1: "mf_chunks m = mf_chunks m'" "?r1 m = ?r1 m'"
    using dumps_items_unique [of "'',''" "[]" "mf_chunks m" "CHR '','' # ?r1 m" "mf_chunks m'" "CHR '','' # ?r1 m'"] by (simp_all add: dumps_member_def)
  then have 2: "mf_merkle_root m = mf_merkle_root m'" "?r2 m = ?r2 m'"
    using dumps_string_unique [of "mf_merkle_root m" "CHR '','' # ?r2 m" "mf_merkle_root m'" "CHR '','' # ?r2 m'"] by (simp_all add: dumps_member_def)
  then have 3: "mf_model_id m = mf_model_id m'" "?r3 m = ?r3 m'"
    using dumps_string_unique [of "mf_model_id m" "CHR '','' # ?r3 m" "mf_model_id m'" "CHR '','' # ?r3 m'"] by (simp_all add: dumps_member_def)
  then have "str_of_int (mf_total_size m) @ CHR '','' # ?r4 m = str_of_int (mf_total_size m') @ CHR '','' # ?r4 m'"
    by (simp add: dumps_member_def)
  from str_of_int_unique [OF this nd nd] have 4: "mf_total_size m = mf_total_size m'" "?r4 m = ?r4 m'" by blast+
  then have "mf_whole_file_sha256 m = mf_whole_file_sha256 m'"
    using dumps_string_unique [of "mf_whole_file_sha256 m" "''}''" "mf_whole_file_sha256 m'" "''}''"] by (simp add: dumps_member_def)
  then show ?thesis using 0 1 2 3 4 by simp
qed

text \<open>What building a manifest of a file gives.\<close>

lemma build_manifest_facts:
  assumes "build_manifest sha content mid n = Some m"
  shows "0 < n" "mf_chunks m = map (chunk_hash sha) (slices (nat n) content)" "mf_total_size m = int (length content)"
    "mf_whole_file_sha256 m = hexstr (sha content)" "merkle_root sha (mf_chunks m) = Some (mf_merkle_root m)"
    "mf_chunk_size m = n" "mf_model_id m = mid"
proof -
  show n: "0 < n" using assms by (auto simp: build_manifest_def iter_file_chunks_def split: if_splits)
  have c: "concat (slices (nat n) content) = content" using n by (intro concat_slices) simp
  have "sum_list (map (int \<circ> length) xss) = int (length (concat xss))" for xss :: "string list" by (induction xss) simp_all
  then show "mf_chunks m = map (chunk_hash sha) (slices (nat n) content)" "mf_total_size m = int (length content)"
    "mf_whole_file_sha256 m = hexstr (sha content)" "merkle_root sha (mf_chunks m) = Some (mf_merkle_root m)"
    "mf_chunk_size m = n" "mf_model_id m = mid"
    using assms n by (auto simp: build_manifest_def iter_file_chunks_def Let_def c)
qed

lemma build_manifest_total: "0 < n \<Longrightarrow> \<exists>m. build_manifest sha content mid n = Some m"
proof -
  assume "0 < n"
  have "\<exists>r. merkle_root sha (map (chunk_hash sha) xs) = Some r" for xs
    using those_leaves [of sha "map (chunk_hash sha) xs"] by (simp add: merkle_root_def chunk_hash_def)
  then show ?thesis using \<open>0 < n\<close> by (auto simp: build_manifest_def iter_file_chunks_def Let_def)
qed

text \<open>C25: The signed manifest pins down the model file. Manifests with the same canonical text, which is what
  the signature covers, are equal in every field. Two files whose manifests carry the same Merkle root
  are equal, whatever chunk sizes they were split with, and have the same chunk lists, unless the digest
  collides on the strings hashed for the two manifests.\<close>

theorem merkle_root_commits:
  assumes "\<And>x. length (sha x) = 32" and "build_manifest sha file1 id1 n1 = Some m1"
    and "build_manifest sha file2 id2 n2 = Some m2" and "mf_merkle_root m1 = mf_merkle_root m2"
    and "inj_on sha (merkle_inputs sha (mf_chunks m1) \<union> merkle_inputs sha (mf_chunks m2) \<union>
      set (slices (nat n1) file1) \<union> set (slices (nat n2) file2))"
  shows "file1 = file2 \<and> mf_chunks m1 = mf_chunks m2 \<and> (\<forall>m m'. canonical_bytes m = canonical_bytes m' \<longrightarrow> m = m')"
proof -
  note f1 = build_manifest_facts [OF assms(2)] and f2 = build_manifest_facts [OF assms(3)]
  have ne: "sha x \<noteq> []" for x using assms(1) [of x] by auto
  have i: "inj_on sha (merkle_inputs sha (mf_chunks m1) \<union> merkle_inputs sha (mf_chunks m2))"
    by (rule inj_on_subset [OF assms(5)]) blast
  have "\<forall>h \<in> set (mf_chunks m1) \<union> set (mf_chunks m2). fromhex h \<noteq> Some []"
    unfolding f1(2) f2(2) using ne by (auto simp: chunk_hash_def)
  with i have "map fromhex (mf_chunks m1) = map fromhex (mf_chunks m2)"
    by (intro merkle_root_inj [OF assms(1) f1(5)]) (simp_all add: f2(5) assms(4))
  then have "map the (map fromhex (mf_chunks m1)) = map the (map fromhex (mf_chunks m2))" by (rule arg_cong)
  then have d: "map sha (slices (nat n1) file1) = map sha (slices (nat n2) file2)"
    unfolding f1(2) f2(2) by (simp add: chunk_hash_def comp_def)
  then have "slices (nat n1) file1 = slices (nat n2) file2"
    by (rule map_inj_on) (rule inj_on_subset [OF assms(5)], blast)
  moreover have "concat (slices (nat n1) file1) = file1" "concat (slices (nat n2) file2) = file2"
    using f1(1) f2(1) by (simp_all add: concat_slices)
  ultimately show ?thesis using f1(2) f2(2) canonical_bytes_inj by metis
qed

definition demo_digest :: "string \<Rightarrow> string" where
  "demo_digest x = take 32 (x @ replicate 32 CHR ''0'')"

lemma length_demo_digest: "length (demo_digest x) = 32"
  by (simp add: demo_digest_def)

theorem merkle_root_commits_witness:
  "\<exists>m1 m2. build_manifest demo_digest ''ab'' ''x'' 4 = Some m1 \<and> build_manifest demo_digest ''ab'' ''y'' 3 = Some m2 \<and>
     mf_merkle_root m1 = mf_merkle_root m2 \<and> mf_chunks m1 = mf_chunks m2"
proof -
  obtain m1 m2 where m: "build_manifest demo_digest ''ab'' ''x'' 4 = Some m1" "build_manifest demo_digest ''ab'' ''y'' 3 = Some m2"
    using build_manifest_total [of 4 demo_digest "''ab''" "''x''"] build_manifest_total [of 3 demo_digest "''ab''" "''y''"] by auto
  note f = build_manifest_facts [OF m(1)] build_manifest_facts [OF m(2)]
  have sl: "slices 4 ''ab'' = [''ab'']" "slices 3 ''ab'' = [''ab'']" by (simp_all add: slices.simps)
  have c: "mf_chunks m1 = [chunk_hash demo_digest ''ab'']" "mf_chunks m2 = [chunk_hash demo_digest ''ab'']" by (simp_all add: f sl)
  then have r: "mf_merkle_root m1 = mf_merkle_root m2" using f(5) f(12) by simp
  have "merkle_inputs demo_digest [chunk_hash demo_digest ''ab''] = {CHR 0x00 # demo_digest ''ab''}"
    by (simp add: merkle_inputs_def merkle_tree_of_def collapse.simps chunk_hash_def)
  moreover have "demo_digest (CHR 0x00 # demo_digest ''ab'') \<noteq> demo_digest ''ab''" by code_simp
  ultimately have "mf_chunks m1 = mf_chunks m2"
    using merkle_root_commits [OF length_demo_digest m r] by (simp add: c sl)
  then show ?thesis using m r by blast
qed

end
