(* ===== verification/Mesh_Store.thy ===== *)
theory Mesh_Store
  imports Mesh_Manifest
begin

text \<open>
  The rest of \<open>fallow_modelmesh\<close>: the size-capped chunk store (\<open>store.py\<close>), the chunks still missing
  (\<open>delta.py\<close>), peers (\<open>peer.py\<close>, \<open>topology.py\<close>), fetching from them (\<open>exchange.py\<close>), verified
  reconstruction (\<open>reconstruct.py\<close>, \<open>safe.py\<close>), offline bundles (\<open>bundle.py\<close>, \<open>offline.py\<close>) and the
  transfer pacer (\<open>bandwidth.py\<close>). A peer is the set of hashes it reports and what it answers for each;
  nothing is assumed of either. A directory maps file names to contents.
\<close>

section \<open>Errors\<close>

datatype mesh_error = VerificationError | ChunkNotFound string | MeshError | HTTPError | ValueError | TypeError
  | UnicodeError | OSError

section \<open>The chunk store\<close>

record chunk_store =
  ch_max_bytes :: int
  ch_used :: int
  ch_chunks :: "(string, string) odict"

definition ChunkStore :: "int \<Rightarrow> mesh_error + chunk_store" where
  "ChunkStore max_bytes =
     (if max_bytes \<le> 0 then Inl ValueError else Inr \<lparr>ch_max_bytes = max_bytes, ch_used = 0, ch_chunks = []\<rparr>)"

fun evict_until_fits :: "int \<Rightarrow> int \<Rightarrow> int \<Rightarrow> (string, string) odict \<Rightarrow> int \<times> (string, string) odict" where
  "evict_until_fits cap incoming used [] = (used, [])"
| "evict_until_fits cap incoming used (kv # kvs) =
     (if cap < used + incoming then evict_until_fits cap incoming (used - int (length (snd kv))) kvs
      else (used, kv # kvs))"

definition store_put :: "(string \<Rightarrow> string) \<Rightarrow> string \<Rightarrow> chunk_store \<Rightarrow> (mesh_error + string) \<times> chunk_store" where
  "store_put sha data s =
     (if ch_max_bytes s < int (length data) then (Inl ValueError, s)
      else let key = chunk_hash sha data
           in if map_of (ch_chunks s) key \<noteq> None
              then (Inr key, s\<lparr>ch_chunks := od_move_to_end key (ch_chunks s)\<rparr>)
              else case evict_until_fits (ch_max_bytes s) (int (length data)) (ch_used s) (ch_chunks s) of
                     (used, chunks) \<Rightarrow>
                       (Inr key, s\<lparr>ch_used := used + int (length data), ch_chunks := AList.update key data chunks\<rparr>))"

definition store_get :: "string \<Rightarrow> chunk_store \<Rightarrow> (mesh_error + string) \<times> chunk_store" where
  "store_get key s =
     (case map_of (ch_chunks s) key of
        None \<Rightarrow> (Inl (ChunkNotFound key), s)
      | Some data \<Rightarrow> (Inr data, s\<lparr>ch_chunks := od_move_to_end key (ch_chunks s)\<rparr>))"

definition store_has :: "string \<Rightarrow> chunk_store \<Rightarrow> bool" where
  "store_has key s \<longleftrightarrow> map_of (ch_chunks s) key \<noteq> None"

definition availability :: "chunk_store \<Rightarrow> string list" where
  "availability s = map fst (ch_chunks s)"

section \<open>Missing chunks\<close>

fun missing_loop :: "string list \<Rightarrow> string list \<Rightarrow> string list \<Rightarrow> string list" where
  "missing_loop have_it seen [] = []"
| "missing_loop have_it seen (h # hs) =
     (if h \<in> set have_it \<or> h \<in> set seen then missing_loop have_it seen hs
      else h # missing_loop have_it (h # seen) hs)"

definition missing_chunks :: "manifest \<Rightarrow> chunk_store \<Rightarrow> string list" where
  "missing_chunks m s = missing_loop (availability s) [] (mf_chunks m)"

section \<open>Peers\<close>

record peer =
  pr_available :: "string list"
  pr_fetch :: "string \<Rightarrow> mesh_error + string"

type_synonym peer_index = "(string, peer list) odict"

definition holders :: "peer_index \<Rightarrow> string \<Rightarrow> peer list" where
  "holders idx h = (case map_of idx h of None \<Rightarrow> [] | Some ps \<Rightarrow> ps)"

definition discover :: "peer list \<Rightarrow> peer_index" where
  "discover peers =
     fold (\<lambda>p idx. fold (\<lambda>h d. AList.update h (holders d h @ [p]) d) (pr_available p) idx) peers []"

text \<open>Ordering peers by place in the network; the sort is stable.\<close>

record peer_meta =
  pm_lan :: bool
  pm_latency_ms :: real
  pm_bandwidth_bps :: real

definition topology_key :: "peer_meta \<Rightarrow> int \<times> real \<times> real" where
  "topology_key meta = (if pm_lan meta then 0 else 1, pm_latency_ms meta, - pm_bandwidth_bps meta)"

definition order_peers :: "'p list \<Rightarrow> ('p \<Rightarrow> peer_meta) \<Rightarrow> (peer_meta \<Rightarrow> int \<times> real \<times> real) \<Rightarrow> 'p list" where
  "order_peers hs metadata policy = sort_key (policy \<circ> metadata) hs"

definition select_peer :: "'p list \<Rightarrow> ('p \<Rightarrow> peer_meta) \<Rightarrow> (peer_meta \<Rightarrow> int \<times> real \<times> real) \<Rightarrow> 'p option" where
  "select_peer hs metadata policy = (case order_peers hs metadata policy of [] \<Rightarrow> None | p # _ \<Rightarrow> Some p)"

section \<open>Fetching\<close>

text \<open>The loop over the missing chunks, in the order they were listed before it started.\<close>

fun fetch_loop ::
  "(string \<Rightarrow> string) \<Rightarrow> peer_index \<Rightarrow> string list \<Rightarrow> chunk_store \<Rightarrow> (mesh_error + string list) \<times> chunk_store" where
  "fetch_loop sha idx [] s = (Inr [], s)"
| "fetch_loop sha idx (chunk # hs) s =
     (case holders idx chunk of
        [] \<Rightarrow> (Inl (ChunkNotFound chunk), s)
      | p # _ \<Rightarrow>
          (case pr_fetch p chunk of
             Inl e \<Rightarrow> (Inl e, s)
           | Inr data \<Rightarrow>
               if chunk_hash sha data \<noteq> chunk then (Inl VerificationError, s)
               else (case store_put sha data s of
                       (Inl e, s1) \<Rightarrow> (Inl e, s1)
                     | (Inr _, s1) \<Rightarrow>
                         (case fetch_loop sha idx hs s1 of
                            (Inl e, s2) \<Rightarrow> (Inl e, s2)
                          | (Inr fetched, s2) \<Rightarrow> (Inr (chunk # fetched), s2)))))"

definition fetch_delta ::
  "(string \<Rightarrow> string) \<Rightarrow> manifest \<Rightarrow> peer_index \<Rightarrow> chunk_store \<Rightarrow> (mesh_error + string list) \<times> chunk_store" where
  "fetch_delta sha m idx s = fetch_loop sha idx (missing_chunks m s) s"

section \<open>Reconstruction\<close>

text \<open>What the file holds when the loop ends, and whether it ended well.\<close>

fun reconstruct_loop ::
  "(string \<Rightarrow> string) \<Rightarrow> string list \<Rightarrow> chunk_store \<Rightarrow> string \<Rightarrow> (mesh_error + unit) \<times> string \<times> chunk_store" where
  "reconstruct_loop sha [] s out = (Inr (), out, s)"
| "reconstruct_loop sha (expected # hs) s out =
     (case store_get expected s of
        (Inl e, s1) \<Rightarrow> (Inl e, out, s1)
      | (Inr data, s1) \<Rightarrow>
          if chunk_hash sha data \<noteq> expected then (Inl VerificationError, out, s1)
          else reconstruct_loop sha hs s1 (out @ data))"

definition reconstruct ::
  "(string \<Rightarrow> string) \<Rightarrow> manifest \<Rightarrow> chunk_store \<Rightarrow> string \<Rightarrow> (string, string) odict \<Rightarrow>
   (mesh_error + unit) \<times> chunk_store \<times> (string, string) odict" where
  "reconstruct sha m s dest fs =
     (case reconstruct_loop sha (mf_chunks m) s [] of
        (Inl e, out, s1) \<Rightarrow> (Inl e, s1, AList.update dest out fs)
      | (Inr _, out, s1) \<Rightarrow>
          (if int (length out) \<noteq> mf_total_size m then Inl VerificationError
           else if hexstr (sha out) \<noteq> mf_whole_file_sha256 m then Inl VerificationError
           else Inr (),
           s1, AList.update dest out fs))"

text \<open>\<open>Path.replace\<close>: the file at the source name becomes the file at the destination.\<close>

definition replace_file :: "string \<Rightarrow> string \<Rightarrow> (string, string) odict \<Rightarrow> (string, string) odict" where
  "replace_file src dest fs =
     (case map_of fs src of None \<Rightarrow> fs | Some v \<Rightarrow> AList.update dest v (AList.delete src fs))"

definition reconstruct_atomic ::
  "(string \<Rightarrow> string) \<Rightarrow> manifest \<Rightarrow> chunk_store \<Rightarrow> string \<Rightarrow> (string, string) odict \<Rightarrow>
   (mesh_error + unit) \<times> chunk_store \<times> (string, string) odict" where
  "reconstruct_atomic sha m s dest fs =
     (let tmp = dest @ ''.partial''
      in case reconstruct sha m s tmp fs of
           (Inl e, s1, fs1) \<Rightarrow> (Inl e, s1, AList.delete tmp fs1)
         | (Inr _, s1, fs1) \<Rightarrow> (Inr (), s1, replace_file tmp dest fs1))"

definition verified_reconstruct ::
  "(string \<Rightarrow> string) \<Rightarrow> manifest \<Rightarrow> string \<Rightarrow> string \<Rightarrow> chunk_store \<Rightarrow> string \<Rightarrow> (string, string) odict \<Rightarrow>
   (mesh_error + unit) \<times> chunk_store \<times> (string, string) odict" where
  "verified_reconstruct sha m signature key s dest fs =
     (case verify_manifest sha m signature key of
        None \<Rightarrow> (Inl TypeError, s, fs)
      | Some False \<Rightarrow> (Inl VerificationError, s, fs)
      | Some True \<Rightarrow> reconstruct_atomic sha m s dest fs)"

section \<open>Offline bundles\<close>

text \<open>What \<open>json.loads\<close> makes of bytes: a value, malformed JSON, or bytes that are not text.\<close>

datatype loaded = Loaded json | NotJson | NotText

record bundle_dir =
  bd_manifest :: "string option"
  bd_signature :: "string option"
  bd_chunks :: "(string, string) odict"

fun json_strings :: "json list \<Rightarrow> string list option" where
  "json_strings [] = Some []"
| "json_strings (JStr h # js) = map_option ((#) h) (json_strings js)"
| "json_strings _ = None"

definition parse_manifest :: "(string \<Rightarrow> loaded) \<Rightarrow> string \<Rightarrow> mesh_error + manifest" where
  "parse_manifest loads data =
     (case loads data of
        NotText \<Rightarrow> Inl UnicodeError
      | NotJson \<Rightarrow> Inl VerificationError
      | Loaded (JObj payload) \<Rightarrow>
          (case (map_of payload ''model_id'', map_of payload ''whole_file_sha256'', map_of payload ''merkle_root'',
                 map_of payload ''total_size'', map_of payload ''chunk_size'', map_of payload ''chunks'') of
             (Some (JStr mid), Some (JStr whole), Some (JStr rt), Some (JInt whole_n), Some (JInt chunk_n), Some (JList hs)) \<Rightarrow>
               (case json_strings hs of
                  None \<Rightarrow> Inl VerificationError
                | Some chunks \<Rightarrow>
                    Inr \<lparr>mf_model_id = mid, mf_total_size = whole_n, mf_chunk_size = chunk_n, mf_whole_file_sha256 = whole,
                         mf_chunks = chunks, mf_merkle_root = rt\<rparr>)
           | _ \<Rightarrow> Inl VerificationError)
      | _ \<Rightarrow> Inl VerificationError)"

fun export_chunks :: "string list \<Rightarrow> chunk_store \<Rightarrow> (string, string) odict \<Rightarrow>
    (mesh_error + unit) \<times> chunk_store \<times> (string, string) odict" where
  "export_chunks [] s files = (Inr (), s, files)"
| "export_chunks (h # hs) s files =
     (case store_get h s of
        (Inl e, s1) \<Rightarrow> (Inl e, s1, files)
      | (Inr data, s1) \<Rightarrow> export_chunks hs s1 (AList.update h data files))"

definition export_bundle ::
  "manifest \<Rightarrow> string \<Rightarrow> chunk_store \<Rightarrow> bundle_dir \<Rightarrow> (mesh_error + unit) \<times> chunk_store \<times> bundle_dir" where
  "export_bundle m signature s dest =
     (case export_chunks (missing_loop [] [] (mf_chunks m)) s (bd_chunks dest) of
        (r, s1, files) \<Rightarrow>
          (r, s1, \<lparr>bd_manifest = Some (canonical_bytes m), bd_signature = Some signature, bd_chunks = files\<rparr>))"

fun import_loop ::
  "(string \<Rightarrow> string) \<Rightarrow> (string, string) odict \<Rightarrow> string list \<Rightarrow> chunk_store \<Rightarrow> (mesh_error + unit) \<times> chunk_store" where
  "import_loop sha files [] s = (Inr (), s)"
| "import_loop sha files (h # hs) s =
     (case map_of files h of
        None \<Rightarrow> (Inl (ChunkNotFound h), s)
      | Some data \<Rightarrow>
          if chunk_hash sha data \<noteq> h then (Inl VerificationError, s)
          else (case store_put sha data s of
                  (Inl e, s1) \<Rightarrow> (Inl e, s1)
                | (Inr _, s1) \<Rightarrow> import_loop sha files hs s1))"

definition import_bundle ::
  "(string \<Rightarrow> string) \<Rightarrow> (string \<Rightarrow> loaded) \<Rightarrow> bundle_dir \<Rightarrow> string \<Rightarrow> chunk_store \<Rightarrow> (mesh_error + manifest) \<times> chunk_store" where
  "import_bundle sha loads src key s =
     (case bd_manifest src of
        None \<Rightarrow> (Inl OSError, s)
      | Some data \<Rightarrow>
          (case parse_manifest loads data of
             Inl e \<Rightarrow> (Inl e, s)
           | Inr m \<Rightarrow>
               (case bd_signature src of
                  None \<Rightarrow> (Inl OSError, s)
                | Some text \<Rightarrow>
                    (case verify_manifest sha m (py_strip text) key of
                       None \<Rightarrow> (Inl TypeError, s)
                     | Some False \<Rightarrow> (Inl VerificationError, s)
                     | Some True \<Rightarrow>
                         (case import_loop sha (bd_chunks src) (missing_chunks m s) s of
                            (Inl e, s1) \<Rightarrow> (Inl e, s1)
                          | (Inr _, s1) \<Rightarrow> (Inr m, s1))))))"

section \<open>Pacing\<close>

record bandwidth_limiter =
  bw_active_rate :: real
  bw_idle_rate :: real
  bw_allowance :: real
  bw_last :: instant

definition BandwidthLimiter :: "real \<Rightarrow> real \<Rightarrow> instant \<Rightarrow> mesh_error + bandwidth_limiter" where
  "BandwidthLimiter active_rate idle_rate now =
     (if active_rate \<le> 0 \<or> idle_rate \<le> 0 then Inl ValueError
      else Inr \<lparr>bw_active_rate = active_rate, bw_idle_rate = idle_rate,
                bw_allowance = max active_rate idle_rate, bw_last = now\<rparr>)"

text \<open>The two clock readings are arguments; the result is the time slept.\<close>

definition throttle :: "bool \<Rightarrow> instant \<Rightarrow> instant \<Rightarrow> int \<Rightarrow> bandwidth_limiter \<Rightarrow> secs \<times> bandwidth_limiter" where
  "throttle active now after n b =
     (let rate = (if active then bw_active_rate b else bw_idle_rate b);
          allowance = min rate (bw_allowance b + (now - bw_last b) * rate)
      in if of_int n \<le> allowance then (0, b\<lparr>bw_allowance := allowance - of_int n, bw_last := now\<rparr>)
         else ((of_int n - allowance) / rate, b\<lparr>bw_allowance := 0, bw_last := after\<rparr>))"

section \<open>The store keeps its budget\<close>

definition bytes_of :: "(string, string) odict \<Rightarrow> int" where
  "bytes_of kvs = sum_list (map (int \<circ> length \<circ> snd) kvs)"

lemma bytes_of_simps [simp]:
  "bytes_of [] = 0" "bytes_of (kv # kvs) = int (length (snd kv)) + bytes_of kvs" "bytes_of (xs @ ys) = bytes_of xs + bytes_of ys"
  by (simp_all add: bytes_of_def)

lemma bytes_of_nonneg: "0 \<le> bytes_of kvs"
  by (induction kvs) simp_all

definition store_inv :: "(string \<Rightarrow> string) \<Rightarrow> chunk_store \<Rightarrow> bool" where
  "store_inv sha s \<longleftrightarrow> 0 < ch_max_bytes s \<and> ch_used s = bytes_of (ch_chunks s) \<and> ch_used s \<le> ch_max_bytes s \<and>
     od_wf (ch_chunks s) \<and> (\<forall>(k, v) \<in> set (ch_chunks s). chunk_hash sha v = k)"

lemma evict_split:
  "evict_until_fits cap incoming used kvs = (u, ks) \<Longrightarrow>
     \<exists>ev. kvs = ev @ ks \<and> u = used - bytes_of ev \<and> (ks \<noteq> [] \<longrightarrow> u + incoming \<le> cap) \<and>
       (ev \<noteq> [] \<longrightarrow> cap < u + int (length (snd (last ev))) + incoming)"
proof (induction cap incoming used kvs arbitrary: u ks rule: evict_until_fits.induct)
  case (2 cap incoming used kv kvs)
  show ?case
  proof (cases "cap < used + incoming")
    case True
    then have "evict_until_fits cap incoming (used - int (length (snd kv))) kvs = (u, ks)" using 2 by simp
    from "2.IH" [OF True this] obtain ev where ev: "kvs = ev @ ks" "u = used - int (length (snd kv)) - bytes_of ev"
      "ks \<noteq> [] \<longrightarrow> u + incoming \<le> cap" "ev \<noteq> [] \<longrightarrow> cap < u + int (length (snd (last ev))) + incoming" by blast
    show ?thesis using ev True by (intro exI [of _ "kv # ev"]) auto
  qed (use 2 in simp)
qed simp

lemma bytes_of_update: "map_of kvs k = None \<Longrightarrow> AList.update k v kvs = kvs @ [(k, v)]"
  by (induction kvs) (auto split: if_splits)

lemma bytes_of_delete: "od_wf kvs \<Longrightarrow> map_of kvs k = Some v \<Longrightarrow> bytes_of (AList.delete k kvs) = bytes_of kvs - int (length v)"
proof (induction kvs)
  case (Cons kv kvs)
  have "AList.delete (fst kv) kvs = kvs" if "od_wf (kv # kvs)"
    using that by (auto simp: od_wf_def AList.delete_eq filter_id_conv case_prod_unfold)
  then show ?case using Cons by (cases kv) (auto simp: od_wf_def split: if_splits)
qed simp

lemma move_to_end_inv: "store_inv sha s \<Longrightarrow> store_inv sha (s\<lparr>ch_chunks := od_move_to_end k (ch_chunks s)\<rparr>)"
proof -
  assume i: "store_inv sha s"
  have "bytes_of (od_move_to_end k (ch_chunks s)) = bytes_of (ch_chunks s)"
    using i bytes_of_delete [of "ch_chunks s" k] by (auto simp: od_move_to_end_def store_inv_def split: option.split)
  moreover have "set (od_move_to_end k (ch_chunks s)) \<subseteq> set (ch_chunks s)"
    by (auto simp: od_move_to_end_def AList.delete_eq split: option.split dest: map_of_SomeD)
  ultimately show ?thesis using i unfolding store_inv_def by auto
qed

text \<open>A successful write of a new chunk drops the oldest chunks, as few as make room, and appends.\<close>

lemma store_put_new:
  assumes "store_inv sha s" and "int (length data) \<le> ch_max_bytes s" and "map_of (ch_chunks s) (chunk_hash sha data) = None"
  obtains ev ks where "ch_chunks s = ev @ ks"
    "store_put sha data s =
       (Inr (chunk_hash sha data),
        s\<lparr>ch_used := bytes_of ks + int (length data), ch_chunks := ks @ [(chunk_hash sha data, data)]\<rparr>)"
    "bytes_of ks + int (length data) \<le> ch_max_bytes s"
    "ev \<noteq> [] \<longrightarrow> ch_max_bytes s < bytes_of ks + int (length (snd (last ev))) + int (length data)"
proof -
  obtain u ks where e: "evict_until_fits (ch_max_bytes s) (int (length data)) (ch_used s) (ch_chunks s) = (u, ks)" by fastforce
  from evict_split [OF this] obtain ev where ev: "ch_chunks s = ev @ ks" "u = ch_used s - bytes_of ev"
    "ks \<noteq> [] \<longrightarrow> u + int (length data) \<le> ch_max_bytes s"
    "ev \<noteq> [] \<longrightarrow> ch_max_bytes s < u + int (length (snd (last ev))) + int (length data)" by blast
  have u: "u = bytes_of ks" using assms(1) ev(1,2) by (simp add: store_inv_def)
  have "map_of ks (chunk_hash sha data) = None" using assms(3) ev(1) by (auto simp: map_add_def split: option.splits)
  then have "store_put sha data s =
       (Inr (chunk_hash sha data),
        s\<lparr>ch_used := bytes_of ks + int (length data), ch_chunks := ks @ [(chunk_hash sha data, data)]\<rparr>)"
    using assms(2,3) by (simp add: store_put_def Let_def e u bytes_of_update)
  moreover have "bytes_of ks + int (length data) \<le> ch_max_bytes s" using ev(3) u assms(2) by (cases ks) auto
  ultimately show thesis using that ev(1,4) u by blast
qed

lemma store_put_inv: "store_inv sha s \<Longrightarrow> store_inv sha (snd (store_put sha data s))"
proof -
  assume i: "store_inv sha s"
  consider "ch_max_bytes s < int (length data)" | "map_of (ch_chunks s) (chunk_hash sha data) \<noteq> None"
    | "int (length data) \<le> ch_max_bytes s" "map_of (ch_chunks s) (chunk_hash sha data) = None" by linarith
  then show ?thesis
  proof cases
    case 3
    then obtain ev ks where e: "ch_chunks s = ev @ ks"
      "store_put sha data s = (Inr (chunk_hash sha data),
        s\<lparr>ch_used := bytes_of ks + int (length data), ch_chunks := ks @ [(chunk_hash sha data, data)]\<rparr>)"
      "bytes_of ks + int (length data) \<le> ch_max_bytes s" using store_put_new [OF i] by metis
    have "chunk_hash sha data \<notin> fst ` set (ch_chunks s)" using 3 by (simp add: map_of_eq_None_iff)
    then show ?thesis using i e by (auto simp: store_inv_def od_wf_def)
  qed (use i in \<open>auto simp: store_put_def Let_def move_to_end_inv\<close>)
qed

lemma store_get_inv: "store_inv sha s \<Longrightarrow> store_inv sha (snd (store_get k s))"
  by (auto simp: store_get_def move_to_end_inv split: option.split)

lemma store_get_hash: "store_inv sha s \<Longrightarrow> fst (store_get k s) = Inr data \<Longrightarrow> chunk_hash sha data = k"
  by (auto simp: store_get_def store_inv_def split: option.splits dest: map_of_SomeD)

text \<open>The calls a store sees.\<close>

datatype store_call = CallPut string | CallGet string

fun do_call :: "(string \<Rightarrow> string) \<Rightarrow> store_call \<Rightarrow> chunk_store \<Rightarrow> chunk_store" where
  "do_call sha (CallPut data) s = snd (store_put sha data s)"
| "do_call sha (CallGet k) s = snd (store_get k s)"

interpretation mstore: inv_system "\<lambda>s. \<exists>n. ChunkStore n = Inr s" "\<lambda>s t. \<exists>call. t = do_call sha call s" "store_inv sha" for sha
proof
  show "store_inv sha s" if "\<exists>n. ChunkStore n = Inr s" for s
    using that by (auto simp: ChunkStore_def store_inv_def split: if_splits)
  show "store_inv sha t" if "store_inv sha s" "\<exists>call. t = do_call sha call s" for s t
  proof -
    obtain call where "t = do_call sha call s" using \<open>\<exists>call. t = do_call sha call s\<close> by blast
    then show ?thesis using \<open>store_inv sha s\<close> by (cases call) (auto intro: store_put_inv store_get_inv)
  qed
qed

text \<open>C38: The chunk store stays within its cap and evicts in least-recently-used order. After any sequence of
  reads and writes the bytes held are counted exactly and never exceed the cap, each chunk is filed under
  its own digest, and a read that succeeds gives bytes with the digest asked for and makes the chunk the
  newest. A write larger than the cap changes nothing; of other writes each returns the digest and leaves
  that chunk the newest, and a write of a new chunk drops oldest chunks only, none when the chunk fits,
  and never one more than needed.\<close>

theorem chunk_store_lru:
  assumes "reach (\<lambda>s. \<exists>n. ChunkStore n = Inr s) (\<lambda>s t. \<exists>call. t = do_call sha call s) s"
  shows "ch_used s = bytes_of (ch_chunks s) \<and> ch_used s \<le> ch_max_bytes s \<and> distinct (availability s) \<and>
    (\<forall>(k, v) \<in> set (ch_chunks s). chunk_hash sha v = k) \<and>
    (\<forall>k data s'. store_get k s = (Inr data, s') \<longrightarrow> chunk_hash sha data = k \<and>
       ch_chunks s' = filter (\<lambda>kv. k \<noteq> fst kv) (ch_chunks s) @ [(k, data)]) \<and>
    (\<forall>data. ch_max_bytes s < int (length data) \<longrightarrow> store_put sha data s = (Inl ValueError, s)) \<and>
    (\<forall>data. int (length data) \<le> ch_max_bytes s \<longrightarrow>
       (\<exists>s' kept. store_put sha data s = (Inr (chunk_hash sha data), s') \<and>
          fst (last (ch_chunks s')) = chunk_hash sha data \<and> butlast (ch_chunks s') = kept \<and>
          (store_has (chunk_hash sha data) s \<longrightarrow> kept = filter (\<lambda>kv. chunk_hash sha data \<noteq> fst kv) (ch_chunks s)) \<and>
          (\<not> store_has (chunk_hash sha data) s \<longrightarrow> last (ch_chunks s') = (chunk_hash sha data, data) \<and>
             (\<exists>dropped. ch_chunks s = dropped @ kept \<and>
               (dropped \<noteq> [] \<longrightarrow> ch_max_bytes s < bytes_of (last dropped # kept) + int (length data))))))"
proof -
  have i: "store_inv sha s" by (rule mstore.reach_inv [OF assms])
  have g: "chunk_hash sha data = k \<and> ch_chunks s' = filter (\<lambda>kv. k \<noteq> fst kv) (ch_chunks s) @ [(k, data)]"
    if "store_get k s = (Inr data, s')" for k data s'
    using that store_get_hash [OF i, of k data]
    by (auto simp: store_get_def od_move_to_end_def AList.delete_eq case_prod_unfold split: option.splits)
  have p: "\<exists>s' kept. store_put sha data s = (Inr (chunk_hash sha data), s') \<and>
          fst (last (ch_chunks s')) = chunk_hash sha data \<and> butlast (ch_chunks s') = kept \<and>
          (store_has (chunk_hash sha data) s \<longrightarrow> kept = filter (\<lambda>kv. chunk_hash sha data \<noteq> fst kv) (ch_chunks s)) \<and>
          (\<not> store_has (chunk_hash sha data) s \<longrightarrow> last (ch_chunks s') = (chunk_hash sha data, data) \<and>
             (\<exists>dropped. ch_chunks s = dropped @ kept \<and>
               (dropped \<noteq> [] \<longrightarrow> ch_max_bytes s < bytes_of (last dropped # kept) + int (length data))))"
    if l: "int (length data) \<le> ch_max_bytes s" for data
  proof (cases "store_has (chunk_hash sha data) s")
    case True
    then obtain v where "map_of (ch_chunks s) (chunk_hash sha data) = Some v" by (auto simp: store_has_def)
    then show ?thesis using l True
      by (auto simp: store_put_def Let_def od_move_to_end_def AList.delete_eq case_prod_unfold)
  next
    case False
    then obtain ev ks where e: "ch_chunks s = ev @ ks"
      "store_put sha data s = (Inr (chunk_hash sha data),
        s\<lparr>ch_used := bytes_of ks + int (length data), ch_chunks := ks @ [(chunk_hash sha data, data)]\<rparr>)"
      "ev \<noteq> [] \<longrightarrow> ch_max_bytes s < bytes_of ks + int (length (snd (last ev))) + int (length data)"
      using store_put_new [OF i l] by (metis store_has_def)
    show ?thesis using e False by auto
  qed
  have a: "ch_used s = bytes_of (ch_chunks s)" "ch_used s \<le> ch_max_bytes s" "distinct (availability s)"
    "\<forall>(k, v) \<in> set (ch_chunks s). chunk_hash sha v = k"
    using i by (simp_all add: store_inv_def availability_def od_wf_def)
  have o: "\<forall>data. ch_max_bytes s < int (length data) \<longrightarrow> store_put sha data s = (Inl ValueError, s)"
    by (simp add: store_put_def)
  have g': "\<forall>k data s'. store_get k s = (Inr data, s') \<longrightarrow> chunk_hash sha data = k \<and>
       ch_chunks s' = filter (\<lambda>kv. k \<noteq> fst kv) (ch_chunks s) @ [(k, data)]"
    using g by (intro allI impI)
  show ?thesis by (rule conjI [OF a(1) conjI [OF a(2) conjI [OF a(3) conjI [OF a(4) conjI [OF g' conjI [OF o]]]]]])
      (intro allI impI, erule p)
qed

theorem chunk_store_lru_witness:
  "\<exists>s. ChunkStore 5 = Inr s \<and>
     (let t = do_call id (CallPut ''ef'') (do_call id (CallGet (hexstr ''ab''))
                (do_call id (CallPut ''cd'') (do_call id (CallPut ''ab'') s)))
      in availability t = [hexstr ''ab'', hexstr ''ef''] \<and> ch_used t \<le> 5)"
proof -
  obtain s where s: "ChunkStore 5 = Inr s" by (simp add: ChunkStore_def)
  let ?calls = "[CallPut ''ab'', CallPut ''cd'', CallGet (hexstr ''ab''), CallPut ''ef'']"
  let ?R = "reach (\<lambda>s. \<exists>n. ChunkStore n = Inr s) (\<lambda>s t. \<exists>call. t = do_call id call s)"
  have "?R (fold (do_call id) cs s)" for cs
  proof (induction cs rule: rev_induct)
    case Nil
    then show ?case using s by (auto intro: reach_init)
  next
    case (snoc call cs)
    then show ?case by (auto intro: reach_step)
  qed
  then have "?R (fold (do_call id) ?calls s)" .
  from chunk_store_lru [OF this] have "ch_used (fold (do_call id) ?calls s) \<le> ch_max_bytes (fold (do_call id) ?calls s)" by blast
  moreover have "ch_max_bytes (fold (do_call id) ?calls s) = 5"
    "availability (fold (do_call id) ?calls s) = [hexstr ''ab'', hexstr ''ef'']"
    using s unfolding ChunkStore_def by (auto, code_simp+)
  ultimately show ?thesis using s by (auto simp: Let_def)
qed

end
