(* ===== verification/Model_Serve.thy ===== *)
theory Model_Serve
  imports Mesh_Store App_State
begin

text \<open>
  How the coordinator hands model files to agents (\<open>modelserve/router.py\<close>, \<open>blob.py\<close>, \<open>mesh.py\<close>): whole
  blobs with resumable \<open>Range\<close> requests, and signed manifests with single chunks. A blob file is its
  content and modification time; the file system is an argument.
\<close>

section \<open>Range requests\<close>

record byte_range =
  rg_start :: int
  rg_end :: int

definition RANGE_PREFIX :: string where
  "RANGE_PREFIX = ''bytes=''"

text \<open>\<open>None\<close> is \<open>ValueError\<close>.\<close>

definition resolve_bounds :: "string \<Rightarrow> string \<Rightarrow> int \<Rightarrow> (int \<times> int) option" where
  "resolve_bounds start_text end_text n =
     (if start_text = []
      then (case py_int end_text of
              None \<Rightarrow> None
            | Some k \<Rightarrow> if k \<le> 0 then None else Some (max 0 (n - k), n - 1))
      else case py_int start_text of
             None \<Rightarrow> None
           | Some a \<Rightarrow>
               if end_text = [] then Some (a, n - 1)
               else map_option (\<lambda>e. (a, e)) (py_int end_text))"

text \<open>\<open>Inl ()\<close> is \<open>RangeNotSatisfiable\<close>; \<open>Inr None\<close> asks for the whole file.\<close>

definition parse_range :: "string option \<Rightarrow> int \<Rightarrow> unit + byte_range option" where
  "parse_range header n =
     (case header of
        None \<Rightarrow> Inr None
      | Some h \<Rightarrow>
          if take (length RANGE_PREFIX) h \<noteq> RANGE_PREFIX then Inl ()
          else
            let spec = py_strip (drop (length RANGE_PREFIX) h)
            in if CHR '','' \<in> set spec \<or> CHR ''-'' \<notin> set spec then Inl ()
               else
                 let start_text = takeWhile (\<lambda>c. c \<noteq> CHR ''-'') spec;
                     end_text = tl (dropWhile (\<lambda>c. c \<noteq> CHR ''-'') spec)
                 in case resolve_bounds (py_strip start_text) (py_strip end_text) n of
                      None \<Rightarrow> Inl ()
                    | Some (a, e) \<Rightarrow>
                        if a < 0 \<or> n \<le> a \<or> e < a then Inl ()
                        else Inr (Some \<lparr>rg_start = a, rg_end = min e (n - 1)\<rparr>))"

section \<open>Blobs\<close>

record blob_file =
  bl_content :: string
  bl_mtime_ns :: int

type_synonym blob_files = "string \<Rightarrow> blob_file option"

text \<open>What is left of the file at the read position, and how many bytes are still wanted.\<close>

function stream_loop :: "nat \<Rightarrow> string \<Rightarrow> int \<Rightarrow> string list" where
  "stream_loop n rest remaining =
     (if remaining \<le> 0 then []
      else let chunk = take (nat (min (int n) remaining)) rest
           in if chunk = [] then []
              else chunk # stream_loop n (drop (length chunk) rest) (remaining - int (length chunk)))"
  by pat_completeness auto
termination by (relation "measure (\<lambda>(n, rest, remaining). length rest)") auto

declare stream_loop.simps [simp del]

definition stream_file :: "string \<Rightarrow> int \<Rightarrow> int \<Rightarrow> string list" where
  "stream_file content start n = stream_loop CHUNK_SIZE (drop (nat start) content) n"

record blob_response =
  bs_status :: int
  bs_content_length :: int
  bs_content_range :: "(int \<times> int \<times> int) option"
  bs_body :: "string list"

definition full_response :: "string \<Rightarrow> int \<Rightarrow> blob_response" where
  "full_response content n =
     \<lparr>bs_status = 200, bs_content_length = n, bs_content_range = None, bs_body = stream_file content 0 n\<rparr>"

definition partial_response :: "string \<Rightarrow> int \<Rightarrow> int \<Rightarrow> int \<Rightarrow> blob_response" where
  "partial_response content n start last_byte =
     \<lparr>bs_status = 206, bs_content_length = last_byte - start + 1, bs_content_range = Some (start, last_byte, n),
      bs_body = stream_file content start (last_byte - start + 1)\<rparr>"

definition get_blob ::
  "(string \<Rightarrow> string) \<Rightarrow> blob_files \<Rightarrow> registry_db \<Rightarrow> string option \<Rightarrow> ident \<Rightarrow> string option \<Rightarrow> http_error + blob_response" where
  "get_blob sha files db hdr model_id rng =
     (case httpauth_agent (hexstr \<circ> sha) db hdr of
        Inl e \<Rightarrow> Inl e
      | Inr _ \<Rightarrow>
          (case get_model db model_id of
             None \<Rightarrow> Inl (HTTPStatus 404)
           | Some rcd \<Rightarrow>
               if \<not> mr_enabled rcd then Inl (HTTPStatus 404)
               else
                 (case files (mr_blob_path rcd) of
                    None \<Rightarrow> Inl (HTTPStatus 404)
                  | Some f \<Rightarrow>
                      let n = int (length (bl_content f))
                      in case parse_range rng n of
                           Inl _ \<Rightarrow> Inl (HTTPStatus 416)
                         | Inr None \<Rightarrow> Inr (full_response (bl_content f) n)
                         | Inr (Some r) \<Rightarrow> Inr (partial_response (bl_content f) n (rg_start r) (rg_end r)))))"

definition get_manifest_route ::
  "(string \<Rightarrow> string) \<Rightarrow> registry_db \<Rightarrow> string option \<Rightarrow> ident \<Rightarrow> http_error + model_manifest" where
  "get_manifest_route sha db hdr model_id =
     (case httpauth_agent (hexstr \<circ> sha) db hdr of
        Inl e \<Rightarrow> Inl e
      | Inr _ \<Rightarrow> (case get_manifest db model_id of None \<Rightarrow> Inl (HTTPStatus 404) | Some m \<Rightarrow> Inr m))"

section \<open>Signed manifests and chunks\<close>

record mesh_builder =
  mb_key :: string
  mb_chunk_size :: int
  mb_cache :: "(ident, (int \<times> int) \<times> manifest \<times> string) odict"

text \<open>\<open>None\<close> is the \<open>ValueError\<close> of a chunk size that is not positive.\<close>

definition builder_signed ::
  "(string \<Rightarrow> string) \<Rightarrow> ident \<Rightarrow> blob_file \<Rightarrow> mesh_builder \<Rightarrow> (manifest \<times> string) option \<times> mesh_builder" where
  "builder_signed sha model_id f b =
     (let fingerprint = (int (length (bl_content f)), bl_mtime_ns f);
          build = (case build_manifest sha (bl_content f) model_id (mb_chunk_size b) of
                     None \<Rightarrow> (None, b)
                   | Some m \<Rightarrow>
                       let signature = sign_manifest sha m (mb_key b)
                       in (Some (m, signature),
                           b\<lparr>mb_cache := AList.update model_id (fingerprint, m, signature) (mb_cache b)\<rparr>))
      in case map_of (mb_cache b) model_id of
           None \<Rightarrow> build
         | Some (fp, m, signature) \<Rightarrow> if fp = fingerprint then (Some (m, signature), b) else build)"

text \<open>\<open>list.index\<close>: the first position of a value.\<close>

fun index_of :: "'a list \<Rightarrow> 'a \<Rightarrow> nat option" where
  "index_of [] x = None"
| "index_of (y # ys) x = (if y = x then Some 0 else map_option Suc (index_of ys x))"

definition chunk_bytes ::
  "(string \<Rightarrow> string) \<Rightarrow> ident \<Rightarrow> blob_file \<Rightarrow> string \<Rightarrow> mesh_builder \<Rightarrow> string option option \<times> mesh_builder" where
  "chunk_bytes sha model_id f h b =
     (case builder_signed sha model_id f b of
        (None, b1) \<Rightarrow> (None, b1)
      | (Some (m, _), b1) \<Rightarrow>
          (Some (case index_of (mf_chunks m) h of
                   None \<Rightarrow> None
                 | Some i \<Rightarrow> Some (take (nat (mf_chunk_size m)) (drop (i * nat (mf_chunk_size m)) (bl_content f)))), b1))"

definition enabled_blob :: "blob_files \<Rightarrow> registry_db \<Rightarrow> ident \<Rightarrow> http_error + blob_file" where
  "enabled_blob files db model_id =
     (case get_model db model_id of
        None \<Rightarrow> Inl (HTTPStatus 404)
      | Some rcd \<Rightarrow>
          if \<not> mr_enabled rcd then Inl (HTTPStatus 404)
          else (case files (mr_blob_path rcd) of None \<Rightarrow> Inl Unhandled | Some f \<Rightarrow> Inr f))"

definition encode_signed_manifest :: "manifest \<Rightarrow> string \<Rightarrow> json" where
  "encode_signed_manifest m signature =
     JObj [(''manifest'',
            JObj [(''model_id'', JStr (mf_model_id m)), (''total_size'', JInt (mf_total_size m)),
                  (''chunk_size'', JInt (mf_chunk_size m)), (''whole_file_sha256'', JStr (mf_whole_file_sha256 m)),
                  (''chunks'', JList (map JStr (mf_chunks m))), (''merkle_root'', JStr (mf_merkle_root m))]),
           (''signature'', JStr signature)]"

definition get_mesh_manifest ::
  "(string \<Rightarrow> string) \<Rightarrow> blob_files \<Rightarrow> registry_db \<Rightarrow> string option \<Rightarrow> ident \<Rightarrow> mesh_builder \<Rightarrow>
   (http_error + json) \<times> mesh_builder" where
  "get_mesh_manifest sha files db hdr model_id b =
     (case httpauth_agent (hexstr \<circ> sha) db hdr of
        Inl e \<Rightarrow> (Inl e, b)
      | Inr _ \<Rightarrow>
          (case enabled_blob files db model_id of
             Inl e \<Rightarrow> (Inl e, b)
           | Inr f \<Rightarrow>
               (case builder_signed sha model_id f b of
                  (None, b1) \<Rightarrow> (Inl Unhandled, b1)
                | (Some (m, signature), b1) \<Rightarrow> (Inr (encode_signed_manifest m signature), b1))))"

definition get_mesh_chunk ::
  "(string \<Rightarrow> string) \<Rightarrow> blob_files \<Rightarrow> registry_db \<Rightarrow> string option \<Rightarrow> ident \<Rightarrow> string \<Rightarrow> mesh_builder \<Rightarrow>
   (http_error + string) \<times> mesh_builder" where
  "get_mesh_chunk sha files db hdr model_id h b =
     (case httpauth_agent (hexstr \<circ> sha) db hdr of
        Inl e \<Rightarrow> (Inl e, b)
      | Inr _ \<Rightarrow>
          (case enabled_blob files db model_id of
             Inl e \<Rightarrow> (Inl e, b)
           | Inr f \<Rightarrow>
               (case chunk_bytes sha model_id f h b of
                  (None, b1) \<Rightarrow> (Inl Unhandled, b1)
                | (Some None, b1) \<Rightarrow> (Inl (HTTPStatus 404), b1)
                | (Some (Some data), b1) \<Rightarrow> (Inr data, b1))))"

section \<open>What is served\<close>

lemma concat_stream_loop: "0 < n \<Longrightarrow> concat (stream_loop n rest remaining) = take (nat remaining) rest"
proof (induction n rest remaining rule: stream_loop.induct)
  case (1 n rest remaining)
  let ?chunk = "take (nat (min (int n) remaining)) rest"
  show ?case
  proof (cases "remaining \<le> 0 \<or> ?chunk = []")
    case True
    then show ?thesis using 1(2) by (auto simp: stream_loop.simps [of n rest] Let_def)
  next
    case False
    then have "concat (stream_loop n rest remaining) =
        ?chunk @ take (nat (remaining - int (length ?chunk))) (drop (length ?chunk) rest)"
      using 1 by (simp add: stream_loop.simps [of n rest] Let_def)
    also have "\<dots> = take (length ?chunk + nat (remaining - int (length ?chunk))) rest"
      by (simp add: take_add min_def)
    also have "\<dots> = take (nat remaining) rest" using False by (auto simp: min_def nat_diff_distrib)
    finally show ?thesis .
  qed
qed

lemma concat_stream_file: "concat (stream_file content start n) = take (nat n) (drop (nat start) content)"
  by (simp add: stream_file_def concat_stream_loop CHUNK_SIZE_def)

lemma py_strip_id:
  assumes "t = [] \<or> \<not> is_py_space (hd t) \<and> \<not> is_py_space (last t)"
  shows "py_strip t = t"
proof (cases "t = []")
  case False
  have "dropWhile is_py_space t = t" using False assms by (cases t) auto
  moreover have "dropWhile is_py_space (rev t) = rev t" using False assms by (cases t rule: rev_cases) auto
  ultimately show ?thesis by (simp add: py_strip_def)
qed (simp add: py_strip_def)

lemma digit_not_space: "is_digit c \<Longrightarrow> \<not> is_py_space c"
  by (auto simp: is_digit_def is_py_space_def)

lemma parse_digits_value:
  "list_all is_digit ds \<Longrightarrow> parse_digits (int a) ds = Some (int (foldl (\<lambda>n c. 10 * n + (of_char c - 48)) a ds))"
proof (induction ds arbitrary: a)
  case (Cons c ds)
  have "10 * int a + int (of_char c) - 48 = int (10 * a + (of_char c - 48))" using Cons(2) by (auto simp: is_digit_def)
  moreover have "parse_digits (int a) (c # ds) = parse_digits (10 * int a + int (of_char c) - 48) ds" using Cons(2) by simp
  moreover have "list_all is_digit ds" using Cons(2) by simp
  ultimately show ?case using Cons(1) [of "10 * a + (of_char c - 48)"] by simp
qed simp

lemma py_int_str: "length (str_of_nat n) \<le> 4300 \<Longrightarrow> py_int (str_of_nat n) = Some (int n)"
proof -
  assume l: "length (str_of_nat n) \<le> 4300"
  have d: "list_all is_digit (str_of_nat n)" "str_of_nat n \<noteq> []" using str_of_nat_digits [of n] by simp_all
  then have h: "is_digit (hd (str_of_nat n))" "is_digit (last (str_of_nat n))" by (simp_all add: list_all_iff)
  then have st: "py_strip (str_of_nat n) = str_of_nat n" using digit_not_space by (intro py_strip_id) simp
  have "hd (str_of_nat n) \<notin> set ''+-''" using h(1) by (auto simp: is_digit_def)
  moreover have "filter is_digit (str_of_nat n) = str_of_nat n" using d(1) by (simp add: filter_id_conv list_all_iff)
  moreover have "parse_digits 0 (str_of_nat n) = Some (int n)"
    using parse_digits_value [OF d(1), of 0] digits_value_str [of n] by (simp add: digits_value_def)
  ultimately show ?thesis using l d h by (auto simp: py_int_def st Let_def)
qed

text \<open>The request an agent sends to resume at an offset.\<close>

lemma parse_resume_range:
  assumes "length (str_of_nat k) \<le> 4300"
  shows "parse_range (Some (''bytes='' @ str_of_nat k @ ''-'')) n =
    (if int k < n then Inr (Some \<lparr>rg_start = int k, rg_end = n - 1\<rparr>) else Inl ())"
proof -
  have d: "list_all is_digit (str_of_nat k)" "str_of_nat k \<noteq> []" using str_of_nat_digits [of k] by simp_all
  have x: "\<not> is_digit CHR ''-''" "\<not> is_digit CHR '',''" "\<not> is_py_space CHR ''-''" by (simp_all add: is_digit_def is_py_space_def)
  have nd: "c \<noteq> CHR ''-''" "c \<noteq> CHR '',''" if "c \<in> set (str_of_nat k)" for c using that d x by (auto simp: list_all_iff)
  have h: "is_digit (hd (str_of_nat k))" "is_digit (last (str_of_nat k))" using d by (simp_all add: list_all_iff)
  have s1: "py_strip (str_of_nat k @ ''-'') = str_of_nat k @ ''-''"
    using h(1) d(2) x digit_not_space by (intro py_strip_id) simp
  have s2: "py_strip (str_of_nat k) = str_of_nat k" using h digit_not_space by (intro py_strip_id) simp
  have t: "takeWhile (\<lambda>c. c \<noteq> CHR ''-'') (str_of_nat k @ ''-'') = str_of_nat k"
    "dropWhile (\<lambda>c. c \<noteq> CHR ''-'') (str_of_nat k @ ''-'') = ''-''"
    using nd by (simp_all add: takeWhile_append dropWhile_append)
  have e: "py_strip [] = []" by (simp add: py_strip_def)
  have p: "py_int (str_of_nat k) = Some (int k)" by (rule py_int_str [OF assms])
  have "CHR '','' \<notin> set (str_of_nat k)" using nd by blast
  then show ?thesis
    by (simp add: parse_range_def RANGE_PREFIX_def Let_def s1 t s2 e resolve_bounds_def d(2) p)
qed

text \<open>A chunk is served as it lies in the file, at its first position.\<close>

lemma index_of_Some: "index_of xs x = Some i \<Longrightarrow> i < length xs \<and> xs ! i = x"
  by (induction xs arbitrary: i) (auto split: if_splits)

lemma index_of_mem: "x \<in> set xs \<Longrightarrow> \<exists>i. index_of xs x = Some i"
  by (induction xs) auto

lemma nth_slices: "i < length (slices n xs) \<Longrightarrow> slices n xs ! i = take n (drop (i * n) xs)"
proof (induction n xs arbitrary: i rule: slices.induct)
  case (1 n xs)
  show ?case
  proof (cases "n = 0 \<or> xs = []")
    case True
    then show ?thesis using 1(2) by (simp add: slices.simps [of n xs])
  next
    case False
    then have e: "slices n xs = take n xs # slices n (drop n xs)" by (simp add: slices.simps [of n xs])
    show ?thesis using 1 False by (cases i) (simp_all add: e add.commute)
  qed
qed

definition builder_fresh :: "(string \<Rightarrow> string) \<Rightarrow> ident \<Rightarrow> blob_file \<Rightarrow> mesh_builder \<Rightarrow> bool" where
  "builder_fresh sha model_id f b \<longleftrightarrow> 0 < mb_chunk_size b \<and>
     (\<forall>m signature. map_of (mb_cache b) model_id = Some ((int (length (bl_content f)), bl_mtime_ns f), m, signature) \<longrightarrow>
        build_manifest sha (bl_content f) model_id (mb_chunk_size b) = Some m \<and> signature = sign_manifest sha m (mb_key b))"

lemma builder_signed_spec:
  assumes "builder_fresh sha model_id f b"
  obtains m b1 where "build_manifest sha (bl_content f) model_id (mb_chunk_size b) = Some m"
    "builder_signed sha model_id f b = (Some (m, sign_manifest sha m (mb_key b)), b1)" "builder_fresh sha model_id f b1"
    "mb_chunk_size b1 = mb_chunk_size b" "mb_key b1 = mb_key b"
proof -
  obtain m where m: "build_manifest sha (bl_content f) model_id (mb_chunk_size b) = Some m"
    using assms build_manifest_total unfolding builder_fresh_def by blast
  show thesis
  proof (cases "\<exists>m' sg. map_of (mb_cache b) model_id = Some ((int (length (bl_content f)), bl_mtime_ns f), m', sg)")
    case True
    then show thesis using assms m that [of m b] by (auto simp: builder_fresh_def builder_signed_def)
  next
    case False
    let ?b = "b\<lparr>mb_cache := AList.update model_id
      ((int (length (bl_content f)), bl_mtime_ns f), m, sign_manifest sha m (mb_key b)) (mb_cache b)\<rparr>"
    have "builder_signed sha model_id f b = (Some (m, sign_manifest sha m (mb_key b)), ?b)"
      using False m by (auto simp: builder_signed_def Let_def split: option.split)
    moreover have "builder_fresh sha model_id f ?b" using assms m by (auto simp: builder_fresh_def AList.update_conv')
    ultimately show thesis using that m by simp
  qed
qed

lemma chunk_bytes_spec:
  assumes "builder_fresh sha model_id f b" and "build_manifest sha (bl_content f) model_id (mb_chunk_size b) = Some m"
    and "h \<in> set (mf_chunks m)"
  obtains data b1 where "chunk_bytes sha model_id f h b = (Some (Some data), b1)" "chunk_hash sha data = h"
    "data \<in> set (slices (nat (mb_chunk_size b)) (bl_content f))" "builder_fresh sha model_id f b1"
    "mb_chunk_size b1 = mb_chunk_size b" "mb_key b1 = mb_key b"
proof -
  obtain b1 where b: "builder_signed sha model_id f b = (Some (m, sign_manifest sha m (mb_key b)), b1)"
      "builder_fresh sha model_id f b1" "mb_chunk_size b1 = mb_chunk_size b" "mb_key b1 = mb_key b"
    using builder_signed_spec [OF assms(1)] assms(2) by (metis option.inject)
  note f = build_manifest_facts [OF assms(2)]
  obtain i where i: "index_of (mf_chunks m) h = Some i" using index_of_mem [OF assms(3)] by blast
  then have l: "i < length (slices (nat (mb_chunk_size b)) (bl_content f))" "mf_chunks m ! i = h"
    using index_of_Some [OF i] by (simp_all add: f(2))
  let ?data = "slices (nat (mb_chunk_size b)) (bl_content f) ! i"
  have "chunk_bytes sha model_id f h b = (Some (Some ?data), b1)"
    using b i l(1) by (simp add: chunk_bytes_def f(6) nth_slices)
  moreover have "chunk_hash sha ?data = h" using l f(2) by simp
  moreover have "?data \<in> set (slices (nat (mb_chunk_size b)) (bl_content f))" using l(1) by simp
  ultimately show thesis using that b(2-4) by blast
qed

end
