(* ===== verification/Agent_Models.thy ===== *)
theory Agent_Models
  imports Model_Serve App_Chunker
begin

text \<open>
  How an agent gets model files: the resumable, verified blob download (\<open>modelcache/store.py\<close>,
  \<open>download.py\<close>, \<open>paths.py\<close>) and the chunked fetch that falls back to it (\<open>mesh/store.py\<close>, \<open>fetch.py\<close>,
  \<open>wire.py\<close>, \<open>transport.py\<close>). A model's cache directory maps file names to contents. What the server
  answers, and what other tasks do while a call waits for the per-model lock, are arguments.
\<close>

section \<open>The cache directory\<close>

definition part_path :: "model_manifest \<Rightarrow> string" where
  "part_path mm = mm_file_name mm @ ''.part''"

definition marker_path :: "model_manifest \<Rightarrow> string" where
  "marker_path mm = mm_file_name mm @ ''.sha256''"

datatype cache_error = ModelFetchError | ModelVerificationError | FetchRaised mesh_error

text \<open>A marker that is not ASCII raises; one that is absent reads as \<open>None\<close>.\<close>

definition read_marker :: "string \<Rightarrow> directory \<Rightarrow> cache_error + string option" where
  "read_marker marker fs =
     (case map_of fs marker of
        None \<Rightarrow> Inr None
      | Some t \<Rightarrow>
          if \<exists>c \<in> set t. 128 \<le> (of_char c :: nat) then Inl (FetchRaised UnicodeError) else Inr (Some (py_strip t)))"

definition write_marker_atomic :: "string \<Rightarrow> string \<Rightarrow> directory \<Rightarrow> directory" where
  "write_marker_atomic marker digest fs =
     replace_file (marker @ ''.tmp'') marker (AList.update (marker @ ''.tmp'') digest fs)"

definition path_if_present :: "model_manifest \<Rightarrow> directory \<Rightarrow> cache_error + string option" where
  "path_if_present mm fs =
     (case map_of fs (mm_file_name mm) of
        None \<Rightarrow> Inr None
      | Some _ \<Rightarrow>
          (case read_marker (marker_path mm) fs of
             Inl e \<Rightarrow> Inl e
           | Inr t \<Rightarrow> Inr (if t = Some (mm_sha256 mm) then Some (mm_file_name mm) else None)))"

section \<open>Resumable download\<close>

text \<open>What one request meets: no response, or a status and the chunks that arrive before the stream
  ends (\<open>True\<close>: it broke off).\<close>

datatype attempt = NoResponse | Response int "string list" bool

definition range_header :: "string \<Rightarrow> directory \<Rightarrow> string option" where
  "range_header part fs =
     (case map_of fs part of
        None \<Rightarrow> None
      | Some v \<Rightarrow> if v = [] then None else Some (''bytes='' @ str_of_nat (length v) @ ''-''))"

text \<open>\<open>None\<close> is \<open>RetryableStatusError\<close>.\<close>

definition resolve_disposition :: "int \<Rightarrow> nat \<Rightarrow> (bool \<times> nat) option" where
  "resolve_disposition status existing =
     (if status = 206 then Some (True, existing) else if status = 200 then Some (False, 0) else None)"

definition stream_to_part ::
  "(string \<Rightarrow> string) \<Rightarrow> attempt \<Rightarrow> string \<Rightarrow> directory \<Rightarrow> (unit + string \<times> int) \<times> directory" where
  "stream_to_part sha att part fs =
     (let seeded = (case map_of fs part of None \<Rightarrow> [] | Some v \<Rightarrow> v)
      in case att of
           NoResponse \<Rightarrow> (Inl (), fs)
         | Response status chunks broke \<Rightarrow>
             (case resolve_disposition status (length seeded) of
                None \<Rightarrow> (Inl (), fs)
              | Some (appending, counted) \<Rightarrow>
                  let hashed = (if appending then seeded else []) @ concat chunks;
                      fs1 = AList.update part ((if appending then seeded else []) @ concat chunks) fs
                  in if broke then (Inl (), fs1)
                     else (Inr (hexstr (sha hashed), int counted + int (length (concat chunks))), fs1)))"

function fetch_with_retries ::
  "(string \<Rightarrow> string) \<Rightarrow> (nat \<Rightarrow> string option \<Rightarrow> attempt) \<Rightarrow> nat \<Rightarrow> nat \<Rightarrow> string \<Rightarrow> directory \<Rightarrow>
   (cache_error + string \<times> int) \<times> directory" where
  "fetch_with_retries sha serve max_retries k part fs =
     (case stream_to_part sha (serve k (range_header part fs)) part fs of
        (Inr r, fs1) \<Rightarrow> (Inr r, fs1)
      | (Inl _, fs1) \<Rightarrow>
          if max_retries < k + 1 then (Inl ModelFetchError, fs1)
          else fetch_with_retries sha serve max_retries (k + 1) part fs1)"
  by pat_completeness auto
termination by (relation "measure (\<lambda>(sha, serve, max_retries, k, part, fs). Suc max_retries - k)") auto

declare fetch_with_retries.simps [simp del]

text \<open>The directory after each of the two writes that publish a verified download.\<close>

definition publish_states :: "model_manifest \<Rightarrow> directory \<Rightarrow> directory list" where
  "publish_states mm fs =
     (let marked = write_marker_atomic (marker_path mm) (mm_sha256 mm) fs
      in [marked, replace_file (part_path mm) (mm_file_name mm) marked])"

definition download_and_verify ::
  "(string \<Rightarrow> string) \<Rightarrow> (nat \<Rightarrow> string option \<Rightarrow> attempt) \<Rightarrow> nat \<Rightarrow> model_manifest \<Rightarrow> directory \<Rightarrow>
   (cache_error + string) \<times> directory" where
  "download_and_verify sha serve max_retries mm fs =
     (case fetch_with_retries sha serve max_retries 0 (part_path mm) fs of
        (Inl e, fs1) \<Rightarrow> (Inl e, fs1)
      | (Inr (digest, n), fs1) \<Rightarrow>
          if digest = mm_sha256 mm \<and> n = mm_size_bytes mm
          then (Inr (mm_file_name mm), last (publish_states mm fs1))
          else (Inl ModelVerificationError, AList.delete (part_path mm) fs1))"

definition http_ensure ::
  "(string \<Rightarrow> string) \<Rightarrow> (nat \<Rightarrow> string option \<Rightarrow> attempt) \<Rightarrow> nat \<Rightarrow> (directory \<Rightarrow> directory) \<Rightarrow> model_manifest \<Rightarrow> directory \<Rightarrow>
   (cache_error + string) \<times> directory" where
  "http_ensure sha serve max_retries meanwhile mm fs =
     (case path_if_present mm fs of
        Inl e \<Rightarrow> (Inl e, fs)
      | Inr (Some p) \<Rightarrow> (Inr p, fs)
      | Inr None \<Rightarrow>
          let fs1 = meanwhile fs
          in case path_if_present mm fs1 of
               Inl e \<Rightarrow> (Inl e, fs1)
             | Inr (Some p) \<Rightarrow> (Inr p, fs1)
             | Inr None \<Rightarrow> download_and_verify sha serve max_retries mm fs1)"

section \<open>Mesh fetch\<close>

text \<open>\<open>str\<close> and \<open>int\<close> of a JSON value; the text of a value that is not a string is an argument.\<close>

definition json_str :: "(json \<Rightarrow> string) \<Rightarrow> json \<Rightarrow> string" where
  "json_str to_text v = (case v of JStr t \<Rightarrow> t | _ \<Rightarrow> to_text v)"

definition json_int :: "json \<Rightarrow> int option" where
  "json_int v =
     (case v of
        JInt n \<Rightarrow> Some n
      | JBool b \<Rightarrow> Some (if b then 1 else 0)
      | JFloat r \<Rightarrow> Some (if r < 0 then \<lceil>r\<rceil> else \<lfloor>r\<rfloor>)
      | JStr t \<Rightarrow> py_int t
      | _ \<Rightarrow> None)"

definition json_iter :: "(json \<Rightarrow> string) \<Rightarrow> json \<Rightarrow> string list option" where
  "json_iter to_text v =
     (case v of
        JList js \<Rightarrow> Some (map (json_str to_text) js)
      | JStr t \<Rightarrow> Some (map (\<lambda>c. [c]) t)
      | JObj kvs \<Rightarrow> Some (map fst kvs)
      | _ \<Rightarrow> None)"

definition parse_signed_manifest :: "(json \<Rightarrow> string) \<Rightarrow> json \<Rightarrow> mesh_error + manifest \<times> string" where
  "parse_signed_manifest to_text payload =
     (case payload of
        JObj kvs \<Rightarrow>
          (case (map_of kvs ''manifest'', map_of kvs ''signature'') of
             (Some (JObj raw), Some (JStr signature)) \<Rightarrow>
               (case (map_of raw ''model_id'', Option.bind (map_of raw ''total_size'') json_int,
                      Option.bind (map_of raw ''chunk_size'') json_int, map_of raw ''whole_file_sha256'',
                      Option.bind (map_of raw ''chunks'') (json_iter to_text), map_of raw ''merkle_root'') of
                  (Some mid, Some whole_n, Some chunk_n, Some whole, Some chunks, Some rt) \<Rightarrow>
                    Inr (\<lparr>mf_model_id = json_str to_text mid, mf_total_size = whole_n, mf_chunk_size = chunk_n,
                          mf_whole_file_sha256 = json_str to_text whole, mf_chunks = chunks,
                          mf_merkle_root = json_str to_text rt\<rparr>, signature)
                | _ \<Rightarrow> Inl MeshError)
           | _ \<Rightarrow> Inl MeshError)
      | _ \<Rightarrow> Inl MeshError)"

definition verified_mesh_manifest ::
  "(string \<Rightarrow> string) \<Rightarrow> (json \<Rightarrow> string) \<Rightarrow> json \<Rightarrow> string \<Rightarrow> string \<Rightarrow> mesh_error + manifest \<times> string" where
  "verified_mesh_manifest sha to_text payload key expected_sha256 =
     (case parse_signed_manifest to_text payload of
        Inl e \<Rightarrow> Inl e
      | Inr (m, signature) \<Rightarrow>
          (case verify_manifest sha m signature key of
             None \<Rightarrow> Inl TypeError
           | Some False \<Rightarrow> Inl MeshError
           | Some True \<Rightarrow> if mf_whole_file_sha256 m \<noteq> expected_sha256 then Inl MeshError else Inr (m, signature)))"

definition SEED_SKIP_SUFFIXES :: "string list" where
  "SEED_SKIP_SUFFIXES = [''.part'', ''.partial'', ''.sha256'', ''.tmp'']"

text \<open>A file is abandoned at the first chunk the store refuses.\<close>

fun seed_chunks :: "(string \<Rightarrow> string) \<Rightarrow> string list \<Rightarrow> chunk_store \<Rightarrow> chunk_store" where
  "seed_chunks sha [] s = s"
| "seed_chunks sha (data # ds) s =
     (case store_put sha data s of (Inl _, s1) \<Rightarrow> s1 | (Inr _, s1) \<Rightarrow> seed_chunks sha ds s1)"

definition seed_file :: "(string \<Rightarrow> string) \<Rightarrow> int \<Rightarrow> string \<times> string \<Rightarrow> chunk_store \<Rightarrow> chunk_store" where
  "seed_file sha chunk_size f s =
     (if path_suffix (fst f) \<in> set SEED_SKIP_SUFFIXES then s
      else case iter_file_chunks chunk_size (snd f) of None \<Rightarrow> s | Some ds \<Rightarrow> seed_chunks sha ds s)"

definition seed_store_from_dir :: "(string \<Rightarrow> string) \<Rightarrow> directory \<Rightarrow> int \<Rightarrow> chunk_store \<Rightarrow> chunk_store" where
  "seed_store_from_dir sha fs chunk_size s = fold (seed_file sha chunk_size) (sort_key fst fs) s"

definition coordinator_peer :: "manifest \<Rightarrow> (string \<Rightarrow> mesh_error + string) \<Rightarrow> peer" where
  "coordinator_peer m get_chunk = \<lparr>pr_available = remdups (mf_chunks m), pr_fetch = get_chunk\<rparr>"

definition fetch_and_reconstruct ::
  "(string \<Rightarrow> string) \<Rightarrow> manifest \<Rightarrow> string \<Rightarrow> string \<Rightarrow> peer list \<Rightarrow> chunk_store \<Rightarrow> string \<Rightarrow> directory \<Rightarrow>
   (mesh_error + unit) \<times> directory" where
  "fetch_and_reconstruct sha m signature key peers s dest fs =
     (case fetch_delta sha m (discover peers) s of
        (Inl e, s1) \<Rightarrow> (Inl e, fs)
      | (Inr _, s1) \<Rightarrow>
          (case verified_reconstruct sha m signature key s1 dest fs of (r, s2, fs1) \<Rightarrow> (r, fs1)))"

text \<open>The session: what the manifest request returns, and the peers for a manifest.\<close>

definition fetch_over_mesh ::
  "(string \<Rightarrow> string) \<Rightarrow> (json \<Rightarrow> string) \<Rightarrow> string \<Rightarrow> int \<Rightarrow> mesh_error + json \<Rightarrow> (manifest \<Rightarrow> peer list) \<Rightarrow> model_manifest \<Rightarrow>
   directory \<Rightarrow> (mesh_error + unit) \<times> directory" where
  "fetch_over_mesh sha to_text key capacity signed peers mm fs =
     (case signed of
        Inl e \<Rightarrow> (Inl e, fs)
      | Inr payload \<Rightarrow>
          (case verified_mesh_manifest sha to_text payload key (mm_sha256 mm) of
             Inl e \<Rightarrow> (Inl e, fs)
           | Inr (m, signature) \<Rightarrow>
               (case ChunkStore capacity of
                  Inl e \<Rightarrow> (Inl e, fs)
                | Inr s \<Rightarrow>
                    (case fetch_and_reconstruct sha m signature key (peers m)
                            (seed_store_from_dir sha fs (mf_chunk_size m) s) (mm_file_name mm) fs of
                       (Inl e, fs1) \<Rightarrow> (Inl e, fs1)
                     | (Inr _, fs1) \<Rightarrow> (Inr (), write_marker_atomic (marker_path mm) (mm_sha256 mm) fs1)))))"

text \<open>The errors the mesh store answers with the blob download.\<close>

fun is_fallback :: "mesh_error \<Rightarrow> bool" where
  "is_fallback VerificationError = True"
| "is_fallback (ChunkNotFound _) = True"
| "is_fallback MeshError = True"
| "is_fallback HTTPError = True"
| "is_fallback _ = False"

definition mesh_ensure ::
  "(string \<Rightarrow> string) \<Rightarrow> (json \<Rightarrow> string) \<Rightarrow> string \<Rightarrow> int \<Rightarrow> mesh_error + json \<Rightarrow> (manifest \<Rightarrow> peer list) \<Rightarrow>
   (directory \<Rightarrow> (cache_error + string) \<times> directory) \<Rightarrow> (directory \<Rightarrow> directory) \<Rightarrow> model_manifest \<Rightarrow> directory \<Rightarrow>
   (cache_error + string) \<times> directory" where
  "mesh_ensure sha to_text key capacity signed peers inner meanwhile mm fs =
     (case path_if_present mm fs of
        Inl e \<Rightarrow> (Inl e, fs)
      | Inr (Some p) \<Rightarrow> (Inr p, fs)
      | Inr None \<Rightarrow>
          let fs1 = meanwhile fs
          in case path_if_present mm fs1 of
               Inl e \<Rightarrow> (Inl e, fs1)
             | Inr (Some p) \<Rightarrow> (Inr p, fs1)
             | Inr None \<Rightarrow>
                 (case fetch_over_mesh sha to_text key capacity signed peers mm fs1 of
                    (Inr _, fs2) \<Rightarrow> (Inr (mm_file_name mm), fs2)
                  | (Inl e, fs2) \<Rightarrow> if is_fallback e then inner fs2 else (Inl (FetchRaised e), fs2)))"

section \<open>What reconstruction leaves on disk\<close>

lemma store_get_chunks [simp]: "map_of (ch_chunks (snd (store_get k s))) = map_of (ch_chunks s)"
  by (auto simp: store_get_def split: option.split)

lemma reconstruct_loop_spec:
  assumes "reconstruct_loop sha hs s out = (r, w, s')"
  shows "r = Inr () \<Longrightarrow> \<exists>pieces. w = out @ concat pieces \<and> map (chunk_hash sha) pieces = hs"
  using assms
proof (induction sha hs s out arbitrary: w rule: reconstruct_loop.induct)
  case (2 sha h hs s out)
  obtain g s1 where g: "store_get h s = (g, s1)" by fastforce
  then obtain data where d: "g = Inr data" "chunk_hash sha data = h" "reconstruct_loop sha hs s1 (out @ data) = (r, w, s')"
    using "2.prems" by (cases g) (auto split: if_splits)
  have "\<not> chunk_hash sha data \<noteq> h" using d(2) by simp
  from "2.IH" [OF g [symmetric] d(1) this "2.prems"(1) d(3)] obtain pieces
    where "w = (out @ data) @ concat pieces" "map (chunk_hash sha) pieces = hs" by auto
  then show ?case using d(2) by (intro exI [of _ "data # pieces"]) simp
qed simp

lemma replace_file_map_of:
  assumes "map_of fs src = Some v" "src \<noteq> dest"
  shows "map_of (replace_file src dest fs) = (map_of fs)(dest \<mapsto> v, src := None)"
  using assms by (auto simp: replace_file_def AList.update_conv' AList.delete_conv' fun_eq_iff)

lemma verified_reconstruct_spec:
  assumes "verified_reconstruct sha m signature key s dest fs = (r, s', fs')"
  shows "r = Inr () \<Longrightarrow> \<exists>pieces. map_of fs' = (map_of fs)(dest \<mapsto> concat pieces, dest @ ''.partial'' := None) \<and>
      map (chunk_hash sha) pieces = mf_chunks m \<and> hexstr (sha (concat pieces)) = mf_whole_file_sha256 m \<and>
      int (length (concat pieces)) = mf_total_size m \<and> verify_manifest sha m signature key = Some True"
    and "r = Inl e \<Longrightarrow> fs' = fs \<or> map_of fs' = (map_of fs)(dest @ ''.partial'' := None)"
proof -
  let ?tmp = "dest @ ''.partial''"
  obtain q w s1 where l: "reconstruct_loop sha (mf_chunks m) s [] = (q, w, s1)" by (metis prod_cases3)
  have u: "map_of (AList.update ?tmp w fs) = (map_of fs)(?tmp \<mapsto> w)" by (simp add: AList.update_conv')
  show "\<exists>pieces. map_of fs' = (map_of fs)(dest \<mapsto> concat pieces, ?tmp := None) \<and>
      map (chunk_hash sha) pieces = mf_chunks m \<and> hexstr (sha (concat pieces)) = mf_whole_file_sha256 m \<and>
      int (length (concat pieces)) = mf_total_size m \<and> verify_manifest sha m signature key = Some True" if r: "r = Inr ()"
  proof -
    have v: "verify_manifest sha m signature key = Some True"
      using assms r by (auto simp: verified_reconstruct_def split: option.splits bool.splits)
    then have a: "reconstruct_atomic sha m s dest fs = (Inr (), s', fs')" using assms r by (simp add: verified_reconstruct_def)
    then have q: "q = Inr ()" "int (length w) = mf_total_size m" "hexstr (sha w) = mf_whole_file_sha256 m"
      "fs' = replace_file ?tmp dest (AList.update ?tmp w fs)"
      using l by (auto simp: reconstruct_atomic_def reconstruct_def Let_def split: sum.splits if_splits)
    then obtain pieces where "w = concat pieces" "map (chunk_hash sha) pieces = mf_chunks m"
      using reconstruct_loop_spec [OF l] by auto
    then show ?thesis using q v u replace_file_map_of [of "AList.update ?tmp w fs" ?tmp w dest] by (auto simp: fun_upd_twist)
  qed
  show "fs' = fs \<or> map_of fs' = (map_of fs)(?tmp := None)" if "r = Inl e"
    using assms that l
    by (auto simp: verified_reconstruct_def reconstruct_atomic_def reconstruct_def Let_def AList.delete_conv' AList.update_conv'
        split: option.splits bool.splits sum.splits if_splits)
qed

section \<open>A present model is a verified model\<close>

text \<open>The marker of a file names the digest of its content.\<close>

definition trusted :: "(string \<Rightarrow> string) \<Rightarrow> string \<Rightarrow> directory \<Rightarrow> bool" where
  "trusted sha name fs \<longleftrightarrow>
     (\<forall>v t. map_of fs name = Some v \<longrightarrow> map_of fs (name @ ''.sha256'') = Some t \<longrightarrow> py_strip t = hexstr (sha v))"

lemma trusted_cong: "map_of fs name = map_of fs' name \<Longrightarrow> map_of fs (name @ ''.sha256'') = map_of fs' (name @ ''.sha256'') \<Longrightarrow>
    trusted sha name fs \<longleftrightarrow> trusted sha name fs'"
  by (simp add: trusted_def)

lemma path_if_present_facts:
  assumes "path_if_present mm fs = Inr (Some p)" "trusted sha (mm_file_name mm) fs"
  shows "p = mm_file_name mm \<and> (\<exists>v. map_of fs p = Some v \<and> hexstr (sha v) = mm_sha256 mm)"
  using assms by (auto simp: path_if_present_def read_marker_def trusted_def marker_path_def split: option.splits if_splits)

lemma write_marker_map_of:
  "map_of (write_marker_atomic marker digest fs) = (map_of fs)(marker \<mapsto> digest, marker @ ''.tmp'' := None)"
  by (simp add: write_marker_atomic_def replace_file_map_of AList.update_conv' fun_upd_twist)

lemma stream_to_part_spec:
  assumes "stream_to_part sha att part fs = (r, fs1)"
  shows "k \<noteq> part \<Longrightarrow> map_of fs1 k = map_of fs k"
    and "r = Inr (digest, n) \<Longrightarrow> \<exists>v. map_of fs1 part = Some v \<and> hexstr (sha v) = digest \<and> int (length v) = n"
  using assms
  by (auto simp: stream_to_part_def resolve_disposition_def Let_def AList.update_conv' split: attempt.splits option.splits if_splits)

lemma fetch_with_retries_spec:
  assumes "fetch_with_retries sha serve max_retries k part fs = (r, fs1)"
  shows "(\<forall>j. j \<noteq> part \<longrightarrow> map_of fs1 j = map_of fs j) \<and>
    (\<forall>digest n. r = Inr (digest, n) \<longrightarrow> (\<exists>v. map_of fs1 part = Some v \<and> hexstr (sha v) = digest \<and> int (length v) = n))"
  using assms
proof (induction sha serve max_retries k part fs rule: fetch_with_retries.induct)
  case (1 sha serve max_retries k part fs)
  obtain q fs2 where q: "stream_to_part sha (serve k (range_header part fs)) part fs = (q, fs2)" by fastforce
  note sp = stream_to_part_spec [OF q]
  show ?case
  proof (cases q)
    case (Inr a)
    then show ?thesis using "1.prems" q sp by (auto simp: fetch_with_retries.simps [of sha serve max_retries k])
  next
    case (Inl a)
    show ?thesis
    proof (cases "max_retries < k + 1")
      case True
      then show ?thesis using "1.prems" q Inl sp(1) by (auto simp: fetch_with_retries.simps [of sha serve max_retries k])
    next
      case False
      then have "fetch_with_retries sha serve max_retries (k + 1) part fs2 = (r, fs1)"
        using "1.prems" q Inl by (simp add: fetch_with_retries.simps [of sha serve max_retries k])
      from "1.IH" [OF q [symmetric] Inl False this] show ?thesis using sp(1) by auto
    qed
  qed
qed

lemma download_trusted:
  assumes "download_and_verify sha serve max_retries mm fs = (r, fs')" and "trusted sha (mm_file_name mm) fs"
    and "py_strip (mm_sha256 mm) = mm_sha256 mm"
  shows "trusted sha (mm_file_name mm) fs' \<and>
    (\<forall>p. r = Inr p \<longrightarrow> p = mm_file_name mm \<and> (\<exists>v. map_of fs' p = Some v \<and> hexstr (sha v) = mm_sha256 mm))"
proof -
  obtain q fs1 where q: "fetch_with_retries sha serve max_retries 0 (part_path mm) fs = (q, fs1)" by fastforce
  note sp = fetch_with_retries_spec [OF q]
  have n: "mm_file_name mm \<noteq> part_path mm" "mm_file_name mm @ ''.sha256'' \<noteq> part_path mm"
    "marker_path mm \<noteq> mm_file_name mm" "marker_path mm @ ''.tmp'' \<noteq> mm_file_name mm" "part_path mm \<noteq> marker_path mm @ ''.tmp''"
    by (simp_all add: part_path_def marker_path_def)
  have t1: "trusted sha (mm_file_name mm) fs1" using assms(2) sp n trusted_cong [of fs1 "mm_file_name mm" fs sha] by metis
  show ?thesis
  proof (cases "\<exists>digest k. q = Inr (digest, k) \<and> digest = mm_sha256 mm \<and> k = mm_size_bytes mm")
    case False
    then have "r \<noteq> Inr p" "fs' = fs1 \<or> fs' = AList.delete (part_path mm) fs1" for p
      using assms(1) q by (auto simp: download_and_verify_def split: sum.splits if_splits)
    moreover have "trusted sha (mm_file_name mm) (AList.delete (part_path mm) fs1)"
      using t1 n by (auto simp: trusted_def AList.delete_conv')
    ultimately show ?thesis using t1 by metis
  next
    case True
    then have e: "r = Inr (mm_file_name mm)"
      "fs' = replace_file (part_path mm) (mm_file_name mm) (write_marker_atomic (marker_path mm) (mm_sha256 mm) fs1)"
      using assms(1) q by (auto simp: download_and_verify_def publish_states_def Let_def)
    obtain v where v: "map_of fs1 (part_path mm) = Some v" "hexstr (sha v) = mm_sha256 mm" using True sp by blast
    have "map_of (write_marker_atomic (marker_path mm) (mm_sha256 mm) fs1) (part_path mm) = Some v"
      using v(1) n by (auto simp: write_marker_map_of part_path_def marker_path_def)
    then have m: "map_of fs' = (map_of fs1)(marker_path mm \<mapsto> mm_sha256 mm, marker_path mm @ ''.tmp'' := None,
        mm_file_name mm \<mapsto> v, part_path mm := None)"
      using replace_file_map_of n(1) e(2) by (metis write_marker_map_of)
    then show ?thesis using e(1) v n assms(3) by (auto simp: trusted_def marker_path_def)
  qed
qed

lemma mesh_fetch_trusted:
  assumes "fetch_over_mesh sha to_text key capacity signed peers mm fs = (r, fs')" and "trusted sha (mm_file_name mm) fs"
    and "py_strip (mm_sha256 mm) = mm_sha256 mm"
  shows "trusted sha (mm_file_name mm) fs' \<and> (r = Inr () \<longrightarrow> (\<exists>v. map_of fs' (mm_file_name mm) = Some v \<and> hexstr (sha v) = mm_sha256 mm))"
proof -
  let ?d = "mm_file_name mm"
  have keep: "trusted sha ?d fs'" if "map_of fs' = (map_of fs)(?d @ ''.partial'' := None)"
    using assms(2) that by (auto simp: trusted_def)
  show ?thesis
  proof (cases r)
    case (Inl e)
    then have "fs' = fs \<or> map_of fs' = (map_of fs)(?d @ ''.partial'' := None)"
      using assms(1)
      by (auto simp: fetch_over_mesh_def fetch_and_reconstruct_def split: sum.splits prod.splits dest!: verified_reconstruct_spec(2))
    then show ?thesis using keep assms(2) Inl by auto
  next
    case (Inr u)
    then obtain payload m signature s s1 s2 fs1 where p:
      "verified_mesh_manifest sha to_text payload key (mm_sha256 mm) = Inr (m, signature)"
      "verified_reconstruct sha m signature key s1 ?d fs = (Inr (), s2, fs1)"
      "fs' = write_marker_atomic (marker_path mm) (mm_sha256 mm) fs1"
      using assms(1) by (auto simp: fetch_over_mesh_def fetch_and_reconstruct_def split: sum.splits prod.splits)
    have w: "mf_whole_file_sha256 m = mm_sha256 mm"
      using p(1) by (auto simp: verified_mesh_manifest_def split: sum.splits option.splits bool.splits if_splits)
    obtain pieces where c: "map_of fs1 = (map_of fs)(?d \<mapsto> concat pieces, ?d @ ''.partial'' := None)"
      "hexstr (sha (concat pieces)) = mm_sha256 mm" using verified_reconstruct_spec(1) [OF p(2)] w by auto
    then show ?thesis using assms(3) by (auto simp: p(3) write_marker_map_of trusted_def marker_path_def)
  qed
qed

definition verified_outcome :: "(string \<Rightarrow> string) \<Rightarrow> model_manifest \<Rightarrow> (cache_error + string) \<times> directory \<Rightarrow> bool" where
  "verified_outcome sha mm out \<longleftrightarrow> trusted sha (mm_file_name mm) (snd out) \<and>
     (\<forall>p. fst out = Inr p \<longrightarrow> p = mm_file_name mm \<and> (\<exists>v. map_of (snd out) p = Some v \<and> hexstr (sha v) = mm_sha256 mm))"

lemma verified_error [simp]: "verified_outcome sha mm (Inl e, fs) \<longleftrightarrow> trusted sha (mm_file_name mm) fs"
  by (simp add: verified_outcome_def)

lemma verified_present:
  "path_if_present mm fs = Inr (Some p) \<Longrightarrow> trusted sha (mm_file_name mm) fs \<Longrightarrow> verified_outcome sha mm (Inr p, fs)"
  using path_if_present_facts by (auto simp: verified_outcome_def)

lemma http_ensure_verified:
  assumes "trusted sha (mm_file_name mm) fs" and "py_strip (mm_sha256 mm) = mm_sha256 mm"
    and "\<And>fs. trusted sha (mm_file_name mm) fs \<Longrightarrow> trusted sha (mm_file_name mm) (meanwhile fs)"
  shows "verified_outcome sha mm (http_ensure sha serve n meanwhile mm fs)"
proof -
  have "verified_outcome sha mm (download_and_verify sha serve n mm (meanwhile fs))"
    using download_trusted [of sha serve n mm "meanwhile fs", OF prod.collapse [symmetric] assms(3) [OF assms(1)] assms(2)]
    by (simp add: verified_outcome_def)
  then show ?thesis
    using assms(1) assms(3) [OF assms(1)]
    by (auto simp: http_ensure_def Let_def verified_present split: sum.split option.split)
qed

lemma mesh_ensure_verified:
  assumes "trusted sha (mm_file_name mm) fs" and "py_strip (mm_sha256 mm) = mm_sha256 mm"
    and "\<And>fs. trusted sha (mm_file_name mm) fs \<Longrightarrow> trusted sha (mm_file_name mm) (meanwhile fs)"
    and "\<And>fs. trusted sha (mm_file_name mm) fs \<Longrightarrow> verified_outcome sha mm (inner fs)"
  shows "verified_outcome sha mm (mesh_ensure sha to_text key capacity signed peers inner meanwhile mm fs)"
proof -
  obtain q fs2 where q: "fetch_over_mesh sha to_text key capacity signed peers mm (meanwhile fs) = (q, fs2)" by fastforce
  note m = mesh_fetch_trusted [OF q assms(3) [OF assms(1)] assms(2)]
  have "verified_outcome sha mm (case (q, fs2) of (Inr _, fs2) \<Rightarrow> (Inr (mm_file_name mm), fs2)
      | (Inl e, fs2) \<Rightarrow> if is_fallback e then inner fs2 else (Inl (FetchRaised e), fs2))"
    using m assms(4) by (cases q) (auto simp: verified_outcome_def)
  then show ?thesis
    using assms(1) assms(3) [OF assms(1)]
    by (auto simp: mesh_ensure_def Let_def q verified_present split: sum.split option.split)
qed

lemma hexstr_plain: "c \<in> set (hexstr bs) \<Longrightarrow> of_char c < (128 :: nat) \<and> \<not> is_py_space c"
proof (induction bs)
  case (Cons b bs)
  have "list_all (\<lambda>i. of_char (''0123456789abcdef'' ! i) < (128 :: nat) \<and> \<not> is_py_space (''0123456789abcdef'' ! i)) [0..<16]"
    by code_simp
  then have "of_char (hex_digit k) < (128 :: nat) \<and> \<not> is_py_space (hex_digit k)" for k
    by (simp add: list_all_iff hex_digit_def)
  then show ?case using Cons by auto
qed simp

lemma strip_hexstr [simp]: "py_strip (hexstr bs) = hexstr bs"
  using hexstr_plain [of _ bs] by (intro py_strip_id) auto

text \<open>A concrete coordinator with one enrolled agent and one model file.\<close>

definition demo_mm :: model_manifest where
  "demo_mm = \<lparr>mm_model_id = ''m'', mm_family = ''f'', mm_quant = ''q'', mm_worker_kind = EMBED, mm_file_name = ''m.gguf'',
     mm_sha256 = hexstr (demo_digest ''abcdef''), mm_size_bytes = 6, mm_min_ram_mb = 1, mm_min_vram_mb = 0,
     mm_default_args = [], mm_chat_template_hint = None, mm_license = None, mm_source_url = None\<rparr>"

definition demo_serving :: registry_db where
  "demo_serving = put_model 3 demo_mm ''/blobs/m'' True
     (rdb1\<lparr>registry_agents := map (\<lambda>r. r\<lparr>a_device_token_hash := hexstr (demo_digest ''dev'')\<rparr>) (registry_agents rdb1)\<rparr>)"

definition demo_blob :: blob_file where
  "demo_blob = \<lparr>bl_content = ''abcdef'', bl_mtime_ns = 7\<rparr>"

definition demo_files :: blob_files where
  "demo_files = (\<lambda>p. if p = ''/blobs/m'' then Some demo_blob else None)"

lemma demo_mm_sel [simp]:
  "mm_model_id demo_mm = ''m''" "mm_file_name demo_mm = ''m.gguf''" "mm_sha256 demo_mm = hexstr (demo_digest ''abcdef'')"
  "mm_size_bytes demo_mm = 6"
  by (simp_all add: demo_mm_def)

text \<open>C14: A model path an agent is given names a verified file. Whatever the server, the peers and the
  coordinator's manifest say, and whatever other tasks do to the directory while keeping it trusted, both
  model stores return a path only when the file there has the digest the manifest asks for, and leave the
  directory trusted (a marker beside a file names the file's digest) on every outcome.\<close>

theorem ensured_model_verified:
  assumes "trusted sha (mm_file_name mm) fs" and "py_strip (mm_sha256 mm) = mm_sha256 mm"
    and "\<And>fs. trusted sha (mm_file_name mm) fs \<Longrightarrow> trusted sha (mm_file_name mm) (meanwhile fs)"
    and "\<And>fs. trusted sha (mm_file_name mm) fs \<Longrightarrow> trusted sha (mm_file_name mm) (meanwhile' fs)"
    and "(r, fs') \<in> {http_ensure sha serve n meanwhile mm fs,
      mesh_ensure sha to_text key capacity signed peers (http_ensure sha serve n meanwhile' mm) meanwhile mm fs}"
  shows "trusted sha (mm_file_name mm) fs' \<and>
    (\<forall>p. r = Inr p \<longrightarrow> p = mm_file_name mm \<and> (\<exists>v. map_of fs' p = Some v \<and> hexstr (sha v) = mm_sha256 mm))"
proof -
  have inner: "verified_outcome sha mm (http_ensure sha serve n meanwhile' mm gs)" if "trusted sha (mm_file_name mm) gs" for gs
    using http_ensure_verified [OF that assms(2)] assms(4) by blast
  have "verified_outcome sha mm (http_ensure sha serve n meanwhile mm fs)"
    by (rule http_ensure_verified [OF assms(1,2)]) (erule assms(3))
  moreover have "verified_outcome sha mm (mesh_ensure sha to_text key capacity signed peers
      (http_ensure sha serve n meanwhile' mm) meanwhile mm fs)"
    by (rule mesh_ensure_verified [OF assms(1,2)]) (erule assms(3), erule inner)
  ultimately have "verified_outcome sha mm (r, fs')" using assms(5) by auto
  then show ?thesis by (simp add: verified_outcome_def)
qed

theorem ensured_model_verified_witness:
  "\<exists>fs'. http_ensure demo_digest (\<lambda>k rng. Response 200 [''abc'', ''def''] False) 0 id demo_mm [] = (Inr ''m.gguf'', fs') \<and>
     map_of fs' ''m.gguf'' = Some ''abcdef'' \<and> trusted demo_digest ''m.gguf'' fs'"
proof -
  let ?out = "http_ensure demo_digest (\<lambda>k rng. Response 200 [''abc'', ''def''] False) 0 id demo_mm []"
  have o: "fst ?out = Inr ''m.gguf''" "map_of (snd ?out) ''m.gguf'' = Some ''abcdef''"
    by (simp_all add: http_ensure_def path_if_present_def download_and_verify_def fetch_with_retries.simps stream_to_part_def
        resolve_disposition_def publish_states_def Let_def replace_file_def write_marker_atomic_def part_path_def marker_path_def)
  have "trusted demo_digest (mm_file_name demo_mm) (snd ?out)"
    using ensured_model_verified [of demo_digest demo_mm "[]" id id "fst ?out" "snd ?out" "\<lambda>k rng. Response 200 [''abc'', ''def''] False" 0]
    by (simp add: trusted_def)
  then show ?thesis using o by (metis demo_mm_sel(2) prod.collapse)
qed

section \<open>Interrupted downloads\<close>

text \<open>The coordinator's blob route as the agent meets it, and the same route over a link that breaks off
  the first responses after the given numbers of bytes.\<close>

definition coordinator_serve ::
  "(string \<Rightarrow> string) \<Rightarrow> blob_files \<Rightarrow> registry_db \<Rightarrow> string option \<Rightarrow> ident \<Rightarrow> nat \<Rightarrow> string option \<Rightarrow> attempt" where
  "coordinator_serve sha files db hdr model_id k rng =
     (case get_blob sha files db hdr model_id rng of
        Inl e \<Rightarrow> Response (status_of e) [] False
      | Inr resp \<Rightarrow> Response (bs_status resp) (bs_body resp) False)"

definition breaking_serve :: "nat list \<Rightarrow> (nat \<Rightarrow> string option \<Rightarrow> attempt) \<Rightarrow> nat \<Rightarrow> string option \<Rightarrow> attempt" where
  "breaking_serve drops serve k rng =
     (case serve k rng of
        Response status chunks broke \<Rightarrow>
          if k < length drops then Response status [take (drops ! k) (concat chunks)] True else Response status chunks broke
      | NoResponse \<Rightarrow> NoResponse)"

definition serves_blob ::
  "(string \<Rightarrow> string) \<Rightarrow> blob_files \<Rightarrow> registry_db \<Rightarrow> string option \<Rightarrow> ident \<Rightarrow> blob_file \<Rightarrow> bool" where
  "serves_blob sha files db hdr model_id f \<longleftrightarrow>
     (\<exists>aid rcd. httpauth_agent (hexstr \<circ> sha) db hdr = Inr aid \<and> get_model db model_id = Some rcd \<and> mr_enabled rcd \<and>
        files (mr_blob_path rcd) = Some f)"

lemma length_str_of_nat: "n < 10 ^ Suc k \<Longrightarrow> length (str_of_nat n) \<le> Suc k"
proof (induction k arbitrary: n)
  case 0
  then show ?case by (simp add: str_of_nat.simps)
next
  case (Suc k)
  have "n div 10 < 10 ^ Suc k" using Suc(2) by (intro less_mult_imp_div_less) (simp add: mult.commute)
  then show ?case using Suc(1) by (subst str_of_nat.simps) simp
qed

lemma offset_digits: "n < 10 ^ 18 \<Longrightarrow> length (str_of_nat n) \<le> 4300"
  using length_str_of_nat [of n 17] by simp

definition part_bytes :: "string \<Rightarrow> directory \<Rightarrow> string" where
  "part_bytes part fs = (case map_of fs part of None \<Rightarrow> [] | Some v \<Rightarrow> v)"

lemma coordinator_answer:
  assumes "serves_blob sha files db hdr mid f" and "length (part_bytes part fs) < 10 ^ 18"
  shows "coordinator_serve sha files db hdr mid k (range_header part fs) =
    (let v = part_bytes part fs; n = length (bl_content f)
     in if v = [] then Response 200 (stream_file (bl_content f) 0 (int n)) False
        else if length v < n then Response 206 (stream_file (bl_content f) (int (length v)) (int n - int (length v))) False
        else Response 416 [] False)"
proof -
  have "range_header part fs =
      (if part_bytes part fs = [] then None else Some (''bytes='' @ str_of_nat (length (part_bytes part fs)) @ ''-''))"
    by (simp add: range_header_def part_bytes_def split: option.split)
  moreover note parse_resume_range [OF offset_digits [OF assms(2)], of "int (length (bl_content f))"]
  ultimately show ?thesis
    using assms(1)
    by (auto simp: coordinator_serve_def get_blob_def serves_blob_def Let_def parse_range_def [of None] full_response_def
        partial_response_def)
qed

lemma stream_attempt:
  assumes "serves_blob sha files db hdr mid f" "part_bytes part fs = take q (bl_content f)" "q < length (bl_content f)"
    "length (bl_content f) < 10 ^ 18"
  shows "\<exists>fs1. stream_to_part sha (breaking_serve drops (coordinator_serve sha files db hdr mid) k (range_header part fs)) part fs =
      (if k < length drops then Inl () else Inr (hexstr (sha (bl_content f)), int (length (bl_content f))), fs1) \<and>
    map_of fs1 = (map_of fs)(part \<mapsto> if k < length drops then take (q + drops ! k) (bl_content f) else bl_content f)"
proof -
  let ?c = "bl_content f"
  have l: "length (part_bytes part fs) = q" using assms(2,3) by simp
  then have d: "length (part_bytes part fs) < 10 ^ 18" using assms(3,4) by linarith
  have e: "part_bytes part fs = [] \<longleftrightarrow> q = 0" using l by auto
  have sd: "(case map_of fs part of None \<Rightarrow> [] | Some v \<Rightarrow> v) = take q ?c" using assms(2) by (simp add: part_bytes_def)
  have body: "concat (stream_file ?c 0 (int (length ?c))) = ?c" "take q ?c @ concat (stream_file ?c (int q) (int (length ?c) - int q)) = ?c"
    using assms(3) by (simp_all add: concat_stream_file nat_diff_distrib)
  have tk: "take q ?c @ take m (concat (stream_file ?c (int q) (int (length ?c) - int q))) = take (q + m) ?c" for m
    using assms(3) by (simp add: concat_stream_file nat_diff_distrib take_add)
  have len: "int q + int (length (concat (stream_file ?c (int q) (int (length ?c) - int q)))) = int (length ?c)"
    using assms(3) by (simp add: concat_stream_file)
  show ?thesis
    using assms(3)
    by (cases "q = 0")
      (simp_all add: coordinator_answer [OF assms(1) d] breaking_serve_def Let_def e l stream_to_part_def resolve_disposition_def sd
        body tk len AList.update_conv' fun_eq_iff)
qed

lemma resumed_fetch:
  assumes "serves_blob sha files db hdr mid f" "length (bl_content f) < 10 ^ 18" "length drops \<le> n"
  shows "k \<le> length drops \<Longrightarrow> part_bytes part fs = take q (bl_content f) \<Longrightarrow>
    q + sum_list (drop k drops) < length (bl_content f) \<Longrightarrow>
    \<exists>fs1. fetch_with_retries sha (breaking_serve drops (coordinator_serve sha files db hdr mid)) n k part fs =
        (Inr (hexstr (sha (bl_content f)), int (length (bl_content f))), fs1) \<and>
      map_of fs1 = (map_of fs)(part \<mapsto> bl_content f)"
proof (induction "length drops - k" arbitrary: k q fs)
  case 0
  have "q < length (bl_content f)" using 0(4) by simp
  from stream_attempt [OF assms(1) 0(3) this assms(2), where k = k and drops = drops] show ?case
    using 0(1) by (auto simp: fetch_with_retries.simps [of _ _ _ k])
next
  case (Suc m)
  then have k: "k < length drops" by simp
  have dr: "sum_list (drop k drops) = drops ! k + sum_list (drop (k + 1) drops)"
    using k by (simp add: Cons_nth_drop_Suc [symmetric])
  have q: "q < length (bl_content f)" using Suc(5) by simp
  obtain fs1 where f1: "stream_to_part sha (breaking_serve drops (coordinator_serve sha files db hdr mid) k (range_header part fs)) part fs = (Inl (), fs1)"
    "map_of fs1 = (map_of fs)(part \<mapsto> take (q + drops ! k) (bl_content f))"
    using stream_attempt [OF assms(1) Suc(4) q assms(2), where k = k and drops = drops] k by auto
  have "part_bytes part fs1 = take (q + drops ! k) (bl_content f)" by (simp add: part_bytes_def f1(2))
  moreover have "q + drops ! k + sum_list (drop (k + 1) drops) < length (bl_content f)" using Suc(5) dr by simp
  moreover have "m = length drops - (k + 1)" "k + 1 \<le> length drops" using Suc(2) k by simp_all
  ultimately obtain fs2 where "fetch_with_retries sha (breaking_serve drops (coordinator_serve sha files db hdr mid)) n (k + 1) part fs1 =
        (Inr (hexstr (sha (bl_content f)), int (length (bl_content f))), fs2)" "map_of fs2 = (map_of fs1)(part \<mapsto> bl_content f)"
    using Suc(1) [of "k + 1" fs1 "q + drops ! k"] by blast
  then show ?case using f1 k assms(3) by (auto simp: fetch_with_retries.simps [of _ _ _ k])
qed

text \<open>C23: An interrupted download resumes and completes. When the partial file is a proper prefix of the
  coordinator's blob (or there is none) and the connection breaks off a number of times within the retry
  budget, each time before the last byte, the store asks for the rest with a range request, the
  coordinator's blob route answers it, and the verified file is exactly the blob, with its marker.\<close>

theorem interrupted_download_resumes:
  assumes "serves_blob sha files db hdr (mm_model_id mm) f" and "length (bl_content f) < 10 ^ 18"
    and "path_if_present mm fs = Inr None" and "part_bytes (part_path mm) fs = take q (bl_content f)"
    and "q + sum_list drops < length (bl_content f)" and "length drops \<le> n"
    and "mm_sha256 mm = hexstr (sha (bl_content f))" and "mm_size_bytes mm = int (length (bl_content f))"
  shows "\<exists>fs'. http_ensure sha (breaking_serve drops (coordinator_serve sha files db hdr (mm_model_id mm))) n id mm fs =
      (Inr (mm_file_name mm), fs') \<and> map_of fs' (mm_file_name mm) = Some (bl_content f) \<and>
    map_of fs' (marker_path mm) = Some (mm_sha256 mm) \<and> map_of fs' (part_path mm) = None"
proof -
  let ?S = "breaking_serve drops (coordinator_serve sha files db hdr (mm_model_id mm))"
  obtain fs1 where f1: "fetch_with_retries sha ?S n 0 (part_path mm) fs =
      (Inr (hexstr (sha (bl_content f)), int (length (bl_content f))), fs1)"
    "map_of fs1 = (map_of fs)(part_path mm \<mapsto> bl_content f)"
    using resumed_fetch [OF assms(1,2,6), of 0 "part_path mm" fs q] assms(4,5) by auto
  let ?w = "write_marker_atomic (marker_path mm) (mm_sha256 mm) fs1"
  have n: "part_path mm \<noteq> mm_file_name mm" "part_path mm \<noteq> marker_path mm" "part_path mm \<noteq> marker_path mm @ ''.tmp''"
    "marker_path mm \<noteq> mm_file_name mm"
    by (simp_all add: part_path_def marker_path_def)
  have "map_of ?w (part_path mm) = Some (bl_content f)" using n by (simp add: write_marker_map_of f1(2))
  then have "map_of (last (publish_states mm fs1)) = (map_of ?w)(mm_file_name mm \<mapsto> bl_content f, part_path mm := None)"
    using n(1) by (simp add: publish_states_def Let_def replace_file_map_of)
  moreover have "http_ensure sha ?S n id mm fs = (Inr (mm_file_name mm), last (publish_states mm fs1))"
    using assms(3,7,8) f1(1) by (simp add: http_ensure_def download_and_verify_def)
  ultimately show ?thesis using n by (auto simp: write_marker_map_of)
qed

lemma demo_serves: "serves_blob demo_digest demo_files demo_serving (Some ''Bearer dev'') ''m'' demo_blob"
proof -
  have "httpauth_bearer (Some ''Bearer dev'') = Some ''dev''" by code_simp
  then have "httpauth_agent (hexstr \<circ> demo_digest) demo_serving (Some ''Bearer dev'') = Inr ''A''"
    by (simp add: httpauth_agent_def authenticate_agent_def demo_serving_def put_model_def rdb1_eq INSERT_AGENT_def row_of_def)
  then show ?thesis
    by (simp add: serves_blob_def demo_serving_def put_model_def get_model_def rdb1_eq empty_registry_def upsert_def row_of_def
        demo_files_def)
qed

theorem interrupted_download_resumes_witness:
  "\<exists>fs'. http_ensure demo_digest (breaking_serve [1, 2] (coordinator_serve demo_digest demo_files demo_serving (Some ''Bearer dev'') ''m''))
       3 id demo_mm [(''m.gguf.part'', ''ab'')] = (Inr ''m.gguf'', fs') \<and> map_of fs' ''m.gguf'' = Some ''abcdef''"
  using interrupted_download_resumes [of demo_digest demo_files demo_serving "Some ''Bearer dev''" demo_mm demo_blob
      "[(''m.gguf.part'', ''ab'')]" 2 "[1, 2]" 3] demo_serves
  by (auto simp: demo_blob_def path_if_present_def part_bytes_def part_path_def)

text \<open>C30: A partial file that is already complete can never be finished. When the partial file is at least as
  long as the coordinator's blob, as after a stop between the last byte and the rename, every range
  request is answered with 416, which the store retries until its budget is spent: each call fails, for
  every retry budget, and leaves the directory as it was, so the model stays out of reach.\<close>

theorem complete_part_wedges:
  assumes "serves_blob sha files db hdr (mm_model_id mm) f" and "path_if_present mm fs = Inr None"
    and "map_of fs (part_path mm) = Some v" and "v \<noteq> []" and "length (bl_content f) \<le> length v" and "length v < 10 ^ 18"
  shows "http_ensure sha (coordinator_serve sha files db hdr (mm_model_id mm)) n id mm fs = (Inl ModelFetchError, fs)"
proof -
  let ?S = "coordinator_serve sha files db hdr (mm_model_id mm)"
  have pb: "part_bytes (part_path mm) fs = v" using assms(3) by (simp add: part_bytes_def)
  have "?S k (range_header (part_path mm) fs) = Response 416 [] False" for k
    using coordinator_answer [OF assms(1), of "part_path mm" fs k] assms(4-6) by (simp add: pb Let_def)
  then have st: "stream_to_part sha (?S k (range_header (part_path mm) fs)) (part_path mm) fs = (Inl (), fs)" for k
    by (simp add: stream_to_part_def resolve_disposition_def)
  have "fetch_with_retries sha ?S n k (part_path mm) fs = (Inl ModelFetchError, fs)" for k
    by (induction "Suc n - k" arbitrary: k) (subst fetch_with_retries.simps, simp add: st)+
  then show ?thesis using assms(2) by (simp add: http_ensure_def download_and_verify_def)
qed

theorem complete_part_wedges_witness:
  "http_ensure demo_digest (coordinator_serve demo_digest demo_files demo_serving (Some ''Bearer dev'') ''m'') 3 id demo_mm
     [(''m.gguf.part'', ''abcdef'')] = (Inl ModelFetchError, [(''m.gguf.part'', ''abcdef'')])"
  using complete_part_wedges [of demo_digest demo_files demo_serving "Some ''Bearer dev''" demo_mm demo_blob
      "[(''m.gguf.part'', ''abcdef'')]" "''abcdef''" 3] demo_serves
  by (simp add: demo_blob_def path_if_present_def part_path_def)

text \<open>C31: A crash while publishing an upgrade leaves the old file trusted as the new one. The marker is written
  before the verified download is moved into place; if the process stops between the two writes while an
  older file of the same name is in the directory, the next start finds the new manifest's digest in the
  marker and serves the old file, whose digest is another.\<close>

theorem crash_trusts_stale_blob:
  assumes "map_of fs (mm_file_name mm) = Some old" and "hexstr (sha old) \<noteq> mm_sha256 mm"
    and "mm_sha256 mm = hexstr (sha content)"
  shows "path_if_present mm (hd (publish_states mm fs)) = Inr (Some (mm_file_name mm)) \<and>
    map_of (hd (publish_states mm fs)) (mm_file_name mm) = Some old \<and> \<not> trusted sha (mm_file_name mm) (hd (publish_states mm fs))"
proof -
  have st: "py_strip (mm_sha256 mm) = mm_sha256 mm" by (simp add: assms(3))
  have as: "\<not> (\<exists>c \<in> set (mm_sha256 mm). 128 \<le> (of_char c :: nat))"
    using hexstr_plain [of _ "sha content"] unfolding assms(3) by (meson leD)
  have "marker_path mm \<noteq> mm_file_name mm" "marker_path mm @ ''.tmp'' \<noteq> mm_file_name mm" by (simp_all add: marker_path_def)
  then have m: "map_of (hd (publish_states mm fs)) (mm_file_name mm) = Some old"
    "map_of (hd (publish_states mm fs)) (marker_path mm) = Some (mm_sha256 mm)"
    using assms(1) by (simp_all add: publish_states_def Let_def write_marker_map_of)
  then show ?thesis
    using st as assms(2) by (auto simp: path_if_present_def read_marker_def trusted_def marker_path_def)
qed

theorem crash_trusts_stale_blob_witness:
  "path_if_present demo_mm (hd (publish_states demo_mm [(''m.gguf'', ''old''), (''m.gguf.part'', ''abcdef'')])) = Inr (Some ''m.gguf'') \<and>
   map_of (hd (publish_states demo_mm [(''m.gguf'', ''old''), (''m.gguf.part'', ''abcdef'')])) ''m.gguf'' = Some ''old''"
proof -
  have "demo_digest ''old'' \<noteq> demo_digest ''abcdef''" by code_simp
  then have "hexstr (demo_digest ''old'') \<noteq> hexstr (demo_digest ''abcdef'')" using hexstr_inj by blast
  then show ?thesis
    using crash_trusts_stale_blob [of "[(''m.gguf'', ''old''), (''m.gguf.part'', ''abcdef'')]" demo_mm "''old''" demo_digest "''abcdef''"]
    by simp
qed

section \<open>The mesh delivers the coordinator's file\<close>

lemma holders_update: "holders (AList.update h ps idx) k = (if k = h then ps else holders idx k)"
  by (simp add: holders_def AList.update_conv')

lemma discover_one: "distinct (pr_available p) \<Longrightarrow> holders (discover [p]) h = (if h \<in> set (pr_available p) then [p] else [])"
proof -
  have "holders (fold (\<lambda>h d. AList.update h (holders d h @ [p]) d) hs idx) h = holders idx h @ (if h \<in> set hs then [p] else [])"
    if "distinct hs" for hs idx
    using that by (induction hs arbitrary: idx) (auto simp: holders_update)
  then show "distinct (pr_available p) \<Longrightarrow> ?thesis" by (simp add: discover_def holders_def)
qed

lemma missing_loop_spec: "distinct (missing_loop a seen hs) \<and> set (missing_loop a seen hs) = set hs - set a - set seen"
  by (induction a seen hs rule: missing_loop.induct) auto

lemma store_put_fits:
  assumes "ch_used s + int (length data) \<le> ch_max_bytes s" "0 \<le> ch_used s" "map_of (ch_chunks s) (chunk_hash sha data) = None"
  shows "store_put sha data s = (Inr (chunk_hash sha data),
    s\<lparr>ch_used := ch_used s + int (length data), ch_chunks := ch_chunks s @ [(chunk_hash sha data, data)]\<rparr>)"
proof -
  have "evict_until_fits (ch_max_bytes s) (int (length data)) (ch_used s) (ch_chunks s) = (ch_used s, ch_chunks s)"
    using assms(1) by (cases "ch_chunks s") simp_all
  then show ?thesis using assms by (simp add: store_put_def Let_def bytes_of_update)
qed

lemma fetch_loop_complete:
  assumes "\<And>h. h \<in> set hs \<Longrightarrow> \<exists>p ps. holders idx h = p # ps \<and> pr_fetch p h = Inr (src h) \<and> chunk_hash sha (src h) = h"
    and "distinct hs" and "\<And>h. h \<in> set hs \<Longrightarrow> map_of (ch_chunks s) h = None" and "0 \<le> ch_used s"
    and "ch_used s + (\<Sum>h \<leftarrow> hs. int (length (src h))) \<le> ch_max_bytes s"
  shows "\<exists>s'. fetch_loop sha idx hs s = (Inr hs, s') \<and> ch_chunks s' = ch_chunks s @ map (\<lambda>h. (h, src h)) hs"
  using assms
proof (induction hs arbitrary: s)
  case (Cons h hs)
  obtain p ps where p: "holders idx h = p # ps" "pr_fetch p h = Inr (src h)" "chunk_hash sha (src h) = h" using Cons.prems(1) by force
  have nn: "0 \<le> (\<Sum>h \<leftarrow> hs. int (length (src h)))" by (induction hs) simp_all
  let ?s = "s\<lparr>ch_used := ch_used s + int (length (src h)), ch_chunks := ch_chunks s @ [(h, src h)]\<rparr>"
  have pt: "store_put sha (src h) s = (Inr h, ?s)"
    using store_put_fits [of s "src h" sha] Cons.prems(3-5) nn p(3) by simp
  have "\<exists>s'. fetch_loop sha idx hs ?s = (Inr hs, s') \<and> ch_chunks s' = ch_chunks ?s @ map (\<lambda>h. (h, src h)) hs"
    using Cons.prems by (intro Cons.IH) (auto simp: map_add_def)
  then show ?case using p pt by auto
qed simp

lemma reconstruct_loop_complete:
  "(\<And>h. h \<in> set hs \<Longrightarrow> \<exists>v. map_of (ch_chunks s) h = Some v \<and> chunk_hash sha v = h) \<Longrightarrow>
   \<exists>s'. reconstruct_loop sha hs s out = (Inr (), out @ concat (map (\<lambda>h. the (map_of (ch_chunks s) h)) hs), s')"
proof (induction hs arbitrary: s out)
  case (Cons h hs)
  obtain v where v: "map_of (ch_chunks s) h = Some v" "chunk_hash sha v = h" using Cons.prems by force
  let ?s = "s\<lparr>ch_chunks := od_move_to_end h (ch_chunks s)\<rparr>"
  have "store_get h s = (Inr v, ?s)" using v(1) by (simp add: store_get_def)
  moreover have "\<exists>s'. reconstruct_loop sha hs ?s (out @ v) = (Inr (), (out @ v) @ concat (map (\<lambda>h. the (map_of (ch_chunks ?s) h)) hs), s')"
    using Cons.prems by (intro Cons.IH) simp
  ultimately show ?case using v by auto
qed simp

text \<open>Seeding only adds chunks of the files it reads, and no more bytes than they have.\<close>

definition seeded_within :: "string set \<Rightarrow> int \<Rightarrow> chunk_store \<Rightarrow> chunk_store \<Rightarrow> bool" where
  "seeded_within ds n s s' \<longleftrightarrow> ch_max_bytes s' = ch_max_bytes s \<and> ch_used s' \<le> ch_used s + n \<and>
     snd ` set (ch_chunks s') \<subseteq> snd ` set (ch_chunks s) \<union> ds"

lemma within_refl: "0 \<le> n \<Longrightarrow> seeded_within ds n s s"
  by (simp add: seeded_within_def)

lemma within_trans:
  assumes "seeded_within ds m s t" "seeded_within ds' n t u"
  shows "seeded_within (ds \<union> ds') (m + n) s u"
proof -
  have "snd ` set (ch_chunks u) \<subseteq> snd ` set (ch_chunks t) \<union> ds'" "snd ` set (ch_chunks t) \<subseteq> snd ` set (ch_chunks s) \<union> ds"
    using assms by (simp_all add: seeded_within_def)
  then have "snd ` set (ch_chunks u) \<subseteq> snd ` set (ch_chunks s) \<union> (ds \<union> ds')" by blast
  then show ?thesis using assms by (simp add: seeded_within_def)
qed

lemma put_within:
  assumes "store_inv sha s"
  shows "seeded_within {data} (int (length data)) s (snd (store_put sha data s))"
proof -
  consider "ch_max_bytes s < int (length data)" | "map_of (ch_chunks s) (chunk_hash sha data) \<noteq> None"
    | "int (length data) \<le> ch_max_bytes s" "map_of (ch_chunks s) (chunk_hash sha data) = None" by linarith
  then show ?thesis
  proof cases
    case 2
    have "set (od_move_to_end k kvs) \<subseteq> set kvs" for k and kvs :: "(string, string) odict"
      by (auto simp: od_move_to_end_def AList.delete_eq split: option.split dest: map_of_SomeD)
    then show ?thesis using 2 by (auto simp: seeded_within_def store_put_def Let_def)
  next
    case 3
    obtain ev ks where e: "ch_chunks s = ev @ ks" "store_put sha data s = (Inr (chunk_hash sha data),
        s\<lparr>ch_used := bytes_of ks + int (length data), ch_chunks := ks @ [(chunk_hash sha data, data)]\<rparr>)"
      using store_put_new [OF assms 3] by metis
    have "bytes_of ks \<le> ch_used s" using assms e(1) bytes_of_nonneg [of ev] by (simp add: store_inv_def)
    then show ?thesis using e by (auto simp: seeded_within_def)
  qed (auto simp: seeded_within_def store_put_def)
qed

lemma seed_chunks_within:
  "store_inv sha s \<Longrightarrow> store_inv sha (seed_chunks sha ds s) \<and>
     seeded_within (set ds) (int (length (concat ds))) s (seed_chunks sha ds s)"
proof (induction sha ds s rule: seed_chunks.induct)
  case (2 sha data ds s)
  obtain r s1 where p: "store_put sha data s = (r, s1)" by fastforce
  have i: "store_inv sha s1" using store_put_inv [OF "2.prems", of data] p by simp
  have w: "seeded_within {data} (int (length data)) s s1" using put_within [OF "2.prems", of data] p by simp
  show ?case
  proof (cases r)
    case (Inl e)
    then show ?thesis using p i within_trans [OF w within_refl [of "int (length (concat ds))" "set ds"]] by simp
  next
    case (Inr k)
    from "2.IH" [OF p [symmetric] Inr i] show ?thesis
      using p Inr within_trans [OF w, of "set ds" "int (length (concat ds))" "seed_chunks sha ds s1"] by simp
  qed
qed (simp add: seeded_within_def)

lemma sum_list_sort_key: "sum_list (map h (sort_key g xs)) = sum_list (map h xs)" for h :: "'a \<Rightarrow> int"
proof -
  have "sum_list (map h (insort_key g x ys)) = h x + sum_list (map h ys)" for x ys by (induction ys) simp_all
  then show ?thesis by (induction xs) simp_all
qed

lemma seed_dir_within:
  assumes "store_inv sha s" and "0 < n"
  shows "store_inv sha (seed_store_from_dir sha fs n s) \<and>
    seeded_within (\<Union>f \<in> set fs. set (slices (nat n) (snd f))) (\<Sum>f \<leftarrow> fs. int (length (snd f))) s (seed_store_from_dir sha fs n s)"
proof -
  have one: "store_inv sha (seed_file sha n f s) \<and> seeded_within (set (slices (nat n) (snd f))) (int (length (snd f))) s (seed_file sha n f s)"
    if "store_inv sha s" for f s
    using seed_chunks_within [OF that, of "slices (nat n) (snd f)"] that assms(2) concat_slices [of "nat n" "snd f"]
    by (auto simp: seed_file_def iter_file_chunks_def seeded_within_def)
  have "store_inv sha (fold (seed_file sha n) xs s) \<and>
      seeded_within (\<Union>f \<in> set xs. set (slices (nat n) (snd f))) (\<Sum>f \<leftarrow> xs. int (length (snd f))) s (fold (seed_file sha n) xs s)" for xs
    using assms(1)
  proof (induction xs arbitrary: s)
    case (Cons f xs)
    note w = one [OF Cons.prems, of f]
    from Cons.IH [of "seed_file sha n f s"] w show ?case
      using within_trans [of "set (slices (nat n) (snd f))" "int (length (snd f))" s "seed_file sha n f s"] by simp
  qed (simp add: seeded_within_def)
  from this [of "sort_key fst fs"] show ?thesis
    by (simp add: seed_store_from_dir_def sum_list_sort_key)
qed

text \<open>The coordinator's mesh routes as the agent's session meets them.\<close>

definition session_manifest ::
  "(string \<Rightarrow> string) \<Rightarrow> blob_files \<Rightarrow> registry_db \<Rightarrow> string option \<Rightarrow> mesh_builder \<Rightarrow> ident \<Rightarrow> mesh_error + json" where
  "session_manifest sha files db hdr b model_id =
     (case fst (get_mesh_manifest sha files db hdr model_id b) of Inl e \<Rightarrow> Inl HTTPError | Inr j \<Rightarrow> Inr j)"

definition session_peers ::
  "(string \<Rightarrow> string) \<Rightarrow> blob_files \<Rightarrow> registry_db \<Rightarrow> string option \<Rightarrow> mesh_builder \<Rightarrow> ident \<Rightarrow> manifest \<Rightarrow> peer list" where
  "session_peers sha files db hdr b model_id m =
     [coordinator_peer m (\<lambda>h. case fst (get_mesh_chunk sha files db hdr model_id h b) of Inl e \<Rightarrow> Inl HTTPError | Inr data \<Rightarrow> Inr data)]"

lemma parse_encode: "parse_signed_manifest to_text (encode_signed_manifest m signature) = Inr (m, signature)"
  by (simp add: parse_signed_manifest_def encode_signed_manifest_def json_str_def json_int_def json_iter_def comp_def)

lemma verify_sign: "verify_manifest sha m (sign_manifest sha m key) key = Some True"
  using hexstr_plain [of _ "hmac sha key (canonical_bytes m)"]
  by (auto simp: verify_manifest_def sign_manifest_def not_le [symmetric] dest!: leD)

lemma session_manifest_signed:
  assumes "serves_blob sha files db hdr mid f" "builder_fresh sha mid f b"
    "build_manifest sha (bl_content f) mid (mb_chunk_size b) = Some m"
  shows "session_manifest sha files db hdr b mid = Inr (encode_signed_manifest m (sign_manifest sha m (mb_key b)))"
proof -
  obtain b1 where "builder_signed sha mid f b = (Some (m, sign_manifest sha m (mb_key b)), b1)"
    using builder_signed_spec [OF assms(2)] assms(3) by (metis option.inject)
  then show ?thesis using assms(1) by (auto simp: session_manifest_def get_mesh_manifest_def serves_blob_def enabled_blob_def)
qed

lemma session_fetch:
  assumes "serves_blob sha files db hdr mid f" "builder_fresh sha mid f b"
    "build_manifest sha (bl_content f) mid (mb_chunk_size b) = Some m" "h \<in> set (mf_chunks m)"
  shows "\<exists>data. holders (discover (session_peers sha files db hdr b mid m)) h =
      [coordinator_peer m (\<lambda>h. case fst (get_mesh_chunk sha files db hdr mid h b) of Inl e \<Rightarrow> Inl HTTPError | Inr data \<Rightarrow> Inr data)] \<and>
    (case fst (get_mesh_chunk sha files db hdr mid h b) of Inl e \<Rightarrow> Inl HTTPError | Inr data \<Rightarrow> Inr data) = Inr data \<and>
    chunk_hash sha data = h \<and> data \<in> set (slices (nat (mb_chunk_size b)) (bl_content f))"
proof -
  obtain data b1 where "chunk_bytes sha mid f h b = (Some (Some data), b1)" "chunk_hash sha data = h"
    "data \<in> set (slices (nat (mb_chunk_size b)) (bl_content f))" using chunk_bytes_spec [OF assms(2-4)] by metis
  moreover have "holders (discover (session_peers sha files db hdr b mid m)) h = session_peers sha files db hdr b mid m"
    using assms(4) by (simp add: session_peers_def discover_one coordinator_peer_def)
  ultimately show ?thesis
    using assms(1) by (auto simp: session_peers_def get_mesh_chunk_def serves_blob_def enabled_blob_def)
qed

lemma sum_list_distinct_le:
  assumes "distinct xs" "set xs \<subseteq> set ys" "\<And>x. 0 \<le> (h x :: int)"
  shows "sum_list (map h xs) \<le> sum_list (map h ys)"
proof -
  have "sum_list (map h xs) = sum h (set xs)" using assms(1) by (simp add: sum_list_distinct_conv_sum_set)
  also have "\<dots> \<le> sum h (set ys)" using assms(2,3) by (intro sum_mono2) simp_all
  also have "\<dots> \<le> sum_list (map h ys)"
    using assms(3) by (induction ys) (auto simp: sum.insert_if intro: order_trans [OF _ add_increasing])
  finally show ?thesis .
qed

text \<open>Fetching from a store that has room for the whole file gives every chunk of it.\<close>

lemma session_fetch_delta:
  assumes "serves_blob sha files db hdr mid f" and "builder_fresh sha mid f b"
    and m: "build_manifest sha (bl_content f) mid (mb_chunk_size b) = Some m"
    and "store_inv sha s" and "ch_used s + int (length (bl_content f)) \<le> ch_max_bytes s"
    and inj: "inj_on sha (set (slices (nat (mb_chunk_size b)) (bl_content f)) \<union> snd ` set (ch_chunks s))"
  shows "\<exists>s'. fetch_delta sha m (discover (session_peers sha files db hdr b mid m)) s = (Inr (missing_chunks m s), s') \<and>
    (\<forall>c \<in> set (slices (nat (mb_chunk_size b)) (bl_content f)). map_of (ch_chunks s') (chunk_hash sha c) = Some c)"
proof -
  let ?sl = "slices (nat (mb_chunk_size b)) (bl_content f)" and ?hs = "missing_chunks m s"
  note bf = build_manifest_facts [OF m]
  have hs: "distinct ?hs" "set ?hs = set (mf_chunks m) - fst ` set (ch_chunks s)"
    using missing_loop_spec [of "availability s" "[]" "mf_chunks m"] by (auto simp: missing_chunks_def availability_def)
  obtain src where src: "\<And>h. h \<in> set (mf_chunks m) \<Longrightarrow>
      (\<exists>p ps. holders (discover (session_peers sha files db hdr b mid m)) h = p # ps \<and> pr_fetch p h = Inr (src h)) \<and>
      chunk_hash sha (src h) = h \<and> src h \<in> set ?sl"
  proof -
    have "\<forall>h \<in> set (mf_chunks m). \<exists>d. (\<exists>p ps. holders (discover (session_peers sha files db hdr b mid m)) h = p # ps \<and>
        pr_fetch p h = Inr d) \<and> chunk_hash sha d = h \<and> d \<in> set ?sl"
      using session_fetch [OF assms(1-3)] by (fastforce simp: coordinator_peer_def)
    from bchoice [OF this] show thesis using that by blast
  qed
  have lc: "sum_list (map (\<lambda>d. int (length d)) xss) = int (length (concat xss))" for xss :: "string list"
    by (induction xss) simp_all
  have "distinct (map src ?hs)" using hs src by (intro distinct_map [THEN iffD2] conjI inj_onI) (auto, metis)
  then have "sum_list (map (\<lambda>d. int (length d)) (map src ?hs)) \<le> sum_list (map (\<lambda>d. int (length d)) ?sl)"
    using hs(2) src by (intro sum_list_distinct_le) auto
  also have "\<dots> = int (length (bl_content f))"
    using lc [of ?sl] concat_slices [of "nat (mb_chunk_size b)" "bl_content f"] bf(1) by simp
  finally have room: "ch_used s + (\<Sum>h \<leftarrow> ?hs. int (length (src h))) \<le> ch_max_bytes s" using assms(5) by (simp add: comp_def)
  have u: "0 \<le> ch_used s" using assms(4) bytes_of_nonneg by (simp add: store_inv_def)
  obtain s' where s': "fetch_delta sha m (discover (session_peers sha files db hdr b mid m)) s = (Inr ?hs, s')"
    "ch_chunks s' = ch_chunks s @ map (\<lambda>h. (h, src h)) ?hs"
    using fetch_loop_complete [of ?hs "discover (session_peers sha files db hdr b mid m)" src sha s] hs src room u
    by (auto simp: fetch_delta_def map_of_eq_None_iff)
  have "map_of (ch_chunks s') (chunk_hash sha c) = Some c" if c: "c \<in> set ?sl" for c
  proof -
    have h: "chunk_hash sha c \<in> set (mf_chunks m)" using c by (simp add: bf(2))
    then obtain v where v: "map_of (ch_chunks s') (chunk_hash sha c) = Some v"
      using hs(2) s'(2) by (cases "map_of (ch_chunks s') (chunk_hash sha c)") (auto simp: map_of_eq_None_iff image_iff)
    then have "(chunk_hash sha c, v) \<in> set (ch_chunks s) \<or> (\<exists>h \<in> set ?hs. chunk_hash sha c = h \<and> v = src h)"
      using s'(2) by (auto dest: map_of_SomeD)
    then have "chunk_hash sha v = chunk_hash sha c \<and> v \<in> set ?sl \<union> snd ` set (ch_chunks s)"
    proof (elim disjE bexE conjE)
      assume "(chunk_hash sha c, v) \<in> set (ch_chunks s)"
      then show ?thesis using assms(4) by (force simp: store_inv_def)
    qed (use src hs(2) in auto)
    then have "v = c" using inj_onD [OF inj, of v c] c by (auto simp: chunk_hash_def dest: hexstr_inj)
    then show ?thesis using v by simp
  qed
  then show ?thesis using s'(1) by blast
qed

text \<open>C24: The mesh path delivers the coordinator's file. When the agent and the coordinator share the signing
  key, the model is enabled and the cache has room for the seeded files and the model, the mesh store
  takes the signed manifest from the coordinator's route, fills in the chunks its older files lack from
  the chunk route, and publishes exactly the coordinator's blob with its marker, without falling back, as
  long as the digest does not collide on the chunks involved.\<close>

theorem mesh_delivers_model:
  assumes "serves_blob sha files db hdr (mm_model_id mm) f" and "builder_fresh sha (mm_model_id mm) f b"
    and "mm_sha256 mm = hexstr (sha (bl_content f))" and "path_if_present mm fs = Inr None"
    and "(\<Sum>g \<leftarrow> fs. int (length (snd g))) + int (length (bl_content f)) \<le> capacity" and "0 < capacity"
    and "inj_on sha (set (slices (nat (mb_chunk_size b)) (bl_content f)) \<union>
      (\<Union>g \<in> set fs. set (slices (nat (mb_chunk_size b)) (snd g))))"
  shows "\<exists>fs'. mesh_ensure sha to_text (mb_key b) capacity (session_manifest sha files db hdr b (mm_model_id mm))
      (session_peers sha files db hdr b (mm_model_id mm)) inner id mm fs = (Inr (mm_file_name mm), fs') \<and>
    map_of fs' (mm_file_name mm) = Some (bl_content f) \<and> map_of fs' (marker_path mm) = Some (mm_sha256 mm)"
proof -
  let ?c = "bl_content f" and ?n = "nat (mb_chunk_size b)"
  let ?key = "mb_key b" and ?peers = "session_peers sha files db hdr b (mm_model_id mm)"
  obtain m where m: "build_manifest sha ?c (mm_model_id mm) (mb_chunk_size b) = Some m"
    using builder_signed_spec [OF assms(2)] by metis
  note bf = build_manifest_facts [OF m]
  let ?sig = "sign_manifest sha m ?key"
  define s0 where "s0 = \<lparr>ch_max_bytes = capacity, ch_used = 0, ch_chunks = []\<rparr>"
  have s0: "ChunkStore capacity = Inr s0" "store_inv sha s0" "ch_used s0 = 0" "ch_max_bytes s0 = capacity" "ch_chunks s0 = []"
    using assms(6) by (simp_all add: s0_def ChunkStore_def store_inv_def)
  let ?s = "seed_store_from_dir sha fs (mb_chunk_size b) s0"
  have sd: "store_inv sha ?s" "ch_max_bytes ?s = capacity" "ch_used ?s + int (length ?c) \<le> capacity"
    "snd ` set (ch_chunks ?s) \<subseteq> (\<Union>g \<in> set fs. set (slices ?n (snd g)))"
    using seed_dir_within [OF s0(2) bf(1), of fs] assms(5) s0 by (auto simp: seeded_within_def)
  have "inj_on sha (set (slices ?n ?c) \<union> snd ` set (ch_chunks ?s))"
    by (rule inj_on_subset [OF assms(7)]) (use sd(4) in blast)
  then obtain s1 where s1: "fetch_delta sha m (discover (?peers m)) ?s = (Inr (missing_chunks m ?s), s1)"
    "\<forall>c \<in> set (slices ?n ?c). map_of (ch_chunks s1) (chunk_hash sha c) = Some c"
    using session_fetch_delta [OF assms(1,2) m sd(1)] sd(2,3) by auto
  have "map (\<lambda>h. the (map_of (ch_chunks s1) h)) (mf_chunks m) = slices ?n ?c" using s1(2) by (simp add: bf(2) map_idI)
  then have cat: "concat (map (\<lambda>h. the (map_of (ch_chunks s1) h)) (mf_chunks m)) = ?c" using bf(1) by (simp add: concat_slices)
  obtain s2 where "reconstruct_loop sha (mf_chunks m) s1 [] = (Inr (), ?c, s2)"
    using reconstruct_loop_complete [of "mf_chunks m" s1 sha "[]"] s1(2) cat by (auto simp: bf(2))
  then have "fst (verified_reconstruct sha m ?sig ?key s1 (mm_file_name mm) fs) = Inr ()"
    by (simp add: verified_reconstruct_def verify_sign reconstruct_atomic_def reconstruct_def Let_def bf(3,4))
  then obtain s3 fs1 where v: "verified_reconstruct sha m ?sig ?key s1 (mm_file_name mm) fs = (Inr (), s3, fs1)" by (metis prod.collapse)
  have "map_of fs1 (mm_file_name mm) = Some ?c"
  proof -
    have "replace_file (mm_file_name mm @ ''.partial'') (mm_file_name mm) (AList.update (mm_file_name mm @ ''.partial'') ?c fs) = fs1"
      using v \<open>reconstruct_loop sha (mf_chunks m) s1 [] = (Inr (), ?c, s2)\<close>
      by (simp add: verified_reconstruct_def verify_sign reconstruct_atomic_def reconstruct_def Let_def bf(3,4))
    then show ?thesis by (auto simp: replace_file_map_of AList.update_conv')
  qed
  moreover have "fetch_over_mesh sha to_text ?key capacity (session_manifest sha files db hdr b (mm_model_id mm)) ?peers mm fs =
      (Inr (), write_marker_atomic (marker_path mm) (mm_sha256 mm) fs1)"
    by (simp add: fetch_over_mesh_def session_manifest_signed [OF assms(1,2) m] verified_mesh_manifest_def parse_encode verify_sign
        bf(4) assms(3) s0(1) fetch_and_reconstruct_def bf(6) s1(1) v)
  ultimately show ?thesis
    using assms(4) by (auto simp: mesh_ensure_def write_marker_map_of marker_path_def)
qed

definition demo_builder :: mesh_builder where
  "demo_builder = \<lparr>mb_key = ''k'', mb_chunk_size = 4, mb_cache = []\<rparr>"

theorem mesh_delivers_model_witness:
  "\<exists>fs'. mesh_ensure demo_digest (\<lambda>_. []) ''k'' 100 (session_manifest demo_digest demo_files demo_serving (Some ''Bearer dev'') demo_builder ''m'')
       (session_peers demo_digest demo_files demo_serving (Some ''Bearer dev'') demo_builder ''m'') (\<lambda>fs. (Inl ModelFetchError, fs)) id demo_mm
       [(''old.gguf'', ''abcdxy'')] = (Inr ''m.gguf'', fs') \<and> map_of fs' ''m.gguf'' = Some ''abcdef''"
proof -
  have sl: "slices 4 ''abcdef'' = [''abcd'', ''ef'']" "slices 4 ''abcdxy'' = [''abcd'', ''xy'']" by (simp_all add: slices.simps)
  have "inj_on demo_digest {''abcd'', ''ef'', ''xy''}" by (auto simp: inj_on_def demo_digest_def)
  then have i: "inj_on demo_digest (set (slices 4 ''abcdef'') \<union> set (slices 4 ''abcdxy''))" unfolding sl by (rule inj_on_subset) auto
  show ?thesis
    using mesh_delivers_model [of demo_digest demo_files demo_serving "Some ''Bearer dev''" demo_mm demo_blob demo_builder
        "[(''old.gguf'', ''abcdxy'')]" 100 "\<lambda>_. []" "\<lambda>fs. (Inl ModelFetchError, fs)"] demo_serves i
    by (auto simp: demo_blob_def demo_builder_def builder_fresh_def path_if_present_def)
qed

end
