(* ===== verification/Agent_Supervisor.thy ===== *)
theory Agent_Supervisor
  imports Fallow_Protocol
begin

text \<open>
  The supervisor of an agent's inference processes (\<open>supervisor/supervisor.py\<close>, \<open>child.py\<close>,
  \<open>commands.py\<close>, \<open>health.py\<close>). Its one lock guards the dictionaries, so the model has one function per
  locked block and per blocking action outside the lock; the threads that run them interleave as a step
  relation. Whether a process runs, is paused or has exited is part of the state; health probes, exits
  and refused signals are arguments.
\<close>

section \<open>State\<close>

datatype os_proc = Running | Paused | Exited

text \<open>A child's identity, its model and port, and whether \<open>psutil\<close> found the process.\<close>

record child =
  cd_uid :: nat
  cd_model :: ident
  cd_port :: int
  cd_proc :: bool
  cd_started :: instant

record supervisor =
  sv_children :: "(ident, child) odict"
  sv_threads :: "(ident, nat) odict"
  sv_states :: "(ident, replica_state) odict"
  sv_ports :: "(ident, int) odict"
  sv_gpu :: "(ident, bool) odict"
  sv_inflight :: "(ident, int) odict"
  sv_slot_probe_warned :: "ident list"
  sv_pre_suspend :: "(ident, replica_state) odict"
  sv_cached :: "replica_status list"
  sv_os :: "nat \<Rightarrow> os_proc"
  sv_shutdown :: "nat list"
  sv_next_uid :: nat

definition ChildProcessSupervisor :: supervisor where
  "ChildProcessSupervisor =
     \<lparr>sv_children = [], sv_threads = [], sv_states = [], sv_ports = [], sv_gpu = [], sv_inflight = [],
      sv_slot_probe_warned = [], sv_pre_suspend = [], sv_cached = [], sv_os = (\<lambda>_. Exited), sv_shutdown = [],
      sv_next_uid = 0\<rparr>"

definition get_or :: "'v \<Rightarrow> ('k, 'v) odict \<Rightarrow> 'k \<Rightarrow> 'v" where
  "get_or d m k = (case map_of m k of None \<Rightarrow> d | Some v \<Rightarrow> v)"

definition status_rows :: "supervisor \<Rightarrow> replica_status list" where
  "status_rows s =
     map (\<lambda>(mid, st). \<lparr>rs_model_id = mid, rs_port = the (map_of (sv_ports s) mid), rs_state = st,
                        rs_inflight = get_or 0 (sv_inflight s) mid, rs_gpu = get_or False (sv_gpu s) mid\<rparr>)
       (sv_states s)"

definition rebuild_cache :: "supervisor \<Rightarrow> supervisor" where
  "rebuild_cache s = s\<lparr>sv_cached := status_rows s\<rparr>"

definition statuses :: "supervisor \<Rightarrow> replica_status list" where
  "statuses s = sv_cached s"

definition set_state_locked :: "ident \<Rightarrow> replica_state \<Rightarrow> supervisor \<Rightarrow> supervisor" where
  "set_state_locked mid st s =
     (if map_of (sv_ports s) mid = None \<and> st = STOPPED then s
      else rebuild_cache
             (s\<lparr>sv_states := AList.update mid st (sv_states s),
                sv_inflight := if st = STOPPED then AList.update mid 0 (sv_inflight s) else sv_inflight s\<rparr>))"

section \<open>Starting\<close>

record supervisor_config =
  sc_llama_binary :: string
  sc_bind_host :: string
  sc_startup_timeout_s :: secs
  sc_parallel :: int
  sc_context_size :: int
  sc_gpu_layers :: int

definition llama_server_command :: "supervisor_config \<Rightarrow> model_manifest \<Rightarrow> string \<Rightarrow> int \<Rightarrow> string list" where
  "llama_server_command cfg m model_path port =
     [sc_llama_binary cfg, ''-m'', model_path, ''--port'', str_of_int port, ''--host'', sc_bind_host cfg,
      ''--parallel'', str_of_int (sc_parallel cfg), ''-c'', str_of_int (sc_context_size cfg)]
     @ mm_default_args m @ [''--slots'']
     @ (if 0 < mm_min_vram_mb m then [''-ngl'', str_of_int (sc_gpu_layers cfg), ''--flash-attn''] else [])"

definition can_start :: "ident \<Rightarrow> supervisor \<Rightarrow> bool" where
  "can_start mid s \<longleftrightarrow> map_of (sv_children s) mid = None"

text \<open>Spawning gives the process a fresh identity; whether \<open>psutil\<close> still finds it is an argument. A launch
  that the operating system refuses (\<open>None\<close>) raises out of \<open>start_replica\<close> before anything is recorded.\<close>

definition spawn :: "ident \<Rightarrow> int \<Rightarrow> bool \<Rightarrow> instant \<Rightarrow> supervisor \<Rightarrow> child \<times> supervisor" where
  "spawn mid port found now s =
     (\<lparr>cd_uid = sv_next_uid s, cd_model = mid, cd_port = port, cd_proc = found, cd_started = now\<rparr>,
      s\<lparr>sv_os := (sv_os s)(sv_next_uid s := if found then Running else Exited), sv_next_uid := Suc (sv_next_uid s)\<rparr>)"

definition register_child :: "child \<Rightarrow> bool \<Rightarrow> supervisor \<Rightarrow> supervisor" where
  "register_child c gpu s =
     set_state_locked (cd_model c) LOADING
       (s\<lparr>sv_children := AList.update (cd_model c) c (sv_children s),
          sv_ports := AList.update (cd_model c) (cd_port c) (sv_ports s),
          sv_gpu := AList.update (cd_model c) gpu (sv_gpu s),
          sv_inflight := AList.update (cd_model c) 0 (sv_inflight s),
          sv_slot_probe_warned := removeAll (cd_model c) (sv_slot_probe_warned s)\<rparr>)"

definition record_thread :: "child \<Rightarrow> supervisor \<Rightarrow> supervisor" where
  "record_thread c s = s\<lparr>sv_threads := AList.update (cd_model c) (cd_uid c) (sv_threads s)\<rparr>"

definition start_replica :: "model_manifest \<Rightarrow> int \<Rightarrow> bool option \<Rightarrow> instant \<Rightarrow> supervisor \<Rightarrow> supervisor option" where
  "start_replica m port launch now s =
     (if \<not> can_start (mm_model_id m) s then Some s
      else case launch of
             None \<Rightarrow> None
           | Some found \<Rightarrow>
               (case spawn (mm_model_id m) port found now s of
                  (c, s1) \<Rightarrow> Some (record_thread c (register_child c (0 < mm_min_vram_mb m) s1))))"

section \<open>Stopping\<close>

definition stop_begin :: "ident \<Rightarrow> supervisor \<Rightarrow> child option \<times> supervisor" where
  "stop_begin mid s =
     (map_of (sv_children s) mid,
      set_state_locked mid STOPPED
        (s\<lparr>sv_children := AList.delete mid (sv_children s), sv_threads := AList.delete mid (sv_threads s),
           sv_pre_suspend := AList.delete mid (sv_pre_suspend s)\<rparr>))"

text \<open>\<open>terminate\<close>, a grace period, \<open>kill\<close>: whether the process is gone at the end is an argument.\<close>

definition stop_end :: "child \<Rightarrow> bool \<Rightarrow> supervisor \<Rightarrow> supervisor" where
  "stop_end c gone s =
     s\<lparr>sv_shutdown := cd_uid c # sv_shutdown s, sv_os := if gone then (sv_os s)(cd_uid c := Exited) else sv_os s\<rparr>"

definition stop_replica :: "ident \<Rightarrow> bool \<Rightarrow> supervisor \<Rightarrow> supervisor" where
  "stop_replica mid gone s =
     (case stop_begin mid s of
        (None, s1) \<Rightarrow> s1
      | (Some c, s1) \<Rightarrow> stop_end c gone s1)"

definition stop_all :: "bool \<Rightarrow> supervisor \<Rightarrow> supervisor" where
  "stop_all gone s = fold (\<lambda>mid. stop_replica mid gone) (map fst (sv_children s)) s"

section \<open>Suspending and resuming\<close>

text \<open>Signals go to each process of the snapshot; one that is gone is noted, a refusal other than that ends
  the loop with an exception (the first component).\<close>

fun signal_processes ::
  "bool \<Rightarrow> (nat \<Rightarrow> bool) \<Rightarrow> child list \<Rightarrow> (nat \<Rightarrow> os_proc) \<Rightarrow> ident list \<Rightarrow> bool \<times> ident list \<times> (nat \<Rightarrow> os_proc)" where
  "signal_processes suspend denied [] os vanished = (False, vanished, os)"
| "signal_processes suspend denied (c # cs) os vanished =
     (if \<not> cd_proc c \<or> os (cd_uid c) = Exited
      then signal_processes suspend denied cs os (cd_model c # vanished)
      else if denied (cd_uid c) then (True, vanished, os)
      else signal_processes suspend denied cs (os(cd_uid c := if suspend then Paused else Running)) vanished)"

definition transition_signal_locked :: "bool \<Rightarrow> ident \<Rightarrow> supervisor \<Rightarrow> supervisor" where
  "transition_signal_locked suspend mid s =
     (case map_of (sv_states s) mid of
        None \<Rightarrow> s
      | Some current \<Rightarrow>
          if suspend
          then s\<lparr>sv_pre_suspend := if current \<noteq> SUSPENDED then AList.update mid current (sv_pre_suspend s) else sv_pre_suspend s,
                 sv_states := AList.update mid SUSPENDED (sv_states s)\<rparr>
          else s\<lparr>sv_states := AList.update mid (get_or current (sv_pre_suspend s) mid) (sv_states s),
                 sv_pre_suspend := AList.delete mid (sv_pre_suspend s)\<rparr>)"

definition prune_locked :: "ident \<Rightarrow> supervisor \<Rightarrow> supervisor" where
  "prune_locked mid s =
     (let s1 = s\<lparr>sv_children := AList.delete mid (sv_children s), sv_threads := AList.delete mid (sv_threads s),
                 sv_pre_suspend := AList.delete mid (sv_pre_suspend s),
                 sv_slot_probe_warned := removeAll mid (sv_slot_probe_warned s)\<rparr>
      in if map_of (sv_states s) mid \<noteq> None
         then s1\<lparr>sv_states := AList.update mid STOPPED (sv_states s1), sv_inflight := AList.update mid 0 (sv_inflight s1)\<rparr>
         else s1)"

definition commit_one :: "bool \<Rightarrow> ident list \<Rightarrow> child \<Rightarrow> supervisor \<Rightarrow> supervisor" where
  "commit_one suspend vanished c s =
     (if cd_model c \<in> set vanished
      then prune_locked (cd_model c) (s\<lparr>sv_shutdown := cd_uid c # sv_shutdown s\<rparr>)
      else if map_of (sv_states s) (cd_model c) \<noteq> None then transition_signal_locked suspend (cd_model c) s
      else s)"

definition commit_signal :: "bool \<Rightarrow> ident list \<Rightarrow> child list \<Rightarrow> supervisor \<Rightarrow> supervisor" where
  "commit_signal suspend vanished snapshot s = rebuild_cache (fold (commit_one suspend vanished) snapshot s)"

text \<open>The whole call when no other thread runs meanwhile; \<open>True\<close> in the result: it raised.\<close>

definition apply_signal :: "bool \<Rightarrow> (nat \<Rightarrow> bool) \<Rightarrow> supervisor \<Rightarrow> bool \<times> supervisor" where
  "apply_signal suspend denied s =
     (let snapshot = map snd (sv_children s)
      in case signal_processes suspend denied snapshot (sv_os s) [] of
           (True, vanished, os) \<Rightarrow> (True, s\<lparr>sv_os := os\<rparr>)
         | (False, vanished, os) \<Rightarrow> (False, commit_signal suspend vanished snapshot (s\<lparr>sv_os := os\<rparr>)))"

section \<open>The health thread\<close>

definition mark_ready :: "ident \<Rightarrow> supervisor \<Rightarrow> supervisor" where
  "mark_ready mid s = (if map_of (sv_states s) mid = Some LOADING then set_state_locked mid READY s else s)"

definition mark_crashed :: "child \<Rightarrow> supervisor \<Rightarrow> supervisor" where
  "mark_crashed c s =
     (let s1 = s\<lparr>sv_children := AList.delete (cd_model c) (sv_children s),
                 sv_pre_suspend := AList.delete (cd_model c) (sv_pre_suspend s)\<rparr>
      in if map_of (sv_states s1) (cd_model c) \<noteq> None then set_state_locked (cd_model c) STOPPED s1 else s1)"

definition is_ready :: "child \<Rightarrow> supervisor \<Rightarrow> bool" where
  "is_ready c s \<longleftrightarrow> map_of (sv_children s) (cd_model c) = Some c \<and> map_of (sv_states s) (cd_model c) = Some READY"

text \<open>What the slot probe returns: \<open>None\<close> for no answer, an exception or a value that is no count.\<close>

definition poll_slots :: "child \<Rightarrow> int option \<Rightarrow> supervisor \<Rightarrow> supervisor" where
  "poll_slots c count s =
     (if \<not> is_ready c s then s
      else case count of
             Some n \<Rightarrow>
               if 0 \<le> n then rebuild_cache (s\<lparr>sv_inflight := AList.update (cd_model c) n (sv_inflight s)\<rparr>)
               else s\<lparr>sv_slot_probe_warned := List.insert (cd_model c) (sv_slot_probe_warned s)\<rparr>
           | None \<Rightarrow> s\<lparr>sv_slot_probe_warned := List.insert (cd_model c) (sv_slot_probe_warned s)\<rparr>)"

datatype health_phase = AwaitReady | ProbedOk | Watching | HealthDone

text \<open>The threads: starts that passed their check, spawned or registered; stops under way; signal
  calls with their snapshot, the children still to signal and those found gone; the health threads.\<close>

datatype start_phase = Checked ident int bool | Spawned child bool | Registered child

datatype signal_phase = Signalling bool "child list" "child list" "ident list"

record sup_sys =
  ss_sup :: supervisor
  ss_starts :: "start_phase list"
  ss_stops :: "child list"
  ss_signals :: "signal_phase list"
  ss_health :: "(child \<times> health_phase) list"

inductive sup_step :: "sup_sys \<Rightarrow> sup_sys \<Rightarrow> bool" where
  st_check: "can_start mid (ss_sup y) \<Longrightarrow> sup_step y (y\<lparr>ss_starts := Checked mid port gpu # ss_starts y\<rparr>)"
| st_spawn: "Checked mid port gpu \<in> set (ss_starts y) \<Longrightarrow> spawn mid port found now (ss_sup y) = (c, s) \<Longrightarrow>
    sup_step y (y\<lparr>ss_sup := s, ss_starts := Spawned c gpu # remove1 (Checked mid port gpu) (ss_starts y)\<rparr>)"
| st_register: "Spawned c gpu \<in> set (ss_starts y) \<Longrightarrow>
    sup_step y (y\<lparr>ss_sup := register_child c gpu (ss_sup y),
      ss_starts := Registered c # remove1 (Spawned c gpu) (ss_starts y)\<rparr>)"
| st_thread: "Registered c \<in> set (ss_starts y) \<Longrightarrow>
    sup_step y (y\<lparr>ss_sup := record_thread c (ss_sup y), ss_starts := remove1 (Registered c) (ss_starts y),
      ss_health := (c, AwaitReady) # ss_health y\<rparr>)"
| st_stop: "stop_begin mid (ss_sup y) = (r, s) \<Longrightarrow>
    sup_step y (y\<lparr>ss_sup := s, ss_stops := (case r of None \<Rightarrow> [] | Some c \<Rightarrow> [c]) @ ss_stops y\<rparr>)"
| st_stopped: "c \<in> set (ss_stops y) \<Longrightarrow>
    sup_step y (y\<lparr>ss_sup := stop_end c gone (ss_sup y), ss_stops := remove1 c (ss_stops y)\<rparr>)"
| st_snapshot: "cs = map snd (sv_children (ss_sup y)) \<Longrightarrow>
    sup_step y (y\<lparr>ss_signals := Signalling suspend cs cs [] # ss_signals y\<rparr>)"
| st_signal: "Signalling suspend cs (c # todo) gone \<in> set (ss_signals y) \<Longrightarrow>
    signal_processes suspend denied [c] (sv_os (ss_sup y)) gone = (raised, gone', os) \<Longrightarrow>
    sup_step y (y\<lparr>ss_sup := (ss_sup y)\<lparr>sv_os := os\<rparr>,
      ss_signals := (if raised then [] else [Signalling suspend cs todo gone'])
        @ remove1 (Signalling suspend cs (c # todo) gone) (ss_signals y)\<rparr>)"
| st_commit: "Signalling suspend cs [] gone \<in> set (ss_signals y) \<Longrightarrow>
    sup_step y (y\<lparr>ss_sup := commit_signal suspend gone cs (ss_sup y),
      ss_signals := remove1 (Signalling suspend cs [] gone) (ss_signals y)\<rparr>)"
| st_probe: "(c, AwaitReady) \<in> set (ss_health y) \<Longrightarrow>
    sup_step y (y\<lparr>ss_health := (c, ProbedOk) # remove1 (c, AwaitReady) (ss_health y)\<rparr>)"
| st_ready: "(c, ProbedOk) \<in> set (ss_health y) \<Longrightarrow>
    sup_step y (y\<lparr>ss_sup := mark_ready (cd_model c) (ss_sup y),
      ss_health := (c, Watching) # remove1 (c, ProbedOk) (ss_health y)\<rparr>)"
| st_crashed: "(c, p) \<in> set (ss_health y) \<Longrightarrow> p \<in> {AwaitReady, Watching} \<Longrightarrow> sv_os (ss_sup y) (cd_uid c) = Exited \<Longrightarrow>
    sup_step y (y\<lparr>ss_sup := mark_crashed c (ss_sup y), ss_health := (c, HealthDone) # remove1 (c, p) (ss_health y)\<rparr>)"
| st_timeout: "(c, AwaitReady) \<in> set (ss_health y) \<Longrightarrow>
    sup_step y (y\<lparr>ss_sup := mark_crashed c ((ss_sup y)\<lparr>sv_os := if gone then (sv_os (ss_sup y))(cd_uid c := Exited) else sv_os (ss_sup y)\<rparr>),
      ss_health := (c, HealthDone) # remove1 (c, AwaitReady) (ss_health y)\<rparr>)"
| st_slots: "(c, Watching) \<in> set (ss_health y) \<Longrightarrow> sup_step y (y\<lparr>ss_sup := poll_slots c count (ss_sup y)\<rparr>)"
| st_health_end: "(c, p) \<in> set (ss_health y) \<Longrightarrow> p \<in> {AwaitReady, Watching} \<Longrightarrow> cd_uid c \<in> set (sv_shutdown (ss_sup y)) \<Longrightarrow>
    sup_step y (y\<lparr>ss_health := (c, HealthDone) # remove1 (c, p) (ss_health y)\<rparr>)"
| st_exit: "sup_step y (y\<lparr>ss_sup := (ss_sup y)\<lparr>sv_os := (sv_os (ss_sup y))(uid := Exited)\<rparr>\<rparr>)"

definition sup_init :: "sup_sys \<Rightarrow> bool" where
  "sup_init y \<longleftrightarrow> y = \<lparr>ss_sup = ChildProcessSupervisor, ss_starts = [], ss_stops = [], ss_signals = [], ss_health = []\<rparr>"

section \<open>Every interleaving keeps the reported statuses coherent\<close>

text \<open>The dictionaries agree: no replica is listed twice, each has a port (so \<open>_rebuild_cache_locked\<close> never
  misses its key), and every tracked child is listed under its own model. The cache that \<open>statuses()\<close>
  returns is then the row of every known replica.\<close>

definition sup_keyed :: "supervisor \<Rightarrow> bool" where
  "sup_keyed s \<longleftrightarrow>
     od_wf (sv_states s)
     \<and> (\<forall>mid. map_of (sv_states s) mid \<noteq> None \<longrightarrow> map_of (sv_ports s) mid \<noteq> None)
     \<and> (\<forall>mid c. map_of (sv_children s) mid = Some c \<longrightarrow> cd_model c = mid \<and> map_of (sv_states s) mid \<noteq> None)"

definition sup_coherent :: "supervisor \<Rightarrow> bool" where
  "sup_coherent s \<longleftrightarrow> sup_keyed s \<and> sv_cached s = status_rows s"

lemma status_rows_frame [simp]:
  "status_rows (s\<lparr>sv_os := f\<rparr>) = status_rows s"
  "status_rows (s\<lparr>sv_children := ch\<rparr>) = status_rows s"
  "status_rows (s\<lparr>sv_threads := th\<rparr>) = status_rows s"
  "status_rows (s\<lparr>sv_pre_suspend := pre\<rparr>) = status_rows s"
  "status_rows (s\<lparr>sv_cached := ca\<rparr>) = status_rows s"
  "status_rows (s\<lparr>sv_shutdown := sd\<rparr>) = status_rows s"
  "status_rows (s\<lparr>sv_next_uid := n\<rparr>) = status_rows s"
  "status_rows (s\<lparr>sv_slot_probe_warned := w\<rparr>) = status_rows s"
  by (simp_all add: status_rows_def)

lemmas alist_simps = update_conv' delete_conv' fun_upd_apply

lemma coherent_frame [simp]:
  "sup_coherent (s\<lparr>sv_os := f\<rparr>) = sup_coherent s"
  "sup_coherent (s\<lparr>sv_threads := th\<rparr>) = sup_coherent s"
  "sup_coherent (s\<lparr>sv_shutdown := sd\<rparr>) = sup_coherent s"
  "sup_coherent (s\<lparr>sv_next_uid := n\<rparr>) = sup_coherent s"
  "sup_coherent (s\<lparr>sv_slot_probe_warned := w\<rparr>) = sup_coherent s"
  "sup_coherent (s\<lparr>sv_pre_suspend := pre\<rparr>) = sup_coherent s"
  by (simp_all add: sup_coherent_def sup_keyed_def)

lemma coherent_rebuild [simp]: "sup_coherent (rebuild_cache s) \<longleftrightarrow> sup_keyed s"
  by (simp add: sup_coherent_def rebuild_cache_def sup_keyed_def)

lemma coherent_delete_child: "sup_coherent s \<Longrightarrow> sup_coherent (s\<lparr>sv_children := AList.delete mid (sv_children s)\<rparr>)"
  by (auto simp: sup_coherent_def sup_keyed_def alist_simps)

lemma set_state_coherent:
  "sup_coherent s \<Longrightarrow> st = STOPPED \<or> map_of (sv_ports s) mid \<noteq> None \<Longrightarrow> sup_coherent (set_state_locked mid st s)"
  by (auto simp: set_state_locked_def sup_keyed_def sup_coherent_def [of s] alist_simps)

lemma spawn_coherent: "spawn mid port found now s = (c, t) \<Longrightarrow> sup_coherent s \<Longrightarrow> sup_coherent t"
  by (auto simp: spawn_def)

lemma register_coherent: "sup_coherent s \<Longrightarrow> sup_coherent (register_child c gpu s)"
  by (auto simp: register_child_def set_state_locked_def sup_keyed_def sup_coherent_def [of s] alist_simps)

lemma stop_begin_coherent: "stop_begin mid s = (r, t) \<Longrightarrow> sup_coherent s \<Longrightarrow> sup_coherent t"
  by (auto simp: stop_begin_def intro!: set_state_coherent coherent_delete_child)

lemma commit_one_keyed: "sup_keyed s \<Longrightarrow> sup_keyed (commit_one suspend gone c s)"
  by (auto simp: commit_one_def prune_locked_def transition_signal_locked_def sup_keyed_def alist_simps Let_def
      split: option.split)

lemma commit_fold_keyed: "sup_keyed s \<Longrightarrow> sup_keyed (fold (commit_one suspend gone) cs s)"
  by (induction cs arbitrary: s) (simp_all add: commit_one_keyed)

lemma commit_signal_coherent: "sup_coherent s \<Longrightarrow> sup_coherent (commit_signal suspend gone cs s)"
  by (simp add: commit_signal_def commit_fold_keyed sup_coherent_def [of s])

lemma mark_ready_coherent: "sup_coherent s \<Longrightarrow> sup_coherent (mark_ready mid s)"
  by (auto simp: mark_ready_def sup_coherent_def [of s] sup_keyed_def intro!: set_state_coherent)

lemma mark_crashed_coherent: "sup_coherent s \<Longrightarrow> sup_coherent (mark_crashed c s)"
  by (auto simp: mark_crashed_def Let_def intro!: set_state_coherent coherent_delete_child)

lemma poll_slots_coherent: "sup_coherent s \<Longrightarrow> sup_coherent (poll_slots c count s)"
  by (auto simp: poll_slots_def sup_coherent_def [of s] sup_keyed_def split: option.split)

lemmas coherent_intros = spawn_coherent register_coherent stop_begin_coherent commit_signal_coherent
  mark_ready_coherent mark_crashed_coherent poll_slots_coherent

lemma sup_step_coherent: "sup_step y z \<Longrightarrow> sup_coherent (ss_sup y) \<Longrightarrow> sup_coherent (ss_sup z)"
  by (induction rule: sup_step.induct) (auto simp: record_thread_def stop_end_def intro: coherent_intros)

interpretation sup: inv_system sup_init sup_step "\<lambda>y. sup_coherent (ss_sup y)"
  by unfold_locales
    (auto simp: sup_init_def ChildProcessSupervisor_def sup_coherent_def sup_keyed_def status_rows_def
      dest: sup_step_coherent)

section \<open>A replica that becomes healthy while suspended\<close>

text \<open>No thread is left that could still report \<open>mid\<close> ready, and nothing remembers it as ready.\<close>

fun start_model_of :: "start_phase \<Rightarrow> ident" where
  "start_model_of (Checked mid port gpu) = mid"
| "start_model_of (Spawned c gpu) = cd_model c"
| "start_model_of (Registered c) = cd_model c"

definition never_ready :: "ident \<Rightarrow> sup_sys \<Rightarrow> bool" where
  "never_ready mid y \<longleftrightarrow>
     map_of (sv_states (ss_sup y)) mid \<noteq> Some READY \<and> map_of (sv_pre_suspend (ss_sup y)) mid \<noteq> Some READY
     \<and> mid \<notin> start_model_of ` set (ss_starts y)
     \<and> (\<forall>(c, p) \<in> set (ss_health y). cd_model c = mid \<longrightarrow> p \<in> {Watching, HealthDone})"

definition tracked_step :: "ident \<Rightarrow> sup_sys \<Rightarrow> sup_sys \<Rightarrow> bool" where
  "tracked_step mid y z \<longleftrightarrow> sup_step y z \<and> map_of (sv_children (ss_sup y)) mid \<noteq> None"

lemma map_of_set_state:
  "map_of (sv_states (set_state_locked k st s)) mid =
     (if mid = k \<and> \<not> (map_of (sv_ports s) k = None \<and> st = STOPPED) then Some st else map_of (sv_states s) mid)"
  by (auto simp: set_state_locked_def rebuild_cache_def alist_simps)

lemma set_state_fields [simp]:
  "sv_children (set_state_locked k st s) = sv_children s"
  "sv_threads (set_state_locked k st s) = sv_threads s"
  "sv_ports (set_state_locked k st s) = sv_ports s"
  "sv_gpu (set_state_locked k st s) = sv_gpu s"
  "sv_pre_suspend (set_state_locked k st s) = sv_pre_suspend s"
  "sv_os (set_state_locked k st s) = sv_os s"
  "sv_next_uid (set_state_locked k st s) = sv_next_uid s"
  "sv_shutdown (set_state_locked k st s) = sv_shutdown s"
  by (simp_all add: set_state_locked_def rebuild_cache_def)

lemma rebuild_fields [simp]:
  "sv_children (rebuild_cache s) = sv_children s"
  "sv_states (rebuild_cache s) = sv_states s"
  "sv_ports (rebuild_cache s) = sv_ports s"
  "sv_gpu (rebuild_cache s) = sv_gpu s"
  "sv_inflight (rebuild_cache s) = sv_inflight s"
  "sv_pre_suspend (rebuild_cache s) = sv_pre_suspend s"
  "sv_os (rebuild_cache s) = sv_os s"
  "sv_next_uid (rebuild_cache s) = sv_next_uid s"
  by (simp_all add: rebuild_cache_def)

definition unready :: "ident \<Rightarrow> supervisor \<Rightarrow> bool" where
  "unready mid s \<longleftrightarrow> map_of (sv_states s) mid \<noteq> Some READY \<and> map_of (sv_pre_suspend s) mid \<noteq> Some READY"

lemma commit_one_unready: "unready mid s \<Longrightarrow> unready mid (commit_one suspend gone c s)"
  by (auto simp: unready_def commit_one_def prune_locked_def transition_signal_locked_def get_or_def alist_simps Let_def
      split: option.split)

lemma commit_signal_unready: "unready mid s \<Longrightarrow> unready mid (commit_signal suspend gone cs s)"
proof -
  have "unready mid s \<Longrightarrow> unready mid (fold (commit_one suspend gone) cs s)" for s
    by (induction cs arbitrary: s) (simp_all add: commit_one_unready)
  then show "unready mid s \<Longrightarrow> unready mid (commit_signal suspend gone cs s)"
    by (simp add: commit_signal_def unready_def)
qed

lemma unready_ops:
  "unready mid s \<Longrightarrow> k \<noteq> mid \<Longrightarrow> unready mid (mark_ready k s)"
  "unready mid s \<Longrightarrow> unready mid (mark_crashed c s)"
  "unready mid s \<Longrightarrow> unready mid (register_child c gpu s)"
  "unready mid s \<Longrightarrow> unready mid (poll_slots c count s)"
  "unready mid s \<Longrightarrow> stop_begin k s = (r, t) \<Longrightarrow> unready mid t"
  "unready mid s \<Longrightarrow> spawn k port found now s = (c, t) \<Longrightarrow> unready mid t"
  by (auto simp: unready_def mark_ready_def mark_crashed_def register_child_def poll_slots_def stop_begin_def spawn_def
      map_of_set_state alist_simps Let_def split: option.splits if_splits)

lemma unready_frame [simp]:
  "unready mid (s\<lparr>sv_os := f\<rparr>) = unready mid s"
  "unready mid (s\<lparr>sv_threads := th\<rparr>) = unready mid s"
  "unready mid (s\<lparr>sv_shutdown := sd\<rparr>) = unready mid s"
  by (simp_all add: unready_def)

lemma never_ready_unready:
  "never_ready mid y \<longleftrightarrow> unready mid (ss_sup y) \<and> mid \<notin> start_model_of ` set (ss_starts y)
     \<and> (\<forall>(c, p) \<in> set (ss_health y). cd_model c = mid \<longrightarrow> p \<in> {Watching, HealthDone})"
  by (auto simp: never_ready_def unready_def)

lemma in_remove1: "x \<in> set (remove1 a xs) \<Longrightarrow> x \<in> set xs"
  using set_remove1_subset by fastforce

lemma never_ready_step: "tracked_step mid y z \<Longrightarrow> never_ready mid y \<Longrightarrow> never_ready mid z"
  unfolding tracked_step_def never_ready_unready
proof (elim conjE, induction rule: sup_step.induct)
  case (st_check k y port gpu)
  then show ?case by (auto simp: can_start_def)
next
  case (st_spawn k port gpu y found now c s)
  then show ?case by (force simp: spawn_def intro: unready_ops(6) dest: in_remove1)
next
  case (st_register c gpu y)
  then show ?case by (force intro: unready_ops(3) dest: in_remove1)
next
  case (st_thread c y)
  then show ?case by (force simp: record_thread_def dest: in_remove1)
next
  case (st_ready c y)
  then show ?case by (force intro: unready_ops(1) dest: in_remove1)
next
  case (st_crashed c p y)
  then show ?case by (force intro: unready_ops(2) dest: in_remove1)
next
  case (st_timeout c y gone)
  then show ?case by (force intro: unready_ops(2) dest: in_remove1)
qed (auto simp: stop_end_def intro: unready_ops commit_signal_unready dest!: in_remove1)

lemma never_ready_steps: "(tracked_step mid)\<^sup>*\<^sup>* y z \<Longrightarrow> never_ready mid y \<Longrightarrow> never_ready mid z"
  by (induction rule: rtranclp_induct) (blast intro: never_ready_step)+

text \<open>The run: the health probe of a loading replica succeeds, the user comes back before the health thread
  records it, and leaves again.\<close>

definition late_child :: "ident \<Rightarrow> int \<Rightarrow> instant \<Rightarrow> child" where
  "late_child mid port now = \<lparr>cd_uid = 0, cd_model = mid, cd_port = port, cd_proc = True, cd_started = now\<rparr>"

definition late_started :: "ident \<Rightarrow> int \<Rightarrow> bool \<Rightarrow> instant \<Rightarrow> supervisor" where
  "late_started mid port gpu now =
     record_thread (late_child mid port now)
       (register_child (late_child mid port now) gpu (snd (spawn mid port True now ChildProcessSupervisor)))"

lemma late_started_fields:
  "sv_children (late_started mid port gpu now) = [(mid, late_child mid port now)]"
  "sv_os (late_started mid port gpu now) = (\<lambda>_. Exited)(0 := Running)"
  "sv_states (late_started mid port gpu now) = [(mid, LOADING)]"
  "sv_pre_suspend (late_started mid port gpu now) = []"
  by (simp_all add: late_started_def late_child_def record_thread_def register_child_def spawn_def
      ChildProcessSupervisor_def set_state_locked_def rebuild_cache_def)

lemma late_started_reachable:
  "reach sup_init sup_step
     \<lparr>ss_sup = late_started mid port gpu now, ss_starts = [], ss_stops = [], ss_signals = [],
      ss_health = [(late_child mid port now, ProbedOk)]\<rparr>"
proof -
  let ?c = "late_child mid port now" and ?s = "snd (spawn mid port True now ChildProcessSupervisor)"
  let ?y = "\<lambda>s st h. \<lparr>ss_sup = s, ss_starts = st, ss_stops = [], ss_signals = [], ss_health = h\<rparr>"
  have "reach sup_init sup_step (?y ChildProcessSupervisor [] [])"
    by (rule reach_init) (simp add: sup_init_def)
  then have "reach sup_init sup_step (?y ChildProcessSupervisor [Checked mid port gpu] [])"
    using st_check [of mid "?y ChildProcessSupervisor [] []" port gpu]
    by (auto simp: can_start_def ChildProcessSupervisor_def intro: reach_step)
  then have "reach sup_init sup_step (?y ?s [Spawned ?c gpu] [])"
    using st_spawn [of mid port gpu "?y ChildProcessSupervisor [Checked mid port gpu] []" True now ?c ?s]
    by (auto simp: spawn_def late_child_def ChildProcessSupervisor_def intro: reach_step)
  then have "reach sup_init sup_step (?y (register_child ?c gpu ?s) [Registered ?c] [])"
    using st_register [of ?c gpu "?y ?s [Spawned ?c gpu] []"] by (auto intro: reach_step)
  then have "reach sup_init sup_step (?y (late_started mid port gpu now) [] [(?c, AwaitReady)])"
    using st_thread [of ?c "?y (register_child ?c gpu ?s) [Registered ?c] []"]
    by (auto simp: late_started_def intro: reach_step)
  then show ?thesis
    using st_probe [of ?c "?y (late_started mid port gpu now) [] [(?c, AwaitReady)]"] by (auto intro: reach_step)
qed

text \<open>One undisturbed signal call on a single tracked child.\<close>

lemma signal_one_reachable:
  assumes "reach sup_init sup_step y" "ss_signals y = []"
    and "sv_children (ss_sup y) = [(mid, c)]" "cd_proc c" "sv_os (ss_sup y) (cd_uid c) \<noteq> Exited"
  shows "reach sup_init sup_step
     (y\<lparr>ss_sup := commit_signal b [] [c]
           ((ss_sup y)\<lparr>sv_os := (sv_os (ss_sup y))(cd_uid c := if b then Paused else Running)\<rparr>), ss_signals := []\<rparr>)"
proof -
  let ?s = "(ss_sup y)\<lparr>sv_os := (sv_os (ss_sup y))(cd_uid c := if b then Paused else Running)\<rparr>"
  have "reach sup_init sup_step (y\<lparr>ss_signals := [Signalling b [c] [c] []]\<rparr>)"
    using st_snapshot [of "[c]" y b] assms by (auto intro: reach_step)
  then have "reach sup_init sup_step (y\<lparr>ss_sup := ?s, ss_signals := [Signalling b [c] [] []]\<rparr>)"
    using st_signal [of b "[c]" c "[]" "[]" "y\<lparr>ss_signals := [Signalling b [c] [c] []]\<rparr>" "\<lambda>_. False" False "[]"] assms
    by (auto intro: reach_step)
  then show ?thesis
    using st_commit [of b "[c]" "[]" "y\<lparr>ss_sup := ?s, ss_signals := [Signalling b [c] [] []]\<rparr>"] assms(2)
    by (auto intro: reach_step)
qed

text \<open>The same replica after the suspension, and after the resumption.\<close>

definition late_suspended :: "ident \<Rightarrow> int \<Rightarrow> bool \<Rightarrow> instant \<Rightarrow> supervisor" where
  "late_suspended mid port gpu now =
     commit_signal True [] [late_child mid port now]
       ((late_started mid port gpu now)\<lparr>sv_os := (\<lambda>_. Exited)(0 := Paused)\<rparr>)"

definition late_resumed :: "ident \<Rightarrow> int \<Rightarrow> bool \<Rightarrow> instant \<Rightarrow> supervisor" where
  "late_resumed mid port gpu now =
     commit_signal False [] [late_child mid port now]
       ((late_suspended mid port gpu now)\<lparr>sv_os := (\<lambda>_. Exited)(0 := Running)\<rparr>)"

lemma late_suspended_fields:
  "sv_children (late_suspended mid port gpu now) = [(mid, late_child mid port now)]"
  "sv_os (late_suspended mid port gpu now) = (\<lambda>_. Exited)(0 := Paused)"
  "sv_states (late_suspended mid port gpu now) = [(mid, SUSPENDED)]"
  "sv_pre_suspend (late_suspended mid port gpu now) = [(mid, LOADING)]"
  by (simp_all add: late_suspended_def commit_signal_def commit_one_def transition_signal_locked_def late_child_def
      late_started_fields)

lemma late_resumed_fields:
  "sv_children (late_resumed mid port gpu now) = [(mid, late_child mid port now)]"
  "sv_os (late_resumed mid port gpu now) = (\<lambda>_. Exited)(0 := Running)"
  "sv_states (late_resumed mid port gpu now) = [(mid, LOADING)]"
  "sv_pre_suspend (late_resumed mid port gpu now) = []"
  by (simp_all add: late_resumed_def commit_signal_def commit_one_def transition_signal_locked_def late_child_def
      late_suspended_fields get_or_def)

lemma late_resumed_reachable:
  "reach sup_init sup_step
     \<lparr>ss_sup = late_resumed mid port gpu now, ss_starts = [], ss_stops = [], ss_signals = [],
      ss_health = [(late_child mid port now, Watching)]\<rparr>"
proof -
  let ?c = "late_child mid port now"
  let ?y = "\<lambda>s h. \<lparr>ss_sup = s, ss_starts = [], ss_stops = [], ss_signals = [], ss_health = h\<rparr>"
  have [simp]: "cd_uid ?c = 0" "cd_proc ?c" "cd_model ?c = mid" by (simp_all add: late_child_def)
  have "reach sup_init sup_step (?y (late_suspended mid port gpu now) [(?c, ProbedOk)])"
    using signal_one_reachable [OF late_started_reachable [of mid port gpu now], of mid ?c True]
    by (simp add: late_started_fields late_suspended_def)
  then have "reach sup_init sup_step (?y (late_suspended mid port gpu now) [(?c, Watching)])"
    using st_ready [of ?c "?y (late_suspended mid port gpu now) [(?c, ProbedOk)]"]
    by (auto simp: mark_ready_def late_suspended_fields intro: reach_step)
  from signal_one_reachable [OF this, of mid ?c False] show ?thesis
    by (simp add: late_suspended_fields late_resumed_def)
qed

text \<open>C32: A replica whose health probe succeeds just before the user comes back can stay unavailable for good.
  There is an interleaving of the supervisor's threads after which the replica's process runs, its health
  thread has gone on to watching it and no signal is under way, but its state is \<open>LOADING\<close>; and whatever
  the threads do from then on, as long as the child is tracked it is never reported ready. (\<open>_mark_ready\<close>
  ignores a suspended replica, and \<open>resume_all\<close> puts back the state from before.)\<close>

theorem late_ready_sticks_loading:
  "\<exists>y c. reach sup_init sup_step y \<and> map_of (sv_children (ss_sup y)) mid = Some c \<and> cd_port c = port
     \<and> sv_os (ss_sup y) (cd_uid c) = Running \<and> map_of (sv_states (ss_sup y)) mid = Some LOADING
     \<and> ss_health y = [(c, Watching)] \<and> ss_starts y = [] \<and> ss_signals y = [] \<and> ss_stops y = []
     \<and> (\<forall>z. (tracked_step mid)\<^sup>*\<^sup>* y z \<longrightarrow> map_of (sv_states (ss_sup z)) mid \<noteq> Some READY)"
proof -
  let ?c = "late_child mid port 0"
  let ?y = "\<lparr>ss_sup = late_resumed mid port False 0, ss_starts = [], ss_stops = [], ss_signals = [],
             ss_health = [(?c, Watching)]\<rparr>"
  have "never_ready mid ?y" by (simp add: never_ready_def late_resumed_fields)
  from never_ready_steps [OF _ this]
  have "\<forall>z. (tracked_step mid)\<^sup>*\<^sup>* ?y z \<longrightarrow> map_of (sv_states (ss_sup z)) mid \<noteq> Some READY"
    by (auto simp: never_ready_def)
  moreover have "cd_uid ?c = 0" "cd_port ?c = port" by (simp_all add: late_child_def)
  ultimately show ?thesis
    using late_resumed_reachable [of mid port False 0]
    by (intro exI [of _ ?y] exI [of _ ?c]) (simp add: late_resumed_fields)
qed

theorem late_ready_sticks_loading_witness:
  "\<exists>y. reach sup_init sup_step y \<and> map_of (sv_states (ss_sup y)) ''m'' = Some LOADING
     \<and> (\<forall>z. (tracked_step ''m'')\<^sup>*\<^sup>* y z \<longrightarrow> map_of (sv_states (ss_sup z)) ''m'' \<noteq> Some READY)"
  using late_ready_sticks_loading [of "''m''" 9000] by blast

text \<open>Under every interleaving of starts, stops, suspensions, resumptions, health threads and process exits,
  \<open>statuses()\<close> lists exactly the replicas the supervisor knows, each once, with its state, the port it was
  last started on and its last slot count, and no tracked child is missing from it.\<close>

theorem statuses_coherent:
  assumes "reach sup_init sup_step y"
  shows "map (\<lambda>r. (rs_model_id r, rs_state r)) (statuses (ss_sup y)) = sv_states (ss_sup y)
     \<and> distinct (map rs_model_id (statuses (ss_sup y)))
     \<and> (\<forall>r \<in> set (statuses (ss_sup y)).
          map_of (sv_ports (ss_sup y)) (rs_model_id r) = Some (rs_port r)
          \<and> rs_inflight r = get_or 0 (sv_inflight (ss_sup y)) (rs_model_id r))
     \<and> (\<forall>mid c. map_of (sv_children (ss_sup y)) mid = Some c \<longrightarrow>
          cd_model c = mid \<and> mid \<in> rs_model_id ` set (statuses (ss_sup y)))"
proof -
  have ok: "sup_keyed (ss_sup y)" "statuses (ss_sup y) = status_rows (ss_sup y)"
    using sup.reach_inv [OF assms] by (simp_all add: sup_coherent_def statuses_def)
  have rows: "map rs_model_id (status_rows (ss_sup y)) = map fst (sv_states (ss_sup y))"
    by (simp add: status_rows_def case_prod_beta comp_def)
  have "map (\<lambda>r. (rs_model_id r, rs_state r)) (statuses (ss_sup y)) = sv_states (ss_sup y)"
    by (simp add: ok(2) status_rows_def case_prod_beta comp_def)
  moreover have "distinct (map rs_model_id (statuses (ss_sup y)))"
    using ok by (simp add: rows sup_keyed_def od_wf_def)
  moreover have "\<forall>r \<in> set (statuses (ss_sup y)).
      map_of (sv_ports (ss_sup y)) (rs_model_id r) = Some (rs_port r)
      \<and> rs_inflight r = get_or 0 (sv_inflight (ss_sup y)) (rs_model_id r)"
    using ok by (fastforce simp: status_rows_def sup_keyed_def od_wf_def)
  moreover have "\<forall>mid c. map_of (sv_children (ss_sup y)) mid = Some c \<longrightarrow>
      cd_model c = mid \<and> mid \<in> rs_model_id ` set (statuses (ss_sup y))"
  proof (intro allI impI)
    fix mid c
    assume "map_of (sv_children (ss_sup y)) mid = Some c"
    then have "cd_model c = mid" "mid \<in> fst ` set (sv_states (ss_sup y))"
      using ok(1) by (simp_all add: sup_keyed_def map_of_eq_None_iff)
    moreover have "rs_model_id ` set (statuses (ss_sup y)) = fst ` set (sv_states (ss_sup y))"
      using arg_cong [OF rows, of set] by (simp add: ok(2))
    ultimately show "cd_model c = mid \<and> mid \<in> rs_model_id ` set (statuses (ss_sup y))" by simp
  qed
  ultimately show ?thesis by blast
qed

theorem statuses_coherent_witness:
  "map (\<lambda>r. (rs_model_id r, rs_state r)) (statuses (late_resumed ''m'' 9000 True 0)) = [(''m'', LOADING)]
     \<and> ''m'' \<in> rs_model_id ` set (statuses (late_resumed ''m'' 9000 True 0))"
  using statuses_coherent [OF late_resumed_reachable [of "''m''" 9000 True 0]] by (simp add: late_resumed_fields)

end
