(* ===== verification/Agent_Preempt.thy ===== *)
theory Agent_Preempt
  imports Agent_Supervisor
begin

text \<open>
  Yielding the machine to its user: the preemption state machine (\<open>preempt/controller.py\<close>), the reclaim
  override (\<open>preempt/reclaim.py\<close>), one tick of the poll thread (\<open>preempt/poll_loop.py\<close>), and the reconcile
  loop with its port allocator (\<open>main/reconcile.py\<close>, \<open>main/ports.py\<close>), which share one supervisor. Clocks,
  the idle detector, the flag file, manifest fetches and downloads are arguments.
\<close>

section \<open>The preemption state machine\<close>

definition MS_PER_S :: real where "MS_PER_S = 1000"

record preempt_controller =
  pc_state :: agent_state
  pc_prev_idle_s :: "secs option"
  pc_active_since :: "instant option"
  pc_escalated :: bool

definition PreemptController :: preempt_controller where
  "PreemptController = \<lparr>pc_state = IDLE, pc_prev_idle_s = None, pc_active_since = None, pc_escalated = False\<rparr>"

text \<open>What a tick meets outside: refused signals, processes that outlive a kill, the two clocks when it
  reads them, and the rendering of a latency with three decimals.\<close>

record poll_env =
  pe_denied :: "nat \<Rightarrow> bool"
  pe_gone :: bool
  pe_monotonic :: instant
  pe_now :: instant
  pe_format :: "real \<Rightarrow> string"

definition is_fresh_input :: "agent_config \<Rightarrow> preempt_controller \<Rightarrow> secs \<Rightarrow> bool" where
  "is_fresh_input cfg c idle_s \<longleftrightarrow>
     idle_s < real_of_int (ac_poll_interval_ms cfg) / MS_PER_S
     \<or> (case pc_prev_idle_s c of None \<Rightarrow> False | Some prev \<Rightarrow> idle_s < prev)"

definition enter_active ::
  "poll_env \<Rightarrow> ident \<Rightarrow> instant \<Rightarrow> preempt_controller \<Rightarrow> supervisor \<Rightarrow> bool \<times> preempt_controller \<times> supervisor \<times> agent_event list" where
  "enter_active env aid monotonic_now c s =
     (case apply_signal True (pe_denied env) s of
        (True, s1) \<Rightarrow> (True, c, s1, [])
      | (False, s1) \<Rightarrow>
          (False, c\<lparr>pc_state := ACTIVE, pc_active_since := Some monotonic_now, pc_escalated := False\<rparr>, s1,
           [\<lparr>ae_agent_id = aid, ae_kind = USER_RETURNED, ae_at = pe_now env,
             ae_detail = [(''yield_ms'', pe_format env ((pe_monotonic env - monotonic_now) * MS_PER_S))]\<rparr>]))"

definition enter_idle ::
  "poll_env \<Rightarrow> ident \<Rightarrow> preempt_controller \<Rightarrow> supervisor \<Rightarrow> bool \<times> preempt_controller \<times> supervisor \<times> agent_event list" where
  "enter_idle env aid c s =
     (case apply_signal False (pe_denied env) s of
        (True, s1) \<Rightarrow> (True, c, s1, [])
      | (False, s1) \<Rightarrow>
          (False, c\<lparr>pc_state := IDLE, pc_active_since := None, pc_escalated := False\<rparr>, s1,
           [\<lparr>ae_agent_id = aid, ae_kind = USER_IDLE, ae_at = pe_now env, ae_detail = []\<rparr>]))"

definition stop_suspended_gpu :: "bool \<Rightarrow> replica_status list \<Rightarrow> supervisor \<Rightarrow> supervisor" where
  "stop_suspended_gpu gone rows s =
     fold (\<lambda>r. if rs_state r = SUSPENDED \<and> rs_gpu r then stop_replica (rs_model_id r) gone else id) rows s"

definition maybe_escalate ::
  "agent_config \<Rightarrow> poll_env \<Rightarrow> instant \<Rightarrow> preempt_controller \<Rightarrow> supervisor \<Rightarrow> preempt_controller \<times> supervisor" where
  "maybe_escalate cfg env monotonic_now c s =
     (case pc_active_since c of
        None \<Rightarrow> (c, s)
      | Some since \<Rightarrow>
          if pc_escalated c \<or> monotonic_now - since < ac_vram_evict_after_s cfg then (c, s)
          else (c\<lparr>pc_escalated := True\<rparr>, stop_suspended_gpu (pe_gone env) (statuses s) s))"

text \<open>A raise leaves \<open>_prev_idle_s\<close> as it was.\<close>

fun end_poll :: "secs \<Rightarrow> bool \<times> preempt_controller \<times> supervisor \<times> agent_event list
   \<Rightarrow> preempt_controller \<times> supervisor \<times> agent_event list" where
  "end_poll idle_s (raised, c, s, evs) = (if raised then c else c\<lparr>pc_prev_idle_s := Some idle_s\<rparr>, s, evs)"

definition on_poll ::
  "agent_config \<Rightarrow> poll_env \<Rightarrow> ident \<Rightarrow> secs \<Rightarrow> instant \<Rightarrow> preempt_controller \<Rightarrow> supervisor
   \<Rightarrow> preempt_controller \<times> supervisor \<times> agent_event list" where
  "on_poll cfg env aid idle_s monotonic_now c s =
     (case pc_state c of
        DRAINING \<Rightarrow> (c, s, [])
      | IDLE \<Rightarrow> end_poll idle_s (if is_fresh_input cfg c idle_s then enter_active env aid monotonic_now c s
                                  else (False, c, s, []))
      | ACTIVE \<Rightarrow> end_poll idle_s (if ac_idle_threshold_s cfg \<le> idle_s then enter_idle env aid c s
                                    else case maybe_escalate cfg env monotonic_now c s of (c1, s1) \<Rightarrow> (False, c1, s1, [])))"

definition drain :: "poll_env \<Rightarrow> ident \<Rightarrow> preempt_controller \<Rightarrow> preempt_controller \<times> agent_event list" where
  "drain env aid c =
     (if pc_state c = DRAINING then (c, [])
      else (c\<lparr>pc_state := DRAINING\<rparr>, [\<lparr>ae_agent_id = aid, ae_kind = AGENT_STOPPING, ae_at = pe_now env, ae_detail = []\<rparr>]))"

section \<open>The reclaim override and one tick of the poll thread\<close>

text \<open>The last component: the background stop of every listed replica was dispatched.\<close>

definition reclaim_on_poll :: "poll_env \<Rightarrow> bool \<Rightarrow> bool \<Rightarrow> supervisor \<Rightarrow> bool \<times> bool \<times> supervisor \<times> bool" where
  "reclaim_on_poll env flag reclaimed s =
     (if flag \<and> \<not> reclaimed
      then (case apply_signal True (pe_denied env) s of
              (True, s1) \<Rightarrow> (True, reclaimed, s1, False)
            | (False, s1) \<Rightarrow> (False, True, s1, True))
      else (False, flag, s, False))"

definition stop_all_replicas :: "bool \<Rightarrow> supervisor \<Rightarrow> supervisor" where
  "stop_all_replicas gone s = fold (\<lambda>r. stop_replica (rs_model_id r) gone) (statuses s) s"

text \<open>The agent's shared state: the supervisor, the controller, the reclaim flag, the events handed to the
  sink. A failing idle detector (\<open>None\<close>) ends the tick.\<close>

record agent_node =
  an_sup :: supervisor
  an_controller :: preempt_controller
  an_reclaimed :: bool
  an_events :: "agent_event list"

definition safe_poll ::
  "agent_config \<Rightarrow> poll_env \<Rightarrow> ident \<Rightarrow> bool \<Rightarrow> secs option \<Rightarrow> instant \<Rightarrow> agent_node \<Rightarrow> agent_node" where
  "safe_poll cfg env aid flag idle monotonic_now n =
     (case reclaim_on_poll env flag (an_reclaimed n) (an_sup n) of
        (raised, reclaimed, s, _) \<Rightarrow>
          let n1 = n\<lparr>an_reclaimed := reclaimed, an_sup := s\<rparr>
          in if raised \<or> reclaimed then n1
             else case idle of
                    None \<Rightarrow> n1
                  | Some idle_s \<Rightarrow>
                      (case on_poll cfg env aid idle_s monotonic_now (an_controller n) s of
                         (c, s1, evs) \<Rightarrow> n1\<lparr>an_controller := c, an_sup := s1, an_events := an_events n @ evs\<rparr>))"

section \<open>Ports and the reconcile loop\<close>

record port_allocator =
  pa_start :: int
  pa_count :: int
  pa_used :: "int list"

definition PortAllocator :: "int \<Rightarrow> int \<Rightarrow> port_allocator option" where
  "PortAllocator start count =
     (if start \<le> 0 \<or> count \<le> 0 then None else Some \<lparr>pa_start = start, pa_count = count, pa_used = []\<rparr>)"

definition allocate :: "port_allocator \<Rightarrow> (int \<times> port_allocator) option" where
  "allocate pa =
     (case find (\<lambda>port. port \<notin> set (pa_used pa)) [pa_start pa..pa_start pa + pa_count pa - 1] of
        None \<Rightarrow> None
      | Some port \<Rightarrow> Some (port, pa\<lparr>pa_used := port # pa_used pa\<rparr>))"

definition release :: "int \<Rightarrow> port_allocator \<Rightarrow> port_allocator" where
  "release port pa = pa\<lparr>pa_used := removeAll port (pa_used pa)\<rparr>"

record reconciler =
  rc_ports :: port_allocator
  rc_ports_by_model :: "(ident, int) odict"
  rc_sup :: supervisor

definition free_port :: "ident \<Rightarrow> reconciler \<Rightarrow> reconciler" where
  "free_port mid r =
     (case map_of (rc_ports_by_model r) mid of
        None \<Rightarrow> r
      | Some port \<Rightarrow> r\<lparr>rc_ports_by_model := AList.delete mid (rc_ports_by_model r), rc_ports := release port (rc_ports r)\<rparr>)"

definition reserve_port :: "ident \<Rightarrow> reconciler \<Rightarrow> int option \<times> reconciler" where
  "reserve_port mid r =
     (let r1 = free_port mid r
      in case allocate (rc_ports r1) of
           None \<Rightarrow> (None, r1)
         | Some (port, pa) \<Rightarrow>
             (Some port, r1\<lparr>rc_ports := pa, rc_ports_by_model := AList.update mid port (rc_ports_by_model r1)\<rparr>))"

text \<open>What a start meets outside: the manifest, whether the model file is there, the launch, the clock.\<close>

record start_env =
  se_manifest :: "ident \<Rightarrow> model_manifest option"
  se_ensure :: "model_manifest \<Rightarrow> bool"
  se_launch :: "ident \<Rightarrow> bool option"
  se_now :: instant

definition start_model :: "start_env \<Rightarrow> ident \<Rightarrow> reconciler \<Rightarrow> reconciler" where
  "start_model env mid r =
     (case se_manifest env mid of
        None \<Rightarrow> r
      | Some m \<Rightarrow>
          if \<not> se_ensure env m then r
          else case reserve_port mid r of
                 (None, r1) \<Rightarrow> r1
               | (Some port, r1) \<Rightarrow>
                   (case start_replica m port (se_launch env mid) (se_now env) (rc_sup r1) of
                      None \<Rightarrow> r1
                    | Some s \<Rightarrow> r1\<lparr>rc_sup := s\<rparr>))"

definition stop_model :: "bool \<Rightarrow> ident \<Rightarrow> reconciler \<Rightarrow> reconciler" where
  "stop_model gone mid r = free_port mid (r\<lparr>rc_sup := stop_replica mid gone (rc_sup r)\<rparr>)"

definition live_models :: "supervisor \<Rightarrow> ident list" where
  "live_models s = map rs_model_id (filter (\<lambda>r. rs_state r \<in> {LOADING, READY, SUSPENDED}) (statuses s))"

text \<open>One pass when nothing else runs during its awaits; Python's set differences are taken in the order of
  the desired list and of the statuses.\<close>

definition reconcile_once ::
  "start_env \<Rightarrow> bool \<Rightarrow> bool \<Rightarrow> agent_state \<Rightarrow> ident list \<Rightarrow> reconciler \<Rightarrow> reconciler" where
  "reconcile_once env gone reclaimed state desired r =
     (if reclaimed \<or> state \<noteq> IDLE then r
      else let live = live_models (rc_sup r)
           in fold (stop_model gone) (filter (\<lambda>mid. mid \<notin> set desired) live)
                (fold (start_model env) (filter (\<lambda>mid. mid \<notin> set live) (remdups desired)) r))"

section \<open>Whole calls, slot by slot\<close>

text \<open>Everything the supervisor knows of one model, and what a signal makes of it.\<close>

definition slot ::
  "supervisor \<Rightarrow> ident \<Rightarrow> child option \<times> replica_state option \<times> int option \<times> bool option \<times> int option \<times> replica_state option" where
  "slot s mid =
     (map_of (sv_children s) mid, map_of (sv_states s) mid, map_of (sv_ports s) mid, map_of (sv_gpu s) mid,
      map_of (sv_inflight s) mid, map_of (sv_pre_suspend s) mid)"

definition slot_signal :: "bool \<Rightarrow> bool \<Rightarrow> _ \<Rightarrow> _" where
  "slot_signal suspend gone v =
     (case v of (ch, st, p, g, i, pre) \<Rightarrow>
        if gone then (None, map_option (\<lambda>_. STOPPED) st, p, g, if st = None then i else Some 0, None)
        else case st of
               None \<Rightarrow> v
             | Some cur \<Rightarrow>
                 if suspend then (ch, Some SUSPENDED, p, g, i, if cur \<noteq> SUSPENDED then Some cur else pre)
                 else (ch, Some (case pre of None \<Rightarrow> cur | Some q \<Rightarrow> q), p, g, i, None))"

lemma commit_one_slot:
  "slot (commit_one suspend gone c s) k =
     (if k = cd_model c then slot_signal suspend (k \<in> set gone) (slot s k) else slot s k)"
  by (auto simp: slot_def slot_signal_def commit_one_def prune_locked_def transition_signal_locked_def get_or_def
      alist_simps Let_def split: option.split)

lemma commit_fold_slot:
  "distinct (map cd_model cs) \<Longrightarrow>
   slot (fold (commit_one suspend gone) cs s) k =
     (if k \<in> cd_model ` set cs then slot_signal suspend (k \<in> set gone) (slot s k) else slot s k)"
  by (induction cs arbitrary: s) (auto simp: commit_one_slot)

lemma commit_os [simp]: "sv_os (fold (commit_one suspend gone) cs s) = sv_os s"
  by (induction cs arbitrary: s)
    (simp_all add: commit_one_def prune_locked_def transition_signal_locked_def Let_def split: option.split)

lemma commit_next [simp]: "sv_next_uid (fold (commit_one suspend gone) cs s) = sv_next_uid s"
  by (induction cs arbitrary: s)
    (simp_all add: commit_one_def prune_locked_def transition_signal_locked_def Let_def split: option.split)

lemma commit_children_wf: "od_wf (sv_children s) \<Longrightarrow> od_wf (sv_children (fold (commit_one suspend gone) cs s))"
  by (induction cs arbitrary: s)
    (simp_all add: commit_one_def prune_locked_def transition_signal_locked_def Let_def split: option.split)

definition live_child :: "(nat \<Rightarrow> os_proc) \<Rightarrow> child \<Rightarrow> bool" where
  "live_child os c \<longleftrightarrow> cd_proc c \<and> os (cd_uid c) \<noteq> Exited"

text \<open>When no signal is refused, every live process of the snapshot is signalled and the others are noted.\<close>

lemma signal_processes_all:
  assumes "distinct (map cd_uid cs)" "\<forall>c \<in> set cs. \<not> denied (cd_uid c)"
  shows "signal_processes suspend denied cs os v =
     (False, rev (map cd_model (filter (\<lambda>c. \<not> live_child os c) cs)) @ v,
      \<lambda>u. if \<exists>c \<in> set cs. cd_uid c = u \<and> live_child os c then (if suspend then Paused else Running) else os u)"
  using assms
proof (induction cs arbitrary: os v)
  case (Cons c cs)
  let ?os = "if live_child os c then os(cd_uid c := if suspend then Paused else Running) else os"
  have same: "live_child ?os d = live_child os d" "?os (cd_uid d) = os (cd_uid d)" if "d \<in> set cs" for d
  proof -
    have "cd_uid d \<in> cd_uid ` set cs" using that by (rule imageI)
    then have "cd_uid d \<noteq> cd_uid c" using Cons.prems(1) by auto
    then show "live_child ?os d = live_child os d" "?os (cd_uid d) = os (cd_uid d)" by (simp_all add: live_child_def)
  qed
  then have fl: "filter (\<lambda>d. \<not> live_child ?os d) cs = filter (\<lambda>d. \<not> live_child os d) cs"
    by (intro filter_cong) simp_all
  have "signal_processes suspend denied (c # cs) os v =
      signal_processes suspend denied cs ?os (if live_child os c then v else cd_model c # v)"
    using Cons.prems by (auto simp: live_child_def)
  also have "\<dots> = (False, rev (map cd_model (filter (\<lambda>d. \<not> live_child os d) (c # cs))) @ v,
      \<lambda>u. if \<exists>d \<in> set cs. cd_uid d = u \<and> live_child os d then (if suspend then Paused else Running) else ?os u)"
    using Cons.IH [of ?os] Cons.prems same(1) by (auto simp: fl fun_eq_iff)
  finally show ?case by (auto simp: fun_eq_iff live_child_def)
qed simp

text \<open>What whole calls keep: a replica is tracked exactly while its state is live, a stopped one has no slot in
  use, the remembered states are those of the suspended replicas, and processes are told apart.\<close>

definition slot_ok :: "nat \<Rightarrow> ident \<Rightarrow> _ \<Rightarrow> bool" where
  "slot_ok n mid v \<longleftrightarrow>
     (case v of (ch, st, p, g, i, pre) \<Rightarrow>
        (case st of
           None \<Rightarrow> ch = None \<and> pre = None
         | Some x \<Rightarrow> p \<noteq> None \<and> (x = STOPPED \<longrightarrow> i = Some 0) \<and> (ch = None \<longleftrightarrow> x = STOPPED)
                     \<and> (pre \<noteq> None \<longleftrightarrow> x = SUSPENDED) \<and> pre \<notin> {Some STOPPED, Some SUSPENDED})
        \<and> (case ch of None \<Rightarrow> True | Some c \<Rightarrow> cd_model c = mid \<and> cd_uid c < n))"

definition uids_distinct :: "supervisor \<Rightarrow> bool" where
  "uids_distinct s \<longleftrightarrow>
     (\<forall>k c k' c'. map_of (sv_children s) k = Some c \<and> map_of (sv_children s) k' = Some c' \<and> cd_uid c = cd_uid c' \<longrightarrow> k = k')"

definition sup_ok :: "supervisor \<Rightarrow> bool" where
  "sup_ok s \<longleftrightarrow> sup_coherent s \<and> od_wf (sv_children s) \<and> uids_distinct s \<and> (\<forall>mid. slot_ok (sv_next_uid s) mid (slot s mid))"

lemma slot_ok_more: "slot_ok n mid v \<Longrightarrow> n \<le> m \<Longrightarrow> slot_ok m mid v"
  by (auto simp: slot_ok_def split: prod.splits option.splits)

lemma slot_signal_ok: "slot_ok n mid v \<Longrightarrow> fst v \<noteq> None \<Longrightarrow> slot_ok n mid (slot_signal b g v)"
  by (cases v) (auto simp: slot_ok_def slot_signal_def split: option.splits)

lemma sup_ok_child:
  assumes "sup_ok s" "map_of (sv_children s) mid = Some c"
  shows "cd_model c = mid" "cd_uid c < sv_next_uid s"
    "\<exists>st. map_of (sv_states s) mid = Some st \<and> st \<noteq> STOPPED"
  using assms by (auto simp: sup_ok_def slot_ok_def slot_def split: option.splits dest!: spec [of _ mid])

lemma children_values:
  assumes "sup_ok s"
  shows "distinct (map cd_model (map snd (sv_children s)))"
    and "distinct (map cd_uid (map snd (sv_children s)))"
    and "c \<in> set (map snd (sv_children s)) \<longleftrightarrow> map_of (sv_children s) (cd_model c) = Some c"
proof -
  have wf: "distinct (map fst (sv_children s))" and uids: "uids_distinct s"
    using assms by (simp_all add: sup_ok_def od_wf_def)
  have entry: "map_of (sv_children s) k = Some d \<and> cd_model d = k" if "(k, d) \<in> set (sv_children s)" for k d
    using that wf sup_ok_child(1) [OF assms] by auto
  then have "map cd_model (map snd (sv_children s)) = map fst (sv_children s)" by fastforce
  then show "distinct (map cd_model (map snd (sv_children s)))" by (simp only: wf)
  show "c \<in> set (map snd (sv_children s)) \<longleftrightarrow> map_of (sv_children s) (cd_model c) = Some c"
    using entry by (force dest: map_of_SomeD)
  have "inj_on (\<lambda>e. cd_uid (snd e)) (set (sv_children s))"
  proof (rule inj_onI)
    fix x y assume "x \<in> set (sv_children s)" "y \<in> set (sv_children s)" "cd_uid (snd x) = cd_uid (snd y)"
    moreover from this have "fst x = fst y"
      using entry [of "fst x" "snd x"] entry [of "fst y" "snd y"] uids unfolding uids_distinct_def by (metis prod.collapse)
    ultimately show "x = y"
      using entry [of "fst x" "snd x"] entry [of "fst y" "snd y"] by (metis option.inject prod.collapse)
  qed
  moreover have "distinct (sv_children s)" using wf by (simp add: distinct_map)
  ultimately show "distinct (map cd_uid (map snd (sv_children s)))" by (simp add: distinct_map comp_def)
qed

text \<open>A whole suspension or resumption that nothing refuses: the signals, then the bookkeeping.\<close>

definition signals_granted :: "(nat \<Rightarrow> bool) \<Rightarrow> supervisor \<Rightarrow> bool" where
  "signals_granted denied s \<longleftrightarrow> (\<forall>mid c. map_of (sv_children s) mid = Some c \<longrightarrow> \<not> denied (cd_uid c))"

definition signalled_os :: "bool \<Rightarrow> supervisor \<Rightarrow> nat \<Rightarrow> os_proc" where
  "signalled_os b s u =
     (if \<exists>mid c. map_of (sv_children s) mid = Some c \<and> cd_uid c = u \<and> live_child (sv_os s) c
      then (if b then Paused else Running) else sv_os s u)"

lemma signal_snapshot:
  assumes ok: "sup_ok s" and grant: "signals_granted denied s"
  obtains gone where "signal_processes b denied (map snd (sv_children s)) (sv_os s) [] = (False, gone, signalled_os b s)"
    "\<And>mid c. map_of (sv_children s) mid = Some c \<Longrightarrow> mid \<in> set gone \<longleftrightarrow> \<not> live_child (sv_os s) c"
proof -
  let ?cs = "map snd (sv_children s)"
  let ?gone = "rev (map cd_model (filter (\<lambda>c. \<not> live_child (sv_os s) c) ?cs))"
  note vals = children_values [OF ok]
  have mem: "c \<in> set ?cs \<longleftrightarrow> (\<exists>mid. map_of (sv_children s) mid = Some c)" for c
    using vals(3) sup_ok_child(1) [OF ok] by metis
  have "\<forall>c \<in> set ?cs. \<not> denied (cd_uid c)" using grant mem by (auto simp: signals_granted_def simp del: set_map)
  moreover have "(\<lambda>u. if \<exists>c \<in> set ?cs. cd_uid c = u \<and> live_child (sv_os s) c then (if b then Paused else Running)
      else sv_os s u) = signalled_os b s"
  proof -
    have ex: "(\<exists>c \<in> set ?cs. P c) \<longleftrightarrow> (\<exists>mid c. map_of (sv_children s) mid = Some c \<and> P c)" for P
      using mem by blast
    show ?thesis unfolding signalled_os_def fun_eq_iff by (simp only: ex simp_thms)
  qed
  ultimately have "signal_processes b denied ?cs (sv_os s) [] = (False, ?gone, signalled_os b s)"
    using signal_processes_all [OF vals(2), of denied b "sv_os s" "[]"] by (simp only: append_Nil2)
  moreover have "mid \<in> set ?gone \<longleftrightarrow> \<not> live_child (sv_os s) c" if "map_of (sv_children s) mid = Some c" for mid c
  proof -
    have "d \<in> set ?cs \<and> cd_model d = mid \<longleftrightarrow> d = c" for d
      using vals(3) [of d] that sup_ok_child(1) [OF ok that] by auto
    moreover have "mid \<in> set ?gone \<longleftrightarrow> (\<exists>d. (d \<in> set ?cs \<and> cd_model d = mid) \<and> \<not> live_child (sv_os s) d)"
      by auto
    ultimately show ?thesis by simp
  qed
  ultimately show thesis by (rule that)
qed

lemma apply_signal_slots:
  assumes ok: "sup_ok s" and grant: "signals_granted denied s"
  obtains t where "apply_signal b denied s = (False, t)" "sup_coherent t" "od_wf (sv_children t)"
    "sv_next_uid t = sv_next_uid s" "sv_os t = signalled_os b s"
    "\<And>mid. slot t mid = (case map_of (sv_children s) mid of None \<Rightarrow> slot s mid
                         | Some c \<Rightarrow> slot_signal b (\<not> live_child (sv_os s) c) (slot s mid))"
proof -
  obtain gone where sig: "signal_processes b denied (map snd (sv_children s)) (sv_os s) [] = (False, gone, signalled_os b s)"
    and gone: "\<And>mid c. map_of (sv_children s) mid = Some c \<Longrightarrow> mid \<in> set gone \<longleftrightarrow> \<not> live_child (sv_os s) c"
    using signal_snapshot [OF ok grant] by blast
  let ?cs = "map snd (sv_children s)" and ?s = "s\<lparr>sv_os := signalled_os b s\<rparr>"
  have dom: "mid \<in> cd_model ` set ?cs \<longleftrightarrow> map_of (sv_children s) mid \<noteq> None" for mid
    using children_values(3) [OF ok] sup_ok_child(1) [OF ok] by (metis image_iff not_Some_eq)
  have "slot (commit_signal b gone ?cs ?s) mid = (case map_of (sv_children s) mid of None \<Rightarrow> slot s mid
         | Some c \<Rightarrow> slot_signal b (\<not> live_child (sv_os s) c) (slot s mid))" for mid
  proof -
    have "slot (commit_signal b gone ?cs ?s) mid = slot (fold (commit_one b gone) ?cs ?s) mid"
      by (simp add: commit_signal_def slot_def)
    also have "\<dots> = (if mid \<in> cd_model ` set ?cs then slot_signal b (mid \<in> set gone) (slot s mid) else slot s mid)"
      unfolding commit_fold_slot [OF children_values(1) [OF ok]] by (simp add: slot_def)
    finally show ?thesis using dom gone by (cases "map_of (sv_children s) mid") simp_all
  qed
  moreover have "sup_coherent (commit_signal b gone ?cs ?s)"
    by (rule commit_signal_coherent) (use ok in \<open>simp add: sup_ok_def\<close>)
  moreover have "od_wf (sv_children (commit_signal b gone ?cs ?s))"
    using ok by (simp add: sup_ok_def commit_signal_def commit_children_wf)
  ultimately show thesis
    by (intro that [of "commit_signal b gone ?cs ?s"]) (simp_all add: apply_signal_def Let_def sig commit_signal_def)
qed

lemma apply_signal_ok:
  assumes ok: "sup_ok s" and grant: "signals_granted denied s" and app: "apply_signal b denied s = (raised, t)"
  shows "\<not> raised" "sup_ok t" "sv_os t = signalled_os b s" "sv_next_uid t = sv_next_uid s"
    and "slot t mid = (case map_of (sv_children s) mid of None \<Rightarrow> slot s mid
           | Some c \<Rightarrow> slot_signal b (\<not> live_child (sv_os s) c) (slot s mid))"
proof -
  obtain u where u: "apply_signal b denied s = (False, u)" "sup_coherent u" "od_wf (sv_children u)"
      "sv_next_uid u = sv_next_uid s" "sv_os u = signalled_os b s"
    and sl: "\<And>mid. slot u mid = (case map_of (sv_children s) mid of None \<Rightarrow> slot s mid
         | Some c \<Rightarrow> slot_signal b (\<not> live_child (sv_os s) c) (slot s mid))"
    using apply_signal_slots [OF ok grant] by blast
  have fst: "fst (slot x mid) = map_of (sv_children x) mid" for x mid by (simp add: slot_def)
  have sub: "map_of (sv_children s) k = Some c" if "map_of (sv_children u) k = Some c" for k c
  proof -
    have "fst (case map_of (sv_children s) k of None \<Rightarrow> slot s k
         | Some c \<Rightarrow> slot_signal b (\<not> live_child (sv_os s) c) (slot s k)) = Some c"
      using that fst [of u k] unfolding sl by simp
    then show ?thesis
      by (cases "map_of (sv_children s) k") (auto simp: slot_def slot_signal_def split: option.splits if_splits)
  qed
  have "uids_distinct u"
    using ok sub unfolding sup_ok_def uids_distinct_def by blast
  moreover have "slot_ok (sv_next_uid u) k (slot u k)" for k
    using ok by (simp add: sl u(4) sup_ok_def fst slot_signal_ok split: option.split)
  ultimately show "\<not> raised" "sup_ok t" "sv_os t = signalled_os b s" "sv_next_uid t = sv_next_uid s"
    "slot t mid = (case map_of (sv_children s) mid of None \<Rightarrow> slot s mid
           | Some c \<Rightarrow> slot_signal b (\<not> live_child (sv_os s) c) (slot s mid))"
    using app u sl by (simp_all add: sup_ok_def)
qed

text \<open>The other calls change one slot.\<close>

lemma sup_ok_update:
  assumes ok: "sup_ok s" and t: "sup_coherent t" "od_wf (sv_children t)" "sv_next_uid s \<le> sv_next_uid t"
    and frame: "\<And>k. k \<noteq> mid \<Longrightarrow> slot t k = slot s k" and new: "slot_ok (sv_next_uid t) mid (slot t mid)"
    and uid: "\<And>c. map_of (sv_children t) mid = Some c \<Longrightarrow> map_of (sv_children s) mid = Some c \<or> sv_next_uid s \<le> cd_uid c"
  shows "sup_ok t"
proof -
  have other: "map_of (sv_children t) k = map_of (sv_children s) k" if "k \<noteq> mid" for k
    using frame [OF that] by (simp add: slot_def)
  have bound: "cd_uid c < sv_next_uid s" if "map_of (sv_children s) k = Some c" for k c
    using sup_ok_child(2) [OF ok that] .
  have "uids_distinct s" using ok by (simp add: sup_ok_def)
  then have "uids_distinct t"
    unfolding uids_distinct_def using other bound uid by (metis not_less)
  moreover have "slot_ok (sv_next_uid t) k (slot t k)" for k
  proof (cases "k = mid")
    case False
    then show ?thesis using ok t(3) frame by (auto simp: sup_ok_def intro: slot_ok_more)
  qed (simp add: new)
  ultimately show ?thesis using t by (simp add: sup_ok_def)
qed

lemma sup_ok_slot: "sup_ok s \<Longrightarrow> slot_ok (sv_next_uid s) mid (slot s mid)"
  by (simp add: sup_ok_def)

lemma sup_ok_frame [simp]:
  "sup_ok (s\<lparr>sv_os := f\<rparr>) = sup_ok s"
  "sup_ok (s\<lparr>sv_shutdown := sd\<rparr>) = sup_ok s"
  "sup_ok (s\<lparr>sv_threads := th\<rparr>) = sup_ok s"
  "sup_ok (s\<lparr>sv_slot_probe_warned := w\<rparr>) = sup_ok s"
  by (simp_all add: sup_ok_def uids_distinct_def slot_def)

lemma map_of_set_state_inflight:
  "map_of (sv_inflight (set_state_locked k st s)) mid =
     (if mid = k \<and> st = STOPPED \<and> map_of (sv_ports s) k \<noteq> None then Some 0 else map_of (sv_inflight s) mid)"
  by (auto simp: set_state_locked_def rebuild_cache_def alist_simps)

lemmas slot_simps = slot_def map_of_set_state map_of_set_state_inflight alist_simps

lemma health_fields [simp]:
  "sv_children (mark_crashed c s) = AList.delete (cd_model c) (sv_children s)"
  "sv_next_uid (mark_crashed c s) = sv_next_uid s" "sv_os (mark_crashed c s) = sv_os s"
  "sv_children (mark_ready mid s) = sv_children s" "sv_next_uid (mark_ready mid s) = sv_next_uid s"
  "sv_os (mark_ready mid s) = sv_os s"
  "sv_children (poll_slots c count s) = sv_children s" "sv_next_uid (poll_slots c count s) = sv_next_uid s"
  "sv_os (poll_slots c count s) = sv_os s"
  by (simp_all add: mark_crashed_def mark_ready_def poll_slots_def Let_def split: option.split)

lemma stop_begin_fields:
  assumes "stop_begin mid s = (r, t)"
  shows "sv_children t = AList.delete mid (sv_children s)" "sv_next_uid t = sv_next_uid s" "sv_os t = sv_os s"
    "r = map_of (sv_children s) mid"
  using assms by (auto simp: stop_begin_def)

lemma stop_begin_ok:
  assumes "sup_ok s" "stop_begin mid s = (r, t)"
  shows "sup_ok t"
proof (rule sup_ok_update [OF assms(1), where mid = mid])
  show "sup_coherent t" using assms by (auto simp: sup_ok_def intro: stop_begin_coherent)
  show "slot_ok (sv_next_uid t) mid (slot t mid)"
    using assms(2) sup_ok_slot [OF assms(1), of mid]
    by (auto simp: stop_begin_def slot_ok_def slot_simps split: option.splits if_splits)
  show "\<And>k. k \<noteq> mid \<Longrightarrow> slot t k = slot s k" using assms(2) by (auto simp: stop_begin_def slot_simps)
qed (use assms(1) in \<open>simp_all add: stop_begin_fields [OF assms(2)] alist_simps sup_ok_def\<close>)

lemma stop_replica_ok: "sup_ok s \<Longrightarrow> sup_ok (stop_replica mid gone s)"
  using stop_begin_ok [of s mid]
  by (cases "stop_begin mid s") (auto simp: stop_replica_def stop_end_def split: option.split)

lemma mark_crashed_ok:
  assumes "sup_ok s"
  shows "sup_ok (mark_crashed c s)"
proof (rule sup_ok_update [OF assms, where mid = "cd_model c"])
  show "sup_coherent (mark_crashed c s)" using assms by (simp add: sup_ok_def mark_crashed_coherent)
  show "slot_ok (sv_next_uid (mark_crashed c s)) (cd_model c) (slot (mark_crashed c s) (cd_model c))"
    using sup_ok_slot [OF assms, of "cd_model c"]
    by (auto simp: mark_crashed_def Let_def slot_ok_def slot_simps split: option.splits)
  show "\<And>k. k \<noteq> cd_model c \<Longrightarrow> slot (mark_crashed c s) k = slot s k"
    by (simp add: mark_crashed_def Let_def slot_simps)
qed (use assms in \<open>simp_all add: alist_simps sup_ok_def\<close>)

lemma mark_ready_ok:
  assumes "sup_ok s"
  shows "sup_ok (mark_ready mid s)"
proof (rule sup_ok_update [OF assms, where mid = mid])
  show "sup_coherent (mark_ready mid s)" using assms by (simp add: sup_ok_def mark_ready_coherent)
  show "slot_ok (sv_next_uid (mark_ready mid s)) mid (slot (mark_ready mid s) mid)"
    using sup_ok_slot [OF assms, of mid]
    by (auto simp: mark_ready_def slot_ok_def slot_simps split: option.splits)
  show "\<And>k. k \<noteq> mid \<Longrightarrow> slot (mark_ready mid s) k = slot s k" by (simp add: mark_ready_def slot_simps)
qed (use assms in \<open>simp_all add: sup_ok_def\<close>)

lemma poll_slots_ok:
  assumes "sup_ok s"
  shows "sup_ok (poll_slots c count s)"
proof (rule sup_ok_update [OF assms, where mid = "cd_model c"])
  show "sup_coherent (poll_slots c count s)" using assms by (simp add: sup_ok_def poll_slots_coherent)
  show "slot_ok (sv_next_uid (poll_slots c count s)) (cd_model c) (slot (poll_slots c count s) (cd_model c))"
    using sup_ok_slot [OF assms, of "cd_model c"]
    by (auto simp: poll_slots_def is_ready_def slot_ok_def slot_simps split: option.splits)
  show "\<And>k. k \<noteq> cd_model c \<Longrightarrow> slot (poll_slots c count s) k = slot s k"
    by (simp add: poll_slots_def slot_simps split: option.split)
qed (use assms in \<open>simp_all add: sup_ok_def\<close>)

definition started :: "model_manifest \<Rightarrow> int \<Rightarrow> bool \<Rightarrow> instant \<Rightarrow> supervisor \<Rightarrow> child" where
  "started m port found now s =
     \<lparr>cd_uid = sv_next_uid s, cd_model = mm_model_id m, cd_port = port, cd_proc = found, cd_started = now\<rparr>"

lemma start_replica_cases:
  assumes "start_replica m port launch now s = Some t"
  obtains "\<not> can_start (mm_model_id m) s" "t = s"
  | found where "can_start (mm_model_id m) s" "launch = Some found"
      "t = record_thread (started m port found now s) (register_child (started m port found now s) (0 < mm_min_vram_mb m)
             (snd (spawn (mm_model_id m) port found now s)))"
  using assms by (auto simp: start_replica_def spawn_def started_def split: if_splits option.splits)

lemma start_replica_fields:
  assumes "t = record_thread (started m port found now s) (register_child (started m port found now s) (0 < mm_min_vram_mb m)
             (snd (spawn (mm_model_id m) port found now s)))"
  shows "sv_children t = AList.update (mm_model_id m) (started m port found now s) (sv_children s)"
    "sv_next_uid t = Suc (sv_next_uid s)"
    "sv_os t = (sv_os s)(sv_next_uid s := if found then Running else Exited)"
    "k \<noteq> mm_model_id m \<Longrightarrow> slot t k = slot s k"
    "slot t (mm_model_id m) =
       (Some (started m port found now s), Some LOADING, Some port, Some (0 < mm_min_vram_mb m), Some 0,
        map_of (sv_pre_suspend s) (mm_model_id m))"
  by (simp_all add: assms record_thread_def register_child_def spawn_def started_def slot_simps)

lemma start_replica_ok:
  assumes "sup_ok s" "start_replica m port launch now s = Some t"
  shows "sup_ok t"
  using assms(2)
proof (cases rule: start_replica_cases)
  case (2 found)
  note f = start_replica_fields [OF 2(3)]
  show ?thesis
  proof (rule sup_ok_update [OF assms(1), where mid = "mm_model_id m"])
    show "sup_coherent t"
      using assms(1) by (simp add: 2(3) sup_ok_def record_thread_def register_coherent spawn_def)
    show "slot_ok (sv_next_uid t) (mm_model_id m) (slot t (mm_model_id m))"
      using sup_ok_slot [OF assms(1), of "mm_model_id m"] 2(1)
      unfolding f(2,5) by (auto simp: can_start_def slot_ok_def slot_def started_def split: option.splits)
  qed (use assms(1) in \<open>auto simp: f alist_simps started_def sup_ok_def\<close>)
qed (use assms in simp)

end
