(* ===== verification/Agent_Yield.thy ===== *)
theory Agent_Yield
  imports Agent_Preempt
begin

text \<open>
  What the agent's threads do to the machine together: the poll thread, the reconcile loop, the health
  threads and the background stops share one supervisor. While the user is there every tracked replica is
  paused; a start that was decided before the user came back escapes this.
\<close>

section \<open>The machine belongs to its user\<close>

text \<open>The agent's threads, each call taken as a whole: poll ticks whose signals are not refused, shutdown, the
  reconcile loop's starts that land on the idle, unreclaimed machine the loop checked for, anybody's
  stops, the health threads, and processes that exit. Starts that land later are the subject of
  \<open>late_start_runs_while_active\<close>; threads interleaved inside a call are in \<open>Agent_Supervisor\<close>.\<close>

inductive node_step :: "agent_config \<Rightarrow> ident \<Rightarrow> agent_node \<Rightarrow> agent_node \<Rightarrow> bool" for cfg aid where
  ns_tick: "signals_granted (pe_denied env) (an_sup n) \<Longrightarrow> node_step cfg aid n (safe_poll cfg env aid flag idle now n)"
| ns_drain: "drain env aid (an_controller n) = (c, evs) \<Longrightarrow>
    node_step cfg aid n (n\<lparr>an_controller := c, an_events := an_events n @ evs\<rparr>)"
| ns_start: "pc_state (an_controller n) = IDLE \<Longrightarrow> \<not> an_reclaimed n \<Longrightarrow>
    start_replica m port launch now (an_sup n) = Some s \<Longrightarrow> node_step cfg aid n (n\<lparr>an_sup := s\<rparr>)"
| ns_stop: "node_step cfg aid n (n\<lparr>an_sup := stop_replica mid gone (an_sup n)\<rparr>)"
| ns_ready: "node_step cfg aid n (n\<lparr>an_sup := mark_ready mid (an_sup n)\<rparr>)"
| ns_crashed: "sv_os (an_sup n) (cd_uid c) = Exited \<Longrightarrow> node_step cfg aid n (n\<lparr>an_sup := mark_crashed c (an_sup n)\<rparr>)"
| ns_slots: "node_step cfg aid n (n\<lparr>an_sup := poll_slots c count (an_sup n)\<rparr>)"
| ns_exit: "node_step cfg aid n (n\<lparr>an_sup := (an_sup n)\<lparr>sv_os := (sv_os (an_sup n))(uid := Exited)\<rparr>\<rparr>)"

definition node_start :: agent_node where
  "node_start = \<lparr>an_sup = ChildProcessSupervisor, an_controller = PreemptController, an_reclaimed = False, an_events = []\<rparr>"

definition yielded :: "agent_node \<Rightarrow> bool" where
  "yielded n \<longleftrightarrow> pc_state (an_controller n) = ACTIVE \<or> an_reclaimed n"

definition all_paused :: "supervisor \<Rightarrow> bool" where
  "all_paused s \<longleftrightarrow>
     (\<forall>mid c. map_of (sv_children s) mid = Some c \<and> live_child (sv_os s) c \<longrightarrow> sv_os s (cd_uid c) = Paused)"

lemma stop_replica_cases:
  obtains "map_of (sv_children s) mid = None" "stop_replica mid gone s = snd (stop_begin mid s)"
  | c where "map_of (sv_children s) mid = Some c" "stop_replica mid gone s = stop_end c gone (snd (stop_begin mid s))"
  by (cases "map_of (sv_children s) mid") (auto simp: stop_replica_def stop_begin_def)

lemma stop_replica_fields:
  "sv_children (stop_replica mid gone s) = AList.delete mid (sv_children s)"
  "sv_os (stop_replica mid gone s) u =
     (if gone \<and> (\<exists>c. map_of (sv_children s) mid = Some c \<and> cd_uid c = u) then Exited else sv_os s u)"
  by (auto simp: stop_replica_def stop_begin_def stop_end_def split: option.split)

lemma stop_replica_paused: "all_paused s \<Longrightarrow> all_paused (stop_replica mid gone s)"
  by (auto simp: all_paused_def stop_replica_fields live_child_def alist_simps split: if_splits)

lemma suspend_pauses:
  assumes "sup_ok s" "signals_granted denied s" "apply_signal True denied s = (raised, t)"
  shows "\<not> raised" "sup_ok t" "all_paused t"
proof -
  note t = apply_signal_ok [OF assms]
  have "map_of (sv_children s) mid = Some c \<and> live_child (sv_os s) c" if "map_of (sv_children t) mid = Some c" for mid c
  proof -
    have "fst (slot t mid) = Some c" using that by (simp add: slot_def)
    then show ?thesis
      unfolding t(5) [of mid] by (cases "map_of (sv_children s) mid") (auto simp: slot_def slot_signal_def split: option.splits if_splits)
  qed
  then show "all_paused t" by (auto simp: all_paused_def t(3) signalled_os_def)
qed (use apply_signal_ok [OF assms] in simp_all)

lemma stop_suspended_gpu_ok:
  "sup_ok s \<Longrightarrow> all_paused s \<Longrightarrow> sup_ok (stop_suspended_gpu gone rows s) \<and> all_paused (stop_suspended_gpu gone rows s)"
  unfolding stop_suspended_gpu_def
  by (induction rows arbitrary: s) (simp_all add: stop_replica_ok stop_replica_paused)

lemma escalate_ok:
  assumes "maybe_escalate cfg env now c s = (c', t)" "sup_ok s" "all_paused s"
  shows "sup_ok t" "all_paused t" "pc_state c' = pc_state c"
  using assms stop_suspended_gpu_ok [of s] by (auto simp: maybe_escalate_def split: option.splits if_splits)

definition node_ok :: "agent_node \<Rightarrow> bool" where
  "node_ok n \<longleftrightarrow> sup_ok (an_sup n) \<and> (yielded n \<longrightarrow> all_paused (an_sup n))"

lemma apply_signal_granted:
  assumes "sup_ok s" "signals_granted denied s"
  obtains t where "apply_signal b denied s = (False, t)" "sup_ok t" "b \<Longrightarrow> all_paused t"
proof -
  obtain raised t where app: "apply_signal b denied s = (raised, t)" by fastforce
  note ok = apply_signal_ok(1,2) [OF assms app]
  have "all_paused t" if b using suspend_pauses(3) [OF assms] app that by simp
  with app ok show thesis by (intro that [of t]) simp_all
qed

lemma on_poll_ok:
  assumes "sup_ok s" "signals_granted (pe_denied env) s" "pc_state c = ACTIVE \<longrightarrow> all_paused s"
    and poll: "on_poll cfg env aid idle_s now c s = (c', t, evs)"
  shows "sup_ok t \<and> (pc_state c' = ACTIVE \<longrightarrow> all_paused t)"
proof -
  obtain u where u: "apply_signal True (pe_denied env) s = (False, u)" "sup_ok u" "all_paused u"
    using apply_signal_granted [OF assms(1,2), of True] by auto
  obtain v where v: "apply_signal False (pe_denied env) s = (False, v)" "sup_ok v"
    using apply_signal_granted [OF assms(1,2), of False] by auto
  obtain e x where esc: "maybe_escalate cfg env now c s = (e, x)" by fastforce
  show ?thesis
    using assms u v escalate_ok [OF esc assms(1)]
    by (cases "pc_state c") (auto simp: on_poll_def enter_active_def enter_idle_def esc split: if_splits)
qed

lemma reclaim_ok:
  assumes "sup_ok s" "signals_granted (pe_denied env) s" "reclaim_on_poll env flag r s = (raised, r', t, d)"
  shows "\<not> raised" "r' = flag" "sup_ok t" "r' \<and> \<not> r \<Longrightarrow> all_paused t" "\<not> (r' \<and> \<not> r) \<Longrightarrow> t = s"
proof -
  obtain u where "apply_signal True (pe_denied env) s = (False, u)" "sup_ok u" "all_paused u"
    using apply_signal_granted [OF assms(1,2), of True] by auto
  then show "\<not> raised" "r' = flag" "sup_ok t" "r' \<and> \<not> r \<Longrightarrow> all_paused t" "\<not> (r' \<and> \<not> r) \<Longrightarrow> t = s"
    using assms by (auto simp: reclaim_on_poll_def split: if_splits)
qed

lemma safe_poll_cases:
  assumes "sup_ok (an_sup n)" "signals_granted (pe_denied env) (an_sup n)"
  obtains s where "flag" "safe_poll cfg env aid flag idle now n = n\<lparr>an_reclaimed := True, an_sup := s\<rparr>" "sup_ok s"
      "an_reclaimed n \<longrightarrow> s = an_sup n" "\<not> an_reclaimed n \<longrightarrow> all_paused s"
  | "\<not> flag" "idle = None" "safe_poll cfg env aid flag idle now n = n\<lparr>an_reclaimed := False\<rparr>"
  | idle_s c s evs where "\<not> flag" "idle = Some idle_s"
      "on_poll cfg env aid idle_s now (an_controller n) (an_sup n) = (c, s, evs)"
      "safe_poll cfg env aid flag idle now n =
         n\<lparr>an_reclaimed := False, an_controller := c, an_sup := s, an_events := an_events n @ evs\<rparr>"
proof -
  obtain raised r s d where rec: "reclaim_on_poll env flag (an_reclaimed n) (an_sup n) = (raised, r, s, d)"
    by (metis prod_cases4)
  note ok = reclaim_ok [OF assms rec]
  show thesis
  proof (cases flag)
    case True
    have "safe_poll cfg env aid flag idle now n = n\<lparr>an_reclaimed := True, an_sup := s\<rparr>"
      unfolding safe_poll_def rec using ok True by simp
    then show thesis using ok True by (intro that(1) [of s]) simp_all
  next
    case False
    then have s: "s = an_sup n" "\<not> r" using ok by auto
    have sp: "safe_poll cfg env aid flag idle now n =
        (case idle of None \<Rightarrow> n\<lparr>an_reclaimed := False\<rparr>
         | Some idle_s \<Rightarrow> case on_poll cfg env aid idle_s now (an_controller n) (an_sup n) of (c, s, evs) \<Rightarrow>
             n\<lparr>an_reclaimed := False, an_controller := c, an_sup := s, an_events := an_events n @ evs\<rparr>)"
      unfolding safe_poll_def rec using ok(1) s by (simp split: option.split prod.split)
    show thesis
    proof (cases idle)
      case None
      then show thesis using False sp by (intro that(2)) simp_all
    next
      case (Some idle_s)
      obtain c u evs where "on_poll cfg env aid idle_s now (an_controller n) (an_sup n) = (c, u, evs)"
        by (metis prod_cases3)
      then show thesis
        using False Some sp by (intro that(3) [of idle_s c u evs]) simp_all
    qed
  qed
qed

lemma safe_poll_ok:
  assumes ok: "node_ok n" and grant: "signals_granted (pe_denied env) (an_sup n)"
  shows "node_ok (safe_poll cfg env aid flag idle now n)"
proof -
  have sup: "sup_ok (an_sup n)" using ok by (simp add: node_ok_def)
  show ?thesis
  proof (rule safe_poll_cases [OF sup grant, of flag cfg aid idle now])
    fix idle_s c s evs
    assume poll: "on_poll cfg env aid idle_s now (an_controller n) (an_sup n) = (c, s, evs)"
      and eq: "safe_poll cfg env aid flag idle now n =
        n\<lparr>an_reclaimed := False, an_controller := c, an_sup := s, an_events := an_events n @ evs\<rparr>"
    have "sup_ok s \<and> (pc_state c = ACTIVE \<longrightarrow> all_paused s)"
      using ok by (intro on_poll_ok [OF sup grant _ poll]) (simp add: node_ok_def yielded_def)
    then show ?thesis by (simp add: eq node_ok_def yielded_def)
  qed (use ok in \<open>auto simp: node_ok_def yielded_def\<close>)
qed

lemma all_paused_ops:
  "all_paused s \<Longrightarrow> all_paused (mark_ready mid s)"
  "all_paused s \<Longrightarrow> all_paused (mark_crashed c s)"
  "all_paused s \<Longrightarrow> all_paused (poll_slots c count s)"
  "all_paused s \<Longrightarrow> all_paused (s\<lparr>sv_os := (sv_os s)(uid := Exited)\<rparr>)"
  by (auto simp: all_paused_def live_child_def alist_simps)

lemma node_step_ok: "node_step cfg aid n n' \<Longrightarrow> node_ok n \<Longrightarrow> node_ok n'"
proof (induction rule: node_step.induct)
  case (ns_tick env n flag idle now)
  then show ?case by (rule safe_poll_ok [rotated])
next
  case (ns_drain env n c evs)
  then show ?case by (auto simp: node_ok_def yielded_def drain_def split: if_splits)
next
  case (ns_start n m port launch now s)
  then show ?case using start_replica_ok by (auto simp: node_ok_def yielded_def)
qed (auto simp: node_ok_def yielded_def stop_replica_ok stop_replica_paused mark_ready_ok mark_crashed_ok poll_slots_ok
    all_paused_ops)

lemma node_start_ok: "node_ok node_start"
  by (auto simp: node_ok_def node_start_def yielded_def PreemptController_def sup_ok_def sup_coherent_def sup_keyed_def
      ChildProcessSupervisor_def status_rows_def uids_distinct_def slot_ok_def slot_def all_paused_def)

interpretation node: inv_system "\<lambda>n. n = node_start" "node_step cfg aid" node_ok for cfg aid
  by unfold_locales (auto intro: node_start_ok node_step_ok)

lemma suspend_reports:
  assumes "sup_ok s" "signals_granted denied s" "apply_signal True denied s = (False, t)" "map_of (sv_children t) mid = Some c"
  shows "map_of (sv_children s) mid = Some c" "map_of (sv_states t) mid = Some SUSPENDED" "sv_os t (cd_uid c) = Paused"
    "live_child (sv_os s) c" "map_of (sv_ports t) mid = map_of (sv_ports s) mid"
proof -
  note t = apply_signal_ok [OF assms(1-3)]
  have sl: "slot t mid = (case map_of (sv_children s) mid of None \<Rightarrow> slot s mid
      | Some c \<Rightarrow> slot_signal True (\<not> live_child (sv_os s) c) (slot s mid))" by (rule t(5))
  have "fst (slot t mid) = Some c" using assms(4) by (simp add: slot_def)
  then have c: "map_of (sv_children s) mid = Some c" "live_child (sv_os s) c"
    unfolding sl by (cases "map_of (sv_children s) mid"; auto simp: slot_def slot_signal_def split: option.splits if_splits)+
  obtain st where st: "map_of (sv_states s) mid = Some st" using sup_ok_child(3) [OF assms(1) c(1)] by auto
  have "slot t mid = slot_signal True False (slot s mid)" using sl c by simp
  then show "map_of (sv_states t) mid = Some SUSPENDED" "map_of (sv_ports t) mid = map_of (sv_ports s) mid"
    using st by (simp_all add: slot_def slot_signal_def)
  show "sv_os t (cd_uid c) = Paused" using c by (auto simp: t(3) signalled_os_def)
  show "map_of (sv_children s) mid = Some c" "live_child (sv_os s) c" using c .
qed

lemma return_tick:
  assumes ok: "sup_ok (an_sup n)" and grant: "signals_granted (pe_denied env) (an_sup n)"
    and idle: "pc_state (an_controller n) = IDLE" "\<not> an_reclaimed n" "is_fresh_input cfg (an_controller n) idle_s"
  obtains s where "apply_signal True (pe_denied env) (an_sup n) = (False, s)"
    "safe_poll cfg env aid False (Some idle_s) now n =
       n\<lparr>an_controller := \<lparr>pc_state = ACTIVE, pc_prev_idle_s = Some idle_s, pc_active_since = Some now, pc_escalated = False\<rparr>,
         an_sup := s,
         an_events := an_events n @ [\<lparr>ae_agent_id = aid, ae_kind = USER_RETURNED, ae_at = pe_now env,
           ae_detail = [(''yield_ms'', pe_format env ((pe_monotonic env - now) * MS_PER_S))]\<rparr>]\<rparr>"
proof -
  obtain s where s: "apply_signal True (pe_denied env) (an_sup n) = (False, s)"
    using apply_signal_granted [OF ok grant, of True] by auto
  show thesis
    using idle by (intro that [OF s]) (simp add: safe_poll_def reclaim_on_poll_def on_poll_def enter_active_def s)
qed



definition demo_manifest :: "ident \<Rightarrow> model_manifest" where
  "demo_manifest mid = \<lparr>mm_model_id = mid, mm_family = ''f'', mm_quant = ''q'', mm_worker_kind = CHAT, mm_file_name = ''m.gguf'',
     mm_sha256 = ''00'', mm_size_bytes = 6, mm_min_ram_mb = 1, mm_min_vram_mb = 4096,
     mm_default_args = [], mm_chat_template_hint = None, mm_license = None, mm_source_url = None\<rparr>"

definition demo_env :: poll_env where
  "demo_env = \<lparr>pe_denied = (\<lambda>_. False), pe_gone = True, pe_monotonic = 1, pe_now = 7, pe_format = (\<lambda>_. ''1.000'')\<rparr>"

definition demo_node :: agent_node where
  "demo_node = node_start\<lparr>an_sup := the (start_replica (demo_manifest ''m'') 9000 (Some True) 0 ChildProcessSupervisor)\<rparr>"

lemma demo_started: "start_replica (demo_manifest ''m'') 9000 (Some True) 0 ChildProcessSupervisor = Some (an_sup demo_node)"
  by (simp add: demo_node_def start_replica_def can_start_def ChildProcessSupervisor_def spawn_def)

lemma demo_node_reachable: "reach (\<lambda>n. n = node_start) (node_step cfg aid) demo_node"
proof -
  have "an_sup node_start = ChildProcessSupervisor" "pc_state (an_controller node_start) = IDLE" "\<not> an_reclaimed node_start"
    by (simp_all add: node_start_def PreemptController_def)
  then have "node_step cfg aid node_start (node_start\<lparr>an_sup := an_sup demo_node\<rparr>)"
    using ns_start [of node_start "demo_manifest ''m''" 9000 "Some True" 0 "an_sup demo_node" cfg aid] demo_started by simp
  then have "node_step cfg aid node_start demo_node" by (simp add: demo_node_def)
  moreover have "reach (\<lambda>n. n = node_start) (node_step cfg aid) node_start" by (rule reach_init) (rule refl)
  ultimately show ?thesis by (blast intro: reach_step)
qed

lemma demo_node_fields:
  "an_controller demo_node = PreemptController" "\<not> an_reclaimed demo_node" "signals_granted (pe_denied demo_env) (an_sup demo_node)"
  "map_of (sv_children (an_sup demo_node)) ''m'' = Some (started (demo_manifest ''m'') 9000 True 0 ChildProcessSupervisor)"
  "sv_os (an_sup demo_node) 0 = Running"
  by (simp_all add: demo_node_def node_start_def signals_granted_def demo_env_def start_replica_def can_start_def
      ChildProcessSupervisor_def spawn_def record_thread_def register_child_def demo_manifest_def started_def)


section \<open>A start that was decided before the user came back\<close>

lemma stop_replica_other:
  assumes "sup_ok s" "map_of (sv_children s) mid = Some c" "k \<noteq> mid"
  shows "map_of (sv_children (stop_replica k gone s)) mid = Some c"
    "sv_os (stop_replica k gone s) (cd_uid c) = sv_os s (cd_uid c)"
    "map_of (sv_states (stop_replica k gone s)) mid = map_of (sv_states s) mid"
proof -
  have "uids_distinct s" using assms(1) by (simp add: sup_ok_def)
  then show "sv_os (stop_replica k gone s) (cd_uid c) = sv_os s (cd_uid c)"
    using assms(2,3) by (auto simp: stop_replica_fields uids_distinct_def)
  show "map_of (sv_states (stop_replica k gone s)) mid = map_of (sv_states s) mid"
    using assms(3) by (auto simp: stop_replica_def stop_begin_def stop_end_def map_of_set_state split: option.split)
qed (use assms in \<open>simp add: stop_replica_fields alist_simps\<close>)

definition runs_unpaused :: "ident \<Rightarrow> child \<Rightarrow> supervisor \<Rightarrow> bool" where
  "runs_unpaused mid c s \<longleftrightarrow>
     sup_ok s \<and> map_of (sv_children s) mid = Some c \<and> sv_os s (cd_uid c) = Running \<and> map_of (sv_states s) mid \<noteq> Some SUSPENDED"

lemma stop_suspended_gpu_spares:
  "runs_unpaused mid c s \<Longrightarrow> \<forall>r \<in> set rows. rs_model_id r = mid \<longrightarrow> rs_state r \<noteq> SUSPENDED \<Longrightarrow>
   runs_unpaused mid c (stop_suspended_gpu gone rows s)"
  unfolding stop_suspended_gpu_def
proof (induction rows arbitrary: s)
  case (Cons r rows)
  have "runs_unpaused mid c (stop_replica (rs_model_id r) gone s)" if "rs_state r = SUSPENDED"
  proof -
    have "rs_model_id r \<noteq> mid" using that Cons.prems(2) by auto
    then show ?thesis
      using Cons.prems(1) stop_replica_other [of s mid c] by (simp add: runs_unpaused_def stop_replica_ok)
  qed
  with Cons show ?case by simp
qed simp

lemma escalate_spares:
  assumes "runs_unpaused mid c s" "maybe_escalate cfg env now pc s = (pc', t)"
  shows "runs_unpaused mid c t"
proof -
  have "\<forall>r \<in> set (statuses s). rs_model_id r = mid \<longrightarrow> rs_state r \<noteq> SUSPENDED"
    using assms(1)
    by (auto simp: runs_unpaused_def statuses_def sup_ok_def sup_coherent_def sup_keyed_def status_rows_def od_wf_def)
  then show ?thesis
    using assms stop_suspended_gpu_spares by (auto simp: maybe_escalate_def split: option.splits if_splits)
qed

lemma active_tick_spares:
  assumes "runs_unpaused mid c (an_sup n)" "pc_state (an_controller n) = ACTIVE" "\<not> an_reclaimed n" "idle_s < ac_idle_threshold_s cfg"
  shows "runs_unpaused mid c (an_sup (safe_poll cfg env aid False (Some idle_s) now n))
    \<and> pc_state (an_controller (safe_poll cfg env aid False (Some idle_s) now n)) = ACTIVE
    \<and> \<not> an_reclaimed (safe_poll cfg env aid False (Some idle_s) now n)"
proof -
  obtain e x where esc: "maybe_escalate cfg env now (an_controller n) (an_sup n) = (e, x)" by fastforce
  then have "pc_state e = ACTIVE" using assms(2) by (auto simp: maybe_escalate_def split: option.splits if_splits)
  moreover have "runs_unpaused mid c x" by (rule escalate_spares [OF assms(1) esc])
  ultimately show ?thesis
    using assms by (simp add: safe_poll_def reclaim_on_poll_def on_poll_def esc)
qed

lemma active_ticks_spare:
  "runs_unpaused mid c (an_sup n) \<Longrightarrow> pc_state (an_controller n) = ACTIVE \<Longrightarrow> \<not> an_reclaimed n \<Longrightarrow>
   \<forall>(env, idle_s, now) \<in> set ticks. idle_s < ac_idle_threshold_s cfg \<Longrightarrow>
   runs_unpaused mid c (an_sup (fold (\<lambda>(env, idle_s, now). safe_poll cfg env aid False (Some idle_s) now) ticks n))
   \<and> pc_state (an_controller (fold (\<lambda>(env, idle_s, now). safe_poll cfg env aid False (Some idle_s) now) ticks n)) = ACTIVE"
proof (induction ticks arbitrary: n)
  case (Cons tick ticks)
  obtain env idle_s now where tick: "tick = (env, idle_s, now)" by (cases tick)
  have "idle_s < ac_idle_threshold_s cfg" using Cons.prems(4) by (simp add: tick)
  note next_ok = active_tick_spares [OF Cons.prems(1-3) this, of env aid now]
  show ?case
    using Cons.IH [of "safe_poll cfg env aid False (Some idle_s) now n"] next_ok Cons.prems(4) by (simp add: tick)
qed simp

text \<open>C33: A replica that the reconcile loop decided to start before the user came back runs while the user is
  there. The loop checks for an idle machine before it fetches the manifest and the model; if the user
  returns meanwhile, the start still goes ahead, and however many ticks see the user active, the new
  process is neither paused nor stopped until the machine is idle again.\<close>

theorem late_start_runs_while_active:
  assumes "reach (\<lambda>n. n = node_start) (node_step cfg aid) n"
    and "pc_state (an_controller n) = ACTIVE" "\<not> an_reclaimed n" "map_of (sv_children (an_sup n)) (mm_model_id m) = None"
    and "start_replica m port (Some True) t (an_sup n) = Some s"
    and "\<forall>(env, idle_s, now) \<in> set ticks. idle_s < ac_idle_threshold_s cfg"
  shows "let n' = fold (\<lambda>(env, idle_s, now). safe_poll cfg env aid False (Some idle_s) now) ticks (n\<lparr>an_sup := s\<rparr>)
     in pc_state (an_controller n') = ACTIVE
        \<and> (\<exists>c. map_of (sv_children (an_sup n')) (mm_model_id m) = Some c \<and> cd_port c = port
             \<and> sv_os (an_sup n') (cd_uid c) = Running)"
proof -
  let ?c = "started m port True t (an_sup n)" and ?mid = "mm_model_id m"
  have ok: "sup_ok (an_sup n)" using node.reach_inv [OF assms(1)] by (simp add: node_ok_def)
  have s: "s = record_thread ?c (register_child ?c (0 < mm_min_vram_mb m) (snd (spawn ?mid port True t (an_sup n))))"
    using assms(4,5) by (auto simp: start_replica_def can_start_def spawn_def started_def)
  note f = start_replica_fields [OF s]
  have "map_of (sv_states s) ?mid = Some LOADING" using f(5) by (simp add: slot_def)
  then have "runs_unpaused ?mid ?c s"
    using start_replica_ok [OF ok assms(5)] f by (simp add: runs_unpaused_def alist_simps started_def)
  then show ?thesis
    using active_ticks_spare [of ?mid ?c "n\<lparr>an_sup := s\<rparr>" ticks cfg aid] assms(2,3,6)
    by (simp add: Let_def) (auto simp: runs_unpaused_def started_def)
qed

definition demo_yielded :: agent_node where
  "demo_yielded = safe_poll default_agent_config demo_env ''a'' False (Some 0) 0 demo_node"

lemma demo_yielded_reachable: "reach (\<lambda>n. n = node_start) (node_step default_agent_config ''a'') demo_yielded"
  unfolding demo_yielded_def by (rule reach_step [OF demo_node_reachable ns_tick [OF demo_node_fields(3)]])

lemma demo_yielded_fields:
  "pc_state (an_controller demo_yielded) = ACTIVE" "\<not> an_reclaimed demo_yielded"
  "map_of (sv_children (an_sup demo_yielded)) ''k'' = None"
proof -
  have fresh: "is_fresh_input default_agent_config (an_controller demo_node) 0" "pc_state (an_controller demo_node) = IDLE"
    by (simp_all add: is_fresh_input_def default_agent_config_def MS_PER_S_def demo_node_fields PreemptController_def)
  have sup: "sup_ok (an_sup demo_node)" using node.reach_inv [OF demo_node_reachable] by (simp add: node_ok_def)
  obtain u where u: "apply_signal True (pe_denied demo_env) (an_sup demo_node) = (False, u)" and n: "an_sup demo_yielded = u"
      "pc_state (an_controller demo_yielded) = ACTIVE" "an_reclaimed demo_yielded = an_reclaimed demo_node"
    unfolding demo_yielded_def
    by (rule return_tick [OF sup demo_node_fields(3) fresh(2) demo_node_fields(2) fresh(1), of "''a''" 0]) simp
  show "pc_state (an_controller demo_yielded) = ACTIVE" "\<not> an_reclaimed demo_yielded"
    using n demo_node_fields(2) by simp_all
  have "map_of (sv_children (an_sup demo_node)) ''k'' = None"
    by (simp add: demo_node_def start_replica_def can_start_def ChildProcessSupervisor_def spawn_def record_thread_def
        register_child_def demo_manifest_def)
  then show "map_of (sv_children (an_sup demo_yielded)) ''k'' = None"
    using apply_signal_ok(5) [OF sup demo_node_fields(3) u, of "''k''"] by (simp add: n(1) slot_def)
qed

theorem late_start_runs_while_active_witness:
  "\<exists>s. start_replica (demo_manifest ''k'') 9001 (Some True) 5 (an_sup demo_yielded) = Some s
     \<and> pc_state (an_controller (safe_poll default_agent_config demo_env ''a'' False (Some 1) 6 (demo_yielded\<lparr>an_sup := s\<rparr>))) = ACTIVE
     \<and> (\<exists>c. map_of (sv_children (an_sup (safe_poll default_agent_config demo_env ''a'' False (Some 1) 6
              (demo_yielded\<lparr>an_sup := s\<rparr>)))) ''k'' = Some c
          \<and> sv_os (an_sup (safe_poll default_agent_config demo_env ''a'' False (Some 1) 6 (demo_yielded\<lparr>an_sup := s\<rparr>)))
              (cd_uid c) = Running)"
proof -
  obtain s where s: "start_replica (demo_manifest ''k'') 9001 (Some True) 5 (an_sup demo_yielded) = Some s"
    using demo_yielded_fields(3) by (simp add: start_replica_def can_start_def demo_manifest_def spawn_def)
  have "mm_model_id (demo_manifest ''k'') = ''k''" by (simp add: demo_manifest_def)
  then show ?thesis
    using late_start_runs_while_active [OF demo_yielded_reachable demo_yielded_fields(1,2) _ s, of "[(demo_env, 1, 6)]"]
      demo_yielded_fields(3) s
    by (auto simp: default_agent_config_def Let_def)
qed

section \<open>Suspending and resuming\<close>

lemma alist_eqI:
  assumes "distinct (map fst xs)" "map fst xs = map fst ys" "map_of xs = map_of ys"
  shows "xs = ys"
proof -
  have "zs = map (\<lambda>k. (k, the (map_of zs k))) (map fst zs)" if "distinct (map fst zs)" for zs
  proof (rule nth_equalityI)
    fix i assume i: "i < length zs"
    then have "map_of zs (fst (zs ! i)) = Some (snd (zs ! i))" using that by simp
    then show "zs ! i = map (\<lambda>k. (k, the (map_of zs k))) (map fst zs) ! i" using i by simp
  qed simp
  note shape = this
  have "xs = map (\<lambda>k. (k, the (map_of xs k))) (map fst xs)" by (rule shape [OF assms(1)])
  also have "\<dots> = map (\<lambda>k. (k, the (map_of ys k))) (map fst ys)" by (simp only: assms(2,3))
  also have "\<dots> = ys" using assms(1,2) by (intro shape [symmetric]) (simp only:)
  finally show ?thesis .
qed

lemma commit_one_keys [simp]: "map fst (sv_states (commit_one b gone c s)) = map fst (sv_states s)"
  by (auto simp: commit_one_def prune_locked_def transition_signal_locked_def update_keys Let_def map_of_eq_None_iff
      dest: map_of_SomeD split: option.split)

lemma apply_signal_keys: "apply_signal b denied s = (False, t) \<Longrightarrow> map fst (sv_states t) = map fst (sv_states s)"
proof -
  have "map fst (sv_states (fold (commit_one b gone) cs u)) = map fst (sv_states u)" for gone cs u
    by (induction cs arbitrary: u) simp_all
  then show "apply_signal b denied s = (False, t) \<Longrightarrow> map fst (sv_states t) = map fst (sv_states s)"
    by (auto simp: apply_signal_def Let_def commit_signal_def split: prod.splits bool.splits)
qed

lemma suspend_slot:
  assumes "sup_ok s" "signals_granted denied s" "apply_signal True denied s = (False, t)"
    and "\<forall>mid. map_of (sv_states s) mid \<noteq> Some SUSPENDED"
    and "\<forall>mid c. map_of (sv_children s) mid = Some c \<longrightarrow> live_child (sv_os s) c"
  shows "map_of (sv_children t) = map_of (sv_children s)"
    and "map_of (sv_children s) mid = None \<Longrightarrow> slot t mid = slot s mid"
    and "map_of (sv_children s) mid = Some c \<Longrightarrow> slot_signal False False (slot t mid) = slot s mid"
proof -
  note t = apply_signal_ok [OF assms(1-3)]
  have some: "slot t k = slot_signal True False (slot s k)" if "map_of (sv_children s) k = Some c" for k c
    using t(5) [of k] assms(5) that by simp
  have none: "slot t k = slot s k" if "map_of (sv_children s) k = None" for k
    using t(5) [of k] that by simp
  then show "map_of (sv_children s) mid = None \<Longrightarrow> slot t mid = slot s mid" .
  have pre: "map_of (sv_pre_suspend s) k = None" if "map_of (sv_children s) k = Some c" for k c
    using sup_ok_slot [OF assms(1), of k] assms(4) that
    by (auto simp: slot_ok_def slot_def split: option.splits)
  have st: "\<exists>x. map_of (sv_states s) k = Some x \<and> x \<noteq> SUSPENDED" if "map_of (sv_children s) k = Some c" for k c
    using sup_ok_child(3) [OF assms(1) that] assms(4) by auto
  have undo: "slot_signal False False (slot t k) = slot s k" if "map_of (sv_children s) k = Some c" for k c
    using st [OF that] pre [OF that] that unfolding some [OF that] by (auto simp: slot_def slot_signal_def)
  then show "map_of (sv_children s) mid = Some c \<Longrightarrow> slot_signal False False (slot t mid) = slot s mid" by blast
  have "map_of (sv_children t) k = map_of (sv_children s) k" for k
  proof (cases "map_of (sv_children s) k")
    case None
    then show ?thesis using none [of k] by (simp add: slot_def)
  next
    case (Some c)
    then show ?thesis using st [OF Some] some [OF Some] by (auto simp: slot_def slot_signal_def)
  qed
  then show "map_of (sv_children t) = map_of (sv_children s)" by (simp add: fun_eq_iff)
qed

lemma slot_rows:
  assumes "sup_coherent s" "sup_coherent u" "map fst (sv_states u) = map fst (sv_states s)" "\<And>mid. slot u mid = slot s mid"
  shows "statuses u = statuses s"
proof -
  have eq: "map_of (sv_states u) = map_of (sv_states s)" "map_of (sv_ports u) = map_of (sv_ports s)"
    "map_of (sv_gpu u) = map_of (sv_gpu s)" "map_of (sv_inflight u) = map_of (sv_inflight s)"
    using assms(4) by (auto simp: slot_def fun_eq_iff)
  have "sv_states u = sv_states s"
    using assms(2,3) eq(1) by (intro alist_eqI) (auto simp: sup_coherent_def sup_keyed_def od_wf_def)
  then show ?thesis
    using assms(1,2) eq by (simp add: statuses_def sup_coherent_def status_rows_def get_or_def)
qed

text \<open>Suspending and resuming is invisible afterwards. When every tracked process runs and nothing is
  suspended, a suspension pauses every one of them, reports each as suspended and touches no other
  replica; the resumption that follows brings back exactly the states, ports, slot counts and processes
  from before, and the reported statuses are the same list.\<close>

theorem suspend_resume_roundtrip:
  assumes "reach (\<lambda>n. n = node_start) (node_step cfg aid) n" and "s = an_sup n"
    and "\<forall>mid. map_of (sv_states s) mid \<noteq> Some SUSPENDED"
    and "\<forall>mid c. map_of (sv_children s) mid = Some c \<longrightarrow> cd_proc c \<and> sv_os s (cd_uid c) = Running"
    and "signals_granted denied s" and "apply_signal True denied s = (r1, t)" and "apply_signal False denied t = (r2, u)"
  shows "\<not> r1 \<and> \<not> r2
     \<and> (\<forall>mid c. map_of (sv_children s) mid = Some c \<longrightarrow>
          map_of (sv_states t) mid = Some SUSPENDED \<and> sv_os t (cd_uid c) = Paused)
     \<and> (\<forall>mid. map_of (sv_children s) mid = None \<longrightarrow> map_of (sv_states t) mid = map_of (sv_states s) mid)
     \<and> statuses u = statuses s \<and> sv_os u = sv_os s \<and> map_of (sv_children u) = map_of (sv_children s)
     \<and> map_of (sv_pre_suspend u) = map_of (sv_pre_suspend s)"
proof -
  have ok: "sup_ok s" using node.reach_inv [OF assms(1)] assms(2) by (simp add: node_ok_def)
  have live: "\<forall>mid c. map_of (sv_children s) mid = Some c \<longrightarrow> live_child (sv_os s) c"
    using assms(4) by (simp add: live_child_def)
  note t = apply_signal_ok [OF ok assms(5,6)]
  have sig: "apply_signal True denied s = (False, t)" using t(1) assms(6) by simp
  note sl = suspend_slot [OF ok assms(5) sig assms(3) live]
  have grant: "signals_granted denied t" using assms(5) by (simp add: signals_granted_def sl(1))
  note u = apply_signal_ok [OF t(2) grant assms(7)]
  have os: "sv_os t (cd_uid c) = Paused" "live_child (sv_os t) c" if "map_of (sv_children s) mid = Some c" for mid c
    using that live by (auto simp: t(3) signalled_os_def live_child_def)
  have slots: "slot u mid = slot s mid" for mid
    using u(5) [of mid] sl(2,3) os by (cases "map_of (sv_children s) mid") (simp_all add: sl(1))
  have "map fst (sv_states u) = map fst (sv_states s)"
    using apply_signal_keys [OF sig] apply_signal_keys [of False denied t u] u(1) assms(7) by simp
  then have "statuses u = statuses s" using ok u(2) slots by (intro slot_rows) (simp_all add: sup_ok_def)
  moreover have "sv_os u = sv_os s"
  proof
    fix v
    show "sv_os u v = sv_os s v"
    proof (cases "\<exists>mid c. map_of (sv_children s) mid = Some c \<and> cd_uid c = v")
      case True
      then show ?thesis using assms(4) os by (auto simp: u(3) signalled_os_def sl(1))
    next
      case False
      then have "sv_os t v = sv_os s v" by (auto simp: t(3) signalled_os_def)
      moreover have "sv_os u v = sv_os t v" using False by (auto simp: u(3) signalled_os_def sl(1))
      ultimately show ?thesis by simp
    qed
  qed
  moreover have "map_of (sv_states t) mid = Some SUSPENDED" if "map_of (sv_children s) mid = Some c" for mid c
    using suspend_reports(2) [OF ok assms(5) sig] that sl(1) by metis
  moreover have "map_of (sv_states t) mid = map_of (sv_states s) mid" if "map_of (sv_children s) mid = None" for mid
    using sl(2) [OF that] by (simp add: slot_def)
  moreover have "map_of (sv_children u) = map_of (sv_children s)" "map_of (sv_pre_suspend u) = map_of (sv_pre_suspend s)"
    using slots by (auto simp: slot_def fun_eq_iff)
  ultimately show ?thesis using t(1) u(1) os by blast
qed

theorem suspend_resume_roundtrip_witness:
  "\<exists>t u. apply_signal True (\<lambda>_. False) (an_sup demo_node) = (False, t) \<and> apply_signal False (\<lambda>_. False) t = (False, u)
     \<and> sv_os t 0 = Paused \<and> statuses u = statuses (an_sup demo_node) \<and> sv_os u 0 = Running"
proof -
  obtain r1 t where t: "apply_signal True (\<lambda>_. False) (an_sup demo_node) = (r1, t)" by fastforce
  obtain r2 u where u: "apply_signal False (\<lambda>_. False) t = (r2, u)" by fastforce
  have dn: "sv_states (an_sup demo_node) = [(''m'', LOADING)]"
      "sv_children (an_sup demo_node) = [(''m'', started (demo_manifest ''m'') 9000 True 0 ChildProcessSupervisor)]"
    by (simp_all add: demo_node_def start_replica_def can_start_def ChildProcessSupervisor_def spawn_def record_thread_def
        register_child_def set_state_locked_def rebuild_cache_def demo_manifest_def started_def)
  let ?c = "started (demo_manifest ''m'') 9000 True 0 ChildProcessSupervisor"
  have c: "cd_uid ?c = 0" "cd_proc ?c" "map_of (sv_children (an_sup demo_node)) ''m'' = Some ?c"
    by (simp_all add: started_def ChildProcessSupervisor_def dn)
  have "\<forall>mid. map_of (sv_states (an_sup demo_node)) mid \<noteq> Some SUSPENDED"
    "\<forall>mid c. map_of (sv_children (an_sup demo_node)) mid = Some c \<longrightarrow> cd_proc c \<and> sv_os (an_sup demo_node) (cd_uid c) = Running"
    "signals_granted (\<lambda>_. False) (an_sup demo_node)"
    using c(1,2) demo_node_fields(5) by (simp_all add: dn signals_granted_def)
  note rt = suspend_resume_roundtrip [OF demo_node_reachable refl this t u]
  then have "sv_os t (cd_uid ?c) = Paused" using c(3) by blast
  with rt show ?thesis using t u demo_node_fields(5) by (intro exI [of _ t] exI [of _ u]) (simp add: c(1))
qed

end
