(* ===== verification/Spec2Isabelle.thy ===== *)
theory Spec2Isabelle
  imports Queue_Dedup Registry_Conn Gw_Service App_Fence App_Batch Agent_Models Agent_Yield
begin

text \<open>
  A verification of the fallow coordinator and agent.
\<close>

end
